(* ===== verification/Prelude.thy ===== *)
theory Prelude
  imports Main "HOL-Library.Char_ord" "HOL-Library.List_Lexorder" "HOL-Library.Product_Lexorder"
    "HOL-Library.AList"
begin

text \<open>
  Shared vocabulary of the development: the collections of simplification rules the component
  theories fill, sequencing of fallible computations (\<open>bindE\<close>, \<open>forE\<close>), the Python idioms
  that occur in several modules (\<open>min\<close>/\<open>max\<close> with a key, which return the first extremal
  element; updating one object of a store of objects with unique identities; a dictionary in
  insertion order as an association list), and the generic lemmas about them.
\<close>

named_theorems result_simps \<open>characterisations of fallible computations\<close>
named_theorems pool_defs \<open>operations of the KV block pool\<close>
named_theorems sched_defs \<open>phases of a scheduler iteration\<close>

section \<open>Fallible computations\<close>

text \<open>A computation that may raise returns \<open>Inl e\<close> for a raised error and \<open>Inr v\<close> for a value.\<close>

fun bindE :: "'e + 'a \<Rightarrow> ('a \<Rightarrow> 'e + 'b) \<Rightarrow> 'e + 'b" where
  "bindE (Inl e) f = Inl e"
| "bindE (Inr x) f = f x"

definition ensure :: "bool \<Rightarrow> 'e \<Rightarrow> 'e + unit" where
  "ensure b e = (if b then Inr () else Inl e)"

fun forE :: "('a \<Rightarrow> 's \<Rightarrow> 'e + 's) \<Rightarrow> 'a list \<Rightarrow> 's \<Rightarrow> 'e + 's" where
  "forE f [] s = Inr s"
| "forE f (x # xs) s = bindE (f x s) (forE f xs)"

definition is_ok :: "'e + 'a \<Rightarrow> bool" where
  "is_ok r \<longleftrightarrow> (case r of Inl _ \<Rightarrow> False | Inr _ \<Rightarrow> True)"

lemma bindE_eq_Inr [result_simps]:
  "bindE m f = Inr y \<longleftrightarrow> (\<exists>x. m = Inr x \<and> f x = Inr y)"
  by (cases m) auto

lemma bindE_eq_Inl [result_simps]:
  "bindE m f = Inl e \<longleftrightarrow> m = Inl e \<or> (\<exists>x. m = Inr x \<and> f x = Inl e)"
  by (cases m) auto

lemma bindE_assoc: "bindE (bindE m f) g = bindE m (\<lambda>x. bindE (f x) g)"
  by (cases m) auto

lemma ensure_eq_Inr [simp, result_simps]: "ensure b e = Inr u \<longleftrightarrow> b"
  by (simp add: ensure_def)

lemma ensure_eq_Inl [simp, result_simps]: "ensure b e = Inl e' \<longleftrightarrow> \<not> b \<and> e' = e"
  by (auto simp: ensure_def)

lemma ensure_True [simp]: "ensure True e = Inr ()"
  by (simp add: ensure_def)

lemma is_ok_simps [simp]: "is_ok (Inr x)" "\<not> is_ok (Inl e)"
  by (simp_all add: is_ok_def)

lemma is_ok_iff: "is_ok r \<longleftrightarrow> (\<exists>x. r = Inr x)"
  by (cases r) auto

text \<open>The loop rule: an invariant kept by every successful body holds of the loop's result.\<close>

lemma forE_invariant:
  assumes "forE f xs s = Inr t" and "P s"
    and "\<And>x s s'. x \<in> set xs \<Longrightarrow> P s \<Longrightarrow> f x s = Inr s' \<Longrightarrow> P s'"
  shows "P t"
  using assms by (induction xs arbitrary: s) (auto simp: result_simps)

lemma forE_total:
  assumes "P s"
    and "\<And>x s. x \<in> set xs \<Longrightarrow> P s \<Longrightarrow> \<exists>s'. f x s = Inr s' \<and> P s'"
  shows "\<exists>t. forE f xs s = Inr t \<and> P t"
  using assms
proof (induction xs arbitrary: s)
  case Nil
  then show ?case by simp
next
  case (Cons x xs)
  from Cons.prems obtain s' where s': "f x s = Inr s'" "P s'"
    by (metis list.set_intros(1))
  then have "\<exists>t. forE f xs s' = Inr t \<and> P t"
    using Cons.prems(2) by (intro Cons.IH) auto
  with s' show ?case by simp
qed

section \<open>Python's \<open>min\<close> and \<open>max\<close> with a key\<close>

text \<open>Both return the first element with the extremal key; \<open>None\<close> stands for an empty argument.\<close>

fun argmin :: "('a \<Rightarrow> 'k::linorder) \<Rightarrow> 'a list \<Rightarrow> 'a option" where
  "argmin f [] = None"
| "argmin f (x # xs) =
     (case argmin f xs of None \<Rightarrow> Some x | Some y \<Rightarrow> Some (if f x \<le> f y then x else y))"

fun argmax :: "('a \<Rightarrow> 'k::linorder) \<Rightarrow> 'a list \<Rightarrow> 'a option" where
  "argmax f [] = None"
| "argmax f (x # xs) =
     (case argmax f xs of None \<Rightarrow> Some x | Some y \<Rightarrow> Some (if f y \<le> f x then x else y))"

lemma argmin_None [simp]: "argmin f xs = None \<longleftrightarrow> xs = []"
  by (cases xs) (auto split: option.splits)

lemma argmax_None [simp]: "argmax f xs = None \<longleftrightarrow> xs = []"
  by (cases xs) (auto split: option.splits)

lemma argmin_mem: "argmin f xs = Some x \<Longrightarrow> x \<in> set xs"
  by (induction xs arbitrary: x) (auto split: option.splits if_splits)

lemma argmax_mem: "argmax f xs = Some x \<Longrightarrow> x \<in> set xs"
  by (induction xs arbitrary: x) (auto split: option.splits if_splits)

lemma argmin_le: "argmin f xs = Some x \<Longrightarrow> y \<in> set xs \<Longrightarrow> f x \<le> f y"
  by (induction xs arbitrary: x) (fastforce split: option.splits if_splits)+

lemma argmax_ge: "argmax f xs = Some x \<Longrightarrow> y \<in> set xs \<Longrightarrow> f y \<le> f x"
  by (induction xs arbitrary: x) (fastforce split: option.splits if_splits)+

section \<open>A store of objects with unique identities\<close>

text \<open>
  A dictionary whose values are mutable objects that carry their own key is a list of records with
  distinct keys, in insertion order. Mutating the object with key \<open>k\<close> updates it in place.
\<close>

definition upd_obj :: "('a \<Rightarrow> 'k) \<Rightarrow> 'k \<Rightarrow> ('a \<Rightarrow> 'a) \<Rightarrow> 'a list \<Rightarrow> 'a list" where
  "upd_obj key k g xs = map (\<lambda>x. if key x = k then g x else x) xs"

fun get_obj :: "('a \<Rightarrow> 'k) \<Rightarrow> 'k \<Rightarrow> 'a list \<Rightarrow> 'a option" where
  "get_obj key k [] = None"
| "get_obj key k (x # xs) = (if key x = k then Some x else get_obj key k xs)"

lemma get_obj_key: "get_obj key k xs = Some x \<Longrightarrow> key x = k"
  by (induction xs) (auto split: if_splits)

lemma get_obj_mem: "get_obj key k xs = Some x \<Longrightarrow> x \<in> set xs"
  by (induction xs) (auto split: if_splits)

lemma get_obj_None: "get_obj key k xs = None \<longleftrightarrow> k \<notin> key ` set xs"
  by (induction xs) auto

lemma get_obj_distinct:
  "distinct (map key xs) \<Longrightarrow> x \<in> set xs \<Longrightarrow> get_obj key (key x) xs = Some x"
  by (induction xs) (auto simp: rev_image_eqI)

lemma upd_obj_keys [simp]:
  assumes "\<And>x. key (g x) = key x"
  shows "map key (upd_obj key k g xs) = map key xs"
  using assms by (induction xs) (auto simp: upd_obj_def)

lemma length_upd_obj [simp]: "length (upd_obj key k g xs) = length xs"
  by (simp add: upd_obj_def)

lemma get_upd_obj:
  assumes "\<And>x. key (g x) = key x"
  shows "get_obj key j (upd_obj key k g xs) =
     (if j = k then map_option g (get_obj key k xs) else get_obj key j xs)"
  using assms by (induction xs) (auto simp: upd_obj_def)

lemma mem_upd_obj:
  "y \<in> set (upd_obj key k g xs) \<longleftrightarrow>
     (\<exists>x \<in> set xs. y = (if key x = k then g x else x))"
  by (simp only: upd_obj_def set_map image_iff)

text \<open>Updating one object changes a sum over the store by the difference at that object.\<close>

lemma sum_upd_obj:
  fixes m :: "'a \<Rightarrow> int"
  assumes "distinct (map key xs)" and "get_obj key k xs = Some x"
  shows "sum_list (map m (upd_obj key k g xs)) = sum_list (map m xs) + m (g x) - m x"
  using assms
proof (induction xs)
  case Nil
  then show ?case by simp
next
  case (Cons y ys)
  show ?case
  proof (cases "key y = k")
    case True
    then have "map (\<lambda>x. if key x = k then g x else x) ys = ys"
      using Cons.prems(1) by (intro map_idI) (auto simp: rev_image_eqI)
    with True Cons.prems show ?thesis by (simp add: upd_obj_def)
  next
    case False
    with Cons show ?thesis by (simp add: upd_obj_def)
  qed
qed

section \<open>Sums, sorting and membership\<close>

lemma sum_list_int_nonneg: "(\<And>x. x \<in> set xs \<Longrightarrow> 0 \<le> (f x :: int)) \<Longrightarrow> 0 \<le> sum_list (map f xs)"
  by (induction xs) auto

lemma sum_list_remove1:
  fixes f :: "'a \<Rightarrow> int"
  shows "x \<in> set xs \<Longrightarrow> sum_list (map f (remove1 x xs)) = sum_list (map f xs) - f x"
  by (induction xs) auto

lemma distinct_set_sort_key [simp]: "distinct (sort_key f xs) = distinct xs" "set (sort_key f xs) = set xs"
  by simp_all

lemma length_remove1_int:
  "x \<in> set xs \<Longrightarrow> int (length (remove1 x xs)) = int (length xs) - 1"
  by (induction xs) auto

lemma length_filter_partition:
  "length (filter P xs) + length (filter (\<lambda>x. \<not> P x) xs) = length xs"
  by (induction xs) auto

section \<open>Dictionaries in insertion order\<close>

lemma map_of_update: "map_of (AList.update k v xs) j = (if j = k then Some v else map_of xs j)"
  by (simp add: update_conv')

lemma sum_update_fresh:
  fixes v :: int
  assumes "map_of xs k = None"
  shows "sum_list (map snd (AList.update k v xs)) = sum_list (map snd xs) + v"
  using assms by (induction xs) (auto split: if_splits)

lemma sum_update_present:
  fixes v :: int
  assumes "map_of xs k = Some w"
  shows "sum_list (map snd (AList.update k v xs)) = sum_list (map snd xs) + v - w"
  using assms by (induction xs) (auto split: if_splits)

section \<open>Decimal numerals\<close>

text \<open>\<open>str\<close> of a non-negative Python int.\<close>

fun str_nat :: "nat \<Rightarrow> string" where
  "str_nat n = (if n < 10 then [char_of (48 + n)] else str_nat (n div 10) @ [char_of (48 + n mod 10)])"

declare str_nat.simps [simp del]

lemma str_nat_ne [simp]: "str_nat n \<noteq> []"
  by (subst str_nat.simps) simp

lemma digit_inj: "char_of (48 + a) = (char_of (48 + b) :: char) \<Longrightarrow> a < 10 \<Longrightarrow> b < 10 \<Longrightarrow> a = b" for a b :: nat
proof -
  assume "char_of (48 + a) = (char_of (48 + b) :: char)" "a < 10" "b < 10"
  then have "(of_char (char_of (48 + a) :: char) :: nat) = of_char (char_of (48 + b) :: char)" by simp
  then show "a = b" using \<open>a < 10\<close> \<open>b < 10\<close> by simp
qed

lemma str_nat_inj: "str_nat m = str_nat n \<Longrightarrow> m = n"
proof (induction m arbitrary: n rule: str_nat.induct)
  case (1 m)
  have dig: "length (str_nat k) = 1 \<longleftrightarrow> k < 10" for k by (subst str_nat.simps) auto
  show ?case
  proof (cases "m < 10")
    case True
    then have "n < 10" using 1(2) dig by metis
    with True 1(2) show ?thesis
      using digit_inj [of m n] by (simp add: str_nat.simps [of m] str_nat.simps [of n])
  next
    case False
    then have n: "\<not> n < 10" using 1(2) dig by metis
    with False 1(2) have e: "str_nat (m div 10) = str_nat (n div 10)"
      "char_of (48 + m mod 10) = (char_of (48 + n mod 10) :: char)"
      by (simp_all add: str_nat.simps [of m] str_nat.simps [of n])
    have "m div 10 = n div 10" using False e(1) by (intro 1(1))
    moreover have "m mod 10 = n mod 10" using e(2) by (intro digit_inj) auto
    ultimately show ?thesis by (metis div_mult_mod_eq)
  qed
qed

end
