(* ===== verification/Float64.thy ===== *)
theory Float64
  imports Complex_Main "HOL-Library.Log_Nat" Prelude
begin

text \<open>
  Python's \<open>float\<close> is an IEEE 754 binary64 number. A finite float is modelled by the rational
  number it denotes, and an operation on floats by the exact operation followed by \<open>fl\<close>, the
  rounding to the nearest number with a 53-bit significand, ties to even. The exponent range is
  not bounded, so overflow to infinity and the loss of precision of subnormal numbers are outside
  the model, as are infinities and NaN. True division of two Python integers is correctly rounded,
  so it is \<open>fl (a / b)\<close>; an integer in a mixed operation is first converted with \<open>fl\<close>.
\<close>

section \<open>Rounding to the nearest integer, ties to even\<close>

definition round_half_even :: "rat \<Rightarrow> int" where
  "round_half_even x =
     (let l = \<lfloor>x\<rfloor>; r = x - of_int l in
      if r > 1 / 2 then l + 1 else if r < 1 / 2 then l else if even l then l else l + 1)"

lemma round_half_even_cases:
  obtains (down) "round_half_even x = \<lfloor>x\<rfloor>" "x - of_int \<lfloor>x\<rfloor> \<le> 1 / 2"
  | (up) "round_half_even x = \<lfloor>x\<rfloor> + 1" "1 / 2 \<le> x - of_int \<lfloor>x\<rfloor>"
proof -
  consider "x - of_int \<lfloor>x\<rfloor> > 1 / 2" | "x - of_int \<lfloor>x\<rfloor> < 1 / 2"
    | "x - of_int \<lfloor>x\<rfloor> = 1 / 2" "even \<lfloor>x\<rfloor>" | "x - of_int \<lfloor>x\<rfloor> = 1 / 2" "odd \<lfloor>x\<rfloor>"
    by linarith
  then show thesis
    by cases (use that in \<open>auto simp: round_half_even_def Let_def\<close>)
qed

lemma round_half_even_error: "\<bar>of_int (round_half_even x) - x\<bar> \<le> 1 / 2"
proof (cases x rule: round_half_even_cases)
  case down
  then show ?thesis using floor_correct [of x] by linarith
next
  case up
  have "of_int (\<lfloor>x\<rfloor> + 1) = (of_int \<lfloor>x\<rfloor> + 1 :: rat)" by simp
  with up show ?thesis using floor_correct [of x] by (simp add: abs_le_iff)
qed

lemma round_half_even_of_int [simp]: "round_half_even (of_int n) = n"
  by (simp add: round_half_even_def)

lemma round_half_even_mono: "x \<le> y \<Longrightarrow> round_half_even x \<le> round_half_even y"
proof -
  assume le: "x \<le> y"
  then have fl: "\<lfloor>x\<rfloor> \<le> \<lfloor>y\<rfloor>" by (rule floor_mono)
  show ?thesis
  proof (cases "\<lfloor>x\<rfloor> = \<lfloor>y\<rfloor>")
    case True
    with le show ?thesis by (auto simp: round_half_even_def Let_def)
  next
    case False
    with fl have "\<lfloor>x\<rfloor> + 1 \<le> \<lfloor>y\<rfloor>" by simp
    moreover have "round_half_even x \<le> \<lfloor>x\<rfloor> + 1" by (simp add: round_half_even_def Let_def)
    moreover have "\<lfloor>y\<rfloor> \<le> round_half_even y" by (simp add: round_half_even_def Let_def)
    ultimately show ?thesis by linarith
  qed
qed

lemma round_half_even_minus: "round_half_even (- x) = - round_half_even x"
proof (cases "x \<in> \<int>")
  case True
  then obtain n where "x = of_int n" by (auto elim: Ints_cases)
  then show ?thesis
    using round_half_even_of_int [of "- n"] by simp
next
  case False
  then have ne: "x \<noteq> of_int \<lfloor>x\<rfloor>" by (metis Ints_of_int)
  have f: "\<lfloor>- x\<rfloor> = - \<lfloor>x\<rfloor> - 1"
    using ne floor_correct [of x] by (intro floor_unique) (auto simp: order.strict_iff_order)
  have r: "- x - of_int (- \<lfloor>x\<rfloor> - 1) = 1 - (x - of_int \<lfloor>x\<rfloor>)" by simp
  show ?thesis
    unfolding round_half_even_def Let_def f r by auto
qed

section \<open>Binary exponent of a positive rational\<close>

definition ilog2 :: "rat \<Rightarrow> int" where
  "ilog2 x = (case quotient_of x of (n, d) \<Rightarrow>
     let k = bitlen n - bitlen d in if 2 powi k \<le> x then k else k - 1)"

lemma bitlen_rat_bounds:
  assumes "0 < n"
  shows "2 powi (bitlen n - 1) \<le> (of_int n :: rat)" "(of_int n :: rat) < 2 powi (bitlen n)"
proof -
  have b: "2 ^ nat (bitlen n - 1) \<le> n" "n < 2 ^ nat (bitlen n)"
    using bitlen_bounds [OF assms] by auto
  have p: "1 \<le> bitlen n" using assms by (auto simp: bitlen_alt_def)
  from b(1) have "(of_int (2 ^ nat (bitlen n - 1)) :: rat) \<le> of_int n" by (rule of_int_le_iff [THEN iffD2])
  with p show "2 powi (bitlen n - 1) \<le> (of_int n :: rat)"
    by (simp add: power_int_def)
  from b(2) have "(of_int n :: rat) < of_int (2 ^ nat (bitlen n))" by (rule of_int_less_iff [THEN iffD2])
  with p show "(of_int n :: rat) < 2 powi (bitlen n)"
    by (simp add: power_int_def)
qed

lemma powi_two_pos [simp]: "0 < (2 :: rat) powi k"
  by (rule zero_less_power_int) simp

lemma powi_two_Suc: "(2 :: rat) powi (k + 1) = 2 * 2 powi k" "(2 :: rat) powi (1 + k) = 2 * 2 powi k"
  by (simp_all add: power_int_add)

lemma powi_two_mono: "j \<le> k \<Longrightarrow> (2 :: rat) powi j \<le> 2 powi k"
  by (rule power_int_increasing) auto

lemma ilog2_bounds:
  assumes "0 < x"
  shows "2 powi (ilog2 x) \<le> x" and "x < 2 powi (ilog2 x + 1)"
proof -
  obtain n d where q: "quotient_of x = (n, d)" by fastforce
  then have d: "0 < d" by (rule quotient_of_denom_pos)
  have x: "x = of_int n / of_int d" using q by (rule quotient_of_div)
  then have n: "0 < n" using assms d by (simp add: zero_less_divide_iff)
  define k where "k = bitlen n - bitlen d"
  have "x \<ge> 2 powi (bitlen n - 1) / 2 powi (bitlen d)"
    unfolding x using bitlen_rat_bounds [OF n] bitlen_rat_bounds [OF d] d n
    by (intro frac_le) auto
  moreover have "2 powi (bitlen n - 1) / 2 powi (bitlen d) = (2 :: rat) powi (k - 1)"
    unfolding k_def by (subst power_int_diff [symmetric]) (simp_all add: algebra_simps)
  ultimately have lo: "2 powi (k - 1) \<le> x" by simp
  have "x < 2 powi (bitlen n) / 2 powi (bitlen d - 1)"
    unfolding x using bitlen_rat_bounds [OF n] bitlen_rat_bounds [OF d] d n
    by (intro frac_less) auto
  moreover have "2 powi (bitlen n) / 2 powi (bitlen d - 1) = (2 :: rat) powi (k + 1)"
    unfolding k_def by (subst power_int_diff [symmetric]) (simp_all add: algebra_simps)
  ultimately have hi: "x < 2 powi (k + 1)" by simp
  have il: "ilog2 x = (if 2 powi k \<le> x then k else k - 1)"
    by (simp add: ilog2_def q k_def Let_def)
  show "2 powi (ilog2 x) \<le> x" using lo by (simp add: il)
  show "x < 2 powi (ilog2 x + 1)" using hi by (simp add: il)
qed

lemma ilog2_mono:
  assumes "0 < x" and "x \<le> y"
  shows "ilog2 x \<le> ilog2 y"
proof (rule ccontr)
  assume "\<not> ilog2 x \<le> ilog2 y"
  then have "(2 :: rat) powi (ilog2 y + 1) \<le> 2 powi (ilog2 x)"
    by (intro powi_two_mono) simp
  moreover have "y < 2 powi (ilog2 y + 1)" "2 powi (ilog2 x) \<le> x"
    using assms ilog2_bounds by auto
  ultimately show False using assms(2) by linarith
qed

section \<open>Rounding to binary64\<close>

definition ulp :: "rat \<Rightarrow> rat" where
  "ulp x = 2 powi (ilog2 \<bar>x\<bar> - 52)"

definition fl :: "rat \<Rightarrow> rat" where
  "fl x = (if x = 0 then 0 else of_int (round_half_even (x / ulp x)) * ulp x)"

text \<open>A rational is a float exactly when rounding leaves it unchanged.\<close>

definition is_float :: "rat \<Rightarrow> bool" where
  "is_float x \<longleftrightarrow> fl x = x"

lemma ulp_pos [simp]: "0 < ulp x"
  by (simp add: ulp_def)

lemma ulp_nonzero [simp]: "ulp x \<noteq> 0"
  using ulp_pos [of x] by linarith

lemma ulp_minus [simp]: "ulp (- x) = ulp x"
  by (simp add: ulp_def)

lemma fl_zero [simp]: "fl 0 = 0"
  by (simp add: fl_def)

lemma fl_minus: "fl (- x) = - fl x"
  by (simp add: fl_def round_half_even_minus)

lemma fl_error: "\<bar>fl x - x\<bar> \<le> ulp x / 2"
proof (cases "x = 0")
  case True
  then show ?thesis by (simp add: less_imp_le)
next
  case False
  have "fl x - x = (of_int (round_half_even (x / ulp x)) - x / ulp x) * ulp x"
    using False by (simp add: fl_def field_simps)
  then have "\<bar>fl x - x\<bar> = \<bar>of_int (round_half_even (x / ulp x)) - x / ulp x\<bar> * ulp x"
    by (simp add: abs_mult less_imp_le)
  also have "\<dots> \<le> 1 / 2 * ulp x"
    by (intro mult_right_mono round_half_even_error) (simp add: less_imp_le)
  finally show ?thesis by simp
qed

lemma ulp_le: "x \<noteq> 0 \<Longrightarrow> ulp x \<le> \<bar>x\<bar> * 2 powi (- 52)"
proof -
  assume "x \<noteq> 0"
  then have "2 powi (ilog2 \<bar>x\<bar>) \<le> \<bar>x\<bar>" by (intro ilog2_bounds) simp
  then show ?thesis by (simp add: ulp_def power_int_diff power_int_minus field_simps)
qed

lemma fl_eq_if_multiple: "x = of_int n * ulp x \<Longrightarrow> fl x = x"
proof -
  assume x: "x = of_int n * ulp x"
  then have "x / ulp x = of_int n" by (metis nonzero_mult_div_cancel_right ulp_nonzero)
  then show ?thesis using x by (auto simp: fl_def)
qed

lemma fl_powi: "fl (2 powi k) = 2 powi k"
proof -
  have "ilog2 (2 powi k) \<le> k"
  proof (rule ccontr)
    assume "\<not> ilog2 (2 powi k) \<le> k"
    then have "(2 :: rat) powi (k + 1) \<le> 2 powi ilog2 (2 powi k)" by (intro powi_two_mono) simp
    also have "\<dots> \<le> 2 powi k" by (rule ilog2_bounds) simp
    finally show False by (simp add: powi_two_Suc)
  qed
  moreover have "k \<le> ilog2 (2 powi k)"
  proof (rule ccontr)
    assume "\<not> k \<le> ilog2 (2 powi k)"
    then have "(2 :: rat) powi (ilog2 (2 powi k) + 1) \<le> 2 powi k" by (intro powi_two_mono) simp
    with ilog2_bounds(2) [of "2 powi k"] show False by simp
  qed
  ultimately have "ilog2 (2 powi k) = k" by simp
  then have "ulp (2 powi k) = 2 powi (k - 52)" by (simp add: ulp_def)
  then have "2 powi k = of_int (2 ^ 52) * ulp (2 powi k)"
    by (simp add: power_int_diff)
  then show ?thesis by (rule fl_eq_if_multiple)
qed

lemma fl_pos_bounds:
  assumes "0 < x"
  shows "2 powi (ilog2 x) \<le> fl x" and "fl x \<le> 2 powi (ilog2 x + 1)"
proof -
  have u: "ulp x = 2 powi (ilog2 x - 52)" using assms by (simp add: ulp_def)
  have lo: "of_int (2 ^ 52) \<le> x / ulp x"
    using ilog2_bounds(1) [OF assms] by (simp add: u power_int_diff field_simps)
  have hi: "x / ulp x \<le> of_int (2 ^ 53)"
    using ilog2_bounds(2) [OF assms] by (simp add: u power_int_diff powi_two_Suc field_simps)
  have "2 ^ 52 \<le> round_half_even (x / ulp x)"
    using round_half_even_mono [OF lo] unfolding round_half_even_of_int .
  then have "(of_int (2 ^ 52) :: rat) * ulp x \<le> of_int (round_half_even (x / ulp x)) * ulp x"
    by (intro mult_right_mono of_int_le_iff [THEN iffD2]) (simp_all add: less_imp_le)
  then show "2 powi (ilog2 x) \<le> fl x"
    using assms by (simp add: fl_def u power_int_diff)
  have "round_half_even (x / ulp x) \<le> 2 ^ 53"
    using round_half_even_mono [OF hi] unfolding round_half_even_of_int .
  then have "of_int (round_half_even (x / ulp x)) * ulp x \<le> (of_int (2 ^ 53) :: rat) * ulp x"
    by (intro mult_right_mono of_int_le_iff [THEN iffD2]) (simp_all add: less_imp_le)
  then show "fl x \<le> 2 powi (ilog2 x + 1)"
    using assms by (simp add: fl_def u power_int_diff powi_two_Suc)
qed

lemma fl_mono_pos:
  assumes "0 < x" and "x \<le> y"
  shows "fl x \<le> fl y"
proof (cases "ilog2 x = ilog2 y")
  case True
  then have u: "ulp x = ulp y" using assms by (simp add: ulp_def)
  have "x / ulp y \<le> y / ulp y" using assms by (simp add: divide_right_mono less_imp_le)
  then have "round_half_even (x / ulp y) \<le> round_half_even (y / ulp y)"
    by (rule round_half_even_mono)
  then show ?thesis using assms by (simp add: fl_def u mult_right_mono less_imp_le)
next
  case False
  with ilog2_mono [OF assms] have "ilog2 x + 1 \<le> ilog2 y" by simp
  then have "(2 :: rat) powi (ilog2 x + 1) \<le> 2 powi (ilog2 y)" by (rule powi_two_mono)
  moreover have "fl x \<le> 2 powi (ilog2 x + 1)" "2 powi (ilog2 y) \<le> fl y"
    using assms fl_pos_bounds by auto
  ultimately show ?thesis by linarith
qed

lemma fl_pos: "0 < x \<Longrightarrow> 0 < fl x"
  using fl_pos_bounds(1) [of x] powi_two_pos [of "ilog2 x"] by linarith

lemma fl_nonneg: "0 \<le> x \<Longrightarrow> 0 \<le> fl x"
  using fl_pos [of x] by (cases "x = 0") auto

theorem fl_mono: "x \<le> y \<Longrightarrow> fl x \<le> fl y"
proof -
  assume le: "x \<le> y"
  consider "0 < x" | "x \<le> 0" "0 \<le> y" | "y < 0" using le by linarith
  then show ?thesis
  proof cases
    case 1
    from this le show ?thesis by (rule fl_mono_pos)
  next
    case 2
    then have "0 \<le> fl (- x)" "0 \<le> fl y" by (auto intro: fl_nonneg)
    then show ?thesis by (simp add: fl_minus)
  next
    case 3
    with le have "fl (- y) \<le> fl (- x)" by (intro fl_mono_pos) auto
    then show ?thesis by (simp add: fl_minus)
  qed
qed

text \<open>Integers up to \<open>2 ^ 53\<close> in absolute value are floats.\<close>

lemma fl_of_int_pos:
  assumes "0 < n" and "n \<le> 2 ^ 53"
  shows "fl (of_int n) = of_int n"
proof (cases "n = 2 ^ 53")
  case True
  then show ?thesis using fl_powi [of 53] by simp
next
  case False
  define e where "e = ilog2 (of_int n)"
  have "(of_int n :: rat) < of_int (2 ^ 53)"
    using assms False by (subst of_int_less_iff) simp
  then have lt: "(of_int n :: rat) < 2 powi 53" by simp
  have "e \<le> 52"
  proof (rule ccontr)
    assume "\<not> e \<le> 52"
    then have "(2 :: rat) powi 53 \<le> 2 powi e" by (intro powi_two_mono) simp
    also have "\<dots> \<le> of_int n" unfolding e_def using assms by (intro ilog2_bounds) simp
    finally show False using lt by simp
  qed
  have u: "ulp (of_int n) = 2 powi (e - 52)"
    using assms by (simp add: ulp_def e_def)
  have "of_int n = of_int (n * 2 ^ nat (52 - e)) * ulp (of_int n)"
    using \<open>e \<le> 52\<close> by (simp add: u power_int_def flip: power_mult_distrib)
  then show ?thesis by (rule fl_eq_if_multiple)
qed

lemma fl_of_int: "\<bar>n\<bar> \<le> 2 ^ 53 \<Longrightarrow> fl (of_int n) = of_int n"
proof -
  assume n: "\<bar>n\<bar> \<le> 2 ^ 53"
  consider "0 < n" | "n = 0" | "n < 0" by linarith
  then show ?thesis
  proof cases
    case 1
    with n show ?thesis by (intro fl_of_int_pos) auto
  next
    case 3
    with n have "fl (of_int (- n)) = of_int (- n)" by (intro fl_of_int_pos) auto
    then show ?thesis by (simp add: fl_minus)
  qed simp
qed

lemma fl_ge_int: "\<bar>n\<bar> \<le> 2 ^ 53 \<Longrightarrow> of_int n \<le> x \<Longrightarrow> of_int n \<le> fl x"
  using fl_mono [of "of_int n" x] by (simp add: fl_of_int)

lemma fl_le_int: "\<bar>n\<bar> \<le> 2 ^ 53 \<Longrightarrow> x \<le> of_int n \<Longrightarrow> fl x \<le> of_int n"
  using fl_mono [of x "of_int n"] by (simp add: fl_of_int)

section \<open>The mixed operations the code uses\<close>

text \<open>\<open>a / b\<close> on integers (\<open>b \<noteq> 0\<close>), \<open>math.ceil\<close> of it, \<open>n * w\<close> for an integer and a float, \<open>int\<close> of a float.\<close>

definition int_truediv :: "int \<Rightarrow> int \<Rightarrow> rat" where
  "int_truediv a b = fl (of_int a / of_int b)"

definition int_times_float :: "int \<Rightarrow> rat \<Rightarrow> rat" where
  "int_times_float n w = fl (fl (of_int n) * w)"

definition trunc_rat :: "rat \<Rightarrow> int" where
  "trunc_rat x = (if x < 0 then \<lceil>x\<rceil> else \<lfloor>x\<rfloor>)"

text \<open>
  Below \<open>2 ^ 53\<close> the rounded quotient has the ceiling of the exact one: it cannot reach an integer
  the exact quotient has not reached, since the distance to it is at least \<open>1 / b\<close>.
\<close>

lemma ceiling_int_truediv:
  assumes t: "0 \<le> t" "t < 2 ^ 53" and b: "0 < b"
  shows "\<lceil>int_truediv t b\<rceil> = \<lceil>(of_int t / of_int b :: rat)\<rceil>"
proof -
  define x :: rat where "x = of_int t / of_int b"
  define c where "c = \<lceil>x\<rceil>"
  have x0: "0 \<le> x" using t b by (simp add: x_def)
  have "x \<le> of_int t"
    using t b mult_left_mono [of 1 "of_int b :: rat" "of_int t"] by (simp add: x_def divide_le_eq)
  then have c: "0 \<le> c" "c \<le> 2 ^ 53" using t x0 unfolding c_def by linarith+
  have up: "fl x \<le> of_int c" using c by (intro fl_le_int) (auto simp: c_def)
  have low: "of_int (c - 1) < fl x"
  proof (cases "x = 0")
    case True
    then show ?thesis by (simp add: c_def)
  next
    case False
    have "of_int (c - 1) < x" unfolding c_def by linarith
    then have "of_int (c - 1) * of_int b < (of_int t :: rat)"
      using b by (simp add: x_def pos_less_divide_eq)
    then have "(c - 1) * b + 1 \<le> t" by (metis of_int_less_iff of_int_mult zless_imp_add1_zle)
    then have "(of_int ((c - 1) * b + 1) :: rat) \<le> of_int t" by (rule of_int_le_iff [THEN iffD2])
    then have "(of_int (c - 1) * of_int b + 1) / of_int b \<le> x"
      unfolding x_def using b by (intro divide_right_mono) auto
    then have gap: "of_int (c - 1) + 1 / of_int b \<le> x"
      using b by (simp add: add_divide_distrib)
    have "ulp x / 2 \<le> x * 2 powi (- 52) / 2"
      using ulp_le [OF False] x0 by simp
    also have "\<dots> = of_int t / 2 ^ 53 * (1 / of_int b)"
      by (simp add: x_def power_int_minus field_simps)
    also have "\<dots> < 1 * (1 / of_int b)"
    proof (rule mult_strict_right_mono)
      have "(of_int t :: rat) < of_int (2 ^ 53)" using t by (subst of_int_less_iff)
      then show "of_int t / 2 ^ 53 < (1 :: rat)" by simp
    qed (use b in simp)
    finally have "ulp x / 2 < 1 / of_int b" by simp
    moreover have "x - ulp x / 2 \<le> fl x" using fl_error [of x] by (simp only: abs_le_iff) linarith
    ultimately show ?thesis using gap by linarith
  qed
  have "\<lceil>fl x\<rceil> = c" using up low by (intro ceiling_unique) auto
  then show ?thesis by (simp add: int_truediv_def x_def c_def)
qed

lemma int_times_float_bounds:
  assumes "0 \<le> n" "n \<le> 2 ^ 53" "0 \<le> w" "w \<le> 1"
  shows "0 \<le> trunc_rat (int_times_float n w)" "trunc_rat (int_times_float n w) \<le> n"
proof -
  have n: "fl (of_int n) = of_int n" using assms by (intro fl_of_int) auto
  have lo: "0 \<le> int_times_float n w" using assms by (simp add: int_times_float_def n fl_nonneg)
  have "of_int n * w \<le> of_int n" using assms by (simp add: mult_left_le)
  then have "int_times_float n w \<le> of_int n"
    using assms by (simp add: int_times_float_def n fl_le_int)
  with lo show "0 \<le> trunc_rat (int_times_float n w)" "trunc_rat (int_times_float n w) \<le> n"
    by (auto simp: trunc_rat_def le_floor_iff floor_le_iff)
qed

end
