(* ===== verification/Errors.thy ===== *)
theory Errors
  imports Prelude
begin

text \<open>
  The error taxonomy of \<open>hqsb/core/errors.py\<close>: one constructor per exception class, with the process
  exit codes. The argument of a constructor names the raise site (the field or the rule that was
  violated); the human-readable message text is not modelled. The Python built-in exceptions that
  the modelled modules can raise are constructors too, since they are results of the same functions.
\<close>

datatype exc =
    UsageError string
  | ConfigError string
  | SchemaError string
  | SchemaVersionError string
  | UnsupportedSchemaVersionError string
  | SchemaMigrationRequiredError string
  | RegistryError string
  | DuplicateRegistrationError string
  | RegistryLookupError string
  | BackendError string
  | CapabilityError string
  | ArtifactError string
  | BenchmarkError string
  | KeyError
  | IndexError
  | ValueError string
  | RuntimeError string
  | ZeroDivisionError
  | TypeError string
  | AttributeError
  | OverflowError

type_synonym 'a res = "exc + 'a"

text \<open>An operation that mutates a state and may raise: the state it leaves is part of the result.\<close>

type_synonym ('s, 'a) op = "'s \<Rightarrow> 'a res \<times> 's"

text \<open>The exit codes (\<open>ExitCode\<close>), by class; subclasses inherit theirs.\<close>

fun exit_code :: "exc \<Rightarrow> int" where
  "exit_code (UsageError _) = 2"
| "exit_code (ConfigError _) = 3"
| "exit_code (SchemaError _) = 4"
| "exit_code (SchemaVersionError _) = 4"
| "exit_code (UnsupportedSchemaVersionError _) = 4"
| "exit_code (SchemaMigrationRequiredError _) = 4"
| "exit_code (RegistryError _) = 5"
| "exit_code (DuplicateRegistrationError _) = 5"
| "exit_code (RegistryLookupError _) = 5"
| "exit_code (BackendError _) = 6"
| "exit_code (CapabilityError _) = 7"
| "exit_code (ArtifactError _) = 8"
| "exit_code (BenchmarkError _) = 9"
| "exit_code KeyError = 1"
| "exit_code IndexError = 1"
| "exit_code (ValueError _) = 1"
| "exit_code (RuntimeError _) = 1"
| "exit_code ZeroDivisionError = 1"
| "exit_code (TypeError _) = 1"
| "exit_code AttributeError = 1"
| "exit_code OverflowError = 1"

definition is_hqsb_error :: "exc \<Rightarrow> bool" where
  "is_hqsb_error e = (case e of
     KeyError \<Rightarrow> False | IndexError \<Rightarrow> False | ValueError _ \<Rightarrow> False | RuntimeError _ \<Rightarrow> False
   | ZeroDivisionError \<Rightarrow> False | TypeError _ \<Rightarrow> False | AttributeError \<Rightarrow> False | OverflowError \<Rightarrow> False | _ \<Rightarrow> True)"

definition exit_code_for :: "exc \<Rightarrow> int" where
  "exit_code_for e = (if is_hqsb_error e then exit_code e else 1)"

lemma exit_code_range: "1 \<le> exit_code_for e \<and> exit_code_for e \<le> 9"
  by (cases e) (auto simp: exit_code_for_def is_hqsb_error_def)

lemma exit_code_internal_iff: "exit_code_for e = 1 \<longleftrightarrow> \<not> is_hqsb_error e"
  by (cases e) (auto simp: exit_code_for_def is_hqsb_error_def)

section \<open>Running operations in sequence\<close>

text \<open>The values of a list of computations, or the first error among them.\<close>

fun all_res :: "'a res list \<Rightarrow> 'a list res" where
  "all_res [] = Inr []"
| "all_res (r # rs) = bindE r (\<lambda>x. bindE (all_res rs) (\<lambda>xs. Inr (x # xs)))"

lemma all_res_Inr: "all_res rs = Inr xs \<longleftrightarrow> rs = map Inr xs"
  by (induction rs arbitrary: xs) (auto simp: result_simps Cons_eq_map_conv)

lemma all_res_map_total: "(\<And>x. x \<in> set xs \<Longrightarrow> f x = Inr (g x)) \<Longrightarrow> all_res (map f xs) = Inr (map g xs)"
  by (induction xs) auto

fun seq_op :: "('s, 'a) op \<Rightarrow> ('a \<Rightarrow> ('s, 'b) op) \<Rightarrow> ('s, 'b) op" where
  "seq_op m f s = (case m s of (Inl e, s') \<Rightarrow> (Inl e, s') | (Inr x, s') \<Rightarrow> f x s')"

fun for_op :: "('a \<Rightarrow> ('s, unit) op) \<Rightarrow> 'a list \<Rightarrow> ('s, unit) op" where
  "for_op f [] s = (Inr (), s)"
| "for_op f (x # xs) s = (case f x s of (Inl e, s') \<Rightarrow> (Inl e, s') | (Inr _, s') \<Rightarrow> for_op f xs s')"

text \<open>An invariant that every body keeps, whether or not it raises, holds when the loop stops.\<close>

lemma for_op_invariant:
  assumes "for_op f xs s = (r, t)" and "P s"
    and "\<And>x s r s'. x \<in> set xs \<Longrightarrow> P s \<Longrightarrow> f x s = (r, s') \<Longrightarrow> P s'"
  shows "P t"
  using assms
proof (induction xs arbitrary: s)
  case Nil
  then show ?case by simp
next
  case (Cons x xs)
  obtain r1 s1 where f: "f x s = (r1, s1)" by fastforce
  have "P s1" using Cons.prems(3) [OF _ Cons.prems(2) f] by simp
  show ?case
  proof (cases r1)
    case (Inl e)
    with f Cons.prems(1) \<open>P s1\<close> show ?thesis by simp
  next
    case (Inr u)
    with f Cons.prems(1) have "for_op f xs s1 = (r, t)" by simp
    then show ?thesis
      using \<open>P s1\<close> by (rule Cons.IH) (use Cons.prems(3) in auto)
  qed
qed

lemma for_op_append:
  "for_op f (xs @ ys) s = seq_op (for_op f xs) (\<lambda>_. for_op f ys) s"
  by (induction xs arbitrary: s) (auto split: sum.splits prod.splits)

end
