(* ===== verification/Kv_Geometry.thy ===== *)
theory Kv_Geometry
  imports Float64 Errors
begin

text \<open>
  The pure layers of \<open>hqsb/runtime/kv.py\<close>: the geometry of a paged KV cache (blocks per token
  range, bytes per token), per-request accounting, the memory reconciliation, the capacity model,
  the bisection for the capacity boundary, the bounded OOM ladders and the context-limit check.
\<close>

section \<open>Blocks for a token count\<close>

definition blocks_for :: "int \<Rightarrow> int \<Rightarrow> int res" where
  "blocks_for tokens block_size =
     (if tokens < 0 then Inl (ConfigError ''tokens'')
      else if block_size \<le> 0 then Inl (ConfigError ''block_size'')
      else Inr \<lceil>int_truediv tokens block_size\<rceil>)"

text \<open>The reference the code's comment names: \<open>ceil(tokens / P)\<close> in integers.\<close>

definition exact_blocks :: "int \<Rightarrow> int \<Rightarrow> int" where
  "exact_blocks tokens block_size = (tokens + block_size - 1) div block_size"

lemma exact_blocks_bounds:
  assumes "0 < b"
  shows "t \<le> exact_blocks t b * b" and "exact_blocks t b * b < t + b"
proof -
  have m: "0 \<le> (t + b - 1) mod b" "(t + b - 1) mod b < b" using assms by auto
  have d: "exact_blocks t b * b = t + b - 1 - (t + b - 1) mod b"
    unfolding exact_blocks_def by (simp add: minus_mod_eq_div_mult)
  show "t \<le> exact_blocks t b * b" "exact_blocks t b * b < t + b" using d m by linarith+
qed

lemma exact_blocks_nonneg: "0 \<le> t \<Longrightarrow> 0 < b \<Longrightarrow> 0 \<le> exact_blocks t b"
  unfolding exact_blocks_def by (intro pos_imp_zdiv_nonneg_iff [THEN iffD2]) auto

lemma exact_blocks_ceiling:
  assumes "0 < b"
  shows "\<lceil>(of_int t / of_int b :: rat)\<rceil> = exact_blocks t b"
proof (rule ceiling_unique)
  define q where "q = exact_blocks t b"
  have "(q - 1) * b < t" "t \<le> q * b"
    using exact_blocks_bounds [OF assms, of t] by (simp_all add: q_def left_diff_distrib)
  then have "(of_int ((q - 1) * b) :: rat) < of_int t" "(of_int t :: rat) \<le> of_int (q * b)"
    by (simp_all only: of_int_less_iff of_int_le_iff)
  then show "of_int (exact_blocks t b) - 1 < (of_int t / of_int b :: rat)"
    and "(of_int t / of_int b :: rat) \<le> of_int (exact_blocks t b)"
    using assms by (simp_all add: q_def pos_less_divide_eq pos_divide_le_eq)
qed

lemma blocks_for_exact:
  assumes "0 \<le> t" "t < 2 ^ 53" "0 < b"
  shows "blocks_for t b = Inr (exact_blocks t b)"
  using assms ceiling_int_truediv [of t b] by (simp add: blocks_for_def exact_blocks_ceiling)

lemma exact_blocks_mono: "t \<le> t' \<Longrightarrow> 0 < b \<Longrightarrow> exact_blocks t b \<le> exact_blocks t' b"
  unfolding exact_blocks_def by (intro zdiv_mono1) auto

lemma blocks_for_ok_iff: "is_ok (blocks_for t b) \<longleftrightarrow> 0 \<le> t \<and> 0 < b"
  by (auto simp: blocks_for_def)

section \<open>Geometry\<close>

record kv_geometry =
  num_layers :: int
  num_kv_heads :: int
  head_dim :: int
  element_bytes :: int
  kv_dtype :: string
  quant_scale_bytes_per_token :: rat
  layout :: string
  kv_group :: string

definition kv_geometry_check :: "kv_geometry \<Rightarrow> kv_geometry res" where
  "kv_geometry_check g =
     (if num_layers g \<le> 0 then Inl (ConfigError ''num_layers'')
      else if num_kv_heads g \<le> 0 then Inl (ConfigError ''num_kv_heads'')
      else if head_dim g \<le> 0 then Inl (ConfigError ''head_dim'')
      else if element_bytes g \<le> 0 then Inl (ConfigError ''element_bytes'')
      else if quant_scale_bytes_per_token g < 0 then Inl (ConfigError ''quant_scale_bytes_per_token'')
      else Inr g)"

definition payload_bytes_per_token :: "kv_geometry \<Rightarrow> int" where
  "payload_bytes_per_token g = 2 * num_layers g * num_kv_heads g * head_dim g * element_bytes g"

definition bytes_per_token :: "kv_geometry \<Rightarrow> rat" where
  "bytes_per_token g = fl (fl (of_int (payload_bytes_per_token g)) + quant_scale_bytes_per_token g)"

definition slots_for :: "int \<Rightarrow> int \<Rightarrow> int res" where
  "slots_for tokens block_size = bindE (blocks_for tokens block_size) (\<lambda>n. Inr (n * block_size))"

definition payload_bytes :: "kv_geometry \<Rightarrow> int \<Rightarrow> int \<Rightarrow> int res" where
  "payload_bytes g tokens block_size =
     bindE (slots_for tokens block_size) (\<lambda>s. Inr (payload_bytes_per_token g * s))"

definition bytes_for :: "kv_geometry \<Rightarrow> int \<Rightarrow> int \<Rightarrow> rat res" where
  "bytes_for g tokens block_size =
     bindE (slots_for tokens block_size) (\<lambda>s. Inr (fl (bytes_per_token g * fl (of_int s))))"

lemma kv_geometry_check_ok:
  "kv_geometry_check g = Inr h \<longleftrightarrow> h = g \<and> 0 < num_layers g \<and> 0 < num_kv_heads g \<and> 0 < head_dim g
     \<and> 0 < element_bytes g \<and> 0 \<le> quant_scale_bytes_per_token g"
  by (auto simp: kv_geometry_check_def split: if_splits)

section \<open>Boundary points\<close>

definition add_point :: "int \<Rightarrow> int list \<Rightarrow> int list" where
  "add_point p points = (if 0 < p \<and> p \<notin> set points then points @ [p] else points)"

definition block_boundary_points :: "int \<Rightarrow> int \<Rightarrow> int list res" where
  "block_boundary_points block_size blocks =
     (if block_size \<le> 1 \<or> blocks < 1 then Inl (ConfigError ''block_size'')
      else Inr (foldl (\<lambda>points index. let base = index * block_size in
                        add_point (base + 1) (add_point base (add_point (base - 1) points)))
                 [] [1 .. blocks]))"

lemma set_add_point: "set (add_point p points) = set points \<union> {x. x = p \<and> 0 < x}"
  by (auto simp: add_point_def)

lemma distinct_add_point: "distinct points \<Longrightarrow> distinct (add_point p points)"
  by (simp add: add_point_def)

lemma boundary_fold:
  assumes "distinct points"
  shows "distinct (foldl (\<lambda>points index. let base = index * bs in
            add_point (base + 1) (add_point base (add_point (base - 1) points))) points is)"
    and "set (foldl (\<lambda>points index. let base = index * bs in
            add_point (base + 1) (add_point base (add_point (base - 1) points))) points is)
       = set points \<union> {x. 0 < x \<and> (\<exists>i \<in> set is. \<bar>x - i * bs\<bar> \<le> 1)}"
  using assms
  by (induction "is" arbitrary: points) (auto simp: Let_def set_add_point distinct_add_point)

section \<open>Per-request accounting\<close>

record kv_request_accounting =
  acc_request_id :: string
  live_tokens :: int
  reserved_tokens :: int
  acc_block_size :: int
  acc_blocks :: int
  acc_slots :: int

definition accounting_check :: "kv_request_accounting \<Rightarrow> kv_request_accounting res" where
  "accounting_check a =
     (if reserved_tokens a < live_tokens a then Inl (ConfigError ''reserved_tokens'')
      else bindE (blocks_for (reserved_tokens a) (acc_block_size a)) (\<lambda>n.
        if acc_blocks a \<noteq> n then Inl (ConfigError ''blocks'')
        else if acc_slots a \<noteq> acc_blocks a * acc_block_size a then Inl (ConfigError ''slots'')
        else Inr a))"

definition internal_fragment_tokens :: "kv_request_accounting \<Rightarrow> int" where
  "internal_fragment_tokens a = acc_slots a - live_tokens a"

end
