(* ===== verification/Kv_Capacity.thy ===== *)
theory Kv_Capacity
  imports Kv_Geometry
begin

text \<open>
  The accounting and capacity half of \<open>hqsb/runtime/kv.py\<close>: the memory reconciliation with its
  closed list of byte classes, the capacity model with its admission watermark, the bisection that
  finds the last surviving and the first failing token count, the bounded OOM ladders and the
  context-limit check. The probe of the bisection is a parameter: it runs a fresh process per point
  and reports whether that process survived.
\<close>

section \<open>Memory reconciliation\<close>

datatype fragment_class =
    internal_slot_waste | cached_inactive_blocks | block_table_metadata | refcount_hash_metadata
  | page_alignment | allocator_reserve | workspace | graph_static_buffers | non_kv_runtime

definition FRAGMENT_CLASSES :: "(string \<times> fragment_class) list" where
  "FRAGMENT_CLASSES =
     [(''internal_slot_waste'', internal_slot_waste), (''cached_inactive_blocks'', cached_inactive_blocks),
      (''block_table_metadata'', block_table_metadata), (''refcount_hash_metadata'', refcount_hash_metadata),
      (''page_alignment'', page_alignment), (''allocator_reserve'', allocator_reserve),
      (''workspace'', workspace), (''graph_static_buffers'', graph_static_buffers),
      (''non_kv_runtime'', non_kv_runtime)]"

record memory_reconciliation =
  rec_geometry :: kv_geometry
  rec_block_size :: int
  rec_active_tokens :: int
  rec_named :: "(fragment_class \<times> rat) list"
  measured_framework_allocated :: rat
  measured_framework_reserved :: rat
  measured_device_process :: rat
  tolerance_bytes :: rat

definition declare_class :: "string \<Rightarrow> rat \<Rightarrow> memory_reconciliation \<Rightarrow> memory_reconciliation res" where
  "declare_class klass bytes_value r =
     (case map_of FRAGMENT_CLASSES klass of
        None \<Rightarrow> Inl (ConfigError ''klass'')
      | Some c \<Rightarrow> Inr (r\<lparr>rec_named := AList.update c bytes_value (rec_named r)\<rparr>))"

text \<open>\<open>sum\<close> of floats, added from left to right (the interpreters before Python 3.12).\<close>

definition float_sum :: "rat list \<Rightarrow> rat" where
  "float_sum xs = foldl (\<lambda>a x. fl (a + x)) 0 xs"

definition predicted_payload_bytes :: "memory_reconciliation \<Rightarrow> rat res" where
  "predicted_payload_bytes r = bytes_for (rec_geometry r) (rec_active_tokens r) (rec_block_size r)"

definition predicted_total_bytes :: "memory_reconciliation \<Rightarrow> rat res" where
  "predicted_total_bytes r =
     bindE (predicted_payload_bytes r) (\<lambda>p. Inr (fl (p + float_sum (map snd (rec_named r)))))"

definition residual_bytes :: "memory_reconciliation \<Rightarrow> rat res" where
  "residual_bytes r = bindE (predicted_total_bytes r) (\<lambda>t.
     Inr (if measured_framework_reserved r \<noteq> 0 then fl (measured_framework_reserved r - t)
          else fl (measured_device_process r - t)))"

definition explained :: "memory_reconciliation \<Rightarrow> bool res" where
  "explained r =
     (if tolerance_bytes r \<le> 0 then Inl (ConfigError ''tolerance_bytes'')
      else bindE (residual_bytes r) (\<lambda>d. Inr (\<bar>d\<bar> \<le> tolerance_bytes r)))"

text \<open>The byte classes are a closed list: declaring anything else is refused.\<close>

lemma declare_class_closed:
  "is_ok (declare_class klass v r) \<longleftrightarrow> klass \<in> fst ` set FRAGMENT_CLASSES"
  by (auto simp: declare_class_def is_ok_def map_of_eq_None_iff split: option.splits
      dest: map_of_SomeD intro: rev_image_eqI)

section \<open>Capacity model\<close>

record kv_capacity_model =
  cap_geometry :: kv_geometry
  cap_block_size :: int
  cap_blocks_total :: int
  cap_watermark :: rat

definition capacity_check :: "kv_capacity_model \<Rightarrow> kv_capacity_model res" where
  "capacity_check c =
     (if 0 < cap_watermark c \<and> cap_watermark c \<le> 1 then Inr c else Inl (ConfigError ''watermark''))"

definition payload_capacity_bytes :: "kv_capacity_model \<Rightarrow> rat" where
  "payload_capacity_bytes c =
     fl (fl (of_int (cap_blocks_total c * cap_block_size c)) * bytes_per_token (cap_geometry c))"

definition theoretical_max_tokens :: "kv_capacity_model \<Rightarrow> int" where
  "theoretical_max_tokens c = cap_blocks_total c * cap_block_size c"

definition safe_admission_tokens :: "kv_capacity_model \<Rightarrow> int" where
  "safe_admission_tokens c = trunc_rat (int_times_float (theoretical_max_tokens c) (cap_watermark c))"

definition max_concurrent_requests :: "kv_capacity_model \<Rightarrow> int \<Rightarrow> int res" where
  "max_concurrent_requests c mean_tokens =
     (if mean_tokens \<le> 0 then Inl (ConfigError ''mean_tokens'')
      else Inr (safe_admission_tokens c div mean_tokens))"

definition predicted_blocks :: "kv_capacity_model \<Rightarrow> int \<Rightarrow> int res" where
  "predicted_blocks c tokens = blocks_for tokens (cap_block_size c)"

lemma capacity_check_ok:
  "capacity_check c = Inr d \<longleftrightarrow> d = c \<and> 0 < cap_watermark c \<and> cap_watermark c \<le> 1"
  by (auto simp: capacity_check_def)

lemma safe_admission_bounds:
  assumes "capacity_check c = Inr c" "0 \<le> theoretical_max_tokens c" "theoretical_max_tokens c \<le> 2 ^ 53"
  shows "0 \<le> safe_admission_tokens c" "safe_admission_tokens c \<le> theoretical_max_tokens c"
  using assms int_times_float_bounds [of "theoretical_max_tokens c" "cap_watermark c"]
  by (auto simp: capacity_check_ok safe_admission_tokens_def)

section \<open>Capacity boundary by bisection\<close>

record capacity_boundary =
  safe_tokens :: int
  oom_tokens :: int
  probe_points :: "int list"

text \<open>The probe is an operation on the state of its environment: it answers whether the run survived. In the
  source \<open>points\<close> is a list that grows with every midpoint.\<close>

function bisect :: "(int \<Rightarrow> 's \<Rightarrow> bool \<times> 's) \<Rightarrow> int \<Rightarrow> int \<Rightarrow> int list \<Rightarrow> 's \<Rightarrow> (int \<times> int \<times> int list) \<times> 's" where
  "bisect probe safe oom points st =
     (if oom - safe > 1 then
        let middle = (safe + oom) div 2; (survived, st') = probe middle st in
        if survived then bisect probe middle oom (points @ [middle]) st'
        else bisect probe safe middle (points @ [middle]) st'
      else ((safe, oom, points), st))"
  by pat_completeness auto
termination
  by (relation "measure (\<lambda>(probe, safe, oom, points, st). nat (oom - safe))") auto

declare bisect.simps [simp del]

definition find_capacity_boundary :: "(int \<Rightarrow> 's \<Rightarrow> bool \<times> 's) \<Rightarrow> int \<Rightarrow> int \<Rightarrow> ('s, capacity_boundary) op" where
  "find_capacity_boundary probe low high st =
     (if high \<le> low then (Inl (ConfigError ''high''), st)
      else case probe low st of (low_survived, st1) \<Rightarrow>
        if \<not> low_survived then (Inl (ConfigError ''low''), st1)
        else case probe high st1 of (high_survived, st2) \<Rightarrow>
          if high_survived then (Inl (ConfigError ''high_survived''), st2)
          else case bisect probe low high [high] st2 of ((safe, oom, points), st3) \<Rightarrow>
            (Inr \<lparr>safe_tokens = safe, oom_tokens = oom, probe_points = points\<rparr>, st3))"

text \<open>A probe that answers by a predicate and records the counts it was called with.\<close>

definition logged :: "(int \<Rightarrow> bool) \<Rightarrow> int \<Rightarrow> int list \<Rightarrow> bool \<times> int list" where
  "logged survives x calls = (survives x, calls @ [x])"

text \<open>With such a probe the loop keeps a surviving lower and a failing upper end; it calls the probe exactly
  at the points it appends, all strictly inside the interval and no one twice.\<close>

lemma bisect_boundary:
  assumes "bisect (logged survives) safe oom points calls = ((s, m, ps), calls')"
    and "safe < oom" "survives safe" "\<not> survives oom"
  shows "m = s + 1 \<and> survives s \<and> \<not> survives m \<and> safe \<le> s \<and> m \<le> oom
    \<and> (\<exists>new. ps = points @ new \<and> calls' = calls @ new \<and> set new \<subseteq> {safe<..<oom} \<and> distinct new)"
  using assms
proof (induction "logged survives" safe oom points calls arbitrary: s m ps calls' rule: bisect.induct)
  case (1 safe oom points calls)
  show ?case
  proof (cases "oom - safe > 1")
    case True
    define middle where "middle = (safe + oom) div 2"
    have mid: "safe < middle" "middle < oom" using True by (auto simp: middle_def)
    have l: "logged survives middle calls = (survives middle, calls @ [middle])" by (simp add: logged_def)
    note eq = "1.prems"(1) [unfolded bisect.simps [of _ safe oom points] Let_def middle_def [symmetric] l prod.case if_P [OF True]]
    show ?thesis
    proof (cases "survives middle")
      case True
      then have run: "bisect (logged survives) middle oom (points @ [middle]) (calls @ [middle]) = ((s, m, ps), calls')" using eq by simp
      have r: "m = s + 1 \<and> survives s \<and> \<not> survives m \<and> middle \<le> s \<and> m \<le> oom
          \<and> (\<exists>new. ps = (points @ [middle]) @ new \<and> calls' = (calls @ [middle]) @ new \<and> set new \<subseteq> {middle<..<oom} \<and> distinct new)"
        by (rule "1.hyps"(1) [OF \<open>oom - safe > 1\<close> middle_def refl l [symmetric] True run mid(2) True "1.prems"(4)])
      then obtain new where new: "ps = points @ middle # new" "calls' = calls @ middle # new" "set new \<subseteq> {middle<..<oom}" "distinct new" by auto
      have "set (middle # new) \<subseteq> {safe<..<oom}" "distinct (middle # new)" using new(3,4) mid by auto
      then show ?thesis using r new(1,2) mid by (intro conjI exI [of _ "middle # new"]) auto
    next
      case False
      then have run: "bisect (logged survives) safe middle (points @ [middle]) (calls @ [middle]) = ((s, m, ps), calls')" using eq by simp
      have r: "m = s + 1 \<and> survives s \<and> \<not> survives m \<and> safe \<le> s \<and> m \<le> middle
          \<and> (\<exists>new. ps = (points @ [middle]) @ new \<and> calls' = (calls @ [middle]) @ new \<and> set new \<subseteq> {safe<..<middle} \<and> distinct new)"
        by (rule "1.hyps"(2) [OF \<open>oom - safe > 1\<close> middle_def refl l [symmetric] False run mid(1) "1.prems"(3) False])
      then obtain new where new: "ps = points @ middle # new" "calls' = calls @ middle # new" "set new \<subseteq> {safe<..<middle}" "distinct new" by auto
      have "set (middle # new) \<subseteq> {safe<..<oom}" "distinct (middle # new)" using new(3,4) mid by auto
      then show ?thesis using r new(1,2) mid by (intro conjI exI [of _ "middle # new"]) auto
    qed
  next
    case False
    with "1.prems" show ?thesis by (auto simp: bisect.simps [of _ safe oom points])
  qed
qed

text \<open>The interval halves in every round, so \<open>n\<close> more probes suffice for an interval of \<open>2 ^ n\<close>.\<close>

lemma bisect_rounds:
  assumes "oom - safe \<le> 2 ^ n"
  shows "length (snd (snd (fst (bisect probe safe oom points st)))) \<le> length points + n"
  using assms
proof (induction n arbitrary: safe oom points st)
  case 0
  then show ?case by (simp add: bisect.simps)
next
  case (Suc n)
  define middle where "middle = (safe + oom) div 2"
  have "middle - safe \<le> 2 ^ n" "oom - middle \<le> 2 ^ n"
    using Suc.prems by (auto simp: middle_def)
  then have "length (snd (snd (fst (bisect probe middle oom (points @ [middle]) st')))) \<le> length points + Suc n"
    "length (snd (snd (fst (bisect probe safe middle (points @ [middle]) st')))) \<le> length points + Suc n" for st'
    using Suc.IH [of oom middle "points @ [middle]" st'] Suc.IH [of middle safe "points @ [middle]" st'] by auto
  then show ?case
    by (subst bisect.simps) (auto simp: Let_def middle_def [symmetric] split: prod.split)
qed

section \<open>OOM ladders\<close>

datatype oom_kind =
    predictable_admission_reject | preallocation_failure | execution_oom | fragmentation_induced
  | prefix_cache_pressure | graph_pool_oom | actual_leak

datatype oom_action_name =
    act_reject | evict_eligible_cache | preempt | reduce_batch | fallback | act_fail

fun OOM_LADDERS :: "oom_kind \<Rightarrow> oom_action_name list" where
  "OOM_LADDERS predictable_admission_reject = [act_reject]"
| "OOM_LADDERS actual_leak = [act_fail]"
| "OOM_LADDERS graph_pool_oom = [fallback, act_fail]"
| "OOM_LADDERS prefix_cache_pressure = [evict_eligible_cache, act_fail]"
| "OOM_LADDERS fragmentation_induced = [evict_eligible_cache, preempt, act_fail]"
| "OOM_LADDERS preallocation_failure = [reduce_batch, preempt, act_fail]"
| "OOM_LADDERS execution_oom = [reduce_batch, evict_eligible_cache, preempt, act_fail]"

definition OOM_KINDS :: "(string \<times> oom_kind) list" where
  "OOM_KINDS =
     [(''predictable_admission_reject'', predictable_admission_reject),
      (''preallocation_failure'', preallocation_failure), (''execution_oom'', execution_oom),
      (''fragmentation_induced'', fragmentation_induced), (''prefix_cache_pressure'', prefix_cache_pressure),
      (''graph_pool_oom'', graph_pool_oom), (''actual_leak'', actual_leak)]"

definition MAX_OOM_ATTEMPTS :: int where
  "MAX_OOM_ATTEMPTS = Max (set (map (int \<circ> length \<circ> OOM_LADDERS \<circ> snd) OOM_KINDS))"

definition oom_action :: "string \<Rightarrow> int \<Rightarrow> oom_action_name res" where
  "oom_action kind attempt =
     (case map_of OOM_KINDS kind of
        None \<Rightarrow> Inl (ConfigError ''kind'')
      | Some k \<Rightarrow>
          if attempt < 0 then Inl (ConfigError ''attempt'')
          else if attempt \<ge> MAX_OOM_ATTEMPTS then Inl (ConfigError ''attempt_exceeded'')
          else let ladder = OOM_LADDERS k in
            Inr (if attempt < int (length ladder) then ladder ! nat attempt else act_fail))"

definition terminal_action :: "oom_action_name \<Rightarrow> bool" where
  "terminal_action a \<longleftrightarrow> a = act_reject \<or> a = act_fail"

lemma MAX_OOM_ATTEMPTS_eq: "MAX_OOM_ATTEMPTS = 4"
  by (simp add: MAX_OOM_ATTEMPTS_def OOM_KINDS_def)

lemma ladder_ends_terminal: "OOM_LADDERS k \<noteq> [] \<and> terminal_action (last (OOM_LADDERS k))
    \<and> int (length (OOM_LADDERS k)) \<le> MAX_OOM_ATTEMPTS"
  by (cases k) (auto simp: terminal_action_def MAX_OOM_ATTEMPTS_eq)

section \<open>Context limits\<close>

record context_limit_check =
  requested_tokens :: int
  model_max :: int
  runtime_max :: int
  kv_capacity_tokens :: int

definition limits :: "context_limit_check \<Rightarrow> (string \<times> int) list" where
  "limits c = [(''model_max'', model_max c), (''runtime_max'', runtime_max c),
     (''kv_capacity_tokens'', kv_capacity_tokens c)]"

definition rejects :: "context_limit_check \<Rightarrow> bool" where
  "rejects c \<longleftrightarrow> requested_tokens c > Min (snd ` set (limits c))"

definition earliest_rejecting_layer :: "context_limit_check \<Rightarrow> string" where
  "earliest_rejecting_layer c = (case argmin snd (limits c) of Some (n, _) \<Rightarrow> n | None \<Rightarrow> '''')"

end
