(* ===== verification/Kv_Capacity_Props.thy ===== *)
theory Kv_Capacity_Props
  imports Kv_Capacity
begin

text \<open>
  The properties of the geometry and capacity layers: the block count is the integer ceiling as long
  as the token count is an exact double, the bisection finds the boundary with logarithmically many
  probes, every OOM ladder is bounded and ends in a terminal action, an accepted per-request
  accounting wastes less than one block, and the context check names a limit that is violated.
\<close>

text \<open>The block count of a token range is the smallest number of blocks that holds it, for every token
  count below \<open>2^53\<close>; the count goes through a double, and the first token count that a double cannot
  hold is given one block too few.\<close>

theorem blocks_for_smallest:
  shows "(\<forall>t b. 0 \<le> t \<and> t < 2 ^ 53 \<and> 0 < b \<longrightarrow>
      (\<exists>n. blocks_for t b = Inr n \<and> t \<le> n * b \<and> (\<forall>m. t \<le> m * b \<longrightarrow> n \<le> m)))
    \<and> blocks_for (2 ^ 53 + 1) 1 = Inr (2 ^ 53)"
proof
  show "\<forall>t b. 0 \<le> t \<and> t < 2 ^ 53 \<and> 0 < b \<longrightarrow>
      (\<exists>n. blocks_for t b = Inr n \<and> t \<le> n * b \<and> (\<forall>m. t \<le> m * b \<longrightarrow> n \<le> m))"
  proof (intro allI impI, elim conjE)
    fix t b :: int
    assume tb: "0 \<le> t" "t < 2 ^ 53" "0 < b"
    have "exact_blocks t b \<le> m" if "t \<le> m * b" for m
    proof (rule ccontr)
      assume "\<not> exact_blocks t b \<le> m"
      then have "(m + 1) * b \<le> exact_blocks t b * b" using tb by (intro mult_right_mono) auto
      then show False using exact_blocks_bounds(2) [OF tb(3), of t] that by (simp add: distrib_right)
    qed
    then show "\<exists>n. blocks_for t b = Inr n \<and> t \<le> n * b \<and> (\<forall>m. t \<le> m * b \<longrightarrow> n \<le> m)"
      using blocks_for_exact [OF tb] exact_blocks_bounds(1) [OF tb(3)] by blast
  qed
  show "blocks_for (2 ^ 53 + 1) 1 = Inr (2 ^ 53)" by code_simp
qed

theorem blocks_for_smallest_witness: "\<exists>n. blocks_for 17 16 = Inr n \<and> 17 \<le> n * 16 \<and> n \<le> 2"
  using blocks_for_smallest [THEN conjunct1, rule_format, of 17 16] by force

text \<open>C5: given a surviving lower and a failing upper token count, the bisection returns adjacent counts,
  the lower one surviving and the upper one failing, inside the given interval. The calls of the probe
  are the lower end, which the result does not list, and then the recorded probe points, no count twice;
  they are at most \<open>n + 2\<close> when the interval is no longer than \<open>2^n\<close>. If survival is downward closed, the
  counts that survive are exactly those up to the safe one.\<close>

theorem find_capacity_boundary_correct:
  assumes "low < high" and "survives low" and "\<not> survives high"
  shows "\<exists>b calls. find_capacity_boundary (logged survives) low high [] = (Inr b, calls)
    \<and> oom_tokens b = safe_tokens b + 1 \<and> survives (safe_tokens b) \<and> \<not> survives (oom_tokens b)
    \<and> low \<le> safe_tokens b \<and> oom_tokens b \<le> high
    \<and> calls = low # probe_points b \<and> distinct calls
    \<and> (\<forall>n. high - low \<le> 2 ^ n \<longrightarrow> length calls \<le> n + 2)
    \<and> ((\<forall>x y. x \<le> y \<longrightarrow> survives y \<longrightarrow> survives x) \<longrightarrow> (\<forall>x. survives x \<longleftrightarrow> x \<le> safe_tokens b))"
proof -
  obtain s m ps calls where bis: "bisect (logged survives) low high [high] [low, high] = ((s, m, ps), calls)" by (metis surj_pair)
  obtain new where bd: "m = s + 1" "survives s" "\<not> survives m" "low \<le> s" "m \<le> high"
    and new: "ps = high # new" "calls = low # high # new" "set new \<subseteq> {low<..<high}" "distinct new"
    using bisect_boundary [OF bis assms] by auto
  define b where "b = \<lparr>safe_tokens = s, oom_tokens = m, probe_points = ps\<rparr>"
  have f: "safe_tokens b = s" "oom_tokens b = m" "probe_points b = ps" by (simp_all add: b_def)
  have found: "find_capacity_boundary (logged survives) low high [] = (Inr b, calls)"
    using assms bis by (simp add: find_capacity_boundary_def b_def logged_def)
  have calls: "calls = low # ps" "distinct calls" using new assms(1) by auto
  have rounds: "length calls \<le> n + 2" if "high - low \<le> 2 ^ n" for n
    using bisect_rounds [OF that, of "logged survives" "[high]" "[low, high]"] bis calls(1) by simp
  have closed: "survives x \<longleftrightarrow> x \<le> s" if mono: "\<forall>x y. x \<le> y \<longrightarrow> survives y \<longrightarrow> survives x" for x
  proof
    assume "survives x"
    then have "\<not> m \<le> x" using mono bd(3) by blast
    then show "x \<le> s" using bd(1) by simp
  next
    assume "x \<le> s"
    then show "survives x" using mono bd(2) by blast
  qed
  show ?thesis
    by (intro exI [of _ b] exI [of _ calls] conjI impI allI, unfold f) (rule found bd rounds closed calls; assumption?)+
qed

theorem find_capacity_boundary_correct_witness:
  "\<exists>b calls. find_capacity_boundary (logged (\<lambda>x. x \<le> 700)) 0 1024 [] = (Inr b, calls) \<and> oom_tokens b = safe_tokens b + 1
     \<and> safe_tokens b \<le> 700 \<and> \<not> oom_tokens b \<le> 700 \<and> length calls \<le> 12"
proof -
  obtain b calls where "find_capacity_boundary (logged (\<lambda>x. x \<le> 700)) 0 1024 [] = (Inr b, calls)" "oom_tokens b = safe_tokens b + 1"
    "safe_tokens b \<le> 700" "\<not> oom_tokens b \<le> 700"
    "\<forall>n. 1024 - 0 \<le> (2 :: int) ^ n \<longrightarrow> length calls \<le> n + 2"
    using find_capacity_boundary_correct [of 0 1024 "\<lambda>x. x \<le> 700"] by auto
  moreover from this(5) have "length calls \<le> 12" by (elim allE [of _ 10]) simp
  ultimately show ?thesis by blast
qed

text \<open>No OOM ladder can retry forever: for every kind some attempt below the limit of four gives a
  terminal action (reject or fail), every later attempt up to the limit gives fail, the attempts
  before it are not terminal, and attempts from the limit on are refused.\<close>

theorem oom_ladder_bounded:
  assumes known: "map_of OOM_KINDS name = Some kind"
  shows "MAX_OOM_ATTEMPTS = 4 \<and> (\<exists>n a. 0 \<le> n \<and> n < MAX_OOM_ATTEMPTS \<and> oom_action name n = Inr a \<and> terminal_action a
     \<and> (\<forall>m. n < m \<and> m < MAX_OOM_ATTEMPTS \<longrightarrow> oom_action name m = Inr act_fail)
     \<and> (\<forall>m a'. 0 \<le> m \<and> m < n \<and> oom_action name m = Inr a' \<longrightarrow> \<not> terminal_action a')
     \<and> (\<forall>m. m < 0 \<or> MAX_OOM_ATTEMPTS \<le> m \<longrightarrow> \<not> is_ok (oom_action name m)))"
proof -
  define n where "n = int (length (OOM_LADDERS kind)) - 1"
  have n: "0 \<le> n" "n < MAX_OOM_ATTEMPTS" using ladder_ends_terminal [of kind] by (auto simp: n_def Suc_leI)
  have l: "oom_action name m = Inr (OOM_LADDERS kind ! nat m)" if "0 \<le> m" "m \<le> n" for m
    using that n known by (simp add: oom_action_def n_def)
  have "terminal_action (OOM_LADDERS kind ! nat n)"
    using ladder_ends_terminal [of kind] last_conv_nth [of "OOM_LADDERS kind"] by (simp add: n_def nat_diff_distrib')
  moreover have "\<not> terminal_action (OOM_LADDERS kind ! nat m)" if "0 \<le> m" "m < n" for m
  proof -
    have "nat m < length (OOM_LADDERS kind) - 1" using that by (simp add: n_def)
    then show ?thesis by (cases kind) (auto simp: terminal_action_def less_Suc_eq)
  qed
  ultimately show ?thesis
    using n l known by (auto intro!: exI [of _ n] simp: MAX_OOM_ATTEMPTS_eq Let_def) (auto simp: MAX_OOM_ATTEMPTS_eq oom_action_def n_def)
qed

theorem oom_ladder_bounded_witness:
  "\<exists>n a. oom_action ''execution_oom'' n = Inr a \<and> terminal_action a \<and> n < 4"
  using oom_ladder_bounded [of "''execution_oom''" execution_oom] by (auto simp: OOM_KINDS_def)

text \<open>An accepted per-request accounting reserves at least its live tokens in whole blocks, so its
  internal fragmentation is never negative and is below one block plus the unused reservation.\<close>

theorem accounting_fragment_bounds:
  assumes "accounting_check a = Inr a" and "reserved_tokens a < 2 ^ 53"
  shows "0 \<le> internal_fragment_tokens a
    \<and> internal_fragment_tokens a < (reserved_tokens a - live_tokens a) + acc_block_size a
    \<and> acc_block_size a dvd acc_slots a"
proof -
  obtain n where n: "blocks_for (reserved_tokens a) (acc_block_size a) = Inr n" "acc_blocks a = n"
    "acc_slots a = n * acc_block_size a" "live_tokens a \<le> reserved_tokens a"
    using assms(1) by (auto simp: accounting_check_def result_simps split: if_splits)
  have "is_ok (blocks_for (reserved_tokens a) (acc_block_size a))" using n(1) by simp
  then have p: "0 \<le> reserved_tokens a" "0 < acc_block_size a" by (simp_all add: blocks_for_ok_iff)
  then have "n = exact_blocks (reserved_tokens a) (acc_block_size a)"
    using blocks_for_exact assms(2) n(1) by simp
  then show ?thesis
    using n(3,4) exact_blocks_bounds [OF p(2), of "reserved_tokens a"]
    by (auto simp: internal_fragment_tokens_def)
qed

theorem accounting_fragment_bounds_witness:
  "internal_fragment_tokens \<lparr>acc_request_id = ''r'', live_tokens = 20, reserved_tokens = 30, acc_block_size = 16,
      acc_blocks = 2, acc_slots = 32\<rparr> < 26"
proof -
  let ?a = "\<lparr>acc_request_id = ''r'', live_tokens = 20, reserved_tokens = 30, acc_block_size = 16,
      acc_blocks = 2, acc_slots = 32\<rparr>"
  have "accounting_check ?a = Inr ?a" using blocks_for_exact [of 30 16]
    by (simp add: accounting_check_def exact_blocks_def)
  from accounting_fragment_bounds [OF this] show ?thesis by simp
qed

text \<open>A context request is rejected exactly when it exceeds one of the model, runtime or KV limits,
  and then the layer that is named is one whose limit it exceeds and no other limit is smaller.\<close>

theorem context_limit_layer:
  "(rejects c \<longleftrightarrow> (\<exists>(n, l) \<in> set (limits c). requested_tokens c > l))
   \<and> (\<exists>l. (earliest_rejecting_layer c, l) \<in> set (limits c) \<and> (\<forall>(n, k) \<in> set (limits c). l \<le> k)
        \<and> (rejects c \<longrightarrow> requested_tokens c > l))"
proof -
  have ne: "finite (snd ` set (limits c))" "snd ` set (limits c) \<noteq> {}" by (auto simp: limits_def)
  obtain x where x: "argmin snd (limits c) = Some x" by (cases "argmin snd (limits c)") (auto simp: limits_def)
  have m: "x \<in> set (limits c)" "\<forall>y \<in> set (limits c). snd x \<le> snd y"
    using x argmin_mem argmin_le by fast+
  then have "Min (snd ` set (limits c)) = snd x" using ne by (intro Min_eqI) auto
  moreover have "rejects c \<longleftrightarrow> (\<exists>(n, l) \<in> set (limits c). requested_tokens c > l)"
    using ne by (auto simp: rejects_def Min_less_iff intro: rev_bexI)
  moreover have "(earliest_rejecting_layer c, snd x) \<in> set (limits c)"
    using m(1) x by (auto simp: earliest_rejecting_layer_def split: prod.splits)
  ultimately show ?thesis
    using m(2) by (intro conjI exI [of _ "snd x"]) (auto simp: rejects_def)
qed

theorem context_limit_layer_witness:
  "\<exists>l. (earliest_rejecting_layer \<lparr>requested_tokens = 9000, model_max = 32768, runtime_max = 8192, kv_capacity_tokens = 65536\<rparr>, l)
     \<in> {(''model_max'', 32768), (''runtime_max'', 8192), (''kv_capacity_tokens'', 65536)} \<and> (9000 :: int) > l"
proof -
  let ?c = "\<lparr>requested_tokens = 9000, model_max = 32768, runtime_max = 8192, kv_capacity_tokens = 65536\<rparr>"
  have "rejects ?c" by (simp add: rejects_def limits_def)
  then show ?thesis using context_limit_layer [of ?c] by (auto simp: limits_def)
qed

end
