(* ===== verification/Transition_Table.thy ===== *)
theory Transition_Table
  imports Prelude
begin

text \<open>
  The interface of the table-driven state machines (\<open>BlockRecord.transition\<close> of
  \<open>hqsb/runtime/kv.py\<close>, \<open>RequestStateMachine.transition\<close> of \<open>hqsb/runtime/trace.py\<close>): a table
  gives the successors of each state, and a machine moves only along the table.
  \<open>transition_table\<close> asks that no state is its own successor; \<open>lifecycle_table\<close> adds terminal
  states that advance only to one final state, from which nothing leaves.
\<close>

fun table_path :: "('s \<Rightarrow> 's list) \<Rightarrow> 's \<Rightarrow> 's list \<Rightarrow> bool" where
  "table_path allowed s [] = True"
| "table_path allowed s (t # ts) = (t \<in> set (allowed s) \<and> table_path allowed t ts)"

lemma table_path_append:
  "table_path allowed s (xs @ ys) \<longleftrightarrow>
     table_path allowed s xs \<and> table_path allowed (last (s # xs)) ys"
  by (induction xs arbitrary: s) auto

locale transition_table =
  fixes allowed :: "'s \<Rightarrow> 's list"
  assumes no_self_loop: "s \<notin> set (allowed s)"
begin

lemma path_no_repeat: "table_path allowed s (xs @ [t, u] @ ys) \<Longrightarrow> t \<noteq> u"
  using no_self_loop by (auto simp: table_path_append)

lemma refuses_repeat: "table_path allowed s xs \<Longrightarrow> \<not> table_path allowed s (xs @ [last (s # xs)])"
  using no_self_loop by (auto simp: table_path_append)

end

locale lifecycle_table = transition_table allowed for allowed :: "'s \<Rightarrow> 's list" +
  fixes terminal :: "'s \<Rightarrow> bool" and final :: 's
  assumes final_stuck: "allowed final = []"
    and terminal_to_final: "terminal s \<Longrightarrow> allowed s = [final]"
begin

lemma final_path: "table_path allowed final xs \<longleftrightarrow> xs = []"
  by (cases xs) (auto simp: final_stuck)

lemma terminal_path: "terminal s \<Longrightarrow> table_path allowed s xs \<longleftrightarrow> xs = [] \<or> xs = [final]"
  by (cases xs) (auto simp: terminal_to_final final_path)

text \<open>Once a terminal state is entered, the rest of the run is at most the step to \<open>final\<close>.\<close>

lemma after_terminal:
  assumes "table_path allowed s (xs @ t # ys)" and "terminal t"
  shows "ys = [] \<or> ys = [final]"
proof -
  from assms(1) have "table_path allowed t ys" by (simp add: table_path_append)
  with assms(2) show ?thesis by (simp add: terminal_path)
qed

end

end
