(* ===== verification/Kv_Pool.thy ===== *)
theory Kv_Pool
  imports Kv_Geometry Transition_Table
begin

text \<open>
  The paged block pool of \<open>hqsb/runtime/kv.py\<close> (\<open>BlockState\<close>, \<open>BlockRecord\<close>, \<open>BlockPool\<close>) and
  the eviction policies. The pool's dictionary has the keys \<open>0 .. total_blocks - 1\<close> from the start
  and never loses or gains one, so it is the list of its records; a missing key is a \<open>KeyError\<close>.
  Operations take the pool and return the result and the pool they leave, also when they raise:
  an exception does not undo the mutations made before it. The content hash \<open>blk{id}-{start}\<close> is
  the pair of its two numbers, \<open>None\<close> for the empty string; \<open>device_address\<close> is never written by
  the pool and is left out.
\<close>

section \<open>Blocks\<close>

datatype block_state =
    FREE | ALLOCATED | WRITTEN | ACTIVE | SHARED_CACHED | EVICTABLE | EVICTING | COPY_ON_WRITE | PREEMPTED

fun ALLOWED_BLOCK_TRANSITIONS :: "block_state \<Rightarrow> block_state list" where
  "ALLOWED_BLOCK_TRANSITIONS FREE = [ALLOCATED]"
| "ALLOWED_BLOCK_TRANSITIONS ALLOCATED = [WRITTEN, FREE]"
| "ALLOWED_BLOCK_TRANSITIONS WRITTEN = [ACTIVE, FREE]"
| "ALLOWED_BLOCK_TRANSITIONS ACTIVE = [SHARED_CACHED, EVICTABLE, COPY_ON_WRITE, PREEMPTED, FREE]"
| "ALLOWED_BLOCK_TRANSITIONS SHARED_CACHED = [ACTIVE, EVICTABLE, FREE]"
| "ALLOWED_BLOCK_TRANSITIONS EVICTABLE = [EVICTING, ACTIVE]"
| "ALLOWED_BLOCK_TRANSITIONS EVICTING = [FREE]"
| "ALLOWED_BLOCK_TRANSITIONS COPY_ON_WRITE = [ACTIVE, FREE]"
| "ALLOWED_BLOCK_TRANSITIONS PREEMPTED = [ACTIVE, EVICTABLE, FREE]"

interpretation block_table: transition_table ALLOWED_BLOCK_TRANSITIONS
proof unfold_locales
  show "s \<notin> set (ALLOWED_BLOCK_TRANSITIONS s)" for s by (cases s) auto
qed

record block_record =
  b_id :: int
  b_state :: block_state
  b_owner :: string
  b_ref :: int
  b_start :: int
  b_count :: int
  b_hash :: "(int \<times> int) option"
  b_hist :: "(block_state \<times> block_state \<times> string) list"
  b_readers :: "string list"

definition new_block :: "int \<Rightarrow> block_record" where
  "new_block i = \<lparr>b_id = i, b_state = FREE, b_owner = '''', b_ref = 0, b_start = 0, b_count = 0,
     b_hash = None, b_hist = [], b_readers = []\<rparr>"

definition has_live_owner :: "block_record \<Rightarrow> bool" where
  "has_live_owner b \<longleftrightarrow> b_ref b > 0 \<and> b_owner b \<noteq> ''''"

definition blk_transition :: "block_state \<Rightarrow> string \<Rightarrow> block_record \<Rightarrow> block_record res" where
  "blk_transition new_state reason b =
     (if new_state \<notin> set (ALLOWED_BLOCK_TRANSITIONS (b_state b)) then Inl (ConfigError ''transition'')
      else Inr (b\<lparr>b_hist := b_hist b @ [(b_state b, new_state, reason)], b_state := new_state\<rparr>))"

section \<open>The pool\<close>

datatype pool_event =
    Ev_reuse string int | Ev_allocate string int | Ev_share string int int | Ev_release string int
  | Ev_mark_cached string int | Ev_evict int | Ev_inject_refcount_error int

record block_pool =
  bp_block_size :: int
  bp_blocks :: "block_record list"
  bp_events :: "pool_event list"

definition new_pool :: "int \<Rightarrow> int \<Rightarrow> block_pool res" where
  "new_pool total_blocks block_size =
     (if total_blocks \<le> 0 \<or> block_size \<le> 0 then Inl (ConfigError ''total_blocks'')
      else Inr \<lparr>bp_block_size = block_size, bp_blocks = map new_block [0 .. total_blocks - 1], bp_events = []\<rparr>)"

definition valid_id :: "block_pool \<Rightarrow> int \<Rightarrow> bool" where
  "valid_id p k \<longleftrightarrow> 0 \<le> k \<and> k < int (length (bp_blocks p))"

definition blk :: "block_pool \<Rightarrow> int \<Rightarrow> block_record" where
  "blk p k = bp_blocks p ! nat k"

definition put :: "int \<Rightarrow> block_record \<Rightarrow> block_pool \<Rightarrow> block_pool" where
  "put k b p = p\<lparr>bp_blocks := (bp_blocks p)[nat k := b]\<rparr>"

definition emit :: "pool_event \<Rightarrow> block_pool \<Rightarrow> block_pool" where
  "emit e p = p\<lparr>bp_events := bp_events p @ [e]\<rparr>"

definition ids_where :: "(block_record \<Rightarrow> bool) \<Rightarrow> block_pool \<Rightarrow> int list" where
  "ids_where P p = filter (\<lambda>k. P (blk p k)) [0 .. int (length (bp_blocks p)) - 1]"

definition free_blocks :: "block_pool \<Rightarrow> int list" where
  "free_blocks = ids_where (\<lambda>b. b_state b = FREE)"

definition used_blocks :: "block_pool \<Rightarrow> int list" where
  "used_blocks = ids_where (\<lambda>b. b_state b \<noteq> FREE)"

definition cached_blocks :: "block_pool \<Rightarrow> int list" where
  "cached_blocks = ids_where (\<lambda>b. b_state b \<in> {SHARED_CACHED, EVICTABLE})"

definition blocks_of :: "string \<Rightarrow> block_pool \<Rightarrow> int list" where
  "blocks_of request_id = ids_where (\<lambda>b. request_id \<in> set (b_readers b) \<or> b_owner b = request_id)"

text \<open>One block of the pool moved along the transition table.\<close>

definition move :: "int \<Rightarrow> block_state \<Rightarrow> string \<Rightarrow> (block_pool, unit) op" where
  "move k new_state reason p =
     (if \<not> valid_id p k then (Inl KeyError, p)
      else case blk_transition new_state reason (blk p k) of
        Inl e \<Rightarrow> (Inl e, p) | Inr b \<Rightarrow> (Inr (), put k b p))"

subsection \<open>Allocation\<close>

definition reuse_one :: "string \<Rightarrow> int \<Rightarrow> (block_pool, unit) op" where
  "reuse_one request_id k p =
     (if \<not> valid_id p k then (Inl KeyError, p)
      else case blk_transition ACTIVE ''reuse'' (blk p k) of
        Inl e \<Rightarrow> (Inl e, p)
      | Inr b \<Rightarrow> (Inr (), emit (Ev_reuse request_id k)
                           (put k (b\<lparr>b_readers := b_readers b @ [request_id]\<rparr>) p)))"

definition alloc_one :: "string \<Rightarrow> int \<Rightarrow> int \<Rightarrow> int \<Rightarrow> int \<Rightarrow> (block_pool, unit) op" where
  "alloc_one request_id token_start token_count chosen k p =
     (if \<not> valid_id p k then (Inl KeyError, p)
      else case blk_transition ALLOCATED ''allocate'' (blk p k) of
        Inl e \<Rightarrow> (Inl e, p)
      | Inr b \<Rightarrow>
          let start = token_start + chosen * bp_block_size p;
              b1 = b\<lparr>b_owner := request_id, b_ref := 1,
                     b_readers := (if request_id \<in> set (b_readers b) then b_readers b
                                   else b_readers b @ [request_id]),
                     b_start := start,
                     b_count := min (bp_block_size p) (max (token_count - chosen * bp_block_size p) 0)\<rparr>
          in case blk_transition WRITTEN ''write'' b1 of
               Inl e \<Rightarrow> (Inl e, put k b1 p)
             | Inr b2 \<Rightarrow> (Inr (), emit (Ev_allocate request_id k) (put k (b2\<lparr>b_hash := Some (k, start)\<rparr>) p)))"

fun alloc_loop ::
  "string \<Rightarrow> int \<Rightarrow> int \<Rightarrow> int \<Rightarrow> int list \<Rightarrow> int list \<Rightarrow> (block_pool, int list) op" where
  "alloc_loop request_id token_start token_count needed [] chosen p = (Inr chosen, p)"
| "alloc_loop request_id token_start token_count needed (k # ks) chosen p =
     (if int (length chosen) = needed then (Inr chosen, p)
      else case alloc_one request_id token_start token_count (int (length chosen)) k p of
        (Inl e, p') \<Rightarrow> (Inl e, p')
      | (Inr _, p') \<Rightarrow> alloc_loop request_id token_start token_count needed ks (chosen @ [k]) p')"

definition allocate :: "string \<Rightarrow> int \<Rightarrow> int \<Rightarrow> int list \<Rightarrow> (block_pool, int list) op" where
  "allocate request_id token_start token_count reuse p =
     (if request_id = '''' then (Inl (ConfigError ''request_id''), p)
      else case blocks_for token_count (bp_block_size p) of
        Inl e \<Rightarrow> (Inl e, p)
      | Inr needed \<Rightarrow>
        if int (length reuse) > needed then (Inl (ConfigError ''reuse''), p)
        else case for_op (reuse_one request_id) reuse p of
          (Inl e, p1) \<Rightarrow> (Inl e, p1)
        | (Inr _, p1) \<Rightarrow>
          (case alloc_loop request_id token_start token_count needed (free_blocks p1) reuse p1 of
            (Inl e, p2) \<Rightarrow> (Inl e, p2)
          | (Inr chosen, p2) \<Rightarrow>
            if int (length chosen) < needed then (Inl (ConfigError ''total_blocks''), p2)
            else case for_op (\<lambda>k. move k ACTIVE ''activate'') (drop (length reuse) chosen) p2 of
              (Inl e, p3) \<Rightarrow> (Inl e, p3)
            | (Inr _, p3) \<Rightarrow> (Inr chosen, p3)))"

subsection \<open>Sharing, release, retention, eviction\<close>

definition require_live :: "int \<Rightarrow> block_pool \<Rightarrow> block_record res" where
  "require_live k p =
     (if \<not> valid_id p k then Inl (ConfigError ''unknown_block'')
      else if b_state (blk p k) = FREE then Inl (ConfigError ''use_after_free'')
      else Inr (blk p k))"

definition share :: "int \<Rightarrow> string \<Rightarrow> (block_pool, unit) op" where
  "share k request_id p =
     (case require_live k p of
        Inl e \<Rightarrow> (Inl e, p)
      | Inr b \<Rightarrow>
          let b1 = b\<lparr>b_ref := b_ref b + 1,
                     b_readers := (if request_id \<in> set (b_readers b) then b_readers b
                                   else b_readers b @ [request_id])\<rparr>
          in if b_state b1 = EVICTABLE then
               (case blk_transition ACTIVE ''reader-attached'' b1 of
                  Inl e \<Rightarrow> (Inl e, put k b1 p)
                | Inr b2 \<Rightarrow> (Inr (), emit (Ev_share request_id k (b_ref b2)) (put k b2 p)))
             else (Inr (), emit (Ev_share request_id k (b_ref b1)) (put k b1 p)))"

definition release_one :: "string \<Rightarrow> int \<Rightarrow> (block_pool, unit) op" where
  "release_one request_id k p =
     (if \<not> valid_id p k then (Inl KeyError, p)
      else
        let b = blk p k;
            b1 = b\<lparr>b_readers := remove1 request_id (b_readers b), b_ref := max (b_ref b - 1) 0\<rparr>;
            p1 = emit (Ev_release request_id k) (put k b1 p)
        in if b_ref b1 \<noteq> 0 then (Inr (), p1)
           else
             let b2 = (if b_owner b1 = request_id then b1\<lparr>b_owner := ''''\<rparr> else b1);
                 p2 = put k b2 p1
             in if b_state b2 = PREEMPTED then move k EVICTABLE ''release-preempted'' p2
                else if b_state b2 = ACTIVE \<or> b_state b2 = SHARED_CACHED then
                  move k (if b_hash b2 \<noteq> None then EVICTABLE else FREE) ''release'' p2
                else if b_state b2 = EVICTABLE then (Inr (), p2)
                else move k FREE ''release'' p2)"

definition release :: "string \<Rightarrow> int list option \<Rightarrow> (block_pool, unit) op" where
  "release request_id block_ids p =
     for_op (release_one request_id)
       (case block_ids of Some ids \<Rightarrow> ids | None \<Rightarrow> blocks_of request_id p) p"

definition mark_cached :: "int \<Rightarrow> string \<Rightarrow> (block_pool, unit) op" where
  "mark_cached k request_id p =
     (if \<not> valid_id p k then (Inl KeyError, p)
      else if request_id \<notin> set (b_readers (blk p k)) then (Inl (ConfigError ''not_a_reader''), p)
      else move k SHARED_CACHED ''prefix-cache-retain'' (emit (Ev_mark_cached request_id k) p))"

definition evict :: "int \<Rightarrow> (block_pool, unit) op" where
  "evict k p =
     (if \<not> valid_id p k then (Inl KeyError, p)
      else let b = blk p k in
        if b_state b = ACTIVE \<or> b_ref b > 0 then (Inl (ConfigError ''evict_live''), p)
        else if b_state b \<noteq> EVICTABLE then (Inl (ConfigError ''not_evictable''), p)
        else case blk_transition EVICTING ''evict'' b of
          Inl e \<Rightarrow> (Inl e, p)
        | Inr b1 \<Rightarrow>
            let b2 = b1\<lparr>b_hash := None, b_owner := ''''\<rparr>
            in case blk_transition FREE ''evict-done'' b2 of
                 Inl e \<Rightarrow> (Inl e, put k b2 p)
               | Inr b3 \<Rightarrow> (Inr (), emit (Ev_evict k) (put k b3 p)))"

subsection \<open>The pool's own invariant check and the fault fixtures\<close>

datatype pool_problem =
    Free_with_owner int | Free_with_readers int | Transient_state int | Negative_refcount int
  | Live_without_owner int | Refcount_mismatch int

definition block_problems :: "int \<Rightarrow> block_record \<Rightarrow> pool_problem list" where
  "block_problems k b =
     (if b_state b = FREE \<and> has_live_owner b then [Free_with_owner k] else [])
   @ (if b_state b = FREE \<and> b_readers b \<noteq> [] then [Free_with_readers k] else [])
   @ (if b_state b = ALLOCATED \<or> b_state b = WRITTEN then [Transient_state k] else [])
   @ (if b_ref b < 0 then [Negative_refcount k] else [])
   @ (if (b_state b = ACTIVE \<or> b_state b = SHARED_CACHED)
         \<and> \<not> (b_owner b \<noteq> '''' \<or> b_readers b \<noteq> [] \<or> b_hash b \<noteq> None) then [Live_without_owner k] else [])
   @ (if b_state b \<noteq> FREE \<and> b_ref b \<noteq> int (length (b_readers b)) then [Refcount_mismatch k] else [])"

record pool_report =
  rep_ok :: bool
  rep_problems :: "pool_problem list"
  rep_free :: int
  rep_used :: int
  rep_cached :: int
  rep_blocks :: int

definition invariant_report :: "block_pool \<Rightarrow> pool_report" where
  "invariant_report p =
     (let problems = concat (map (\<lambda>k. block_problems k (blk p k)) [0 .. int (length (bp_blocks p)) - 1])
      in \<lparr>rep_ok = (problems = []), rep_problems = problems,
          rep_free = int (length (free_blocks p)), rep_used = int (length (used_blocks p)),
          rep_cached = int (length (cached_blocks p)), rep_blocks = int (length (bp_blocks p))\<rparr>)"

datatype double_free_verdict = DOUBLE_FREE_ABSORBED | DOUBLE_FREE_CORRUPTED_POOL

definition inject_double_free :: "string \<Rightarrow> (block_pool, double_free_verdict) op" where
  "inject_double_free request_id p =
     (case release request_id None p of
        (Inl e, p1) \<Rightarrow> (Inl e, p1)
      | (Inr _, p1) \<Rightarrow>
          (case release request_id None p1 of
             (Inl e, p2) \<Rightarrow> (Inl e, p2)
           | (Inr _, p2) \<Rightarrow>
               (Inr (if rep_ok (invariant_report p1) \<and> rep_ok (invariant_report p2)
                     then DOUBLE_FREE_ABSORBED else DOUBLE_FREE_CORRUPTED_POOL), p2)))"

definition inject_refcount_error :: "int \<Rightarrow> (block_pool, unit) op" where
  "inject_refcount_error k p =
     (if \<not> valid_id p k then (Inl KeyError, p)
      else (Inr (), emit (Ev_inject_refcount_error k)
                      (put k ((blk p k)\<lparr>b_ref := b_ref (blk p k) + 1\<rparr>) p)))"

datatype stale_verdict = STALE_ID_REJECTED | BLOCK_STILL_LIVE | STALE_ID_ACCEPTED

definition inject_stale_id_access :: "int \<Rightarrow> block_pool \<Rightarrow> stale_verdict" where
  "inject_stale_id_access k p =
     (if \<not> valid_id p k then STALE_ID_REJECTED
      else if b_state (blk p k) \<noteq> FREE then BLOCK_STILL_LIVE
      else case require_live k p of Inl _ \<Rightarrow> STALE_ID_REJECTED | Inr _ \<Rightarrow> STALE_ID_ACCEPTED)"

section \<open>Eviction policies\<close>

record eviction_candidate =
  ec_block_id :: int
  ec_last_use_iteration :: int
  ec_reuse_count :: int
  ec_bytes_value :: rat
  ec_pinned :: bool

definition select_evictions ::
  "eviction_candidate list \<Rightarrow> string \<Rightarrow> int \<Rightarrow> eviction_candidate list res" where
  "select_evictions candidates policy limit =
     (let unpinned = filter (\<lambda>c. \<not> ec_pinned c) candidates in
      if policy = ''lru'' then
        Inr (take (nat (max limit 0)) (sort_key (\<lambda>c. (ec_last_use_iteration c, ec_block_id c)) unpinned))
      else if policy = ''lru_reuse_aware'' then
        Inr (take (nat (max limit 0))
          (sort_key (\<lambda>c. (ec_reuse_count c, ec_last_use_iteration c, ec_block_id c)) unpinned))
      else Inl (ConfigError ''policy''))"

end
