(* ===== verification/Refcounted_Store.thy ===== *)
theory Refcounted_Store
  imports Errors
begin

text \<open>
  The contract between a store of reference-counted entries (KV blocks, cached prefixes) and its
  clients: steps keep an invariant, and an entry is reclaimed only when nobody reads it. The client
  lemmas are proved once here and used for the block pool and for the prefix cache.
\<close>

locale refcounted_store =
  fixes inv :: "'s \<Rightarrow> bool"
    and readers :: "'s \<Rightarrow> 'i \<Rightarrow> string list"
    and step :: "'s \<Rightarrow> 's \<Rightarrow> bool"
    and reclaim :: "'i \<Rightarrow> 's \<Rightarrow> unit res \<times> 's"
  assumes step_inv: "step s t \<Longrightarrow> inv s \<Longrightarrow> inv t"
    and reclaim_unread: "inv s \<Longrightarrow> reclaim i s = (Inr (), t) \<Longrightarrow> readers s i = []"
    and reclaim_inv: "inv s \<Longrightarrow> reclaim i s = (r, t) \<Longrightarrow> inv t"
begin

lemma steps_inv: "step\<^sup>*\<^sup>* s t \<Longrightarrow> inv s \<Longrightarrow> inv t"
  by (induction rule: rtranclp_induct) (auto intro: step_inv)

lemma reclaim_after_steps:
  assumes "step\<^sup>*\<^sup>* s t" "inv s" "reclaim i t = (Inr (), u)"
  shows "readers t i = []"
  using assms steps_inv reclaim_unread by blast

text \<open>As long as a reader holds an entry, reclaiming it is refused.\<close>

lemma held_entry_refused:
  assumes "step\<^sup>*\<^sup>* s t" "inv s" "readers t i \<noteq> []"
  shows "\<exists>e u. reclaim i t = (Inl e, u)"
proof -
  obtain r u where ru: "reclaim i t = (r, u)" by fastforce
  then have "r \<noteq> Inr ()" using assms reclaim_after_steps by blast
  with ru show ?thesis by (cases r) auto
qed

end

end
