(* ===== verification/Kv_Pool_Inv.thy ===== *)
theory Kv_Pool_Inv
  imports Kv_Pool Refcounted_Store
begin

text \<open>
  Invariant of the block pool and what each operation does to it. \<open>pool_wf\<close> strengthens the pool's
  own \<open>invariant_report\<close> (readers are distinct, the reference count is the number of readers in every
  state) so that it is inductive; each operation has a preservation lemma, and \<open>pool_step\<close> collects
  the operations as a disciplined client calls them.
\<close>

section \<open>Access to single blocks\<close>

lemma put_simps [simp]:
  "bp_block_size (put k b p) = bp_block_size p"
  "bp_events (put k b p) = bp_events p"
  "length (bp_blocks (put k b p)) = length (bp_blocks p)"
  "valid_id (put k b p) j = valid_id p j"
  by (simp_all add: put_def valid_id_def)

lemma emit_simps [simp]:
  "bp_block_size (emit e p) = bp_block_size p"
  "bp_blocks (emit e p) = bp_blocks p"
  "valid_id (emit e p) j = valid_id p j"
  "blk (emit e p) j = blk p j"
  by (simp_all add: emit_def valid_id_def blk_def)

lemma blk_put [simp]:
  assumes "valid_id p k" "valid_id p j"
  shows "blk (put k b p) j = (if j = k then b else blk p j)"
  using assms by (auto simp: blk_def put_def valid_id_def nth_list_update nat_eq_iff2)

lemma put_put [simp]: "put k b (put k b' p) = put k b p"
  by (simp add: put_def)

lemma put_emit: "put k b (emit e p) = emit e (put k b p)"
  by (simp add: put_def emit_def)

lemma set_bp_blocks: "set (bp_blocks p) = {blk p k |k. valid_id p k}"
proof -
  have "b \<in> {blk p k |k. valid_id p k}" if b: "b \<in> set (bp_blocks p)" for b
  proof -
    from b obtain i where "i < length (bp_blocks p)" "b = bp_blocks p ! i"
      by (auto simp: in_set_conv_nth)
    then have "b = blk p (int i)" "valid_id p (int i)" by (auto simp: blk_def valid_id_def)
    then show ?thesis by blast
  qed
  moreover have "blk p k \<in> set (bp_blocks p)" if "valid_id p k" for k
    using that by (auto simp: blk_def valid_id_def)
  ultimately show ?thesis by blast
qed

lemma set_ids_where: "set (ids_where P p) = {k. valid_id p k \<and> P (blk p k)}"
  by (auto simp: ids_where_def valid_id_def)

lemma distinct_ids_where [simp]: "distinct (ids_where P p)"
  by (simp add: ids_where_def)

lemma mem_free_blocks: "k \<in> set (free_blocks p) \<longleftrightarrow> valid_id p k \<and> b_state (blk p k) = FREE"
  by (simp add: free_blocks_def set_ids_where)

lemma free_used_partition:
  "length (free_blocks p) + length (used_blocks p) = length (bp_blocks p)"
proof -
  have "length [0 .. int (length (bp_blocks p)) - 1] = length (bp_blocks p)" by simp
  then show ?thesis
    using length_filter_partition [of "\<lambda>k. b_state (blk p k) = FREE" "[0 .. int (length (bp_blocks p)) - 1]"]
    by (simp add: free_blocks_def used_blocks_def ids_where_def)
qed

section \<open>The invariant\<close>

definition block_wf :: "block_record \<Rightarrow> bool" where
  "block_wf b \<longleftrightarrow> b_ref b = int (length (b_readers b)) \<and> distinct (b_readers b)
     \<and> (b_state b = FREE \<longrightarrow> b_readers b = [])
     \<and> b_state b \<noteq> ALLOCATED \<and> b_state b \<noteq> WRITTEN
     \<and> (b_state b \<in> {ACTIVE, SHARED_CACHED} \<longrightarrow> b_owner b \<noteq> '''' \<or> b_readers b \<noteq> [] \<or> b_hash b \<noteq> None)"

definition pool_wf :: "block_pool \<Rightarrow> bool" where
  "pool_wf p \<longleftrightarrow> 0 < bp_block_size p \<and> (\<forall>k. valid_id p k \<longrightarrow> block_wf (blk p k))"

lemma pool_wf_blk: "pool_wf p \<Longrightarrow> valid_id p k \<Longrightarrow> block_wf (blk p k)"
  by (simp add: pool_wf_def)

lemma pool_wf_put: "pool_wf p \<Longrightarrow> valid_id p k \<Longrightarrow> block_wf b \<Longrightarrow> pool_wf (put k b p)"
  by (auto simp: pool_wf_def)

lemma pool_wf_emit [simp]: "pool_wf (emit e p) = pool_wf p"
  by (simp add: pool_wf_def)

lemma block_wf_no_problems: "block_wf b \<Longrightarrow> block_problems k b = []"
  by (auto simp: block_wf_def block_problems_def has_live_owner_def)

lemma report_ok_iff: "rep_ok (invariant_report p) \<longleftrightarrow> (\<forall>k. valid_id p k \<longrightarrow> block_problems k (blk p k) = [])"
  by (auto simp: invariant_report_def Let_def valid_id_def)

lemma pool_wf_report: "pool_wf p \<Longrightarrow> rep_ok (invariant_report p)"
  by (simp add: report_ok_iff pool_wf_blk block_wf_no_problems)

lemma new_pool_wf: "new_pool n bs = Inr p \<Longrightarrow> pool_wf p"
  by (auto simp: new_pool_def pool_wf_def valid_id_def blk_def new_block_def block_wf_def split: if_splits)

section \<open>Transitions\<close>

lemma blk_transition_ok:
  "new \<in> set (ALLOWED_BLOCK_TRANSITIONS (b_state b)) \<Longrightarrow>
   blk_transition new r b = Inr (b\<lparr>b_hist := b_hist b @ [(b_state b, new, r)], b_state := new\<rparr>)"
  by (simp add: blk_transition_def)

lemma blk_transition_Inr:
  assumes "blk_transition new r b = Inr b'"
  shows "b' = b\<lparr>b_hist := b_hist b @ [(b_state b, new, r)], b_state := new\<rparr>"
    and "new \<in> set (ALLOWED_BLOCK_TRANSITIONS (b_state b))"
  using assms by (auto simp: blk_transition_def split: if_splits)

lemma move_effect:
  assumes "move k new r p = (res, q)"
  shows "(\<exists>e. res = Inl e) \<and> q = p
     \<or> res = Inr () \<and> valid_id p k \<and> new \<in> set (ALLOWED_BLOCK_TRANSITIONS (b_state (blk p k)))
       \<and> q = put k ((blk p k)\<lparr>b_hist := b_hist (blk p k) @ [(b_state (blk p k), new, r)], b_state := new\<rparr>) p"
  using assms
  by (auto simp: move_def split: if_splits sum.splits dest: blk_transition_Inr)

section \<open>Allocation\<close>

text \<open>What allocation writes into a free block, and what activation makes of it.\<close>

definition written_block :: "string \<Rightarrow> int \<Rightarrow> int \<Rightarrow> int \<Rightarrow> int \<Rightarrow> int \<Rightarrow> block_record \<Rightarrow> block_record" where
  "written_block rid ts tc bs n k b = b\<lparr>b_state := WRITTEN, b_owner := rid, b_ref := 1, b_readers := [rid],
     b_start := ts + n * bs, b_count := min bs (max (tc - n * bs) 0), b_hash := Some (k, ts + n * bs),
     b_hist := b_hist b @ [(FREE, ALLOCATED, ''allocate''), (ALLOCATED, WRITTEN, ''write'')]\<rparr>"

definition active_block :: "block_record \<Rightarrow> block_record" where
  "active_block b = b\<lparr>b_state := ACTIVE, b_hist := b_hist b @ [(WRITTEN, ACTIVE, ''activate'')]\<rparr>"

lemma alloc_one_free:
  assumes "valid_id p k" "b_state (blk p k) = FREE" "b_readers (blk p k) = []"
  shows "alloc_one rid ts tc n k p =
     (Inr (), emit (Ev_allocate rid k) (put k (written_block rid ts tc (bp_block_size p) n k (blk p k)) p))"
  using assms by (cases "blk p k") (simp add: alloc_one_def blk_transition_def Let_def written_block_def)

definition fresh_ids :: "block_pool \<Rightarrow> int list \<Rightarrow> bool" where
  "fresh_ids p ks \<longleftrightarrow> distinct ks \<and>
     (\<forall>k \<in> set ks. valid_id p k \<and> b_state (blk p k) = FREE \<and> b_readers (blk p k) = [])"

lemma fresh_free_blocks: "pool_wf p \<Longrightarrow> fresh_ids p (free_blocks p)"
  by (auto simp: fresh_ids_def mem_free_blocks free_blocks_def dest: pool_wf_blk simp: block_wf_def set_ids_where)

text \<open>The pools that differ only in the blocks of a list of identifiers.\<close>

definition same_except :: "int set \<Rightarrow> block_pool \<Rightarrow> block_pool \<Rightarrow> bool" where
  "same_except K p q \<longleftrightarrow> bp_block_size q = bp_block_size p \<and> length (bp_blocks q) = length (bp_blocks p)
     \<and> (\<forall>j. valid_id p j \<and> j \<notin> K \<longrightarrow> blk q j = blk p j)"

lemma same_except_valid: "same_except K p q \<Longrightarrow> valid_id q j = valid_id p j"
  by (simp add: same_except_def valid_id_def)

lemma same_except_refl [simp]: "same_except K p p"
  by (simp add: same_except_def)

lemma same_except_put: "valid_id p k \<Longrightarrow> k \<in> K \<Longrightarrow> same_except K p (put k b p)"
  by (auto simp: same_except_def)

lemma same_except_emit [simp]: "same_except K p (emit e q) = same_except K p q"
  by (simp add: same_except_def)

lemma same_except_trans:
  "same_except K p q \<Longrightarrow> same_except K q r \<Longrightarrow> same_except K p r"
  by (auto simp: same_except_def valid_id_def)

lemma same_except_mono: "same_except K p q \<Longrightarrow> K \<subseteq> L \<Longrightarrow> same_except L p q"
  by (auto simp: same_except_def)

lemma alloc_loop_spec:
  assumes "fresh_ids p ks" and "int (length chosen) \<le> needed"
  shows "\<exists>q. alloc_loop rid ts tc needed ks chosen p = (Inr (chosen @ take (nat needed - length chosen) ks), q)
    \<and> same_except (set (take (nat needed - length chosen) ks)) p q
    \<and> (\<forall>i < min (nat needed - length chosen) (length ks).
         blk q (ks ! i) = written_block rid ts tc (bp_block_size p) (int (length chosen + i)) (ks ! i) (blk p (ks ! i)))"
  using assms
proof (induction ks arbitrary: chosen p)
  case Nil
  then show ?case by simp
next
  case (Cons k ks)
  show ?case
  proof (cases "int (length chosen) = needed")
    case True
    then show ?thesis by auto
  next
    case False
    define m where "m = nat needed - length chosen"
    have m: "m = Suc (nat needed - length (chosen @ [k]))" using False Cons.prems(2) by (simp add: m_def)
    have k: "valid_id p k" "b_state (blk p k) = FREE" "b_readers (blk p k) = []" "k \<notin> set ks"
      using Cons.prems(1) by (auto simp: fresh_ids_def)
    define w where "w = written_block rid ts tc (bp_block_size p) (int (length chosen)) k (blk p k)"
    define p1 where "p1 = emit (Ev_allocate rid k) (put k w p)"
    have one: "alloc_one rid ts tc (int (length chosen)) k p = (Inr (), p1)"
      unfolding p1_def w_def using k by (intro alloc_one_free)
    have "fresh_ids p1 ks" using Cons.prems(1) k by (auto simp: fresh_ids_def p1_def)
    then obtain q where q: "alloc_loop rid ts tc needed ks (chosen @ [k]) p1 = (Inr ((chosen @ [k]) @ take (m - 1) ks), q)"
      "same_except (set (take (m - 1) ks)) p1 q"
      "\<forall>i < min (m - 1) (length ks). blk q (ks ! i) =
         written_block rid ts tc (bp_block_size p1) (int (length (chosen @ [k]) + i)) (ks ! i) (blk p1 (ks ! i))"
      using Cons.IH [of p1 "chosen @ [k]"] False Cons.prems(2) m by auto
    have sp1: "same_except {k} p p1" using k by (simp add: p1_def same_except_put)
    have bq: "blk q k = w"
      using q(2) k by (auto simp: same_except_def p1_def dest: in_set_takeD)
    have rest: "blk q (ks ! i) = written_block rid ts tc (bp_block_size p) (int (length chosen + Suc i)) (ks ! i) (blk p (ks ! i))"
      if "i < m - 1" "i < length ks" for i
    proof -
      have "ks ! i \<noteq> k" "valid_id p (ks ! i)" using k Cons.prems(1) that by (auto simp: fresh_ids_def)
      then show ?thesis using q(3) that k by (simp add: p1_def)
    qed
    have "\<forall>i < min m (length (k # ks)). blk q ((k # ks) ! i) =
        written_block rid ts tc (bp_block_size p) (int (length chosen + i)) ((k # ks) ! i) (blk p ((k # ks) ! i))"
      using bq rest by (auto simp: nth_Cons w_def add_ac split: nat.splits)
    moreover have "same_except (set (take m (k # ks))) p q"
    proof (rule same_except_trans)
      show "same_except (set (take m (k # ks))) p p1" by (rule same_except_mono [OF sp1]) (simp add: m)
      show "same_except (set (take m (k # ks))) p1 q" by (rule same_except_mono [OF q(2)]) (auto simp: m)
    qed
    ultimately show ?thesis
      using q(1) one False m by (intro exI [of _ q]) (auto simp: m_def [symmetric])
  qed
qed

lemma activate_spec:
  assumes "distinct ks" and "\<forall>k \<in> set ks. valid_id p k \<and> b_state (blk p k) = WRITTEN"
  shows "\<exists>q. for_op (\<lambda>k. move k ACTIVE ''activate'') ks p = (Inr (), q) \<and> same_except (set ks) p q
    \<and> (\<forall>k \<in> set ks. blk q k = active_block (blk p k))"
  using assms
proof (induction ks arbitrary: p)
  case Nil
  then show ?case by simp
next
  case (Cons k ks)
  have mv: "move k ACTIVE ''activate'' p = (Inr (), put k (active_block (blk p k)) p)"
    using Cons.prems by (cases "blk p k") (simp add: move_def blk_transition_def active_block_def)
  define p1 where "p1 = put k (active_block (blk p k)) p"
  have "\<forall>j \<in> set ks. valid_id p1 j \<and> b_state (blk p1 j) = WRITTEN"
    using Cons.prems by (auto simp: p1_def)
  then obtain q where q: "for_op (\<lambda>k. move k ACTIVE ''activate'') ks p1 = (Inr (), q)"
    "same_except (set ks) p1 q" "\<forall>j \<in> set ks. blk q j = active_block (blk p1 j)"
    using Cons.IH [of p1] Cons.prems(1) by auto
  have "blk q k = active_block (blk p k)"
    using q(2) Cons.prems by (auto simp: same_except_def p1_def)
  moreover have "\<forall>j \<in> set ks. blk q j = active_block (blk p j)"
    using q(3) Cons.prems by (auto simp: p1_def)
  moreover have "same_except (set (k # ks)) p q"
  proof (rule same_except_trans)
    show "same_except (set (k # ks)) p p1" using Cons.prems by (simp add: p1_def same_except_put)
    show "same_except (set (k # ks)) p1 q" by (rule same_except_mono [OF q(2)]) auto
  qed
  ultimately show ?case using mv q(1) by (auto simp: p1_def [symmetric])
qed

text \<open>The number of blocks a request needs, when the token count is in the exact range.\<close>

lemma allocate_needed:
  assumes "pool_wf p" "0 \<le> tc" "tc < 2 ^ 53"
  shows "blocks_for tc (bp_block_size p) = Inr (exact_blocks tc (bp_block_size p))"
    and "0 \<le> exact_blocks tc (bp_block_size p)"
  using assms blocks_for_exact [of tc "bp_block_size p"] exact_blocks_nonneg [of tc "bp_block_size p"]
  by (auto simp: pool_wf_def)

lemma alloc_on_free:
  assumes wf: "pool_wf p" and n: "0 \<le> n"
  obtains q where
    "alloc_loop rid ts tc n (free_blocks p) [] p = (Inr (take (nat n) (free_blocks p)), q)"
    "same_except (set (take (nat n) (free_blocks p))) p q"
    "\<And>i. i < nat n \<Longrightarrow> i < length (free_blocks p) \<Longrightarrow> blk q (free_blocks p ! i) =
       written_block rid ts tc (bp_block_size p) (int i) (free_blocks p ! i) (blk p (free_blocks p ! i))"
  using alloc_loop_spec [OF fresh_free_blocks [OF wf], of "[]" n rid ts tc] n by auto

lemma take_free_valid: "k \<in> set (take m (free_blocks p)) \<Longrightarrow> valid_id p k"
  by (auto dest!: in_set_takeD simp: mem_free_blocks)

lemma distinct_free [simp]: "distinct (free_blocks p)"
  by (simp add: free_blocks_def)

lemma in_take_nth: "k \<in> set (take m xs) \<Longrightarrow> \<exists>i < m. i < length xs \<and> k = xs ! i"
  by (auto simp: in_set_conv_nth)

text \<open>A successful allocation: exactly the first free blocks, in order, each owned by the request.\<close>

lemma allocate_success:
  assumes wf: "pool_wf p" and rid: "rid \<noteq> ''''" and tc: "0 \<le> tc" "tc < 2 ^ 53"
    and room: "exact_blocks tc (bp_block_size p) \<le> int (length (free_blocks p))"
  obtains q where
    "allocate rid ts tc [] p = (Inr (take (nat (exact_blocks tc (bp_block_size p))) (free_blocks p)), q)"
    "same_except (set (take (nat (exact_blocks tc (bp_block_size p))) (free_blocks p))) p q"
    "\<And>i. i < nat (exact_blocks tc (bp_block_size p)) \<Longrightarrow> blk q (free_blocks p ! i) =
       active_block (written_block rid ts tc (bp_block_size p) (int i) (free_blocks p ! i) (blk p (free_blocks p ! i)))"
proof -
  define n where "n = exact_blocks tc (bp_block_size p)"
  note need = allocate_needed [OF wf tc]
  obtain q1 where q1:
    "alloc_loop rid ts tc n (free_blocks p) [] p = (Inr (take (nat n) (free_blocks p)), q1)"
    "same_except (set (take (nat n) (free_blocks p))) p q1"
    "\<And>i. i < nat n \<Longrightarrow> i < length (free_blocks p) \<Longrightarrow> blk q1 (free_blocks p ! i) =
       written_block rid ts tc (bp_block_size p) (int i) (free_blocks p ! i) (blk p (free_blocks p ! i))"
    using alloc_on_free [OF wf need(2), folded n_def] by blast
  have "\<forall>k \<in> set (take (nat n) (free_blocks p)). valid_id q1 k \<and> b_state (blk q1 k) = WRITTEN"
    using q1 by (auto simp: same_except_valid take_free_valid written_block_def dest!: in_take_nth)
  then obtain q where q: "for_op (\<lambda>k. move k ACTIVE ''activate'') (take (nat n) (free_blocks p)) q1 = (Inr (), q)"
    "same_except (set (take (nat n) (free_blocks p))) q1 q"
    "\<forall>k \<in> set (take (nat n) (free_blocks p)). blk q k = active_block (blk q1 k)"
    using activate_spec [of "take (nat n) (free_blocks p)" q1] by auto
  have "allocate rid ts tc [] p = (Inr (take (nat n) (free_blocks p)), q)"
    using rid need q1(1) q(1) room by (simp add: allocate_def n_def [symmetric])
  moreover have "same_except (set (take (nat n) (free_blocks p))) p q"
    using q1(2) q(2) by (rule same_except_trans)
  moreover have "blk q (free_blocks p ! i) =
       active_block (written_block rid ts tc (bp_block_size p) (int i) (free_blocks p ! i) (blk p (free_blocks p ! i)))"
    if "i < nat n" for i
  proof -
    have "i < length (free_blocks p)" using that room by (simp add: n_def)
    moreover from this that have "free_blocks p ! i \<in> set (take (nat n) (free_blocks p))"
      by (auto simp: in_set_conv_nth intro!: exI [of _ i])
    ultimately show ?thesis using q(3) q1(3) that by simp
  qed
  ultimately show thesis using that unfolding n_def by blast
qed

text \<open>Exhaustion: every free block has been taken and is left in the transient \<open>WRITTEN\<close> state.\<close>

lemma allocate_exhausted:
  assumes wf: "pool_wf p" and rid: "rid \<noteq> ''''" and tc: "0 \<le> tc" "tc < 2 ^ 53"
    and full: "int (length (free_blocks p)) < exact_blocks tc (bp_block_size p)"
  obtains q where "allocate rid ts tc [] p = (Inl (ConfigError ''total_blocks''), q)"
    "same_except (set (free_blocks p)) p q"
    "\<And>i. i < length (free_blocks p) \<Longrightarrow> blk q (free_blocks p ! i) =
       written_block rid ts tc (bp_block_size p) (int i) (free_blocks p ! i) (blk p (free_blocks p ! i))"
proof -
  define n where "n = exact_blocks tc (bp_block_size p)"
  note need = allocate_needed [OF wf tc]
  obtain q1 where q1:
    "alloc_loop rid ts tc n (free_blocks p) [] p = (Inr (take (nat n) (free_blocks p)), q1)"
    "same_except (set (take (nat n) (free_blocks p))) p q1"
    "\<And>i. i < nat n \<Longrightarrow> i < length (free_blocks p) \<Longrightarrow> blk q1 (free_blocks p ! i) =
       written_block rid ts tc (bp_block_size p) (int i) (free_blocks p ! i) (blk p (free_blocks p ! i))"
    using alloc_on_free [OF wf need(2), folded n_def] by blast
  have t: "take (nat n) (free_blocks p) = free_blocks p" using full by (simp add: n_def)
  have "allocate rid ts tc [] p = (Inl (ConfigError ''total_blocks''), q1)"
    using rid need q1(1) full by (simp add: allocate_def n_def [symmetric] t)
  then show thesis using that q1 full by (simp add: t n_def)
qed

lemma allocated_block_wf: "rid \<noteq> '''' \<Longrightarrow> block_wf (active_block (written_block rid ts tc bs n k b))"
  by (simp add: block_wf_def active_block_def written_block_def)

lemma pool_wf_same_except:
  assumes "pool_wf p" "same_except K p q" "\<And>k. k \<in> K \<Longrightarrow> valid_id p k \<Longrightarrow> block_wf (blk q k)"
  shows "pool_wf q"
  unfolding pool_wf_def
proof (intro conjI allI impI)
  show "0 < bp_block_size q" using assms by (simp add: pool_wf_def same_except_def)
  fix k
  assume "valid_id q k"
  then have v: "valid_id p k" using assms(2) by (simp add: same_except_valid)
  show "block_wf (blk q k)"
    using assms v by (cases "k \<in> K") (auto simp: same_except_def pool_wf_blk)
qed

lemma allocate_wf:
  assumes wf: "pool_wf p" and tc: "tc < 2 ^ 53" and ok: "allocate rid ts tc [] p = (Inr ids, q)"
  shows "pool_wf q"
proof -
  have pre: "rid \<noteq> ''''" "0 \<le> tc" using ok by (auto simp: allocate_def blocks_for_def split: if_splits)
  define n where "n = exact_blocks tc (bp_block_size p)"
  have room: "n \<le> int (length (free_blocks p))"
  proof (rule ccontr)
    assume "\<not> n \<le> int (length (free_blocks p))"
    then show False
      using allocate_exhausted [OF wf pre(1,2) tc, of ts] ok by (auto simp: n_def)
  qed
  obtain q' where q': "allocate rid ts tc [] p = (Inr (take (nat n) (free_blocks p)), q')"
    "same_except (set (take (nat n) (free_blocks p))) p q'"
    "\<And>i. i < nat n \<Longrightarrow> blk q' (free_blocks p ! i) =
       active_block (written_block rid ts tc (bp_block_size p) (int i) (free_blocks p ! i) (blk p (free_blocks p ! i)))"
    using allocate_success [OF wf pre(1,2) tc room [unfolded n_def], of ts] unfolding n_def by blast
  have "block_wf (blk q' k)" if "k \<in> set (take (nat n) (free_blocks p))" for k
    using that q'(3) pre(1) by (auto dest!: in_take_nth intro: allocated_block_wf)
  with wf q'(2) have "pool_wf q'" by (intro pool_wf_same_except [of p _ q'])
  with q'(1) ok show ?thesis by simp
qed

section \<open>Sharing, release, retention, eviction\<close>

lemma share_wf:
  assumes wf: "pool_wf p" and new: "rid \<notin> set (b_readers (blk p k))" and s: "share k rid p = (r, q)"
  shows "pool_wf q"
proof (cases "valid_id p k \<and> b_state (blk p k) \<noteq> FREE")
  case False
  with s wf show ?thesis by (auto simp: share_def require_live_def split: if_splits)
next
  case True
  then have "block_wf (blk p k)" using wf by (simp add: pool_wf_blk)
  then show ?thesis
    using s new True wf
    by (auto simp: share_def require_live_def Let_def blk_transition_def block_wf_def
        intro!: pool_wf_put split: if_splits)
qed

lemma release_one_spec:
  assumes wf: "pool_wf p" and v: "valid_id p k" and rd: "rid \<in> set (b_readers (blk p k))"
  shows "\<exists>q. release_one rid k p = (Inr (), q) \<and> pool_wf q \<and> same_except {k} p q
    \<and> b_readers (blk q k) = remove1 rid (b_readers (blk p k))"
proof -
  define b where "b = blk p k"
  define n where "n = max (b_ref b - 1) 0"
  have bw: "block_wf b" using wf v by (simp add: b_def pool_wf_blk)
  have n: "n = int (length (remove1 rid (b_readers b)))"
    using bw rd length_remove1_int [of rid "b_readers b"] by (simp add: n_def block_wf_def b_def)
  have st: "b_state b \<noteq> FREE" "b_state b \<noteq> ALLOCATED" "b_state b \<noteq> WRITTEN" "distinct (b_readers b)"
    using bw rd by (auto simp: block_wf_def b_def)
  define b1 where "b1 = b\<lparr>b_readers := remove1 rid (b_readers b), b_ref := max (b_ref b - 1) 0\<rparr>"
  define b2 where "b2 = (if b_owner b1 = rid then b1\<lparr>b_owner := ''''\<rparr> else b1)"
  have f: "b_ref b1 = n" "b_readers b1 = remove1 rid (b_readers b)" "b_state b1 = b_state b"
    "b_ref b2 = n" "b_readers b2 = remove1 rid (b_readers b)" "b_state b2 = b_state b" "b_hash b2 = b_hash b"
    by (simp_all add: b2_def b1_def n_def)
  note unfolded = release_one_def [of rid k p, unfolded Let_def, folded b_def, folded b1_def, folded b2_def]
  have "\<exists>c. release_one rid k p = (Inr (), emit (Ev_release rid k) (put k c p)) \<and>
    b_readers c = remove1 rid (b_readers b) \<and> b_ref c = n \<and> b_state c \<noteq> ALLOCATED \<and> b_state c \<noteq> WRITTEN
    \<and> (b_state c = FREE \<longrightarrow> n = 0) \<and> (b_state c \<in> {ACTIVE, SHARED_CACHED} \<longrightarrow> n \<noteq> 0)"
  proof (cases "n = 0")
    case False
    then show ?thesis using v st f by (intro exI [of _ b1]) (simp add: unfolded)
  next
    case True
    then show ?thesis
      using v st f by (cases "b_state b") (auto simp: unfolded move_def blk_transition_def put_emit)
  qed
  then obtain c where c: "release_one rid k p = (Inr (), emit (Ev_release rid k) (put k c p))"
    "b_readers c = remove1 rid (b_readers b)" "b_ref c = n" "b_state c \<noteq> ALLOCATED" "b_state c \<noteq> WRITTEN"
    "b_state c = FREE \<longrightarrow> n = 0" "b_state c \<in> {ACTIVE, SHARED_CACHED} \<longrightarrow> n \<noteq> 0"
    by blast
  have "block_wf c" using c n st by (auto simp: block_wf_def)
  then show ?thesis
    using c v wf by (auto simp: pool_wf_put same_except_put b_def)
qed

lemma release_loop_spec:
  assumes "pool_wf p" "distinct ks" "\<forall>k \<in> set ks. valid_id p k \<and> rid \<in> set (b_readers (blk p k))"
  shows "\<exists>q. for_op (release_one rid) ks p = (Inr (), q) \<and> pool_wf q \<and> same_except (set ks) p q
    \<and> (\<forall>k \<in> set ks. b_readers (blk q k) = remove1 rid (b_readers (blk p k)))"
  using assms
proof (induction ks arbitrary: p)
  case Nil
  then show ?case by simp
next
  case (Cons k ks)
  obtain p1 where p1: "release_one rid k p = (Inr (), p1)" "pool_wf p1" "same_except {k} p p1"
    "b_readers (blk p1 k) = remove1 rid (b_readers (blk p k))"
    using release_one_spec [of p k rid] Cons.prems by auto
  have eq: "blk p1 j = blk p j" if "j \<in> set ks" for j
    using p1(3) Cons.prems that by (auto simp: same_except_def)
  have "\<forall>j \<in> set ks. valid_id p1 j \<and> rid \<in> set (b_readers (blk p1 j))"
    using Cons.prems eq p1(3) by (auto simp: same_except_valid)
  then obtain q where q: "for_op (release_one rid) ks p1 = (Inr (), q)" "pool_wf q" "same_except (set ks) p1 q"
    "\<forall>j \<in> set ks. b_readers (blk q j) = remove1 rid (b_readers (blk p1 j))"
    using Cons.IH [of p1] p1(2) Cons.prems(2) by auto
  have "blk q k = blk p1 k"
    using q(3) Cons.prems p1(3) by (auto simp: same_except_def valid_id_def)
  moreover have "same_except (set (k # ks)) p q"
  proof (rule same_except_trans)
    show "same_except (set (k # ks)) p p1" by (rule same_except_mono [OF p1(3)]) simp
    show "same_except (set (k # ks)) p1 q" by (rule same_except_mono [OF q(3)]) auto
  qed
  ultimately show ?case using p1 q eq by (intro exI [of _ q]) auto
qed

text \<open>The discipline a release needs: what the request owns, it still reads.\<close>

definition reads_what_it_owns :: "string \<Rightarrow> block_pool \<Rightarrow> bool" where
  "reads_what_it_owns rid p \<longleftrightarrow> (\<forall>k. valid_id p k \<longrightarrow> b_owner (blk p k) = rid \<longrightarrow> rid \<in> set (b_readers (blk p k)))"

lemma blocks_of_reads:
  "reads_what_it_owns rid p \<Longrightarrow> set (blocks_of rid p) = {k. valid_id p k \<and> rid \<in> set (b_readers (blk p k))}"
  by (auto simp: blocks_of_def set_ids_where reads_what_it_owns_def)

lemma release_spec:
  assumes "pool_wf p" "reads_what_it_owns rid p"
  shows "\<exists>q. release rid None p = (Inr (), q) \<and> pool_wf q \<and> same_except (set (blocks_of rid p)) p q
    \<and> (\<forall>k. valid_id p k \<longrightarrow> b_readers (blk q k) = remove1 rid (b_readers (blk p k)))"
proof -
  obtain q where q: "for_op (release_one rid) (blocks_of rid p) p = (Inr (), q)" "pool_wf q"
    "same_except (set (blocks_of rid p)) p q"
    "\<forall>k \<in> set (blocks_of rid p). b_readers (blk q k) = remove1 rid (b_readers (blk p k))"
    using release_loop_spec [of p "blocks_of rid p" rid] assms
    by (auto simp: blocks_of_reads) (auto simp: blocks_of_def)
  have "b_readers (blk q k) = remove1 rid (b_readers (blk p k))" if "valid_id p k" for k
  proof (cases "k \<in> set (blocks_of rid p)")
    case True
    with q(4) show ?thesis by simp
  next
    case False
    then have "rid \<notin> set (b_readers (blk p k))" using assms(2) that by (simp add: blocks_of_reads)
    with False q(3) that show ?thesis by (simp add: same_except_def remove1_idem)
  qed
  with q show ?thesis by (auto simp: release_def)
qed

lemma mark_cached_wf:
  assumes wf: "pool_wf p" and m: "mark_cached k rid p = (r, q)"
  shows "pool_wf q"
proof (cases "valid_id p k \<and> rid \<in> set (b_readers (blk p k))")
  case False
  with m wf show ?thesis by (auto simp: mark_cached_def split: if_splits)
next
  case True
  then have bw: "block_wf (blk p k)" using wf by (simp add: pool_wf_blk)
  from m True have "move k SHARED_CACHED ''prefix-cache-retain'' (emit (Ev_mark_cached rid k) p) = (r, q)"
    by (simp add: mark_cached_def)
  from move_effect [OF this] show ?thesis
    using True bw wf by (auto simp: block_wf_def intro!: pool_wf_put)
qed

lemma evict_spec:
  assumes wf: "pool_wf p" and e: "evict k p = (Inr (), q)"
  shows "valid_id p k" "b_state (blk p k) = EVICTABLE" "b_readers (blk p k) = []"
    "same_except {k} p q" "b_state (blk q k) = FREE" "b_readers (blk q k) = []" "b_owner (blk q k) = ''''"
    "b_hash (blk q k) = None"
proof -
  show v: "valid_id p k" using e by (auto simp: evict_def split: if_splits)
  then have bw: "block_wf (blk p k)" using wf by (simp add: pool_wf_blk)
  show st: "b_state (blk p k) = EVICTABLE"
    using e v by (auto simp: evict_def Let_def split: if_splits)
  have ref: "b_ref (blk p k) \<le> 0"
    using e v by (auto simp: evict_def Let_def split: if_splits)
  then show rd: "b_readers (blk p k) = []" using bw by (simp add: block_wf_def)
  have "q = emit (Ev_evict k) (put k ((blk p k)\<lparr>b_hist := b_hist (blk p k) @
       [(EVICTABLE, EVICTING, ''evict''), (EVICTING, FREE, ''evict-done'')],
       b_state := FREE, b_hash := None, b_owner := ''''\<rparr>) p)"
    using e v st ref by (cases "blk p k") (auto simp: evict_def Let_def blk_transition_def)
  then show "same_except {k} p q" "b_state (blk q k) = FREE" "b_readers (blk q k) = []"
    "b_owner (blk q k) = ''''" "b_hash (blk q k) = None"
    using v rd by (auto simp: same_except_put)
qed

lemma evict_refused_unchanged: "evict k p = (Inl e, q) \<Longrightarrow> q = p"
  by (auto simp: evict_def Let_def blk_transition_def split: if_splits)

lemma evict_wf:
  assumes wf: "pool_wf p" and e: "evict k p = (r, q)"
  shows "pool_wf q"
proof (cases r)
  case (Inl x)
  with e wf show ?thesis by (auto dest: evict_refused_unchanged)
next
  case (Inr u)
  with e have "evict k p = (Inr (), q)" by simp
  note s = evict_spec [OF wf this]
  have ref: "b_ref (blk q k) = b_ref (blk p k)"
    using e Inr s(1) by (auto simp: evict_def Let_def blk_transition_def split: if_splits)
  have "b_ref (blk p k) = 0" using pool_wf_blk [OF wf s(1)] s(3) by (simp add: block_wf_def)
  then have "block_wf (blk q k)" using s ref by (simp add: block_wf_def)
  then show ?thesis by (intro pool_wf_same_except [OF wf s(4)]) simp
qed

section \<open>Disciplined clients\<close>

inductive pool_step :: "block_pool \<Rightarrow> block_pool \<Rightarrow> bool" where
  step_allocate: "tc < 2 ^ 53 \<Longrightarrow> allocate rid ts tc [] p = (Inr ids, q) \<Longrightarrow> pool_step p q"
| step_share: "rid \<notin> set (b_readers (blk p k)) \<Longrightarrow> share k rid p = (r, q) \<Longrightarrow> pool_step p q"
| step_release: "reads_what_it_owns rid p \<Longrightarrow> release rid None p = (r, q) \<Longrightarrow> pool_step p q"
| step_mark_cached: "mark_cached k rid p = (r, q) \<Longrightarrow> pool_step p q"
| step_evict: "evict k p = (r, q) \<Longrightarrow> pool_step p q"

lemma pool_step_wf: "pool_step p q \<Longrightarrow> pool_wf p \<Longrightarrow> pool_wf q"
proof (induction rule: pool_step.induct)
  case (step_release rid p r q)
  then show ?case using release_spec [of p rid] by auto
qed (blast intro: allocate_wf share_wf mark_cached_wf evict_wf)+

definition readers_of :: "block_pool \<Rightarrow> int \<Rightarrow> string list" where
  "readers_of p k = (if valid_id p k then b_readers (blk p k) else [])"

interpretation pool_store: refcounted_store pool_wf readers_of pool_step evict
proof unfold_locales
  show "pool_step s t \<Longrightarrow> pool_wf s \<Longrightarrow> pool_wf t" for s t by (rule pool_step_wf)
  show "pool_wf s \<Longrightarrow> evict i s = (Inr (), t) \<Longrightarrow> readers_of s i = []" for s i t
    by (simp add: readers_of_def evict_spec)
  show "pool_wf s \<Longrightarrow> evict i s = (r, t) \<Longrightarrow> pool_wf t" for s i r t by (rule evict_wf)
qed

end
