(* ===== verification/Kv_Pool_Props.thy ===== *)
theory Kv_Pool_Props
  imports Kv_Pool_Inv
begin

text \<open>
  The properties of the block pool: what an allocation, a release and an eviction do, the invariant
  of every pool a disciplined client can reach, and the two situations in which the pool's own
  invariant check fails (an exhausted allocation, a second release by the owner of a shared block).
\<close>

section \<open>Token ranges of an allocation\<close>

text \<open>A pool none of whose blocks has changed is as well-formed as before.\<close>

lemma same_except_none_wf: "same_except {} p q \<Longrightarrow> pool_wf p \<Longrightarrow> pool_wf q"
  by (simp add: same_except_def pool_wf_def valid_id_def)

text \<open>The token counts written into the first \<open>n\<close> blocks add up to the tokens that fit into them.\<close>

lemma sum_block_counts:
  assumes "0 < bs" "0 \<le> tc"
  shows "(\<Sum>i<n. min bs (max (tc - int i * bs) 0)) = min tc (int n * bs)"
proof (induction n)
  case 0
  then show ?case using assms by simp
next
  case (Suc n)
  then have "(\<Sum>i<Suc n. min bs (max (tc - int i * bs) 0)) = min tc (int n * bs) + min bs (max (tc - int n * bs) 0)"
    by simp
  also have "\<dots> = min tc (int n * bs + bs)" using assms by (auto simp: min_def max_def)
  also have "int n * bs + bs = int (Suc n) * bs" by (simp add: algebra_simps)
  finally show ?case .
qed

lemma sum_list_map_nth: "sum_list (map f xs) = (\<Sum>i<length xs. f (xs ! i :: 'a))"
  by (metis (mono_tags) atLeast0LessThan sum_list_sum_nth length_map sum.cong nth_map lessThan_iff)

text \<open>The range of the \<open>i\<close>-th of the blocks that a request needs is not empty.\<close>

lemma needed_block_nonempty:
  assumes "0 < bs" "int i < exact_blocks tc bs"
  shows "int i * bs < tc"
proof -
  have "(int i + 1) * bs \<le> exact_blocks tc bs * bs" using assms by (intro mult_right_mono) auto
  then show ?thesis using exact_blocks_bounds(2) [OF assms(1), of tc] by (simp add: distrib_right)
qed

text \<open>C3: allocating \<open>tc\<close> tokens in a well-formed pool that has enough free blocks returns exactly
  \<open>\<lceil>tc / block_size\<rceil>\<close> distinct block ids, all free before; each becomes ACTIVE with the request as its
  owner and only reader. The \<open>i\<close>-th block holds the tokens from \<open>ts + i * block_size\<close> on, a whole block of
  them or what is left of the request, and never none, so the blocks tile the token range
  from \<open>ts\<close> to \<open>ts + tc\<close> without gap or overlap; no other block changes, and the pool stays well-formed.\<close>

theorem allocate_tiles_request:
  assumes wf: "pool_wf p" and rid: "rid \<noteq> ''''" and tc: "0 \<le> tc" "tc < 2 ^ 53"
    and room: "exact_blocks tc (bp_block_size p) \<le> int (length (free_blocks p))"
  shows "\<exists>ids q. allocate rid ts tc [] p = (Inr ids, q)
    \<and> int (length ids) = exact_blocks tc (bp_block_size p) \<and> distinct ids \<and> set ids \<subseteq> set (free_blocks p)
    \<and> (\<forall>i < length ids. b_state (blk q (ids ! i)) = ACTIVE \<and> b_owner (blk q (ids ! i)) = rid
         \<and> b_readers (blk q (ids ! i)) = [rid] \<and> b_ref (blk q (ids ! i)) = 1
         \<and> b_start (blk q (ids ! i)) = ts + int i * bp_block_size p
         \<and> b_count (blk q (ids ! i)) = min (bp_block_size p) (tc - int i * bp_block_size p) \<and> 0 < b_count (blk q (ids ! i)))
    \<and> sum_list (map (\<lambda>k. b_count (blk q k)) ids) = tc
    \<and> (\<forall>k. valid_id p k \<longrightarrow> k \<notin> set ids \<longrightarrow> blk q k = blk p k)
    \<and> pool_wf q"
proof -
  define n where "n = exact_blocks tc (bp_block_size p)"
  define ids where "ids = take (nat n) (free_blocks p)"
  have n0: "0 \<le> n" "0 < bp_block_size p" using wf tc exact_blocks_nonneg by (auto simp: n_def pool_wf_def)
  obtain q where q: "allocate rid ts tc [] p = (Inr ids, q)" "same_except (set ids) p q"
    "\<And>i. i < nat n \<Longrightarrow> blk q (free_blocks p ! i) =
       active_block (written_block rid ts tc (bp_block_size p) (int i) (free_blocks p ! i) (blk p (free_blocks p ! i)))"
    using allocate_success [OF wf rid tc room, of ts] unfolding n_def ids_def by blast
  have len: "length ids = nat n" using room n0 by (simp add: ids_def n_def)
  have b: "blk q (ids ! i) = active_block (written_block rid ts tc (bp_block_size p) (int i) (ids ! i) (blk p (ids ! i)))"
    if "i < length ids" for i
    using q(3) [of i] that len by (simp add: ids_def)
  have "sum_list (map (\<lambda>k. b_count (blk q k)) ids) = (\<Sum>i<nat n. min (bp_block_size p) (max (tc - int i * bp_block_size p) 0))"
    unfolding sum_list_map_nth len by (intro sum.cong) (auto simp: b len active_block_def written_block_def)
  also have "\<dots> = tc"
    using sum_block_counts [OF n0(2) tc(1), of "nat n"] exact_blocks_bounds(1) [OF n0(2), of tc] n0
    by (simp add: n_def min_def)
  finally have cnt: "sum_list (map (\<lambda>k. b_count (blk q k)) ids) = tc" .
  have fields: "b_state (blk q (ids ! i)) = ACTIVE \<and> b_owner (blk q (ids ! i)) = rid
      \<and> b_readers (blk q (ids ! i)) = [rid] \<and> b_ref (blk q (ids ! i)) = 1
      \<and> b_start (blk q (ids ! i)) = ts + int i * bp_block_size p
      \<and> b_count (blk q (ids ! i)) = min (bp_block_size p) (tc - int i * bp_block_size p) \<and> 0 < b_count (blk q (ids ! i))"
    if "i < length ids" for i
  proof -
    have "int i * bp_block_size p < tc"
      using that by (intro needed_block_nonempty [OF n0(2)]) (simp add: len n_def)
    then show ?thesis using b [OF that] n0(2) by (simp add: active_block_def written_block_def)
  qed
  have "set ids \<subseteq> set (free_blocks p)" unfolding ids_def by (rule set_take_subset)
  moreover have "distinct ids" by (simp add: ids_def)
  moreover have "pool_wf q" using allocate_wf [OF wf tc(2) q(1)] .
  moreover have "int (length ids) = exact_blocks tc (bp_block_size p)" using len n0 by (simp add: n_def)
  moreover have "\<forall>k. valid_id p k \<longrightarrow> k \<notin> set ids \<longrightarrow> blk q k = blk p k" using q(2) by (simp add: same_except_def)
  ultimately show ?thesis using q(1) cnt fields by blast
qed

text \<open>A pool of three blocks of four tokens; the request needs two of them.\<close>

theorem allocate_tiles_request_witness:
  "\<exists>p ids q. new_pool 3 4 = Inr p \<and> allocate ''r'' 8 6 [] p = (Inr ids, q) \<and> int (length ids) = 2
     \<and> b_start (blk q (ids ! 1)) = 12 \<and> b_count (blk q (ids ! 1)) = 2"
proof -
  define p where "p = \<lparr>bp_block_size = 4, bp_blocks = map new_block [0 .. 2], bp_events = []\<rparr>"
  have p: "new_pool 3 4 = Inr p" by (simp add: new_pool_def p_def)
  have wf: "pool_wf p" using p by (rule new_pool_wf)
  have e: "exact_blocks 6 (bp_block_size p) = 2" by (simp add: exact_blocks_def p_def)
  have f: "free_blocks p = [0, 1, 2]"
    by (simp add: free_blocks_def ids_where_def p_def blk_def new_block_def upto_rec1)
  show ?thesis
    using allocate_tiles_request [OF wf, of "''r''" 6 8] p e f by (force simp: p_def)
qed



section \<open>Reachable pools\<close>

text \<open>C1: in every pool a disciplined client reaches from a new one (allocations without reuse,
  shares by new readers, releases by requests that still read what they own, retention and eviction
  in any order), the pool's invariant report is clean and free and used blocks partition the pool.\<close>

theorem reachable_pool_invariant:
  assumes "new_pool n bs = Inr p" and "pool_step\<^sup>*\<^sup>* p q"
  shows "rep_ok (invariant_report q) \<and> rep_free (invariant_report q) + rep_used (invariant_report q)
    = rep_blocks (invariant_report q) \<and> 0 < bp_block_size q"
proof -
  have "pool_wf q" using assms pool_store.steps_inv new_pool_wf by blast
  moreover have "rep_free (invariant_report q) + rep_used (invariant_report q) = rep_blocks (invariant_report q)"
    using free_used_partition [of q] by (simp add: invariant_report_def Let_def)
  ultimately show ?thesis by (simp add: pool_wf_report pool_wf_def)
qed

theorem reachable_pool_invariant_witness:
  "\<exists>p q. new_pool 1 4 = Inr p \<and> pool_step\<^sup>*\<^sup>* p q \<and> q \<noteq> p \<and> rep_ok (invariant_report q)"
proof -
  define p where "p = \<lparr>bp_block_size = 4, bp_blocks = [new_block 0], bp_events = []\<rparr>"
  have p: "new_pool 1 4 = Inr p" by (simp add: new_pool_def p_def)
  have wf: "pool_wf p" using p by (rule new_pool_wf)
  have f: "free_blocks p = [0]"
    by (simp add: free_blocks_def ids_where_def p_def blk_def new_block_def upto_rec1)
  have bs: "bp_block_size p = 4" and e: "exact_blocks 3 4 = 1" by (simp_all add: p_def exact_blocks_def)
  obtain q where q: "allocate ''r'' 0 3 [] p = (Inr [0], q)"
    "blk q 0 = active_block (written_block ''r'' 0 3 4 0 0 (blk p 0))"
    by (rule allocate_success [OF wf, of "''r''" 3 0]) (auto simp: f bs e)
  have "pool_step p q" by (rule step_allocate [OF _ q(1)]) simp
  then have s: "pool_step\<^sup>*\<^sup>* p q" by simp
  have "b_state (blk q 0) \<noteq> b_state (blk p 0)" unfolding q(2) by (simp add: active_block_def p_def blk_def new_block_def)
  then have "q \<noteq> p" by auto
  then show ?thesis using p s reachable_pool_invariant [OF p s] by blast
qed

text \<open>C2: no use after free for a disciplined client: in any pool reached from a new one by successful
  allocations without reuse, shares by new readers, releases by requests that still read what they own,
  retentions and evictions in any order, evicting a block that some request still reads is refused
  and leaves the pool as it was. A client without that discipline can have such a block freed
  (\<open>second_release_frees_a_read_block\<close>).\<close>

theorem evict_never_frees_a_read_block:
  assumes "new_pool n bs = Inr p" and "pool_step\<^sup>*\<^sup>* p q" and "valid_id q k" and "b_readers (blk q k) \<noteq> []"
  shows "\<exists>e. evict k q = (Inl e, q)"
proof -
  have "readers_of q k \<noteq> []" using assms(3,4) by (simp add: readers_of_def)
  then obtain e u where "evict k q = (Inl e, u)"
    using pool_store.held_entry_refused [OF assms(2) new_pool_wf [OF assms(1)]] by blast
  then show ?thesis using evict_refused_unchanged by blast
qed

theorem evict_never_frees_a_read_block_witness:
  "\<exists>p q. new_pool 1 4 = Inr p \<and> pool_step\<^sup>*\<^sup>* p q \<and> b_readers (blk q 0) = [''r''] \<and> (\<exists>e. evict 0 q = (Inl e, q))"
proof -
  define p where "p = \<lparr>bp_block_size = 4, bp_blocks = [new_block 0], bp_events = []\<rparr>"
  have p: "new_pool 1 4 = Inr p" by (simp add: new_pool_def p_def)
  have wf: "pool_wf p" using p by (rule new_pool_wf)
  have f: "free_blocks p = [0]"
    by (simp add: free_blocks_def ids_where_def p_def blk_def new_block_def upto_rec1)
  have bs: "bp_block_size p = 4" and e: "exact_blocks 3 4 = 1" by (simp_all add: p_def exact_blocks_def)
  obtain q where q: "allocate ''r'' 0 3 [] p = (Inr [0], q)" "same_except {0} p q"
    "blk q 0 = active_block (written_block ''r'' 0 3 4 0 0 (blk p 0))"
    by (rule allocate_success [OF wf, of "''r''" 3 0]) (auto simp: f bs e)
  have "pool_step p q" by (rule step_allocate [OF _ q(1)]) simp
  then have s: "pool_step\<^sup>*\<^sup>* p q" by simp
  have r: "b_readers (blk q 0) = [''r'']" unfolding q(3) by (simp add: active_block_def written_block_def)
  have v: "valid_id q 0" using q(2) by (simp add: same_except_valid) (simp add: valid_id_def p_def)
  show ?thesis using evict_never_frees_a_read_block [OF p s v] p s r by auto
qed

text \<open>Releasing a request that still reads what it owns always succeeds, removes exactly that
  request from the readers of every block, changes no block it did not read, and keeps the pool
  well-formed, so every other reader keeps its reference.\<close>

theorem release_removes_only_the_request:
  assumes "pool_wf p" and "reads_what_it_owns rid p"
  shows "\<exists>q. release rid None p = (Inr (), q) \<and> pool_wf q
    \<and> (\<forall>k. valid_id p k \<longrightarrow> b_readers (blk q k) = remove1 rid (b_readers (blk p k)))
    \<and> (\<forall>k. valid_id p k \<longrightarrow> rid \<notin> set (b_readers (blk p k)) \<longrightarrow> blk q k = blk p k)"
proof -
  obtain q where q: "release rid None p = (Inr (), q)" "pool_wf q" "same_except (set (blocks_of rid p)) p q"
    "\<forall>k. valid_id p k \<longrightarrow> b_readers (blk q k) = remove1 rid (b_readers (blk p k))"
    using release_spec [OF assms] by blast
  have "blk q k = blk p k" if "valid_id p k" "rid \<notin> set (b_readers (blk p k))" for k
    using q(3) that blocks_of_reads [OF assms(2)] by (simp add: same_except_def)
  with q show ?thesis by blast
qed

theorem release_removes_only_the_request_witness:
  "\<exists>p q. pool_wf p \<and> reads_what_it_owns ''a'' p \<and> b_readers (blk p 0) = [''a'', ''b'']
     \<and> release ''a'' None p = (Inr (), q) \<and> b_readers (blk q 0) = [''b'']"
proof -
  define b where "b = (new_block 0)\<lparr>b_state := ACTIVE, b_owner := ''a'', b_ref := 2, b_readers := [''a'', ''b'']\<rparr>"
  define p where "p = \<lparr>bp_block_size = 4, bp_blocks = [b], bp_events = []\<rparr>"
  have v: "valid_id p k \<longleftrightarrow> k = 0" for k by (auto simp: valid_id_def p_def)
  have k: "blk p 0 = b" by (simp add: blk_def p_def)
  have "0 < bp_block_size p" by (simp add: p_def)
  moreover have "block_wf b" by (simp add: block_wf_def b_def)
  ultimately have wf: "pool_wf p" by (simp add: pool_wf_def v k)
  have own: "reads_what_it_owns ''a'' p" by (simp add: reads_what_it_owns_def v k b_def)
  show ?thesis
    using release_removes_only_the_request [OF wf own] wf own v k by (auto simp: b_def)
qed

section \<open>The pool's weak spots\<close>

text \<open>The owner of a block is forgotten only when the last reader leaves, so a second release by the
  owner is charged to the remaining reader: if \<open>rid\<close> owns an active cached block that only
  another request reads, releasing \<open>rid\<close> again makes the block evictable under that reader, and the
  following eviction frees it while it is being read.\<close>

theorem second_release_frees_a_read_block:
  assumes v: "valid_id p k" and b: "b_state (blk p k) = ACTIVE" "b_hash (blk p k) \<noteq> None" "b_ref (blk p k) = 1"
    and o: "b_owner (blk p k) = rid" "b_readers (blk p k) = [other]" "other \<noteq> rid"
  shows "\<exists>q u. release_one rid k p = (Inr (), q) \<and> b_readers (blk q k) = [other] \<and> b_state (blk q k) = EVICTABLE
    \<and> k \<in> set (blocks_of rid p)
    \<and> evict k q = (Inr (), u) \<and> b_readers (blk u k) = [other] \<and> b_state (blk u k) = FREE"
proof -
  obtain c where c: "release_one rid k p = (Inr (), emit (Ev_release rid k) (put k c p))"
    "b_readers c = [other]" "b_state c = EVICTABLE" "b_ref c = 0"
    using v b o by (auto simp: release_one_def Let_def move_def blk_transition_def put_emit)
  define q where "q = emit (Ev_release rid k) (put k c p)"
  have q: "valid_id q k" "blk q k = c" using v by (auto simp: q_def)
  obtain u where u: "evict k q = (Inr (), u)" "b_readers (blk u k) = [other]" "b_state (blk u k) = FREE"
    using q c by (auto simp: evict_def Let_def blk_transition_def)
  have "k \<in> set (blocks_of rid p)" using v o by (simp add: blocks_of_def set_ids_where)
  then show ?thesis using c u q unfolding q_def [symmetric] by auto
qed

theorem second_release_frees_a_read_block_witness:
  "\<exists>p q u. b_readers (blk p 0) = [''b''] \<and> release_one ''a'' 0 p = (Inr (), q)
     \<and> evict 0 q = (Inr (), u) \<and> b_readers (blk u 0) = [''b''] \<and> b_state (blk u 0) = FREE"
proof -
  define b where "b = (new_block 0)\<lparr>b_state := ACTIVE, b_owner := ''a'', b_ref := 1, b_readers := [''b''],
     b_hash := Some (0, 0)\<rparr>"
  define p where "p = \<lparr>bp_block_size = 4, bp_blocks = [b], bp_events = []\<rparr>"
  have "valid_id p 0" "blk p 0 = b" by (auto simp: valid_id_def blk_def p_def)
  moreover have "b_state b = ACTIVE" "b_hash b \<noteq> None" "b_ref b = 1" "b_owner b = ''a''" "b_readers b = [''b'']"
    by (auto simp: b_def)
  ultimately obtain q u where "b_readers (blk p 0) = [''b'']" "release_one ''a'' 0 p = (Inr (), q)"
    "evict 0 q = (Inr (), u)" "b_readers (blk u 0) = [''b'']" "b_state (blk u 0) = FREE"
    using second_release_frees_a_read_block [of p 0 "''a''" "''b''"] by auto
  then show ?thesis by blast
qed

section \<open>Eviction candidates\<close>

text \<open>An eviction selection never contains a pinned candidate, has as many candidates as the limit
  and the supply allow, and under \<open>lru\<close> every selected candidate was used no later than every
  unpinned candidate that was left out.\<close>

theorem select_evictions_lru:
  assumes "select_evictions cs ''lru'' limit = Inr sel"
  shows "set sel \<subseteq> {c \<in> set cs. \<not> ec_pinned c}
    \<and> length sel = min (nat limit) (length (filter (\<lambda>c. \<not> ec_pinned c) cs))
    \<and> (\<forall>c \<in> set sel. \<forall>d \<in> set cs. \<not> ec_pinned d \<longrightarrow> d \<notin> set sel
         \<longrightarrow> ec_last_use_iteration c \<le> ec_last_use_iteration d)"
proof -
  define key where "key = (\<lambda>c :: eviction_candidate. (ec_last_use_iteration c, ec_block_id c))"
  define ys where "ys = sort_key key (filter (\<lambda>c. \<not> ec_pinned c) cs)"
  have sel: "sel = take (nat (max limit 0)) ys"
    using assms by (simp add: select_evictions_def ys_def key_def Let_def)
  have sy: "sorted (map key ys)" "set ys = {c \<in> set cs. \<not> ec_pinned c}" by (auto simp: ys_def)
  have "ec_last_use_iteration c \<le> ec_last_use_iteration d" if c: "c \<in> set sel" and d: "d \<in> set ys" "d \<notin> set sel" for c d
  proof -
    have "d \<in> set (drop (nat (max limit 0)) ys)"
      using d sel by (metis Un_iff append_take_drop_id set_append)
    moreover have "sorted (map key (take (nat (max limit 0)) ys) @ map key (drop (nat (max limit 0)) ys))"
      using sy(1) by (metis append_take_drop_id map_append)
    ultimately have "key c \<le> key d" using c sel by (auto simp: sorted_append)
    then show ?thesis by (auto simp: key_def less_eq_prod_def)
  qed
  moreover have "set sel \<subseteq> set ys" unfolding sel by (rule set_take_subset)
  moreover have "length sel = min (nat limit) (length (filter (\<lambda>c. \<not> ec_pinned c) cs))"
    by (simp add: sel ys_def max_def min.commute)
  ultimately show ?thesis using sy(2) by auto
qed

theorem select_evictions_lru_witness:
  "\<exists>sel. select_evictions [\<lparr>ec_block_id = 0, ec_last_use_iteration = 7, ec_reuse_count = 0, ec_bytes_value = 1, ec_pinned = False\<rparr>,
      \<lparr>ec_block_id = 1, ec_last_use_iteration = 3, ec_reuse_count = 0, ec_bytes_value = 1, ec_pinned = False\<rparr>] ''lru'' 1 = Inr sel
    \<and> length sel = 1"
proof -
  let ?cs = "[\<lparr>ec_block_id = 0, ec_last_use_iteration = 7, ec_reuse_count = 0, ec_bytes_value = 1, ec_pinned = False\<rparr>,
      \<lparr>ec_block_id = 1, ec_last_use_iteration = 3, ec_reuse_count = 0, ec_bytes_value = 1, ec_pinned = False\<rparr>]"
  obtain sel where s: "select_evictions ?cs ''lru'' 1 = Inr sel" by (simp add: select_evictions_def Let_def)
  from select_evictions_lru [OF s] s show ?thesis by auto
qed

end
