(* ===== verification/Request_Trace.thy ===== *)
theory Request_Trace
  imports Transition_Table Float64 Errors
begin

text \<open>
  \<open>hqsb/runtime/trace.py\<close>, first part: the request state machine with its transition records, the
  iteration ledger with the token-conservation identity, and the host/device clock calibration.
\<close>

section \<open>Request states\<close>

datatype request_state =
    CREATED | VALIDATED | WAITING | ADMITTED | PREFILLING | DECODING | FINISHED | PREEMPTED_REQUEST
  | RESUMED | CANCEL_REQUESTED | CANCELLED | TIMED_OUT | FAILED | REJECTED | CLEANED

fun ALLOWED_TRANSITIONS :: "request_state \<Rightarrow> request_state list" where
  "ALLOWED_TRANSITIONS CREATED = [VALIDATED, REJECTED, FAILED]"
| "ALLOWED_TRANSITIONS VALIDATED = [WAITING, REJECTED, FAILED]"
| "ALLOWED_TRANSITIONS WAITING = [ADMITTED, CANCEL_REQUESTED, TIMED_OUT, REJECTED, FAILED]"
| "ALLOWED_TRANSITIONS ADMITTED = [PREFILLING, CANCEL_REQUESTED, PREEMPTED_REQUEST, FAILED]"
| "ALLOWED_TRANSITIONS PREFILLING =
     [DECODING, CANCEL_REQUESTED, TIMED_OUT, PREEMPTED_REQUEST, FINISHED, FAILED]"
| "ALLOWED_TRANSITIONS DECODING = [FINISHED, CANCEL_REQUESTED, TIMED_OUT, PREEMPTED_REQUEST, FAILED]"
| "ALLOWED_TRANSITIONS PREEMPTED_REQUEST = [RESUMED, CANCEL_REQUESTED, FAILED, TIMED_OUT]"
| "ALLOWED_TRANSITIONS RESUMED = [PREFILLING, DECODING, FAILED]"
| "ALLOWED_TRANSITIONS CANCEL_REQUESTED = [CANCELLED, FAILED]"
| "ALLOWED_TRANSITIONS FINISHED = [CLEANED]"
| "ALLOWED_TRANSITIONS CANCELLED = [CLEANED]"
| "ALLOWED_TRANSITIONS TIMED_OUT = [CLEANED]"
| "ALLOWED_TRANSITIONS FAILED = [CLEANED]"
| "ALLOWED_TRANSITIONS REJECTED = [CLEANED]"
| "ALLOWED_TRANSITIONS CLEANED = []"

definition TERMINAL_STATES :: "request_state list" where
  "TERMINAL_STATES = [FINISHED, CANCELLED, TIMED_OUT, FAILED, REJECTED]"

interpretation request_table: lifecycle_table ALLOWED_TRANSITIONS "\<lambda>s. s \<in> set TERMINAL_STATES" CLEANED
proof
  show "s \<notin> set (ALLOWED_TRANSITIONS s)" for s by (cases s) auto
  show "ALLOWED_TRANSITIONS CLEANED = []" by simp
  show "s \<in> set TERMINAL_STATES \<Longrightarrow> ALLOWED_TRANSITIONS s = [CLEANED]" for s
    by (auto simp: TERMINAL_STATES_def)
qed

text \<open>The keyword arguments of \<open>transition\<close>, with the defaults of \<open>StateTransitionRecord\<close>.\<close>

record transition_kwargs =
  kw_timestamp_ns :: "int option"
  kw_scheduler_iteration :: int
  kw_reason :: string
  kw_prompt_tokens :: int
  kw_output_tokens :: int
  kw_kv_block_ids :: "int list"
  kw_kv_refcounts :: "int list"
  kw_batch_id :: string
  kw_model_runner_span :: string
  kw_error :: string
  kw_cleanup :: string

definition no_kwargs :: transition_kwargs where
  "no_kwargs = \<lparr>kw_timestamp_ns = None, kw_scheduler_iteration = -1, kw_reason = '''', kw_prompt_tokens = 0,
     kw_output_tokens = 0, kw_kv_block_ids = [], kw_kv_refcounts = [], kw_batch_id = '''',
     kw_model_runner_span = '''', kw_error = '''', kw_cleanup = ''''\<rparr>"

record state_transition_record =
  tr_request_id :: string
  tr_old :: request_state
  tr_new :: request_state
  tr_timestamp_ns :: int
  tr_details :: transition_kwargs

record request_machine =
  rm_request_id :: string
  rm_state :: request_state
  rm_transitions :: "state_transition_record list"
  rm_clock :: int

definition new_machine :: "string \<Rightarrow> int \<Rightarrow> request_machine res" where
  "new_machine rid clock_ns =
     (if rid = '''' then Inl (ConfigError ''request_id'')
      else Inr \<lparr>rm_request_id = rid, rm_state = CREATED, rm_transitions = [], rm_clock = clock_ns\<rparr>)"

definition rm_transition ::
  "request_state \<Rightarrow> transition_kwargs \<Rightarrow> (request_machine, state_transition_record) op" where
  "rm_transition new kw m =
     (if new \<notin> set (ALLOWED_TRANSITIONS (rm_state m)) then (Inl (SchemaError ''state''), m)
      else let clock = rm_clock m + 1;
               r = \<lparr>tr_request_id = rm_request_id m, tr_old = rm_state m, tr_new = new,
                    tr_timestamp_ns = (case kw_timestamp_ns kw of None \<Rightarrow> clock | Some t \<Rightarrow> t),
                    tr_details = kw\<rparr>
           in (Inr r, m\<lparr>rm_clock := clock, rm_transitions := rm_transitions m @ [r], rm_state := new\<rparr>))"

definition cancel_seen :: "request_machine \<Rightarrow> bool" where
  "cancel_seen m \<longleftrightarrow> list_ex (\<lambda>r. tr_new r = CANCEL_REQUESTED) (rm_transitions m)"

fun readmitted_loop :: "bool \<Rightarrow> state_transition_record list \<Rightarrow> bool" where
  "readmitted_loop seen [] = False"
| "readmitted_loop seen (r # rs) =
     (let seen' = (seen \<or> tr_new r \<in> {CANCELLED, TIMED_OUT}) in
      if seen' \<and> tr_new r \<in> {ADMITTED, PREFILLING, DECODING} then True
      else readmitted_loop seen' rs)"

definition re_admitted_after_cancel :: "request_machine \<Rightarrow> bool" where
  "re_admitted_after_cancel m = readmitted_loop False (rm_transitions m)"

record token_event =
  te_token_index :: int
  te_timestamp_ns :: "int option"
  te_in_flight_allowed :: bool

definition cancel_stamp :: "request_machine \<Rightarrow> int option" where
  "cancel_stamp m = map_option tr_timestamp_ns (find (\<lambda>r. tr_new r = CANCEL_REQUESTED) (rm_transitions m))"

definition emitted_after_cancel :: "token_event list \<Rightarrow> request_machine \<Rightarrow> int list" where
  "emitted_after_cancel events m = (case cancel_stamp m of
     None \<Rightarrow> []
   | Some stamp \<Rightarrow> map te_token_index (filter (\<lambda>e.
       (case te_timestamp_ns e of None \<Rightarrow> -1 | Some t \<Rightarrow> t) > stamp \<and> \<not> te_in_flight_allowed e) events))"

definition require_clean_finish :: "request_machine \<Rightarrow> unit res" where
  "require_clean_finish m =
     (if rm_state m \<notin> set (TERMINAL_STATES @ [CLEANED]) then Inl (SchemaError ''state'')
      else if re_admitted_after_cancel m then Inl (SchemaError ''request_id'')
      else Inr ())"

text \<open>A client: any sequence of transition requests, the refused ones included.\<close>

definition run_machine :: "(request_state \<times> transition_kwargs) list \<Rightarrow> request_machine \<Rightarrow> request_machine" where
  "run_machine calls m = foldl (\<lambda>m (new, kw). snd (rm_transition new kw m)) m calls"

section \<open>Iteration ledger\<close>

record iteration_ledger_entry =
  le_iteration :: int
  le_waiting :: "string list"
  le_running :: "string list"
  le_preempted :: "string list"
  le_finished :: "string list"
  le_scheduled_tokens :: "(string \<times> int) list"
  le_prefill_tokens :: int
  le_decode_tokens :: int
  le_spec_tokens :: int
  le_token_budget :: int
  le_sequence_budget :: int
  le_kv_free_blocks :: int
  le_kv_used_blocks :: int
  le_kv_cached_blocks :: int
  le_prefix_hits :: int
  le_graph_bucket :: string
  le_attention_backend :: string
  le_model_input_m :: int
  le_scheduler_cpu_ms :: rat
  le_model_runner_ms :: rat
  le_sample_ms :: rat
  le_kernels :: "string list"
  le_oom_or_preemption :: string
  le_previous_computed_positions :: int
  le_new_computed_positions :: int
  le_rollback_positions :: int

text \<open>An entry with the field defaults of the dataclass.\<close>

definition default_entry :: "int \<Rightarrow> iteration_ledger_entry" where
  "default_entry iteration =
     \<lparr>le_iteration = iteration, le_waiting = [], le_running = [], le_preempted = [], le_finished = [],
      le_scheduled_tokens = [], le_prefill_tokens = 0, le_decode_tokens = 0, le_spec_tokens = 0,
      le_token_budget = 0, le_sequence_budget = 0, le_kv_free_blocks = 0, le_kv_used_blocks = 0,
      le_kv_cached_blocks = 0, le_prefix_hits = 0, le_graph_bucket = '''', le_attention_backend = '''',
      le_model_input_m = 0, le_scheduler_cpu_ms = 0, le_model_runner_ms = 0, le_sample_ms = 0, le_kernels = [],
      le_oom_or_preemption = '''', le_previous_computed_positions = 0, le_new_computed_positions = 0,
      le_rollback_positions = 0\<rparr>"

definition scheduled_total :: "iteration_ledger_entry \<Rightarrow> int" where
  "scheduled_total e = sum_list (map snd (le_scheduled_tokens e))"

definition budget_utilization :: "iteration_ledger_entry \<Rightarrow> rat res" where
  "budget_utilization e =
     (if le_token_budget e \<le> 0 then Inl (ConfigError ''token_budget'')
      else Inr (int_truediv (scheduled_total e) (le_token_budget e)))"

definition conservation_residual :: "iteration_ledger_entry \<Rightarrow> int" where
  "conservation_residual e = le_previous_computed_positions e + scheduled_total e
     - le_rollback_positions e - le_new_computed_positions e"

record conservation_offender =
  co_iteration :: int
  co_residual :: int
  co_scheduled_total :: int

record conservation_report =
  cr_ok :: bool
  cr_offenders :: "conservation_offender list"
  cr_iterations :: int

definition conservation_audit :: "iteration_ledger_entry list \<Rightarrow> conservation_report" where
  "conservation_audit entries =
     (let offenders = map (\<lambda>e. \<lparr>co_iteration = le_iteration e, co_residual = conservation_residual e,
                                 co_scheduled_total = scheduled_total e\<rparr>)
                        (filter (\<lambda>e. conservation_residual e \<noteq> 0) entries)
      in \<lparr>cr_ok = (offenders = []), cr_offenders = offenders, cr_iterations = int (length entries)\<rparr>)"

lemma audit_ok_iff: "cr_ok (conservation_audit es) \<longleftrightarrow> (\<forall>e \<in> set es. conservation_residual e = 0)"
  by (auto simp: conservation_audit_def Let_def filter_empty_conv)

section \<open>Clocks\<close>

record clock_calibration =
  host_reference_ns :: int
  device_reference_ns :: int
  skew_ns :: int
  cal_method :: string

definition calibration_check :: "clock_calibration \<Rightarrow> clock_calibration res" where
  "calibration_check c =
     (if cal_method c = '''' then Inl (ConfigError ''method'')
      else if \<bar>skew_ns c\<bar> < 0 then Inl (ConfigError ''skew_ns'')
      else Inr c)"

definition device_to_host_ns :: "clock_calibration \<Rightarrow> int \<Rightarrow> int" where
  "device_to_host_ns c device_ns = device_ns + (host_reference_ns c - device_reference_ns c)"

definition device_span_ns :: "int \<Rightarrow> int \<Rightarrow> int res" where
  "device_span_ns start_device_ns end_device_ns =
     (let span = end_device_ns - start_device_ns in
      if span < 0 then Inl (ConfigError ''device_span'') else Inr span)"

definition host_device_delta_ns :: "clock_calibration \<Rightarrow> int \<Rightarrow> int \<Rightarrow> int \<Rightarrow> int \<Rightarrow> int res" where
  "host_device_delta_ns c host_start_ns host_end_ns device_start_ns device_end_ns =
     (let host_span = host_end_ns - host_start_ns in
      if host_span < 0 then Inl (ConfigError ''host_span'')
      else bindE (device_span_ns device_start_ns device_end_ns) (\<lambda>device_span.
        Inr (host_span - device_span - \<bar>skew_ns c\<bar>)))"

section \<open>Runs of the state machine\<close>

lemma run_machine_snoc [simp]:
  "run_machine (calls @ [(new, kw)]) m = snd (rm_transition new kw (run_machine calls m))"
  by (simp add: run_machine_def)

lemma run_machine_Nil [simp]: "run_machine [] m = m"
  by (simp add: run_machine_def)

text \<open>The recorded history is a path of the table that ends in the current state.\<close>

definition machine_wf :: "request_machine \<Rightarrow> bool" where
  "machine_wf m \<longleftrightarrow> table_path ALLOWED_TRANSITIONS CREATED (map tr_new (rm_transitions m))
     \<and> rm_state m = last (CREATED # map tr_new (rm_transitions m))
     \<and> map tr_old (rm_transitions m) = butlast (CREATED # map tr_new (rm_transitions m))
     \<and> (\<forall>r \<in> set (rm_transitions m). tr_request_id r = rm_request_id m)"

lemma new_machine_wf: "new_machine rid c = Inr m \<Longrightarrow> machine_wf m"
  by (auto simp: new_machine_def machine_wf_def split: if_splits)

lemma transition_wf:
  assumes "machine_wf m"
  shows "machine_wf (snd (rm_transition new kw m))"
proof (cases "new \<in> set (ALLOWED_TRANSITIONS (rm_state m))")
  case True
  then show ?thesis using assms
    by (auto simp: rm_transition_def Let_def machine_wf_def table_path_append butlast_append)
next
  case False
  then show ?thesis using assms by (simp add: rm_transition_def)
qed

lemma run_machine_wf:
  "machine_wf m \<Longrightarrow> machine_wf (run_machine calls m)"
  by (induction calls rule: rev_induct) (auto simp: transition_wf)

text \<open>Once a cancel or timeout is recorded, the table admits at most CLEANED: the scan never fires.\<close>

lemma readmitted_after_terminal:
  "table_path ALLOWED_TRANSITIONS s (map tr_new rs) \<Longrightarrow> s \<in> set TERMINAL_STATES \<Longrightarrow> \<not> readmitted_loop b rs"
  by (auto simp: request_table.terminal_path Let_def map_eq_Cons_conv)

lemma readmitted_never:
  "table_path ALLOWED_TRANSITIONS s (map tr_new rs) \<Longrightarrow> \<not> readmitted_loop False rs"
proof (induction rs arbitrary: s)
  case Nil
  then show ?case by simp
next
  case (Cons r rs)
  show ?case
  proof (cases "tr_new r \<in> {CANCELLED, TIMED_OUT}")
    case True
    then have "tr_new r \<in> set TERMINAL_STATES" by (auto simp: TERMINAL_STATES_def)
    then show ?thesis using Cons.prems True readmitted_after_terminal [of "tr_new r" rs True]
      by (auto simp: Let_def)
  next
    case False
    then show ?thesis using Cons by (auto simp: Let_def)
  qed
qed

lemma wf_not_readmitted: "machine_wf m \<Longrightarrow> \<not> re_admitted_after_cancel m"
  unfolding machine_wf_def re_admitted_after_cancel_def using readmitted_never by blast

lemma require_clean_finish_iff:
  "machine_wf m \<Longrightarrow> require_clean_finish m = Inr () \<longleftrightarrow> rm_state m \<in> set (TERMINAL_STATES @ [CLEANED])"
  by (simp add: require_clean_finish_def wf_not_readmitted)

section \<open>Properties\<close>

text \<open>C8: whatever transitions a client requests, legal or not, the recorded history is a path of the
  transition table from CREATED to the current state, a terminal state is followed by nothing but
  CLEANED, no request is admitted again after a cancel or timeout, and the clean-finish check
  accepts exactly the terminal states and CLEANED.\<close>

theorem request_history_legal:
  assumes "new_machine rid clock = Inr m0" and "m = run_machine calls m0"
  shows "table_path ALLOWED_TRANSITIONS CREATED (map tr_new (rm_transitions m))
    \<and> rm_state m = last (CREATED # map tr_new (rm_transitions m))
    \<and> (\<forall>xs r ys. rm_transitions m = xs @ r # ys \<and> tr_new r \<in> set TERMINAL_STATES
         \<longrightarrow> map tr_new ys \<in> {[], [CLEANED]})
    \<and> \<not> re_admitted_after_cancel m
    \<and> (require_clean_finish m = Inr () \<longleftrightarrow> rm_state m \<in> set TERMINAL_STATES \<or> rm_state m = CLEANED)"
proof -
  have wf: "machine_wf m" using assms new_machine_wf run_machine_wf by blast
  have "map tr_new ys \<in> {[], [CLEANED]}"
    if "rm_transitions m = xs @ r # ys" "tr_new r \<in> set TERMINAL_STATES" for xs r ys
    using wf that request_table.after_terminal [of CREATED "map tr_new xs" "tr_new r" "map tr_new ys"]
    by (auto simp: machine_wf_def)
  then show ?thesis
    using wf wf_not_readmitted require_clean_finish_iff [OF wf] by (auto simp: machine_wf_def)
qed

theorem request_history_legal_witness:
  "\<exists>m0 m. new_machine ''r'' 0 = Inr m0
     \<and> m = run_machine [(VALIDATED, no_kwargs), (WAITING, no_kwargs), (TIMED_OUT, no_kwargs), (ADMITTED, no_kwargs)] m0
     \<and> rm_state m = TIMED_OUT \<and> require_clean_finish m = Inr ()"
proof -
  obtain m0 where m0: "new_machine ''r'' 0 = Inr m0" by (simp add: new_machine_def)
  let ?m = "run_machine [(VALIDATED, no_kwargs), (WAITING, no_kwargs), (TIMED_OUT, no_kwargs), (ADMITTED, no_kwargs)] m0"
  have st: "rm_state ?m = TIMED_OUT"
    using m0 by (auto simp: run_machine_def rm_transition_def Let_def new_machine_def)
  then show ?thesis
    using m0 request_history_legal [OF m0 refl, of "[(VALIDATED, no_kwargs), (WAITING, no_kwargs), (TIMED_OUT, no_kwargs), (ADMITTED, no_kwargs)]"]
    by (auto simp: TERMINAL_STATES_def)
qed

end
