(* ===== verification/Scheduler.thy ===== *)
theory Scheduler
  imports Request_Trace Kv_Geometry
begin

text \<open>
  The batching simulator of \<open>hqsb/runtime/scheduler.py\<close>: its configuration, the requests of a trace,
  and one iteration of the scheduler in the five phases of \<open>SchedulerSimulator.step\<close> (cancels,
  admission with preemption, the static batch, scheduling of prefill and decode tokens, completion)
  followed by the ledger entry and its conservation check. The mutable run objects of the code are
  records in a store indexed by the request id; the local lists \<open>running\<close> and \<open>waiting\<close> are lists of
  ids. All runs are created from a trace whose ids are unique, so object equality is id equality.
\<close>

section \<open>Configuration and traces\<close>

definition STATIC :: string where "STATIC = ''static''"
definition CONTINUOUS :: string where "CONTINUOUS = ''continuous''"
definition CHUNKED_PREFILL :: string where "CHUNKED_PREFILL = ''chunked_prefill''"

definition BATCH_MODES :: "string list" where
  "BATCH_MODES = [STATIC, CONTINUOUS, CHUNKED_PREFILL]"

lemmas mode_defs = STATIC_def CONTINUOUS_def CHUNKED_PREFILL_def BATCH_MODES_def

record scheduler_spec =
  sp_mode :: string
  max_batched_tokens :: int
  max_sequences :: int
  sp_block_size :: int
  kv_blocks :: int
  chunk_size :: int
  decode_priority :: bool
  long_prefill_threshold :: int
  preemption_policy :: string
  admission_reserve_full_isl :: bool
  sp_watermark :: rat
  sp_prefix_cache :: bool

definition scheduler_spec_check :: "scheduler_spec \<Rightarrow> scheduler_spec res" where
  "scheduler_spec_check sp =
     (if sp_mode sp \<notin> set BATCH_MODES then Inl (ConfigError ''mode'')
      else if max_batched_tokens sp \<le> 0 then Inl (ConfigError ''max_batched_tokens'')
      else if max_sequences sp \<le> 0 then Inl (ConfigError ''max_sequences'')
      else if sp_block_size sp \<le> 0 then Inl (ConfigError ''block_size'')
      else if kv_blocks sp \<le> 0 then Inl (ConfigError ''kv_blocks'')
      else if sp_mode sp = CHUNKED_PREFILL \<and> chunk_size sp \<le> 0 then Inl (ConfigError ''chunk_size'')
      else if sp_mode sp \<noteq> CHUNKED_PREFILL \<and> chunk_size sp \<noteq> 0 then Inl (ConfigError ''chunk_size'')
      else if preemption_policy sp \<notin> {''none'', ''recompute_longest'', ''recompute_newest''}
        then Inl (ConfigError ''preemption_policy'')
      else if \<not> (0 < sp_watermark sp \<and> sp_watermark sp \<le> 1) then Inl (ConfigError ''watermark'')
      else Inr sp)"

definition kv_token_capacity :: "scheduler_spec \<Rightarrow> int" where
  "kv_token_capacity sp = trunc_rat (int_times_float (kv_blocks sp * sp_block_size sp) (sp_watermark sp))"

text \<open>The block limit of admission: \<open>int(kv_blocks * watermark)\<close>.\<close>

definition kv_block_limit :: "scheduler_spec \<Rightarrow> int" where
  "kv_block_limit sp = trunc_rat (int_times_float (kv_blocks sp) (sp_watermark sp))"

record sim_request =
  sr_request_id :: string
  prompt_tokens :: int
  max_new_tokens :: int
  submit_iteration :: int
  shared_prefix_tokens :: int
  cancel_at_iteration :: "int option"
  sr_priority :: int

definition sim_request_check :: "sim_request \<Rightarrow> sim_request res" where
  "sim_request_check r =
     (if prompt_tokens r \<le> 0 then Inl (ConfigError ''prompt_tokens'')
      else if max_new_tokens r \<le> 0 then Inl (ConfigError ''max_new_tokens'')
      else if submit_iteration r < 0 then Inl (ConfigError ''submit_iteration'')
      else if \<not> (0 \<le> shared_prefix_tokens r \<and> shared_prefix_tokens r \<le> prompt_tokens r)
        then Inl (ConfigError ''shared_prefix_tokens'')
      else Inr r)"

record request_trace =
  tc_name :: string
  tc_requests :: "sim_request list"
  tc_description :: string

definition request_trace_check :: "request_trace \<Rightarrow> request_trace res" where
  "request_trace_check t =
     (if tc_requests t = [] then Inl (ConfigError ''requests'')
      else if \<not> distinct (map sr_request_id (tc_requests t)) then Inl (ConfigError ''request_id'')
      else Inr t)"

definition submit_spread :: "request_trace \<Rightarrow> int" where
  "submit_spread t = (let xs = map submit_iteration (tc_requests t) in
     (if xs = [] then 0 else Max (set xs)) - (if xs = [] then 0 else Min (set xs)))"

text \<open>\<open>staggered_trace\<close>: the same requests, the \<open>i\<close>-th submitted at \<open>i * spacing\<close>; every request is
  validated again by its constructor.\<close>

fun stagger :: "int \<Rightarrow> nat \<Rightarrow> sim_request list \<Rightarrow> sim_request list res" where
  "stagger spacing i [] = Inr []"
| "stagger spacing i (r # rs) =
     bindE (sim_request_check (r\<lparr>submit_iteration := int i * spacing\<rparr>)) (\<lambda>r'.
       bindE (stagger spacing (Suc i) rs) (\<lambda>rs'. Inr (r' # rs')))"

definition staggered_trace :: "string \<Rightarrow> sim_request list \<Rightarrow> int \<Rightarrow> request_trace res" where
  "staggered_trace name requests spacing =
     (if spacing < 0 then Inl (ConfigError ''spacing'')
      else bindE (stagger spacing 0 requests) (\<lambda>rs.
        request_trace_check \<lparr>tc_name = name, tc_requests = rs, tc_description = ''''\<rparr>))"

section \<open>Runs and the simulator\<close>

datatype run_state =
    R_WAITING | R_RUNNING | R_FINISHED | R_CANCELLED | R_PREEMPTED | R_PREFILLING | R_DECODING

record request_run =
  rr_spec :: sim_request
  rr_state :: run_state
  rr_computed :: int
  rr_output_tokens :: int
  rr_admitted_iteration :: int
  rr_first_token_iteration :: int
  rr_finish_iteration :: int
  rr_preemptions :: int
  rr_recomputed_positions :: int
  rr_cancelled :: bool
  rr_schedule :: "(int \<times> int) list"

definition new_run :: "sim_request \<Rightarrow> request_run" where
  "new_run r = \<lparr>rr_spec = r, rr_state = R_WAITING, rr_computed = 0, rr_output_tokens = 0,
     rr_admitted_iteration = -1, rr_first_token_iteration = -1, rr_finish_iteration = -1,
     rr_preemptions = 0, rr_recomputed_positions = 0, rr_cancelled = False, rr_schedule = []\<rparr>"

definition run_id :: "request_run \<Rightarrow> string" where
  "run_id r = sr_request_id (rr_spec r)"

definition run_done :: "request_run \<Rightarrow> bool" where
  "run_done r \<longleftrightarrow> rr_state r \<in> {R_FINISHED, R_CANCELLED}"

definition prefilled :: "request_run \<Rightarrow> bool" where
  "prefilled r \<longleftrightarrow> rr_computed r \<ge> prompt_tokens (rr_spec r)"

record simulator =
  si_spec :: scheduler_spec
  si_trace :: request_trace
  si_runs :: "request_run list"
  si_static_batch :: "string list"
  si_iterations :: "iteration_ledger_entry list"
  si_padding_slots :: int
  si_kv_peak_blocks :: int
  si_iteration :: int

definition new_simulator :: "scheduler_spec \<Rightarrow> request_trace \<Rightarrow> simulator" where
  "new_simulator sp t = \<lparr>si_spec = sp, si_trace = t, si_runs = map new_run (tc_requests t),
     si_static_batch = (if sp_mode sp = STATIC
       then take (nat (max_sequences sp)) (map sr_request_id (tc_requests t)) else []),
     si_iterations = [], si_padding_slots = 0, si_kv_peak_blocks = 0, si_iteration = 0\<rparr>"

text \<open>The local variables of \<open>step\<close>, with the run objects they refer to.\<close>

record work =
  w_runs :: "request_run list"
  w_running :: "string list"
  w_waiting :: "string list"
  w_preempted :: "string list"
  w_rollback :: int
  w_scheduled :: "(string \<times> int) list"
  w_prefill :: int
  w_decode :: int
  w_budget :: int
  w_padding :: int

definition deref :: "work \<Rightarrow> string \<Rightarrow> request_run" where
  "deref w rid = the (get_obj run_id rid (w_runs w))"

definition mutate :: "string \<Rightarrow> (request_run \<Rightarrow> request_run) \<Rightarrow> work \<Rightarrow> work" where
  "mutate rid f w = w\<lparr>w_runs := upd_obj run_id rid f (w_runs w)\<rparr>"

definition reserve_target :: "scheduler_spec \<Rightarrow> request_run \<Rightarrow> int" where
  "reserve_target sp r = (if admission_reserve_full_isl sp
     then prompt_tokens (rr_spec r) + max_new_tokens (rr_spec r) else rr_computed r)"

definition reserve_blocks :: "scheduler_spec \<Rightarrow> request_run \<Rightarrow> int res" where
  "reserve_blocks sp r = blocks_for (reserve_target sp r) (sp_block_size sp)"

definition blocks_held :: "scheduler_spec \<Rightarrow> request_run list \<Rightarrow> int res" where
  "blocks_held sp rs = forE (\<lambda>r s. bindE (reserve_blocks sp r) (\<lambda>n. Inr (s + n))) rs 0"

definition capacity_ok :: "scheduler_spec \<Rightarrow> string \<Rightarrow> work \<Rightarrow> bool res" where
  "capacity_ok sp rid w =
     bindE (blocks_held sp (map (deref w) (w_running w @ [rid]))) (\<lambda>held. Inr (held \<le> kv_block_limit sp))"

definition sched_admit :: "int \<Rightarrow> string \<Rightarrow> work \<Rightarrow> work" where
  "sched_admit iteration rid w =
     (mutate rid (\<lambda>r. r\<lparr>rr_state := R_RUNNING, rr_admitted_iteration := iteration\<rparr>) w)
       \<lparr>w_running := w_running w @ [rid]\<rparr>"

definition sched_preempt :: "string \<Rightarrow> work \<Rightarrow> work" where
  "sched_preempt victim w =
     (mutate victim (\<lambda>r. r\<lparr>rr_preemptions := rr_preemptions r + 1,
          rr_recomputed_positions := rr_recomputed_positions r + rr_computed r,
          rr_computed := 0, rr_output_tokens := 0, rr_first_token_iteration := -1,
          rr_state := R_WAITING, rr_admitted_iteration := -1\<rparr>) w)
       \<lparr>w_running := remove1 victim (w_running w),
        w_rollback := w_rollback w + rr_computed (deref w victim),
        w_preempted := w_preempted w @ [victim]\<rparr>"

definition select_victim :: "scheduler_spec \<Rightarrow> work \<Rightarrow> string option" where
  "select_victim sp w =
     (if preemption_policy sp = ''none'' \<or> w_running w = [] then None
      else if preemption_policy sp = ''recompute_newest''
        then argmin (\<lambda>rid. rr_computed (deref w rid)) (w_running w)
      else argmax (\<lambda>rid. rr_computed (deref w rid)) (w_running w))"

section \<open>One iteration\<close>

text \<open>Phase 1: cancels are observed before scheduling.\<close>

definition cancel_one :: "int \<Rightarrow> work \<Rightarrow> string \<Rightarrow> work" where
  "cancel_one iteration w rid = (let r = deref w rid in
     if (case cancel_at_iteration (rr_spec r) of None \<Rightarrow> False | Some c \<Rightarrow> iteration \<ge> c) \<and> \<not> run_done r
     then (mutate rid (\<lambda>r. r\<lparr>rr_cancelled := True, rr_state := R_CANCELLED,
              rr_finish_iteration := iteration, rr_computed := 0\<rparr>) w)
            \<lparr>w_running := remove1 rid (w_running w), w_waiting := remove1 rid (w_waiting w),
             w_rollback := w_rollback w + rr_computed r\<rparr>
     else w)"

definition cancel_phase :: "int \<Rightarrow> work \<Rightarrow> work" where
  "cancel_phase iteration w = foldl (cancel_one iteration) w (w_waiting w @ w_running w)"

text \<open>Phase 2: admission in queue order, with at most one preemption per waiting request.\<close>

fun admit_loop :: "scheduler_spec \<Rightarrow> int \<Rightarrow> string list \<Rightarrow> work \<Rightarrow> work res" where
  "admit_loop sp iteration [] w = Inr w"
| "admit_loop sp iteration (rid # rids) w =
     (if submit_iteration (rr_spec (deref w rid)) > iteration then admit_loop sp iteration rids w
      else if int (length (w_running w)) \<ge> max_sequences sp then Inr w
      else bindE (capacity_ok sp rid w) (\<lambda>ok.
        if ok then admit_loop sp iteration rids (sched_admit iteration rid w)
        else case select_victim sp w of
            None \<Rightarrow> admit_loop sp iteration rids w
          | Some victim \<Rightarrow> let w' = sched_preempt victim w in
              bindE (capacity_ok sp rid w') (\<lambda>ok'.
                if ok' then admit_loop sp iteration rids (sched_admit iteration rid w')
                else admit_loop sp iteration rids w')))"

definition admission_phase :: "scheduler_spec \<Rightarrow> int \<Rightarrow> work \<Rightarrow> work res" where
  "admission_phase sp iteration w = admit_loop sp iteration (w_waiting w) w"

text \<open>Phase 3: in static mode only the frozen batch participates.\<close>

definition static_join :: "int \<Rightarrow> work \<Rightarrow> string \<Rightarrow> work" where
  "static_join iteration w rid = (let r = deref w rid in
     if run_done r \<or> submit_iteration (rr_spec r) > iteration then w
     else if rid \<in> set (w_running w) then w
     else sched_admit iteration rid w)"

definition static_phase :: "scheduler_spec \<Rightarrow> int \<Rightarrow> string list \<Rightarrow> work \<Rightarrow> work" where
  "static_phase sp iteration batch w =
     (if sp_mode sp \<noteq> STATIC then w
      else let active = filter (\<lambda>rid. \<not> run_done (deref w rid)
                          \<and> submit_iteration (rr_spec (deref w rid)) \<le> iteration) batch;
               idle = int (length batch) - int (length active);
               w' = foldl (static_join iteration) (w\<lparr>w_padding := w_padding w + max idle 0\<rparr>) batch
           in w'\<lparr>w_running := filter (\<lambda>rid. rid \<in> set batch) (w_running w')\<rparr>)"

text \<open>Phase 4: the order of service and the tokens each run is given.\<close>

definition order_key :: "scheduler_spec \<Rightarrow> request_run \<Rightarrow> int \<times> int \<times> int \<times> string" where
  "order_key sp r = (if decode_priority sp \<and> prefilled r then 0 else 1, rr_admitted_iteration r,
     - sr_priority (rr_spec r), run_id r)"

definition service_order :: "scheduler_spec \<Rightarrow> work \<Rightarrow> string list" where
  "service_order sp w = sort_key (\<lambda>rid. order_key sp (deref w rid)) (w_running w)"

definition prefill_allowance :: "scheduler_spec \<Rightarrow> work \<Rightarrow> request_run \<Rightarrow> int" where
  "prefill_allowance sp w r = (let remaining = prompt_tokens (rr_spec r) - rr_computed r in
     if sp_mode sp = CHUNKED_PREFILL then min (min remaining (chunk_size sp)) (w_budget w)
     else min remaining (w_budget w))"

text \<open>A prefill chunk, the first token that follows the last chunk in the same iteration, and a decode
  token.\<close>

definition give_prefill :: "int \<Rightarrow> int \<Rightarrow> string \<Rightarrow> work \<Rightarrow> work" where
  "give_prefill iteration allowance rid w =
     (mutate rid (\<lambda>r. r\<lparr>rr_computed := rr_computed r + allowance,
          rr_schedule := rr_schedule r @ [(iteration, allowance)]\<rparr>) w)
       \<lparr>w_scheduled := AList.update rid allowance (w_scheduled w),
        w_prefill := w_prefill w + allowance, w_budget := w_budget w - allowance\<rparr>"

definition give_first_token :: "int \<Rightarrow> int \<Rightarrow> string \<Rightarrow> work \<Rightarrow> work" where
  "give_first_token iteration allowance rid w =
     (mutate rid (\<lambda>r. r\<lparr>rr_output_tokens := 1, rr_first_token_iteration := iteration,
          rr_schedule := rr_schedule r @ [(iteration, 1)], rr_computed := rr_computed r + 1\<rparr>) w)
       \<lparr>w_scheduled := AList.update rid (allowance + 1) (w_scheduled w),
        w_decode := w_decode w + 1, w_budget := w_budget w - 1\<rparr>"

definition give_decode :: "int \<Rightarrow> string \<Rightarrow> work \<Rightarrow> work" where
  "give_decode iteration rid w =
     (mutate rid (\<lambda>r. r\<lparr>rr_computed := rr_computed r + 1, rr_output_tokens := rr_output_tokens r + 1,
          rr_schedule := rr_schedule r @ [(iteration, 1)]\<rparr>) w)
       \<lparr>w_scheduled := AList.update rid
          ((case map_of (w_scheduled w) rid of None \<Rightarrow> 0 | Some n \<Rightarrow> n) + 1) (w_scheduled w),
        w_decode := w_decode w + 1, w_budget := w_budget w - 1\<rparr>"

definition schedule_one :: "scheduler_spec \<Rightarrow> int \<Rightarrow> string \<Rightarrow> work \<Rightarrow> work res" where
  "schedule_one sp iteration rid w = (let r = deref w rid in
     if run_done r \<or> rr_state r \<notin> {R_RUNNING, R_PREEMPTED} then Inr w
     else if \<not> prefilled r then
       let allowance = prefill_allowance sp w r in
       if allowance \<le> 0 then Inr w
       else bindE (reserve_blocks sp r) (\<lambda>reserved.
         if rr_computed r + allowance > reserved * sp_block_size sp then Inl (ConfigError ''request_id'')
         else let w' = give_prefill iteration allowance rid w in
           Inr (if prefilled (deref w' rid) \<and> rr_first_token_iteration (deref w' rid) < 0
                then give_first_token iteration allowance rid w' else w'))
     else if w_budget w < 1 then Inr w
     else Inr (give_decode iteration rid w))"

definition schedule_phase :: "scheduler_spec \<Rightarrow> int \<Rightarrow> work \<Rightarrow> work res" where
  "schedule_phase sp iteration w = forE (schedule_one sp iteration) (service_order sp w) w"

text \<open>Phase 5: completion.\<close>

definition complete_one :: "int \<Rightarrow> work \<times> string list \<Rightarrow> string \<Rightarrow> work \<times> string list" where
  "complete_one iteration = (\<lambda>(w, finished) rid. let r = deref w rid in
     if rr_cancelled r then (w, finished)
     else if prefilled r \<and> rr_output_tokens r \<ge> max_new_tokens (rr_spec r) then
       ((mutate rid (\<lambda>r. r\<lparr>rr_state := R_FINISHED, rr_finish_iteration := iteration\<rparr>) w)
          \<lparr>w_running := remove1 rid (w_running w)\<rparr>, finished @ [rid])
     else (w, finished))"

definition completion_phase :: "int \<Rightarrow> work \<Rightarrow> work \<times> string list" where
  "completion_phase iteration w = foldl (complete_one iteration) (w, []) (w_running w)"

text \<open>The ledger entry of the iteration.\<close>

definition total_computed :: "request_run list \<Rightarrow> int" where
  "total_computed rs = sum_list (map rr_computed rs)"

definition ledger_entry ::
  "scheduler_spec \<Rightarrow> int \<Rightarrow> int \<Rightarrow> work \<Rightarrow> string list \<Rightarrow> int \<Rightarrow> iteration_ledger_entry" where
  "ledger_entry sp iteration previous_total w finished blocks_used =
     \<lparr>le_iteration = iteration,
      le_waiting = map run_id (filter (\<lambda>r. rr_state r = R_WAITING \<and> submit_iteration (rr_spec r) \<le> iteration) (w_runs w)),
      le_running = w_running w, le_preempted = w_preempted w, le_finished = finished,
      le_scheduled_tokens = w_scheduled w, le_prefill_tokens = w_prefill w, le_decode_tokens = w_decode w,
      le_spec_tokens = 0, le_token_budget = max_batched_tokens sp, le_sequence_budget = max_sequences sp,
      le_kv_free_blocks = max (kv_blocks sp - blocks_used) 0, le_kv_used_blocks = blocks_used,
      le_kv_cached_blocks = 0, le_prefix_hits = 0, le_graph_bucket = '''', le_attention_backend = '''',
      le_model_input_m = int (length (w_scheduled w)), le_scheduler_cpu_ms = 0, le_model_runner_ms = 0,
      le_sample_ms = 0, le_kernels = [],
      le_oom_or_preemption = (if w_preempted w \<noteq> [] then ''preempt'' else ''''),
      le_previous_computed_positions = previous_total,
      le_new_computed_positions = total_computed (w_runs w), le_rollback_positions = w_rollback w\<rparr>"

definition init_work :: "simulator \<Rightarrow> work" where
  "init_work s = \<lparr>w_runs = si_runs s,
     w_running = map run_id (filter (\<lambda>r. rr_state r = R_RUNNING) (si_runs s)),
     w_waiting = map run_id (filter (\<lambda>r. rr_state r = R_WAITING) (si_runs s)),
     w_preempted = [], w_rollback = 0, w_scheduled = [], w_prefill = 0, w_decode = 0,
     w_budget = max_batched_tokens (si_spec s), w_padding = si_padding_slots s\<rparr>"

definition sim_step :: "simulator \<Rightarrow> (iteration_ledger_entry \<times> simulator) res" where
  "sim_step s = (let sp = si_spec s; iteration = si_iteration s;
       previous_total = total_computed (si_runs s); w1 = cancel_phase iteration (init_work s)
     in bindE (admission_phase sp iteration w1) (\<lambda>w2.
        let w3 = static_phase sp iteration (si_static_batch s) w2 in
        bindE (schedule_phase sp iteration w3) (\<lambda>w4.
        case completion_phase iteration w4 of (w5, finished) \<Rightarrow>
        bindE (blocks_held sp (map (deref w5) (w_running w5))) (\<lambda>blocks_used.
        let entry = ledger_entry sp iteration previous_total w5 finished blocks_used in
        if conservation_residual entry \<noteq> 0 then Inl (ConfigError ''iteration'')
        else Inr (entry, s\<lparr>si_runs := w_runs w5, si_padding_slots := w_padding w5,
               si_kv_peak_blocks := max (si_kv_peak_blocks s) (le_kv_used_blocks entry),
               si_iterations := si_iterations s @ [entry], si_iteration := iteration + 1\<rparr>)))))"

section \<open>A replay\<close>

record request_outcome =
  oc_request_id :: string
  oc_admitted_iteration :: int
  oc_first_token_iteration :: int
  oc_finish_iteration :: int
  oc_prompt_tokens :: int
  oc_output_tokens :: int
  oc_computed_positions :: int
  oc_recomputed_positions :: int
  oc_preemptions :: int
  oc_cancelled :: bool
  oc_queue_iterations :: int
  oc_wait_iterations :: int

definition e2e_iterations :: "request_outcome \<Rightarrow> int" where
  "e2e_iterations oc = (if oc_finish_iteration oc < 0 then -1
     else oc_finish_iteration oc - (if oc_admitted_iteration oc \<ge> 0 then oc_admitted_iteration oc else 0))"

definition ttft_iterations :: "request_outcome \<Rightarrow> int" where
  "ttft_iterations oc = (if oc_first_token_iteration oc < 0 then -1
     else oc_first_token_iteration oc - (if oc_admitted_iteration oc \<ge> 0 then oc_admitted_iteration oc else 0))"

definition outcome_of :: "int \<Rightarrow> request_run \<Rightarrow> request_outcome" where
  "outcome_of iteration r =
     \<lparr>oc_request_id = run_id r, oc_admitted_iteration = rr_admitted_iteration r,
      oc_first_token_iteration = rr_first_token_iteration r, oc_finish_iteration = rr_finish_iteration r,
      oc_prompt_tokens = prompt_tokens (rr_spec r), oc_output_tokens = rr_output_tokens r,
      oc_computed_positions = rr_computed r + rr_recomputed_positions r,
      oc_recomputed_positions = rr_recomputed_positions r, oc_preemptions = rr_preemptions r,
      oc_cancelled = rr_cancelled r,
      oc_queue_iterations = max ((if rr_admitted_iteration r \<ge> 0 then rr_admitted_iteration r else iteration)
        - submit_iteration (rr_spec r)) 0,
      oc_wait_iterations = (if rr_first_token_iteration r \<ge> 0
        then rr_first_token_iteration r - submit_iteration (rr_spec r) else -1)\<rparr>"

record simulation_result =
  sm_trace :: request_trace
  sm_spec :: scheduler_spec
  sm_iterations :: "iteration_ledger_entry list"
  sm_outcomes :: "request_outcome list"
  sm_padding_slots :: int
  sm_max_concurrent_running :: int
  sm_kv_peak_blocks :: int

text \<open>The loop of \<open>run\<close>: at most \<open>n\<close> iterations, stopping once every request is done.\<close>

fun run_loop :: "nat \<Rightarrow> int \<Rightarrow> simulator \<Rightarrow> (int \<times> simulator) res" where
  "run_loop 0 max_concurrent s = Inr (max_concurrent, s)"
| "run_loop (Suc n) max_concurrent s = bindE (sim_step s) (\<lambda>(entry, s').
     let active = int (length (filter (\<lambda>r. rr_state r \<in> {R_RUNNING, R_PREFILLING, R_DECODING}) (si_runs s')));
         mc = max max_concurrent active
     in if list_all run_done (si_runs s') then Inr (mc, s') else run_loop n mc s')"

definition sim_run :: "simulator \<Rightarrow> int \<Rightarrow> simulation_result res" where
  "sim_run s max_iterations =
     (if max_iterations \<le> 0 then Inl (ConfigError ''max_iterations'')
      else bindE (run_loop (nat max_iterations) 0 s) (\<lambda>(mc, s').
        Inr \<lparr>sm_trace = si_trace s', sm_spec = si_spec s', sm_iterations = si_iterations s',
             sm_outcomes = map (outcome_of (si_iteration s')) (si_runs s'),
             sm_padding_slots = si_padding_slots s', sm_max_concurrent_running = mc,
             sm_kv_peak_blocks = si_kv_peak_blocks s'\<rparr>))"

definition simulate :: "scheduler_spec \<Rightarrow> request_trace \<Rightarrow> int \<Rightarrow> simulation_result res" where
  "simulate sp t max_iterations = sim_run (new_simulator sp t) max_iterations"

end
