(* ===== verification/Scheduler_Inv.thy ===== *)
theory Scheduler_Inv
  imports Scheduler
begin

text \<open>
  The invariants of the scheduler's working state and their preservation by each phase: every run is
  in a consistent state (\<open>run_ok\<close>), the lists of the iteration refer to running and waiting runs, the
  token balance of the conservation identity is unchanged, and the budget is spent on what is
  scheduled.
\<close>

section \<open>The store of runs\<close>

definition ids :: "work \<Rightarrow> string list" where
  "ids w = map run_id (w_runs w)"

definition bal :: "work \<Rightarrow> int" where
  "bal w = total_computed (w_runs w) + w_rollback w - sum_list (map snd (w_scheduled w))"

lemma run_id_cong: "rr_spec (f r) = rr_spec r \<Longrightarrow> run_id (f r) = run_id r"
  by (simp add: run_id_def)

lemma mutate_fields [simp]:
  "w_running (mutate rid f w) = w_running w" "w_waiting (mutate rid f w) = w_waiting w"
  "w_preempted (mutate rid f w) = w_preempted w" "w_rollback (mutate rid f w) = w_rollback w"
  "w_scheduled (mutate rid f w) = w_scheduled w" "w_budget (mutate rid f w) = w_budget w"
  "w_prefill (mutate rid f w) = w_prefill w" "w_decode (mutate rid f w) = w_decode w"
  "w_padding (mutate rid f w) = w_padding w" "w_runs (mutate rid f w) = upd_obj run_id rid f (w_runs w)"
  by (simp_all add: mutate_def)

lemma deref_update [simp]:
  "deref (w\<lparr>w_running := a\<rparr>) = deref w" "deref (w\<lparr>w_waiting := b\<rparr>) = deref w"
  "deref (w\<lparr>w_rollback := c\<rparr>) = deref w" "deref (w\<lparr>w_scheduled := d\<rparr>) = deref w"
  "deref (w\<lparr>w_budget := e\<rparr>) = deref w" "deref (w\<lparr>w_prefill := e\<rparr>) = deref w"
  "deref (w\<lparr>w_decode := e\<rparr>) = deref w" "deref (w\<lparr>w_padding := e\<rparr>) = deref w"
  "deref (w\<lparr>w_preempted := b\<rparr>) = deref w"
  by (simp_all add: deref_def fun_eq_iff)

lemma ids_update [simp]:
  "ids (w\<lparr>w_running := a\<rparr>) = ids w" "ids (w\<lparr>w_waiting := b\<rparr>) = ids w"
  "ids (w\<lparr>w_rollback := c\<rparr>) = ids w" "ids (w\<lparr>w_scheduled := d\<rparr>) = ids w"
  "ids (w\<lparr>w_budget := e\<rparr>) = ids w" "ids (w\<lparr>w_prefill := e\<rparr>) = ids w"
  "ids (w\<lparr>w_decode := e\<rparr>) = ids w" "ids (w\<lparr>w_padding := e\<rparr>) = ids w"
  "ids (w\<lparr>w_preempted := b\<rparr>) = ids w"
  by (simp_all add: ids_def)

lemma ids_mutate [simp]:
  "(\<And>r. rr_spec (f r) = rr_spec r) \<Longrightarrow> ids (mutate rid f w) = ids w"
  by (simp add: ids_def run_id_cong)

lemma get_obj_deref:
  assumes "rid \<in> set (ids w)"
  shows "get_obj run_id rid (w_runs w) = Some (deref w rid)"
proof -
  have "get_obj run_id rid (w_runs w) \<noteq> None" using assms by (auto simp: get_obj_None ids_def)
  then show ?thesis by (auto simp: deref_def)
qed

lemma deref_mutate:
  assumes "\<And>r. rr_spec (f r) = rr_spec r" and "rid \<in> set (ids w)"
  shows "deref (mutate rid f w) j = (if j = rid then f (deref w rid) else deref w j)"
proof -
  have "deref (mutate rid f w) j =
      the (if j = rid then map_option f (get_obj run_id rid (w_runs w)) else get_obj run_id j (w_runs w))"
    using assms(1) by (simp add: deref_def get_upd_obj run_id_cong)
  moreover obtain r where "get_obj run_id rid (w_runs w) = Some r" using get_obj_deref [OF assms(2)] by blast
  ultimately show ?thesis by (simp add: deref_def)
qed

lemma run_id_deref: "rid \<in> set (ids w) \<Longrightarrow> run_id (deref w rid) = rid"
  using get_obj_deref get_obj_key by fast

lemma total_mutate:
  assumes "distinct (ids w)" "rid \<in> set (ids w)"
  shows "total_computed (upd_obj run_id rid f (w_runs w)) =
    total_computed (w_runs w) + rr_computed (f (deref w rid)) - rr_computed (deref w rid)"
  using sum_upd_obj [OF _ get_obj_deref [OF assms(2)], of rr_computed f] assms(1)
  by (simp add: total_computed_def ids_def)

lemma run_in_store:
  assumes "distinct (ids w)" and "r \<in> set (w_runs w)"
  shows "run_id r \<in> set (ids w)" "deref w (run_id r) = r"
  using assms get_obj_distinct [of run_id "w_runs w" r] by (auto simp: ids_def deref_def)

lemma bal_update [simp]:
  "bal (w\<lparr>w_running := a\<rparr>) = bal w" "bal (w\<lparr>w_waiting := b\<rparr>) = bal w" "bal (w\<lparr>w_padding := c\<rparr>) = bal w"
  "bal (w\<lparr>w_preempted := b\<rparr>) = bal w" "bal (w\<lparr>w_rollback := c\<rparr>) = bal w - w_rollback w + c"
  by (simp_all add: bal_def)

section \<open>The state of a run\<close>

definition run_ok :: "request_run \<Rightarrow> bool" where
  "run_ok r \<longleftrightarrow> is_ok (sim_request_check (rr_spec r)) \<and> 0 \<le> rr_computed r \<and> (case rr_state r of
     R_WAITING \<Rightarrow> rr_computed r = 0 \<and> rr_output_tokens r = 0 \<and> rr_first_token_iteration r < 0 \<and> \<not> rr_cancelled r
       \<and> rr_finish_iteration r < 0
   | R_RUNNING \<Rightarrow> \<not> rr_cancelled r \<and> rr_finish_iteration r < 0 \<and>
       (rr_computed r < prompt_tokens (rr_spec r) \<and> rr_output_tokens r = 0 \<and> rr_first_token_iteration r < 0
        \<or> rr_computed r = prompt_tokens (rr_spec r) + rr_output_tokens r \<and> 1 \<le> rr_output_tokens r
          \<and> rr_output_tokens r \<le> max_new_tokens (rr_spec r) \<and> 0 \<le> rr_first_token_iteration r)
   | R_FINISHED \<Rightarrow> \<not> rr_cancelled r \<and> rr_computed r = prompt_tokens (rr_spec r) + max_new_tokens (rr_spec r)
       \<and> rr_output_tokens r = max_new_tokens (rr_spec r) \<and> 0 \<le> rr_first_token_iteration r
   | R_CANCELLED \<Rightarrow> rr_cancelled r \<and> rr_computed r = 0
   | _ \<Rightarrow> False)"

text \<open>Between iterations a running request still has output tokens to produce.\<close>

definition unfinished :: "request_run \<Rightarrow> bool" where
  "unfinished r \<longleftrightarrow> rr_state r = R_RUNNING \<longrightarrow> rr_output_tokens r < max_new_tokens (rr_spec r)"

definition work_wf :: "work \<Rightarrow> bool" where
  "work_wf w \<longleftrightarrow> distinct (ids w) \<and> distinct (w_running w) \<and> set (w_running w) \<subseteq> set (ids w)
     \<and> (\<forall>rid \<in> set (w_running w). rr_state (deref w rid) = R_RUNNING)
     \<and> (\<forall>rid \<in> set (ids w). run_ok (deref w rid))"

definition waiting_wf :: "string list \<Rightarrow> work \<Rightarrow> bool" where
  "waiting_wf rids w \<longleftrightarrow> distinct rids \<and> set rids \<subseteq> set (ids w)
     \<and> (\<forall>rid \<in> set rids. rr_state (deref w rid) = R_WAITING)"

definition all_unfinished :: "work \<Rightarrow> bool" where
  "all_unfinished w \<longleftrightarrow> (\<forall>rid \<in> set (ids w). unfinished (deref w rid))"

lemma sim_request_ok:
  "is_ok (sim_request_check r) \<longleftrightarrow> 0 < prompt_tokens r \<and> 0 < max_new_tokens r \<and> 0 \<le> submit_iteration r
     \<and> 0 \<le> shared_prefix_tokens r \<and> shared_prefix_tokens r \<le> prompt_tokens r"
  by (auto simp: sim_request_check_def)

lemma new_run_ok: "is_ok (sim_request_check r) \<Longrightarrow> run_ok (new_run r)"
  by (simp add: run_ok_def new_run_def)

lemmas work_update_simps = deref_mutate total_mutate bal_def

text \<open>What one phase keeps: the requests of the runs, the balance, the budget bookkeeping.\<close>

definition same_requests :: "work \<Rightarrow> work \<Rightarrow> bool" where
  "same_requests w w' \<longleftrightarrow> ids w' = ids w \<and> (\<forall>rid. rid \<in> set (ids w) \<longrightarrow> rr_spec (deref w' rid) = rr_spec (deref w rid))"

lemma same_requests_refl [simp]: "same_requests w w"
  by (simp add: same_requests_def)

lemma same_requests_trans: "same_requests w w' \<Longrightarrow> same_requests w' w'' \<Longrightarrow> same_requests w w''"
  by (simp add: same_requests_def)

lemma same_requests_mutate:
  "(\<And>r. rr_spec (f r) = rr_spec r) \<Longrightarrow> rid \<in> set (ids w) \<Longrightarrow> same_requests w (mutate rid f w)"
  by (simp add: same_requests_def deref_mutate)

section \<open>Mutations that keep the invariant\<close>

lemma admit_keeps:
  assumes wf: "work_wf w" "all_unfinished w" and rid: "rid \<in> set (ids w)" "rr_state (deref w rid) = R_WAITING"
  shows "work_wf (sched_admit it rid w)" "all_unfinished (sched_admit it rid w)"
    "bal (sched_admit it rid w) = bal w" "same_requests w (sched_admit it rid w)"
proof -
  have nr: "rid \<notin> set (w_running w)" using wf(1) rid by (auto simp: work_wf_def)
  have "run_ok (deref w rid)" using wf(1) rid by (simp add: work_wf_def)
  then have "run_ok ((deref w rid)\<lparr>rr_state := R_RUNNING, rr_admitted_iteration := it\<rparr>)"
    using rid(2) by (auto simp: run_ok_def sim_request_ok)
  then show "work_wf (sched_admit it rid w)"
    using wf(1) rid nr by (auto simp: work_wf_def sched_admit_def deref_mutate)
  have "run_ok (deref w rid)" using wf rid by (simp add: work_wf_def)
  then have "unfinished ((deref w rid)\<lparr>rr_state := R_RUNNING, rr_admitted_iteration := it\<rparr>)"
    using rid(2) by (auto simp: run_ok_def unfinished_def sim_request_ok)
  then show "all_unfinished (sched_admit it rid w)"
    using wf(2) rid by (auto simp: all_unfinished_def sched_admit_def deref_mutate)
  have "distinct (ids w)" using wf(1) by (simp add: work_wf_def)
  then show "bal (sched_admit it rid w) = bal w"
    using rid by (simp add: sched_admit_def bal_def total_mutate)
  show "same_requests w (sched_admit it rid w)"
    using rid by (auto simp: sched_admit_def same_requests_def deref_mutate)
qed

lemma preempt_keeps:
  assumes wf: "work_wf w" "all_unfinished w" and rid: "rid \<in> set (w_running w)"
  shows "work_wf (sched_preempt rid w)" "all_unfinished (sched_preempt rid w)"
    "bal (sched_preempt rid w) = bal w" "same_requests w (sched_preempt rid w)"
proof -
  have i: "rid \<in> set (ids w)" "distinct (ids w)" and ok: "run_ok (deref w rid)" and st: "rr_state (deref w rid) = R_RUNNING"
    using wf(1) rid by (auto simp: work_wf_def)
  have keep: "run_ok ((deref w rid)\<lparr>rr_preemptions := a, rr_recomputed_positions := b, rr_computed := 0,
      rr_output_tokens := 0, rr_first_token_iteration := -1, rr_state := R_WAITING, rr_admitted_iteration := -1\<rparr>)" for a b
    using ok st by (auto simp: run_ok_def)
  show "work_wf (sched_preempt rid w)"
    using wf(1) i keep by (auto simp: work_wf_def sched_preempt_def deref_mutate)
  show "all_unfinished (sched_preempt rid w)"
    using wf(2) i by (auto simp: all_unfinished_def sched_preempt_def deref_mutate unfinished_def)
  show "bal (sched_preempt rid w) = bal w"
    using i by (simp add: sched_preempt_def bal_def total_mutate)
  show "same_requests w (sched_preempt rid w)"
    using i by (auto simp: sched_preempt_def same_requests_def deref_mutate)
qed

lemma cancel_one_keeps:
  assumes wf: "work_wf w" "all_unfinished w" "waiting_wf (w_waiting w) w" and rid: "rid \<in> set (ids w)"
  shows "work_wf (cancel_one it w rid)" "all_unfinished (cancel_one it w rid)"
    "waiting_wf (w_waiting (cancel_one it w rid)) (cancel_one it w rid)"
    "bal (cancel_one it w rid) = bal w" "same_requests w (cancel_one it w rid)"
    "w_scheduled (cancel_one it w rid) = w_scheduled w" "w_budget (cancel_one it w rid) = w_budget w"
    "set (w_running (cancel_one it w rid)) \<subseteq> set (w_running w)"
proof -
  have i: "distinct (ids w)" "run_ok (deref w rid)" using wf(1) rid by (auto simp: work_wf_def)
  have keep: "run_ok ((deref w rid)\<lparr>rr_cancelled := True, rr_state := R_CANCELLED, rr_finish_iteration := it, rr_computed := 0\<rparr>)"
    using i(2) by (auto simp: run_ok_def)
  show "work_wf (cancel_one it w rid)"
    using wf(1) rid i keep by (auto simp: work_wf_def cancel_one_def Let_def deref_mutate)
  show "all_unfinished (cancel_one it w rid)"
    using wf(2) rid by (auto simp: all_unfinished_def cancel_one_def Let_def deref_mutate unfinished_def)
  show "waiting_wf (w_waiting (cancel_one it w rid)) (cancel_one it w rid)"
    using wf(3) rid by (auto simp: waiting_wf_def cancel_one_def Let_def deref_mutate dest: set_remove1_subset [THEN subsetD])
  show "bal (cancel_one it w rid) = bal w"
    using rid i by (auto simp: cancel_one_def Let_def bal_def total_mutate)
  show "same_requests w (cancel_one it w rid)"
    using rid by (auto simp: cancel_one_def Let_def same_requests_def deref_mutate)
  show "w_scheduled (cancel_one it w rid) = w_scheduled w" "w_budget (cancel_one it w rid) = w_budget w"
    "set (w_running (cancel_one it w rid)) \<subseteq> set (w_running w)"
    by (auto simp: cancel_one_def Let_def dest: set_remove1_subset [THEN subsetD])
qed

lemma complete_one_keeps:
  assumes wf: "work_wf w" and rid: "rid \<in> set (w_running w)"
    and c: "complete_one it (w, fs) rid = (w', fs')"
  shows "work_wf w'" "bal w' = bal w" "same_requests w w'" "unfinished (deref w' rid)"
    "\<forall>j. j \<noteq> rid \<longrightarrow> deref w' j = deref w j"
    "w_running w' = w_running w \<or> w_running w' = remove1 rid (w_running w)"
    "set (w_running w') = {j \<in> set (w_running w). j = rid \<longrightarrow> rr_state (deref w' j) = R_RUNNING}"
    "w_scheduled w' = w_scheduled w" "w_waiting w' = w_waiting w" "w_rollback w' = w_rollback w"
proof -
  have i: "distinct (ids w)" "rid \<in> set (ids w)" "run_ok (deref w rid)" "rr_state (deref w rid) = R_RUNNING" "distinct (w_running w)"
    using wf rid by (auto simp: work_wf_def)
  have keep: "run_ok ((deref w rid)\<lparr>rr_state := R_FINISHED, rr_finish_iteration := it\<rparr>)"
    if "prefilled (deref w rid)" "rr_output_tokens (deref w rid) \<ge> max_new_tokens (rr_spec (deref w rid))"
    using that i(3,4) by (auto simp: run_ok_def prefilled_def)
  have nc: "\<not> rr_cancelled (deref w rid)" using i(3,4) by (auto simp: run_ok_def)
  note d = c [unfolded complete_one_def Let_def prod.case]
  show "work_wf w'"
    using wf d i keep by (auto simp: work_wf_def deref_mutate split: if_splits)
  show "bal w' = bal w" using d i by (auto simp: bal_def total_mutate split: if_splits)
  show "same_requests w w'" using d i by (auto simp: same_requests_def deref_mutate split: if_splits)
  show "unfinished (deref w' rid)"
    using d i nc by (auto simp: deref_mutate unfinished_def run_ok_def prefilled_def sim_request_ok split: if_splits)
  show "\<forall>j. j \<noteq> rid \<longrightarrow> deref w' j = deref w j" using d i by (auto simp: deref_mutate split: if_splits)
  show "w_running w' = w_running w \<or> w_running w' = remove1 rid (w_running w)"
    using d by (auto split: if_splits)
  show "set (w_running w') = {j \<in> set (w_running w). j = rid \<longrightarrow> rr_state (deref w' j) = R_RUNNING}"
    using d i by (auto simp: deref_mutate split: if_splits)
  show "w_scheduled w' = w_scheduled w" "w_waiting w' = w_waiting w" "w_rollback w' = w_rollback w"
    using d by (auto split: if_splits)
qed

section \<open>Serving one run\<close>

definition spent :: "work \<Rightarrow> int" where
  "spent w = sum_list (map snd (w_scheduled w))"

text \<open>What serving \<open>rid\<close> leaves alone.\<close>

definition serves_only :: "string \<Rightarrow> work \<Rightarrow> work \<Rightarrow> bool" where
  "serves_only rid w w' \<longleftrightarrow> same_requests w w' \<and> w_running w' = w_running w \<and> w_waiting w' = w_waiting w
     \<and> w_rollback w' = w_rollback w \<and> w_preempted w' = w_preempted w
     \<and> (\<forall>j. j \<noteq> rid \<longrightarrow> deref w' j = deref w j \<and> map_of (w_scheduled w') j = map_of (w_scheduled w) j)"

lemma serves_only_refl [simp]: "serves_only rid w w"
  by (simp add: serves_only_def)

lemma serves_only_trans: "serves_only rid w w' \<Longrightarrow> serves_only rid w' w'' \<Longrightarrow> serves_only rid w w''"
  by (auto simp: serves_only_def intro: same_requests_trans)

lemma give_prefill_facts:
  assumes "distinct (ids w)" "rid \<in> set (ids w)" "map_of (w_scheduled w) rid = None"
  shows "serves_only rid w (give_prefill it n rid w)" "bal (give_prefill it n rid w) = bal w"
    "spent (give_prefill it n rid w) = spent w + n" "w_budget (give_prefill it n rid w) = w_budget w - n"
    "map_of (w_scheduled (give_prefill it n rid w)) rid = Some n"
    "deref (give_prefill it n rid w) rid = (deref w rid)\<lparr>rr_computed := rr_computed (deref w rid) + n,
        rr_schedule := rr_schedule (deref w rid) @ [(it, n)]\<rparr>"
  using assms
  by (auto simp: give_prefill_def serves_only_def same_requests_def deref_mutate map_of_update bal_def spent_def
      total_mutate sum_update_fresh)

lemma give_first_token_facts:
  assumes "distinct (ids w)" "rid \<in> set (ids w)" "map_of (w_scheduled w) rid = Some n"
  shows "serves_only rid w (give_first_token it n rid w)" "bal (give_first_token it n rid w) = bal w"
    "spent (give_first_token it n rid w) = spent w + 1" "w_budget (give_first_token it n rid w) = w_budget w - 1"
    "map_of (w_scheduled (give_first_token it n rid w)) rid = Some (n + 1)"
    "deref (give_first_token it n rid w) rid = (deref w rid)\<lparr>rr_output_tokens := 1, rr_first_token_iteration := it,
        rr_schedule := rr_schedule (deref w rid) @ [(it, 1)], rr_computed := rr_computed (deref w rid) + 1\<rparr>"
  using assms
  by (auto simp: give_first_token_def serves_only_def same_requests_def deref_mutate map_of_update bal_def spent_def
      total_mutate sum_update_present)

lemma give_decode_facts:
  assumes "distinct (ids w)" "rid \<in> set (ids w)" "map_of (w_scheduled w) rid = None"
  shows "serves_only rid w (give_decode it rid w)" "bal (give_decode it rid w) = bal w"
    "spent (give_decode it rid w) = spent w + 1" "w_budget (give_decode it rid w) = w_budget w - 1"
    "map_of (w_scheduled (give_decode it rid w)) rid = Some 1"
    "deref (give_decode it rid w) rid = (deref w rid)\<lparr>rr_computed := rr_computed (deref w rid) + 1,
        rr_output_tokens := rr_output_tokens (deref w rid) + 1, rr_schedule := rr_schedule (deref w rid) @ [(it, 1)]\<rparr>"
  using assms
  by (auto simp: give_decode_def serves_only_def same_requests_def deref_mutate map_of_update bal_def spent_def
      total_mutate sum_update_fresh)

lemma serves_only_wf:
  assumes wf: "work_wf w" and s: "serves_only rid w w'"
    and r: "run_ok (deref w' rid)" "rr_state (deref w' rid) = rr_state (deref w rid)"
  shows "work_wf w'"
proof -
  have "ids w' = ids w" "w_running w' = w_running w" "\<And>j. j \<noteq> rid \<Longrightarrow> deref w' j = deref w j"
    using s by (auto simp: serves_only_def same_requests_def)
  then have "run_ok (deref w' j)" if "j \<in> set (ids w)" for j
    using that wf r(1) by (cases "j = rid") (auto simp: work_wf_def)
  moreover have "rr_state (deref w' j) = R_RUNNING" if "j \<in> set (w_running w)" for j
    using that wf r(2) \<open>\<And>j. j \<noteq> rid \<Longrightarrow> deref w' j = deref w j\<close> by (cases "j = rid") (auto simp: work_wf_def)
  ultimately show ?thesis
    using wf \<open>ids w' = ids w\<close> \<open>w_running w' = w_running w\<close> by (simp add: work_wf_def)
qed

text \<open>The outcomes of serving one run that has not been served in this iteration.\<close>

definition served :: "scheduler_spec \<Rightarrow> string \<Rightarrow> work \<Rightarrow> work \<Rightarrow> bool" where
  "served sp rid w w' \<longleftrightarrow> work_wf w' \<and> bal w' = bal w \<and> serves_only rid w w'
     \<and> w_budget w' + spent w' = w_budget w + spent w
     \<and> w_budget w' \<le> w_budget w \<and> (0 \<le> w_budget w \<longrightarrow> -1 \<le> w_budget w') \<and> (w_budget w \<le> 0 \<longrightarrow> w_budget w' = w_budget w)
     \<and> rr_state (deref w' rid) = R_RUNNING"

lemma run_not_prefilled:
  assumes "run_ok r" "rr_state r = R_RUNNING" "\<not> prefilled r"
  shows "rr_output_tokens r = 0" "rr_first_token_iteration r < 0" "rr_computed r < prompt_tokens (rr_spec r)"
    "0 \<le> rr_computed r" "0 < max_new_tokens (rr_spec r)"
  using assms by (auto simp: run_ok_def prefilled_def sim_request_ok)

lemma prefill_served:
  assumes wf: "work_wf w" and rid: "rid \<in> set (w_running w)" "map_of (w_scheduled w) rid = None"
    and np: "\<not> prefilled (deref w rid)" and it: "0 \<le> it"
    and n: "0 < n" "n \<le> w_budget w" "n \<le> prompt_tokens (rr_spec (deref w rid)) - rr_computed (deref w rid)"
    and w': "w' = give_prefill it n rid w"
    and w'': "w'' = (if prefilled (deref w' rid) \<and> rr_first_token_iteration (deref w' rid) < 0
                then give_first_token it n rid w' else w')"
  shows "served sp rid w w''"
proof -
  let ?r = "deref w rid"
  have i: "distinct (ids w)" "rid \<in> set (ids w)" "run_ok ?r" "rr_state ?r = R_RUNNING"
    using wf rid by (auto simp: work_wf_def)
  note r = run_not_prefilled [OF i(3,4) np]
  note f = give_prefill_facts [OF i(1,2) rid(2), of it n, folded w']
  have i': "distinct (ids w')" "rid \<in> set (ids w')" using f(1) i by (simp_all add: serves_only_def same_requests_def)
  show ?thesis
  proof (cases "prefilled (deref w' rid)")
    case True
    then have e: "rr_computed ?r + n = prompt_tokens (rr_spec ?r)" using n(3) by (simp add: prefilled_def f(6))
    have w2: "w'' = give_first_token it n rid w'" using True r by (simp add: w'' f(6))
    note g = give_first_token_facts [OF i' f(5), of it, folded w2]
    have s: "serves_only rid w w''" using f(1) g(1) by (rule serves_only_trans)
    have "run_ok (deref w'' rid)" "rr_state (deref w'' rid) = R_RUNNING"
      using i r e it n by (auto simp: g(6) f(6) run_ok_def sim_request_ok)
    then show ?thesis
      using serves_only_wf [OF wf s] i s f g n by (auto simp: served_def)
  next
    case False
    then have w2: "w'' = w'" by (simp add: w'')
    have "run_ok (deref w' rid)" "rr_state (deref w' rid) = R_RUNNING"
      using i r n False by (auto simp: f(6) run_ok_def sim_request_ok prefilled_def)
    then show ?thesis
      using serves_only_wf [OF wf f(1)] i f n by (auto simp: served_def w2)
  qed
qed

lemma decode_served:
  assumes wf: "work_wf w" and rid: "rid \<in> set (w_running w)" "map_of (w_scheduled w) rid = None"
    and p: "prefilled (deref w rid)" "unfinished (deref w rid)" and b: "1 \<le> w_budget w"
  shows "served sp rid w (give_decode it rid w)"
proof -
  have i: "distinct (ids w)" "rid \<in> set (ids w)" "run_ok (deref w rid)" "rr_state (deref w rid) = R_RUNNING"
    using wf rid by (auto simp: work_wf_def)
  note f = give_decode_facts [OF i(1,2) rid(2), of it]
  have "run_ok (deref (give_decode it rid w) rid)" "rr_state (deref (give_decode it rid w) rid) = R_RUNNING"
    using i p by (auto simp: f(6) run_ok_def prefilled_def unfinished_def)
  then show ?thesis
    using serves_only_wf [OF wf f(1)] i f b by (auto simp: served_def)
qed

lemma idle_served: "work_wf w \<Longrightarrow> rid \<in> set (w_running w) \<Longrightarrow> served sp rid w w"
  by (auto simp: served_def work_wf_def)

lemma schedule_one_served:
  assumes wf: "work_wf w" and rid: "rid \<in> set (w_running w)" "map_of (w_scheduled w) rid = None"
    and u: "unfinished (deref w rid)" and it: "0 \<le> it" and s: "schedule_one sp it rid w = Inr w'"
  shows "served sp rid w w'"
proof (cases "prefilled (deref w rid)")
  case True
  have st: "rr_state (deref w rid) = R_RUNNING" using wf rid by (auto simp: work_wf_def)
  show ?thesis
    using s True st decode_served [OF wf rid True u] idle_served [OF wf rid(1)]
    by (auto simp: schedule_one_def Let_def run_done_def split: if_splits)
next
  case False
  have st: "rr_state (deref w rid) = R_RUNNING" using wf rid by (auto simp: work_wf_def)
  let ?n = "prefill_allowance sp w (deref w rid)"
  show ?thesis
  proof (cases "?n \<le> 0")
    case True
    then show ?thesis using s st False idle_served [OF wf rid(1)]
      by (auto simp: schedule_one_def Let_def run_done_def)
  next
    case pos: False
    have b: "?n \<le> w_budget w" "?n \<le> prompt_tokens (rr_spec (deref w rid)) - rr_computed (deref w rid)"
      by (auto simp: prefill_allowance_def Let_def)
    have "w' = (let v = give_prefill it ?n rid w in if prefilled (deref v rid) \<and> rr_first_token_iteration (deref v rid) < 0
                then give_first_token it ?n rid v else v)"
      using s st False pos by (auto simp: schedule_one_def Let_def run_done_def result_simps split: if_splits)
    then show ?thesis
      using prefill_served [OF wf rid False it _ b refl refl] pos by (simp add: Let_def)
  qed
qed

section \<open>The phases\<close>

definition running_complete :: "work \<Rightarrow> bool" where
  "running_complete w \<longleftrightarrow> (\<forall>j \<in> set (ids w). rr_state (deref w j) = R_RUNNING \<longrightarrow> j \<in> set (w_running w))"

definition phase_inv :: "work \<Rightarrow> bool" where
  "phase_inv w \<longleftrightarrow> work_wf w \<and> all_unfinished w \<and> running_complete w"

text \<open>What the phases before scheduling keep.\<close>

definition prepares :: "work \<Rightarrow> work \<Rightarrow> bool" where
  "prepares w w' \<longleftrightarrow> bal w' = bal w \<and> same_requests w w' \<and> w_scheduled w' = w_scheduled w \<and> w_budget w' = w_budget w"

lemma prepares_refl [simp]: "prepares w w"
  by (simp add: prepares_def)

lemma prepares_trans: "prepares w w' \<Longrightarrow> prepares w' w'' \<Longrightarrow> prepares w w''"
  by (auto simp: prepares_def intro: same_requests_trans)

lemma admit_phase_inv:
  assumes "phase_inv w" "rid \<in> set (ids w)" "rr_state (deref w rid) = R_WAITING"
  shows "phase_inv (sched_admit it rid w)" "prepares w (sched_admit it rid w)"
    "\<And>j. j \<noteq> rid \<Longrightarrow> deref (sched_admit it rid w) j = deref w j"
    "w_running (sched_admit it rid w) = w_running w @ [rid]"
  using assms admit_keeps [of w rid it]
  by (auto simp: phase_inv_def prepares_def running_complete_def sched_admit_def deref_mutate)

lemma preempt_phase_inv:
  assumes "phase_inv w" "rid \<in> set (w_running w)"
  shows "phase_inv (sched_preempt rid w)" "prepares w (sched_preempt rid w)"
    "\<And>j. j \<noteq> rid \<Longrightarrow> deref (sched_preempt rid w) j = deref w j"
    "w_running (sched_preempt rid w) = remove1 rid (w_running w)"
proof -
  have i: "rid \<in> set (ids w)" "distinct (w_running w)" using assms by (auto simp: phase_inv_def work_wf_def)
  have "running_complete (sched_preempt rid w)"
    using assms i by (auto simp: phase_inv_def running_complete_def sched_preempt_def deref_mutate)
  then show "phase_inv (sched_preempt rid w)" "prepares w (sched_preempt rid w)"
    using assms preempt_keeps [of w rid] by (auto simp: phase_inv_def prepares_def sched_preempt_def)
  show "w_running (sched_preempt rid w) = remove1 rid (w_running w)" by (simp add: sched_preempt_def)
  show "deref (sched_preempt rid w) j = deref w j" if "j \<noteq> rid" for j
    using i that by (simp add: sched_preempt_def deref_mutate)
qed

lemma select_victim_running: "select_victim sp w = Some v \<Longrightarrow> v \<in> set (w_running w)"
  by (auto simp: select_victim_def split: if_splits dest: argmin_mem argmax_mem)

lemma waiting_wf_other:
  assumes "waiting_wf rids w" "same_requests w w'" "\<And>j. j \<in> set rids \<Longrightarrow> deref w' j = deref w j"
  shows "waiting_wf rids w'"
  using assms by (auto simp: waiting_wf_def same_requests_def)

lemma waiting_wf_admit:
  assumes "phase_inv w" "waiting_wf (rid # rids) w"
  shows "waiting_wf rids w" "rid \<in> set (ids w)" "rr_state (deref w rid) = R_WAITING"
    "waiting_wf rids (sched_admit it rid w)"
proof -
  show a: "waiting_wf rids w" "rid \<in> set (ids w)" "rr_state (deref w rid) = R_WAITING"
    using assms by (auto simp: waiting_wf_def)
  show "waiting_wf rids (sched_admit it rid w)"
  proof (rule waiting_wf_other [OF a(1)])
    show "same_requests w (sched_admit it rid w)"
      using admit_phase_inv(2) [OF assms(1) a(2,3)] by (simp add: prepares_def)
    show "deref (sched_admit it rid w) j = deref w j" if "j \<in> set rids" for j
      using that assms(2) by (intro admit_phase_inv(3) [OF assms(1) a(2,3)]) (auto simp: waiting_wf_def)
  qed
qed

lemma waiting_wf_preempt:
  assumes "phase_inv w" "waiting_wf rids w" "v \<in> set (w_running w)"
  shows "waiting_wf rids (sched_preempt v w)"
proof -
  have "v \<notin> set rids" using assms by (auto simp: phase_inv_def work_wf_def waiting_wf_def)
  then have "deref (sched_preempt v w) j = deref w j" if "j \<in> set rids" for j
    using that by (intro preempt_phase_inv(3) [OF assms(1,3)]) auto
  then show ?thesis
    using preempt_phase_inv(2) [OF assms(1,3)] by (intro waiting_wf_other [OF assms(2)]) (auto simp: prepares_def)
qed

lemma cancel_loop:
  assumes "phase_inv w" "waiting_wf (w_waiting w) w" "set rids \<subseteq> set (ids w)"
  shows "phase_inv (foldl (cancel_one it) w rids) \<and> prepares w (foldl (cancel_one it) w rids)
    \<and> waiting_wf (w_waiting (foldl (cancel_one it) w rids)) (foldl (cancel_one it) w rids)"
  using assms
proof (induction rids arbitrary: w)
  case Nil
  then show ?case by simp
next
  case (Cons rid rids)
  have r: "rid \<in> set (ids w)" and wf: "work_wf w" "all_unfinished w" using Cons.prems by (auto simp: phase_inv_def)
  note k = cancel_one_keeps [OF wf Cons.prems(2) r, of it]
  have "running_complete (cancel_one it w rid)"
    using Cons.prems(1) r wf(1) by (auto simp: phase_inv_def running_complete_def cancel_one_def Let_def deref_mutate work_wf_def)
  then have 1: "phase_inv (cancel_one it w rid)" and p: "prepares w (cancel_one it w rid)"
    using k by (auto simp: phase_inv_def prepares_def)
  then have "set rids \<subseteq> set (ids (cancel_one it w rid))"
    using Cons.prems(3) by (auto simp: prepares_def same_requests_def)
  from Cons.IH [OF 1 k(3) this] p show ?case by (auto intro: prepares_trans)
qed

lemma admit_loop_keeps:
  assumes "phase_inv w" "waiting_wf rids w" "admit_loop sp it rids w = Inr w'"
  shows "phase_inv w' \<and> prepares w w'"
  using assms
proof (induction rids arbitrary: w)
  case Nil
  then show ?case by simp
next
  case (Cons rid rids)
  note wa = waiting_wf_admit [OF Cons.prems(1,2)]
  have admit: "phase_inv w' \<and> prepares v w'"
    if "phase_inv v" "waiting_wf (rid # rids) v" "admit_loop sp it rids (sched_admit it rid v) = Inr w'" for v
    using that waiting_wf_admit [OF that(1,2)] admit_phase_inv [OF that(1)] Cons.IH prepares_trans by metis
  have skip: ?case if "admit_loop sp it rids w = Inr w'" using Cons.IH Cons.prems(1) wa(1) that by blast
  show ?case
  proof (cases "submit_iteration (rr_spec (deref w rid)) > it \<or> int (length (w_running w)) \<ge> max_sequences sp")
    case True
    then show ?thesis using Cons.prems skip by (auto split: if_splits)
  next
    case False
    then obtain ok where ok: "capacity_ok sp rid w = Inr ok"
      using Cons.prems(3) by (auto simp: result_simps)
    show ?thesis
    proof (cases "ok \<or> select_victim sp w = None")
      case True
      then show ?thesis
        using False Cons.prems ok skip admit [of w] by (auto split: if_splits)
    next
      case nv: False
      then obtain v where v: "select_victim sp w = Some v" by auto
      let ?u = "sched_preempt v w"
      note r = select_victim_running [OF v]
      have u: "phase_inv ?u" "prepares w ?u" "waiting_wf (rid # rids) ?u" "waiting_wf rids ?u"
        using preempt_phase_inv [OF Cons.prems(1) r] waiting_wf_preempt [OF Cons.prems(1) _ r] Cons.prems(2) wa(1) by auto
      have "admit_loop sp it rids (sched_admit it rid ?u) = Inr w' \<or> admit_loop sp it rids ?u = Inr w'"
        using False Cons.prems(3) ok nv v by (auto simp: result_simps Let_def split: if_splits)
      then show ?thesis
        using u admit [of ?u] Cons.IH [of ?u] prepares_trans by blast
    qed
  qed
qed

lemma static_join_keeps:
  assumes "phase_inv w" "rid \<in> set (ids w)"
  shows "phase_inv (static_join it w rid)" "prepares w (static_join it w rid)"
proof -
  let ?r = "deref w rid"
  have "rr_state ?r = R_WAITING" if "\<not> run_done ?r" "rid \<notin> set (w_running w)"
  proof -
    have "run_ok ?r" "rr_state ?r \<noteq> R_RUNNING"
      using assms that(2) by (auto simp: phase_inv_def work_wf_def running_complete_def)
    then show ?thesis using that(1) by (cases "rr_state ?r") (auto simp: run_ok_def run_done_def)
  qed
  then show "phase_inv (static_join it w rid)" "prepares w (static_join it w rid)"
    using assms admit_phase_inv [OF assms] by (auto simp: static_join_def Let_def)
qed

lemma static_loop_keeps:
  assumes "phase_inv w" "set rids \<subseteq> set (ids w)"
  shows "phase_inv (foldl (static_join it) w rids) \<and> prepares w (foldl (static_join it) w rids)"
  using assms
proof (induction rids arbitrary: w)
  case Nil
  then show ?case by simp
next
  case (Cons rid rids)
  have r: "rid \<in> set (ids w)" using Cons.prems(2) by simp
  note k = static_join_keeps [OF Cons.prems(1) r, of it]
  then have "set rids \<subseteq> set (ids (static_join it w rid))"
    using Cons.prems(2) by (auto simp: prepares_def same_requests_def)
  from Cons.IH [OF k(1) this] k(2) show ?case by (auto intro: prepares_trans)
qed

lemma static_phase_keeps:
  assumes "phase_inv w" "set batch \<subseteq> set (ids w)" "w' = static_phase sp it batch w"
  shows "work_wf w'" "all_unfinished w'" "prepares w w'" "set (w_running w') \<subseteq> set (ids w')"
    "sp_mode sp \<noteq> STATIC \<Longrightarrow> w' = w"
proof -
  have p: "phase_inv (w\<lparr>w_padding := c\<rparr>)" "prepares w (w\<lparr>w_padding := c\<rparr>)" "set batch \<subseteq> set (ids (w\<lparr>w_padding := c\<rparr>))" for c
    using assms(1,2) by (auto simp: phase_inv_def work_wf_def all_unfinished_def running_complete_def prepares_def same_requests_def)
  have f: "work_wf (v\<lparr>w_running := filter P (w_running v)\<rparr>)" "all_unfinished (v\<lparr>w_running := filter P (w_running v)\<rparr>)"
    "prepares v (v\<lparr>w_running := filter P (w_running v)\<rparr>)" if "phase_inv v" for v P
    using that by (auto simp: phase_inv_def work_wf_def all_unfinished_def prepares_def same_requests_def)
  show wf: "work_wf w'" "all_unfinished w'"
    using assms(1,3) f static_loop_keeps [OF p(1,3)] by (auto simp: static_phase_def Let_def phase_inv_def)
  have "prepares w (v\<lparr>w_running := filter P (w_running v)\<rparr>)" if "v = foldl (static_join it) (w\<lparr>w_padding := c\<rparr>) batch" for v P c
    using that static_loop_keeps [OF p(1,3)] f(3) p(2) prepares_trans by metis
  then show "prepares w w'" using assms(3) by (auto simp: static_phase_def Let_def)
  show "set (w_running w') \<subseteq> set (ids w')" using wf by (simp add: work_wf_def)
  show "sp_mode sp \<noteq> STATIC \<Longrightarrow> w' = w" using assms(3) by (simp add: static_phase_def)
qed

text \<open>The scheduling loop over distinct running requests that have not been served yet.\<close>

definition serves_all :: "work \<Rightarrow> work \<Rightarrow> bool" where
  "serves_all w w' \<longleftrightarrow> work_wf w' \<and> bal w' = bal w \<and> same_requests w w' \<and> w_running w' = w_running w
     \<and> w_budget w' + spent w' = w_budget w + spent w \<and> (-1 \<le> w_budget w \<longrightarrow> -1 \<le> w_budget w')"

lemma schedule_loop:
  assumes "work_wf w" "distinct rids" "set rids \<subseteq> set (w_running w)" "0 \<le> it"
    "\<And>rid. rid \<in> set rids \<Longrightarrow> map_of (w_scheduled w) rid = None \<and> unfinished (deref w rid)"
    "forE (schedule_one sp it) rids w = Inr w'"
  shows "serves_all w w' \<and> (\<forall>j. j \<notin> set rids \<longrightarrow> deref w' j = deref w j)"
  using assms
proof (induction rids arbitrary: w)
  case Nil
  then show ?case by (simp add: serves_all_def)
next
  case (Cons rid rids)
  then obtain v where v: "schedule_one sp it rid w = Inr v" "forE (schedule_one sp it) rids v = Inr w'"
    by (auto simp: result_simps)
  have s: "served sp rid w v"
    using schedule_one_served [OF Cons.prems(1) _ _ _ Cons.prems(4) v(1)] Cons.prems(3,5) by simp
  then have so: "serves_only rid w v" by (simp add: served_def)
  have other: "map_of (w_scheduled v) j = None \<and> unfinished (deref v j)" if "j \<in> set rids" for j
  proof -
    have "j \<noteq> rid" using that Cons.prems(2) by auto
    then show ?thesis using so Cons.prems(5) [of j] that by (simp add: serves_only_def)
  qed
  have "serves_all v w' \<and> (\<forall>j. j \<notin> set rids \<longrightarrow> deref w' j = deref v j)"
    using s so Cons.prems(2,3,4) v(2) other by (intro Cons.IH) (auto simp: served_def serves_only_def)
  then show ?case
    using s so by (auto simp: serves_all_def served_def serves_only_def intro: same_requests_trans)
qed

text \<open>The completion loop.\<close>

lemma completion_loop:
  assumes "work_wf w" "distinct rids" "set rids \<subseteq> set (w_running w)"
    "foldl (complete_one it) (w, fs) rids = (w', fs')"
  shows "work_wf w' \<and> bal w' = bal w \<and> same_requests w w' \<and> (\<forall>rid \<in> set rids. unfinished (deref w' rid))
    \<and> (\<forall>j. j \<notin> set rids \<longrightarrow> deref w' j = deref w j) \<and> w_scheduled w' = w_scheduled w
    \<and> set (w_running w') = {j \<in> set (w_running w). j \<in> set rids \<longrightarrow> rr_state (deref w' j) = R_RUNNING}"
  using assms
proof (induction rids arbitrary: w fs)
  case Nil
  then show ?case by simp
next
  case (Cons rid rids)
  obtain v gs where v: "complete_one it (w, fs) rid = (v, gs)" by fastforce
  have r: "rid \<in> set (w_running w)" using Cons.prems(3) by simp
  note k = complete_one_keeps [OF Cons.prems(1) r v]
  have "set rids \<subseteq> set (w_running v)" using k(7) Cons.prems(2,3) by auto
  then have "work_wf w' \<and> bal w' = bal v \<and> same_requests v w' \<and> (\<forall>rid \<in> set rids. unfinished (deref w' rid))
    \<and> (\<forall>j. j \<notin> set rids \<longrightarrow> deref w' j = deref v j) \<and> w_scheduled w' = w_scheduled v
    \<and> set (w_running w') = {j \<in> set (w_running v). j \<in> set rids \<longrightarrow> rr_state (deref w' j) = R_RUNNING}"
    using k(1) Cons.prems(2,4) v by (intro Cons.IH) auto
  then show ?case
    using k Cons.prems(2) by (auto intro: same_requests_trans)
qed

section \<open>One iteration\<close>

definition sim_wf :: "simulator \<Rightarrow> bool" where
  "sim_wf s \<longleftrightarrow> distinct (map run_id (si_runs s)) \<and> (\<forall>r \<in> set (si_runs s). run_ok r \<and> unfinished r)
     \<and> set (si_static_batch s) \<subseteq> set (map run_id (si_runs s)) \<and> 0 \<le> si_iteration s
     \<and> 0 < max_batched_tokens (si_spec s)"

lemma work_all_runs:
  assumes "distinct (ids w)"
  shows "(\<forall>j \<in> set (ids w). P (deref w j)) \<longleftrightarrow> (\<forall>r \<in> set (w_runs w). P r)"
proof -
  have "deref w (run_id r) = r" if "r \<in> set (w_runs w)" for r using run_in_store [OF assms that] by blast
  then show ?thesis by (auto simp: ids_def)
qed

lemma init_work_wf:
  assumes "sim_wf s"
  shows "phase_inv (init_work s)" "waiting_wf (w_waiting (init_work s)) (init_work s)"
    "bal (init_work s) = total_computed (si_runs s)" "ids (init_work s) = map run_id (si_runs s)"
    "w_scheduled (init_work s) = []" "w_budget (init_work s) = max_batched_tokens (si_spec s)"
    "w_runs (init_work s) = si_runs s"
proof -
  let ?w = "init_work s"
  show ids: "ids ?w = map run_id (si_runs s)" by (simp add: ids_def init_work_def)
  have d: "distinct (ids ?w)" using assms ids by (simp add: sim_wf_def)
  show runs: "w_runs ?w = si_runs s" by (simp add: init_work_def)
  have ok: "\<forall>j \<in> set (ids ?w). run_ok (deref ?w j) \<and> unfinished (deref ?w j)"
    using assms work_all_runs [OF d, of "\<lambda>r. run_ok r \<and> unfinished r"] by (simp add: sim_wf_def runs)
  have flt: "distinct (map run_id (filter P (si_runs s)))" for P
    using assms by (auto simp: sim_wf_def intro: distinct_map_filter)
  have drf: "deref ?w (run_id r) = r" if "r \<in> set (si_runs s)" for r
    using run_in_store(2) [OF d] that runs by simp
  show "phase_inv ?w"
    using d ok flt drf ids
    by (auto simp: phase_inv_def work_wf_def all_unfinished_def running_complete_def) (auto simp: init_work_def)
  show "waiting_wf (w_waiting ?w) ?w"
    using flt drf ids by (auto simp: waiting_wf_def) (auto simp: init_work_def)
  show "bal ?w = total_computed (si_runs s)" by (simp add: bal_def init_work_def)
  show "w_scheduled ?w = []" "w_budget ?w = max_batched_tokens (si_spec s)" by (simp_all add: init_work_def)
qed

text \<open>Everything before scheduling, as one step.\<close>

lemma prepare_phases:
  assumes wf: "sim_wf s"
    and a: "admission_phase sp (si_iteration s) (cancel_phase (si_iteration s) (init_work s)) = Inr w2"
    and w3: "w3 = static_phase sp (si_iteration s) (si_static_batch s) w2"
  shows "phase_inv w2" "prepares (init_work s) w2" "work_wf w3" "all_unfinished w3" "prepares (init_work s) w3"
proof -
  note i = init_work_wf [OF wf]
  let ?w1 = "cancel_phase (si_iteration s) (init_work s)"
  have sub: "set (w_waiting (init_work s) @ w_running (init_work s)) \<subseteq> set (ids (init_work s))"
    using i(1,2) by (auto simp: phase_inv_def work_wf_def waiting_wf_def)
  have w1: "phase_inv ?w1" "prepares (init_work s) ?w1" "waiting_wf (w_waiting ?w1) ?w1"
    using cancel_loop [OF i(1,2) sub] by (auto simp: cancel_phase_def)
  show w2: "phase_inv w2" "prepares (init_work s) w2"
    using admit_loop_keeps [OF w1(1,3) a [unfolded admission_phase_def]] w1(2) prepares_trans by blast+
  have "set (si_static_batch s) \<subseteq> set (ids w2)"
    using wf i(4) w2(2) by (simp add: sim_wf_def prepares_def same_requests_def)
  from static_phase_keeps [OF w2(1) this w3] w2(2)
  show "work_wf w3" "all_unfinished w3" "prepares (init_work s) w3" by (auto intro: prepares_trans)
qed

lemma serve_phases:
  assumes w3: "work_wf w3" "all_unfinished w3" "w_scheduled w3 = []" and it: "0 \<le> it"
    and s: "schedule_phase sp it w3 = Inr w4" and c: "completion_phase it w4 = (w5, finished)"
  shows "work_wf w5" "all_unfinished w5" "bal w5 = bal w3" "same_requests w3 w5"
    "w_budget w3 = w_budget w4 + spent w5" "-1 \<le> w_budget w3 \<longrightarrow> -1 \<le> w_budget w4"
    "set (w_running w5) = {j \<in> set (w_running w3). rr_state (deref w5 j) = R_RUNNING}"
    "\<forall>j. j \<notin> set (w_running w3) \<longrightarrow> deref w5 j = deref w3 j"
proof -
  have o: "set (service_order sp w3) = set (w_running w3)" "distinct (service_order sp w3)"
    using w3(1) by (simp_all add: service_order_def work_wf_def)
  have "serves_all w3 w4 \<and> (\<forall>j. j \<notin> set (service_order sp w3) \<longrightarrow> deref w4 j = deref w3 j)"
    using w3 o it s unfolding schedule_phase_def
    by (intro schedule_loop) (auto simp: all_unfinished_def work_wf_def)
  then have f: "serves_all w3 w4" "\<forall>j. j \<notin> set (w_running w3) \<longrightarrow> deref w4 j = deref w3 j" using o by auto
  have w4: "work_wf w4" "w_running w4 = w_running w3" "same_requests w3 w4" using f(1) by (auto simp: serves_all_def)
  have k: "work_wf w5 \<and> bal w5 = bal w4 \<and> same_requests w4 w5 \<and> (\<forall>rid \<in> set (w_running w4). unfinished (deref w5 rid))
    \<and> (\<forall>j. j \<notin> set (w_running w4) \<longrightarrow> deref w5 j = deref w4 j) \<and> w_scheduled w5 = w_scheduled w4
    \<and> set (w_running w5) = {j \<in> set (w_running w4). j \<in> set (w_running w4) \<longrightarrow> rr_state (deref w5 j) = R_RUNNING}"
    using w4(1) c unfolding completion_phase_def by (intro completion_loop) (auto simp: work_wf_def)
  show "work_wf w5" "bal w5 = bal w3" "same_requests w3 w5"
    "set (w_running w5) = {j \<in> set (w_running w3). rr_state (deref w5 j) = R_RUNNING}"
    using k f(1) w4 by (auto simp: serves_all_def intro: same_requests_trans)
  show rest: "\<forall>j. j \<notin> set (w_running w3) \<longrightarrow> deref w5 j = deref w3 j" using k f(2) w4(2) by simp
  have "unfinished (deref w5 j)" if "j \<in> set (ids w3)" for j
    using k w4(2) rest w3(2) that by (cases "j \<in> set (w_running w3)") (auto simp: all_unfinished_def)
  moreover have "ids w5 = ids w3" using k w4(3) by (simp add: same_requests_def)
  ultimately show "all_unfinished w5" by (simp add: all_unfinished_def)
  show "w_budget w3 = w_budget w4 + spent w5" "-1 \<le> w_budget w3 \<longrightarrow> -1 \<le> w_budget w4"
    using f(1) k w3(3) by (auto simp: serves_all_def spent_def)
qed

lemma ledger_residual:
  "conservation_residual (ledger_entry sp it prev w fin used) = prev - bal w"
  by (simp add: conservation_residual_def ledger_entry_def scheduled_total_def bal_def)

lemma scheduled_total_entry: "scheduled_total (ledger_entry sp it prev w fin used) = spent w"
  by (simp add: scheduled_total_def ledger_entry_def spent_def)

text \<open>The working states of one iteration, whatever its outcome.\<close>

lemma step_phases:
  assumes wf: "sim_wf s"
    and a: "admission_phase (si_spec s) (si_iteration s) (cancel_phase (si_iteration s) (init_work s)) = Inr w2"
    and w3: "w3 = static_phase (si_spec s) (si_iteration s) (si_static_batch s) w2"
    and w4: "schedule_phase (si_spec s) (si_iteration s) w3 = Inr w4"
    and w5: "completion_phase (si_iteration s) w4 = (w5, finished)"
  shows "work_wf w5" "all_unfinished w5" "bal w5 = total_computed (si_runs s)" "same_requests (init_work s) w5"
    "spent w5 \<le> max_batched_tokens (si_spec s) + 1"
proof -
  note i = init_work_wf [OF wf]
  note p = prepare_phases [OF wf a w3]
  have z: "w_scheduled w3 = []" "w_budget w3 = max_batched_tokens (si_spec s)"
    using p(5) i by (simp_all add: prepares_def)
  have it: "0 \<le> si_iteration s" "0 < max_batched_tokens (si_spec s)" using wf by (simp_all add: sim_wf_def)
  note q = serve_phases [OF p(3,4) z(1) it(1) w4 w5]
  show "work_wf w5" "all_unfinished w5" by (fact q)+
  show "bal w5 = total_computed (si_runs s)" using q(3) p(5) i(3) by (simp add: prepares_def)
  show "same_requests (init_work s) w5" using q(4) p(5) by (auto simp: prepares_def intro: same_requests_trans)
  show "spent w5 \<le> max_batched_tokens (si_spec s) + 1" using q(5,6) z(2) it(2) by linarith
qed

lemma runs_deref: "distinct (ids w) \<Longrightarrow> map (deref w) (ids w) = w_runs w"
  unfolding ids_def map_map by (rule map_idI) (use run_in_store(2) in \<open>auto simp: ids_def\<close>)

lemma same_requests_specs:
  assumes "same_requests w w'" "distinct (ids w)" "distinct (ids w')"
  shows "map rr_spec (w_runs w') = map rr_spec (w_runs w)"
proof -
  have "map (rr_spec \<circ> deref w') (ids w') = map (rr_spec \<circ> deref w) (ids w)"
    using assms(1) by (auto simp: same_requests_def)
  then show ?thesis using runs_deref [OF assms(2)] runs_deref [OF assms(3)] by (metis map_map)
qed

lemma work_wf_sim:
  assumes "work_wf w" "all_unfinished w"
  shows "\<forall>r \<in> set (w_runs w). run_ok r \<and> unfinished r"
  using assms work_all_runs [of w "\<lambda>r. run_ok r \<and> unfinished r"] by (simp add: work_wf_def all_unfinished_def)

lemma sim_step_shape:
  assumes "sim_step s = Inr (entry, s')"
  shows "\<exists>runs padding. s' = s\<lparr>si_runs := runs, si_padding_slots := padding,
     si_kv_peak_blocks := max (si_kv_peak_blocks s) (le_kv_used_blocks entry),
     si_iterations := si_iterations s @ [entry], si_iteration := si_iteration s + 1\<rparr>"
proof -
  let ?sp = "si_spec s" and ?it = "si_iteration s"
  obtain w2 where a: "admission_phase ?sp ?it (cancel_phase ?it (init_work s)) = Inr w2"
    using assms by (auto simp: sim_step_def Let_def result_simps)
  obtain w4 where w4: "schedule_phase ?sp ?it (static_phase ?sp ?it (si_static_batch s) w2) = Inr w4"
    using assms a by (auto simp: sim_step_def Let_def result_simps)
  obtain w5 fin where w5: "completion_phase ?it w4 = (w5, fin)" by fastforce
  show ?thesis
    using assms a w4 w5 by (auto simp: sim_step_def Let_def result_simps split: if_splits)
qed

lemma sim_step_keeps:
  assumes wf: "sim_wf s" and st: "sim_step s = Inr (entry, s')"
  shows "sim_wf s'" "conservation_residual entry = 0"
    "scheduled_total entry \<le> max_batched_tokens (si_spec s) + 1" "si_iterations s' = si_iterations s @ [entry]"
    "si_spec s' = si_spec s" "map rr_spec (si_runs s') = map rr_spec (si_runs s)" "si_static_batch s' = si_static_batch s"
proof -
  let ?sp = "si_spec s" and ?it = "si_iteration s"
  obtain w2 where a: "admission_phase ?sp ?it (cancel_phase ?it (init_work s)) = Inr w2"
    using st by (auto simp: sim_step_def Let_def result_simps)
  define w3 where "w3 = static_phase ?sp ?it (si_static_batch s) w2"
  obtain w4 where w4: "schedule_phase ?sp ?it w3 = Inr w4"
    using st a by (auto simp: sim_step_def Let_def result_simps w3_def)
  obtain w5 fin where w5: "completion_phase ?it w4 = (w5, fin)" by fastforce
  note q = step_phases [OF wf a w3_def w4 w5]
  obtain used where e: "entry = ledger_entry ?sp ?it (total_computed (si_runs s)) w5 fin used"
    "s' = s\<lparr>si_runs := w_runs w5, si_padding_slots := w_padding w5,
               si_kv_peak_blocks := max (si_kv_peak_blocks s) (le_kv_used_blocks entry),
               si_iterations := si_iterations s @ [entry], si_iteration := ?it + 1\<rparr>"
    using st a w4 w5 by (auto simp: sim_step_def Let_def result_simps w3_def split: if_splits)
  have rids: "map run_id (w_runs w5) = map run_id (si_runs s)"
    using q(4) init_work_wf(4) [OF wf] by (simp add: same_requests_def ids_def)
  then show "sim_wf s'"
    using wf work_wf_sim [OF q(1,2)] by (auto simp: sim_wf_def e(2))
  show "conservation_residual entry = 0" using q(3) by (simp add: e(1) ledger_residual)
  show "scheduled_total entry \<le> max_batched_tokens ?sp + 1" using q(5) by (simp add: e(1) scheduled_total_entry)
  show "si_iterations s' = si_iterations s @ [entry]" "si_spec s' = si_spec s"
    "map rr_spec (si_runs s') = map rr_spec (si_runs s)" "si_static_batch s' = si_static_batch s"
    using same_requests_specs [OF q(4)] q(1) init_work_wf(1,7) [OF wf] by (simp_all add: e(2) phase_inv_def work_wf_def)
qed

end
