(* ===== verification/Scheduler_Kv.thy ===== *)
theory Scheduler_Kv
  imports Scheduler_Inv
begin

text \<open>
  KV reservations of the scheduler: with full-length reservation every phase succeeds, and outside
  static mode the blocks reserved by the running requests never exceed the watermark limit.
\<close>

section \<open>Reservations\<close>

definition need :: "scheduler_spec \<Rightarrow> request_run \<Rightarrow> int" where
  "need sp r = exact_blocks (prompt_tokens (rr_spec r) + max_new_tokens (rr_spec r)) (sp_block_size sp)"

definition kv :: "scheduler_spec \<Rightarrow> work \<Rightarrow> int" where
  "kv sp w = sum_list (map (\<lambda>rid. need sp (deref w rid)) (w_running w))"

text \<open>Full reservation and token counts that are exact doubles.\<close>

definition reserving :: "scheduler_spec \<Rightarrow> work \<Rightarrow> bool" where
  "reserving sp w \<longleftrightarrow> admission_reserve_full_isl sp \<and> 0 < sp_block_size sp
     \<and> (\<forall>j \<in> set (ids w). prompt_tokens (rr_spec (deref w j)) + max_new_tokens (rr_spec (deref w j)) < 2 ^ 53)"

lemma reserving_same: "same_requests w w' \<Longrightarrow> reserving sp w \<Longrightarrow> reserving sp w'"
  by (auto simp: reserving_def same_requests_def)

lemma reserve_blocks_need:
  assumes "reserving sp w" "work_wf w" "j \<in> set (ids w)"
  shows "reserve_blocks sp (deref w j) = Inr (need sp (deref w j))" "0 \<le> need sp (deref w j)"
    "prompt_tokens (rr_spec (deref w j)) \<le> need sp (deref w j) * sp_block_size sp"
proof -
  let ?r = "rr_spec (deref w j)"
  have p: "0 < prompt_tokens ?r" "0 < max_new_tokens ?r"
    using assms by (auto simp: work_wf_def run_ok_def sim_request_ok)
  have b: "0 < sp_block_size sp" "prompt_tokens ?r + max_new_tokens ?r < 2 ^ 53" "admission_reserve_full_isl sp"
    using assms by (auto simp: reserving_def)
  show "reserve_blocks sp (deref w j) = Inr (need sp (deref w j))"
    using p b by (simp add: reserve_blocks_def reserve_target_def need_def blocks_for_exact)
  show "0 \<le> need sp (deref w j)" using p b by (simp add: need_def exact_blocks_nonneg)
  show "prompt_tokens ?r \<le> need sp (deref w j) * sp_block_size sp"
    using exact_blocks_bounds(1) [OF b(1), of "prompt_tokens ?r + max_new_tokens ?r"] p by (simp add: need_def)
qed

lemma blocks_held_need:
  assumes "\<And>r. r \<in> set rs \<Longrightarrow> reserve_blocks sp r = Inr (need sp r)"
  shows "blocks_held sp rs = Inr (sum_list (map (need sp) rs))"
proof -
  have "forE (\<lambda>r s. bindE (reserve_blocks sp r) (\<lambda>n. Inr (s + n))) rs acc = Inr (acc + sum_list (map (need sp) rs))" for acc
    using assms by (induction rs arbitrary: acc) auto
  then show ?thesis by (simp add: blocks_held_def)
qed

lemma held_kv:
  assumes "reserving sp w" "work_wf w" "set rids \<subseteq> set (ids w)"
  shows "blocks_held sp (map (deref w) rids) = Inr (sum_list (map (\<lambda>j. need sp (deref w j)) rids))"
proof -
  have "blocks_held sp (map (deref w) rids) = Inr (sum_list (map (need sp) (map (deref w) rids)))"
    using assms reserve_blocks_need(1) by (intro blocks_held_need) auto
  then show ?thesis by (simp add: comp_def)
qed

lemma capacity_ok_kv:
  assumes "reserving sp w" "work_wf w" "rid \<in> set (ids w)"
  shows "capacity_ok sp rid w = Inr (kv sp w + need sp (deref w rid) \<le> kv_block_limit sp)"
proof -
  have "set (w_running w @ [rid]) \<subseteq> set (ids w)" using assms by (auto simp: work_wf_def)
  from held_kv [OF assms(1,2) this] show ?thesis by (simp add: capacity_ok_def kv_def)
qed

lemma kv_as_sum: "distinct (w_running w) \<Longrightarrow> kv sp w = (\<Sum>j \<in> set (w_running w). need sp (deref w j))"
  by (simp add: kv_def sum_list_distinct_conv_sum_set)

lemma kv_mono:
  assumes "reserving sp w" "work_wf w" "same_requests w w'" "distinct (w_running w')"
    "set (w_running w') \<subseteq> set (w_running w)"
  shows "kv sp w' \<le> kv sp w" "length (w_running w') \<le> length (w_running w)"
proof -
  have sub: "set (w_running w) \<subseteq> set (ids w)" and d: "distinct (w_running w)" using assms(2) by (auto simp: work_wf_def)
  have "kv sp w' = (\<Sum>j \<in> set (w_running w'). need sp (deref w j))"
    unfolding kv_as_sum [OF assms(4)] using assms(3,5) sub by (intro sum.cong) (auto simp: need_def same_requests_def)
  also have "\<dots> \<le> (\<Sum>j \<in> set (w_running w). need sp (deref w j))"
    using assms(5) sub reserve_blocks_need(2) [OF assms(1,2)] by (intro sum_mono2) auto
  finally show "kv sp w' \<le> kv sp w" using kv_as_sum [OF d] by simp
  have "card (set (w_running w')) \<le> card (set (w_running w))" using assms(5) by (intro card_mono) auto
  then show "length (w_running w') \<le> length (w_running w)" using assms(4) d by (simp add: distinct_card)
qed

lemma kv_admit:
  assumes "phase_inv w" "rid \<in> set (ids w)" "rr_state (deref w rid) = R_WAITING"
  shows "kv sp (sched_admit it rid w) = kv sp w + need sp (deref w rid)"
proof -
  note a = admit_phase_inv [OF assms, where it = it]
  have "need sp (deref (sched_admit it rid w) j) = need sp (deref w j)" if "j \<in> set (ids w)" for j
    using a(2) that by (simp add: prepares_def same_requests_def need_def)
  moreover have "set (w_running w) \<subseteq> set (ids w)" using assms(1) by (simp add: phase_inv_def work_wf_def)
  ultimately have "map (\<lambda>j. need sp (deref (sched_admit it rid w) j)) (w_running w @ [rid])
      = map (\<lambda>j. need sp (deref w j)) (w_running w @ [rid])"
    using assms(2) by (intro map_cong) auto
  then have "(\<Sum>j \<leftarrow> w_running w @ [rid]. need sp (deref (sched_admit it rid w) j))
      = (\<Sum>j \<leftarrow> w_running w @ [rid]. need sp (deref w j))" by (simp only:)
  then show ?thesis by (simp add: kv_def a(4))
qed

lemma kv_preempt:
  assumes "phase_inv w" "reserving sp w" "v \<in> set (w_running w)"
  shows "kv sp (sched_preempt v w) \<le> kv sp w" "length (w_running (sched_preempt v w)) \<le> length (w_running w)"
  using kv_mono [of sp w "sched_preempt v w"] preempt_phase_inv [OF assms(1,3)] assms(1,2)
  by (auto simp: phase_inv_def prepares_def work_wf_def dest: set_remove1_subset [THEN subsetD])

section \<open>Admission\<close>

text \<open>The admission bound: reservations within the block limit, sequences within the maximum.\<close>

definition in_limits :: "scheduler_spec \<Rightarrow> work \<Rightarrow> bool" where
  "in_limits sp w \<longleftrightarrow> kv sp w \<le> kv_block_limit sp \<and> int (length (w_running w)) \<le> max_sequences sp"

lemma admit_in_limits:
  assumes "phase_inv w" "reserving sp w" "rid \<in> set (ids w)" "rr_state (deref w rid) = R_WAITING"
    and "int (length (w_running w)) < max_sequences sp" "kv sp w + need sp (deref w rid) \<le> kv_block_limit sp"
  shows "in_limits sp (sched_admit it rid w)" "reserving sp (sched_admit it rid w)"
  using assms kv_admit [OF assms(1,3,4)] admit_phase_inv [OF assms(1,3,4), where it = it] reserving_same
  by (auto simp: in_limits_def prepares_def)

lemma admit_loop_total:
  assumes "phase_inv w" "waiting_wf rids w" "reserving sp w"
  shows "\<exists>w'. admit_loop sp it rids w = Inr w' \<and> (in_limits sp w \<longrightarrow> in_limits sp w')"
  using assms
proof (induction rids arbitrary: w)
  case Nil
  then show ?case by simp
next
  case (Cons rid rids)
  note wa = waiting_wf_admit [OF Cons.prems(1,2)]
  have admit: "\<exists>w'. admit_loop sp it rids (sched_admit it rid v) = Inr w' \<and> in_limits sp w'"
    if v: "phase_inv v" "waiting_wf (rid # rids) v" "reserving sp v" "int (length (w_running v)) < max_sequences sp"
      "kv sp v + need sp (deref v rid) \<le> kv_block_limit sp" for v
  proof -
    note a = waiting_wf_admit [OF v(1,2)]
    from admit_in_limits [OF v(1,3) a(2,3) v(4,5), of it] Cons.IH [of "sched_admit it rid v"] admit_phase_inv(1) [OF v(1) a(2,3), where it = it] a(4)
    show ?thesis by blast
  qed
  have skip: "\<exists>w'. admit_loop sp it rids w = Inr w' \<and> (in_limits sp w \<longrightarrow> in_limits sp w')"
    using Cons wa(1) by blast
  have cap: "capacity_ok sp rid v = Inr (kv sp v + need sp (deref v rid) \<le> kv_block_limit sp)"
    if "phase_inv v" "waiting_wf (rid # rids) v" "reserving sp v" for v
    using that by (intro capacity_ok_kv) (auto simp: phase_inv_def waiting_wf_def)
  show ?case
  proof (cases "submit_iteration (rr_spec (deref w rid)) > it \<or> int (length (w_running w)) \<ge> max_sequences sp
      \<or> kv sp w + need sp (deref w rid) \<le> kv_block_limit sp \<or> select_victim sp w = None")
    case True
    then show ?thesis using skip admit [of w] Cons.prems cap [of w] by auto
  next
    case False
    then obtain v where v: "select_victim sp w = Some v" by auto
    let ?u = "sched_preempt v w"
    note r = select_victim_running [OF v]
    have u: "phase_inv ?u" "waiting_wf (rid # rids) ?u" "waiting_wf rids ?u" "reserving sp ?u"
      using preempt_phase_inv [OF Cons.prems(1) r] waiting_wf_preempt [OF Cons.prems(1) _ r] Cons.prems(2,3) wa(1)
        reserving_same by (auto simp: prepares_def)
    note k = kv_preempt [OF Cons.prems(1,3) r]
    then have l: "int (length (w_running ?u)) < max_sequences sp" "in_limits sp w \<longrightarrow> in_limits sp ?u"
      using False by (auto simp: in_limits_def)
    show ?thesis
      using False v cap [OF Cons.prems] cap [OF u(1,2,4)] admit [OF u(1,2,4) l(1)] Cons.IH [OF u(1,3,4)] l(2)
      by (auto simp: Let_def)
  qed
qed

section \<open>The other phases\<close>

lemma cancel_running_subset:
  "set (w_running (foldl (cancel_one it) w rids)) \<subseteq> set (w_running w)"
proof (induction rids arbitrary: w)
  case Nil
  then show ?case by simp
next
  case (Cons rid rids)
  have "set (w_running (cancel_one it w rid)) \<subseteq> set (w_running w)"
    by (auto simp: cancel_one_def Let_def dest: set_remove1_subset [THEN subsetD])
  then show ?case using Cons.IH [of "cancel_one it w rid"] by auto
qed

lemma schedule_one_total:
  assumes wf: "work_wf w" "reserving sp w" and rid: "rid \<in> set (w_running w)"
  shows "\<exists>w'. schedule_one sp it rid w = Inr w'"
proof -
  have i: "rid \<in> set (ids w)" using wf(1) rid by (auto simp: work_wf_def)
  note n = reserve_blocks_need [OF wf(2,1) i]
  have "prefill_allowance sp w (deref w rid) \<le> prompt_tokens (rr_spec (deref w rid)) - rr_computed (deref w rid)"
    by (auto simp: prefill_allowance_def Let_def)
  then have "\<not> rr_computed (deref w rid) + prefill_allowance sp w (deref w rid) > need sp (deref w rid) * sp_block_size sp"
    using n(3) by linarith
  then show ?thesis using n(1) by (auto simp: schedule_one_def Let_def)
qed

lemma schedule_loop_total:
  assumes "work_wf w" "reserving sp w" "distinct rids" "set rids \<subseteq> set (w_running w)" "0 \<le> it"
    "\<And>rid. rid \<in> set rids \<Longrightarrow> map_of (w_scheduled w) rid = None \<and> unfinished (deref w rid)"
  shows "\<exists>w'. forE (schedule_one sp it) rids w = Inr w'"
  using assms
proof (induction rids arbitrary: w)
  case Nil
  then show ?case by simp
next
  case (Cons rid rids)
  have r: "rid \<in> set (w_running w)" using Cons.prems(4) by simp
  obtain v where v: "schedule_one sp it rid w = Inr v" using schedule_one_total [OF Cons.prems(1,2) r] by blast
  have s: "served sp rid w v"
    using schedule_one_served [OF Cons.prems(1) r _ _ Cons.prems(5) v] Cons.prems(6) by simp
  then have so: "serves_only rid w v" by (simp add: served_def)
  have other: "map_of (w_scheduled v) j = None \<and> unfinished (deref v j)" if "j \<in> set rids" for j
  proof -
    have "j \<noteq> rid" using that Cons.prems(3) by auto
    then show ?thesis using so Cons.prems(6) [of j] that by (simp add: serves_only_def)
  qed
  have "\<exists>w'. forE (schedule_one sp it) rids v = Inr w'"
  proof (rule Cons.IH)
    show "reserving sp v" using so Cons.prems(2) reserving_same by (auto simp: serves_only_def)
  qed (use s so Cons.prems other in \<open>auto simp: served_def serves_only_def\<close>)
  with v show ?case by simp
qed

lemma schedule_phase_total:
  assumes "work_wf w" "all_unfinished w" "reserving sp w" "w_scheduled w = []" "0 \<le> it"
  shows "\<exists>w'. schedule_phase sp it w = Inr w'"
  unfolding schedule_phase_def
  using assms by (intro schedule_loop_total) (auto simp: service_order_def work_wf_def all_unfinished_def)

section \<open>A whole iteration\<close>

text \<open>The simulator-level condition: all requests are reserved in full.\<close>

definition sim_reserving :: "simulator \<Rightarrow> bool" where
  "sim_reserving s \<longleftrightarrow> reserving (si_spec s) (init_work s)"

definition sim_in_limits :: "simulator \<Rightarrow> bool" where
  "sim_in_limits s \<longleftrightarrow> in_limits (si_spec s) (init_work s)"

lemma deref_runs: "w_runs w = w_runs w' \<Longrightarrow> deref w = deref w'" "w_runs w = w_runs w' \<Longrightarrow> ids w = ids w'"
  by (auto simp: deref_def ids_def fun_eq_iff)

lemma running_of_runs:
  assumes "distinct (map run_id (si_runs s))" "w_runs w = si_runs s"
  shows "set (w_running (init_work s)) = {j \<in> set (ids w). rr_state (deref w j) = R_RUNNING}"
proof -
  have "distinct (ids w)" using assms by (simp add: ids_def)
  then have "deref w (run_id r) = r" if "r \<in> set (si_runs s)" for r
    using run_in_store(2) that assms(2) by simp
  then show ?thesis using assms(2) by (auto simp: init_work_def ids_def)
qed

lemma sim_step_total:
  assumes wf: "sim_wf s" and res: "sim_reserving s"
  obtains entry s' where "sim_step s = Inr (entry, s')" "sim_reserving s'"
    "le_kv_used_blocks entry = (\<Sum>j \<leftarrow> le_running entry. need (si_spec s) (deref (init_work s') j))"
    "sp_mode (si_spec s) \<noteq> STATIC \<Longrightarrow> sim_in_limits s \<Longrightarrow>
       sim_in_limits s' \<and> le_kv_used_blocks entry \<le> kv_block_limit (si_spec s)
       \<and> int (length (le_running entry)) \<le> max_sequences (si_spec s)"
proof -
  let ?sp = "si_spec s" and ?it = "si_iteration s"
  note i = init_work_wf [OF wf]
  have it: "0 \<le> ?it" using wf by (simp add: sim_wf_def)
  let ?w1 = "cancel_phase ?it (init_work s)"
  have sub: "set (w_waiting (init_work s) @ w_running (init_work s)) \<subseteq> set (ids (init_work s))"
    using i(1,2) by (auto simp: phase_inv_def work_wf_def waiting_wf_def)
  have w1: "phase_inv ?w1" "prepares (init_work s) ?w1" "waiting_wf (w_waiting ?w1) ?w1"
    using cancel_loop [OF i(1,2) sub] by (auto simp: cancel_phase_def)
  have r0: "reserving ?sp (init_work s)" using res by (simp add: sim_reserving_def)
  then have r1: "reserving ?sp ?w1" using w1(2) reserving_same by (auto simp: prepares_def)
  have k1: "in_limits ?sp (init_work s) \<longrightarrow> in_limits ?sp ?w1"
  proof -
    have "set (w_running ?w1) \<subseteq> set (w_running (init_work s))"
      unfolding cancel_phase_def by (rule cancel_running_subset)
    moreover have "work_wf (init_work s)" "distinct (w_running ?w1)" "same_requests (init_work s) ?w1"
      using i(1) w1 by (auto simp: phase_inv_def prepares_def work_wf_def)
    ultimately show ?thesis using kv_mono [OF r0, of ?w1] by (simp add: in_limits_def)
  qed
  obtain w2 where a: "admission_phase ?sp ?it ?w1 = Inr w2" and k2: "in_limits ?sp ?w1 \<longrightarrow> in_limits ?sp w2"
    using admit_loop_total [OF w1(1,3) r1] by (auto simp: admission_phase_def)
  define w3 where "w3 = static_phase ?sp ?it (si_static_batch s) w2"
  note p = prepare_phases [OF wf a w3_def]
  have r3: "reserving ?sp w3" using p(5) r0 reserving_same by (auto simp: prepares_def)
  have z: "w_scheduled w3 = []" using p(5) i by (simp add: prepares_def)
  obtain w4 where w4: "schedule_phase ?sp ?it w3 = Inr w4" using schedule_phase_total [OF p(3,4) r3 z it] by blast
  obtain w5 fin where w5: "completion_phase ?it w4 = (w5, fin)" by fastforce
  note q = step_phases [OF wf a w3_def w4 w5] and v = serve_phases [OF p(3,4) z it w4 w5]
  have r5: "reserving ?sp w5" using r3 v(4) reserving_same by blast
  have h: "blocks_held ?sp (map (deref w5) (w_running w5)) = Inr (kv ?sp w5)"
    using held_kv [OF r5 q(1)] q(1) by (simp add: kv_def work_wf_def)
  define entry where "entry = ledger_entry ?sp ?it (total_computed (si_runs s)) w5 fin (kv ?sp w5)"
  define s' where "s' = s\<lparr>si_runs := w_runs w5, si_padding_slots := w_padding w5,
               si_kv_peak_blocks := max (si_kv_peak_blocks s) (le_kv_used_blocks entry),
               si_iterations := si_iterations s @ [entry], si_iteration := ?it + 1\<rparr>"
  have "conservation_residual entry = 0" using q(3) by (simp add: entry_def ledger_residual)
  then have st: "sim_step s = Inr (entry, s')"
    using a w4 w5 h by (simp add: sim_step_def Let_def w3_def entry_def s'_def)
  have w': "w_runs (init_work s') = w_runs w5" by (simp add: init_work_def s'_def)
  have e: "le_kv_used_blocks entry = kv ?sp w5" "le_running entry = w_running w5" by (simp_all add: entry_def ledger_entry_def)
  have res': "sim_reserving s'"
    using r5 deref_runs [OF w'] by (simp add: sim_reserving_def reserving_def s'_def)
  have "sim_in_limits s' \<and> le_kv_used_blocks entry \<le> kv_block_limit ?sp \<and> int (length (le_running entry)) \<le> max_sequences ?sp"
    if "sp_mode ?sp \<noteq> STATIC" "sim_in_limits s"
  proof -
    have w32: "w3 = w2" using that(1) by (simp add: w3_def static_phase_def)
    have "in_limits ?sp w3" using k1 k2 that(2) w32 by (simp add: sim_in_limits_def)
    moreover have "set (w_running w5) \<subseteq> set (w_running w3)" using v(7) by auto
    ultimately have k5: "kv ?sp w5 \<le> kv_block_limit ?sp" "int (length (w_running w5)) \<le> max_sequences ?sp"
      using kv_mono [OF r3 p(3) v(4)] q(1) by (auto simp: in_limits_def work_wf_def)
    have j3: "j \<in> set (w_running w3)" if "j \<in> set (ids w5)" "rr_state (deref w5 j) = R_RUNNING" for j
    proof (rule ccontr)
      assume "j \<notin> set (w_running w3)"
      moreover from this have "rr_state (deref w3 j) = R_RUNNING" using v(8) that(2) by simp
      ultimately show False
        using p(1) w32 v(4) that(1) by (auto simp: phase_inv_def running_complete_def same_requests_def)
    qed
    have s': "distinct (map run_id (si_runs s'))" using sim_step_keeps(1) [OF wf st] by (simp add: sim_wf_def)
    have run: "set (w_running (init_work s')) = set (w_running w5)"
      using running_of_runs [OF s', of w5] v(7) j3 q(1) by (auto simp: s'_def work_wf_def)
    have d: "distinct (w_running (init_work s'))" "distinct (w_running w5)"
      using init_work_wf(1) [OF sim_step_keeps(1) [OF wf st]] q(1) by (auto simp: phase_inv_def work_wf_def)
    have "kv ?sp (init_work s') = kv ?sp w5"
      using run deref_runs [OF w'] by (simp add: kv_as_sum [OF d(1)] kv_as_sum [OF d(2)])
    moreover have "length (w_running (init_work s')) = length (w_running w5)"
      using run d by (metis distinct_card)
    ultimately show ?thesis using k5 e by (simp add: sim_in_limits_def in_limits_def) (simp add: s'_def)
  qed
  moreover have "le_kv_used_blocks entry = (\<Sum>j \<leftarrow> le_running entry. need ?sp (deref (init_work s') j))"
    using e deref_runs [OF w'] by (simp add: kv_def)
  ultimately show ?thesis using that st res' by blast
qed

end
