(* ===== verification/Scheduler_Props.thy ===== *)
theory Scheduler_Props
  imports Scheduler_Kv
begin

text \<open>
  The properties of a scheduler replay: the ledger conserves tokens, the token budget is exceeded by
  at most the first token of one request, finished requests have all their tokens, a replay with full
  reservation never raises and outside static mode stays below the KV watermark. Then the limits of
  the policies: without full reservation no request can start, and under preemption two requests that
  do not fit together starve each other forever.
\<close>

section \<open>From the constructor to a replay\<close>

definition valid_trace :: "request_trace \<Rightarrow> bool" where
  "valid_trace t \<longleftrightarrow> is_ok (request_trace_check t) \<and> list_all (\<lambda>r. is_ok (sim_request_check r)) (tc_requests t)"

lemma spec_ok:
  assumes "is_ok (scheduler_spec_check sp)"
  shows "0 < max_batched_tokens sp" "0 < max_sequences sp" "0 < sp_block_size sp" "0 < kv_blocks sp"
    "0 < sp_watermark sp" "sp_watermark sp \<le> 1"
  using assms by (auto simp: scheduler_spec_check_def split: if_splits)

lemma run_id_new_run [simp]: "run_id (new_run r) = sr_request_id r"
  by (simp add: run_id_def new_run_def)

lemma map_run_id_new: "map run_id (map new_run rs) = map sr_request_id rs"
  by simp

lemma new_simulator_wf:
  assumes "is_ok (scheduler_spec_check sp)" "valid_trace t"
  shows "sim_wf (new_simulator sp t)"
proof -
  have d: "distinct (map sr_request_id (tc_requests t))" and ok: "\<forall>r \<in> set (tc_requests t). is_ok (sim_request_check r)"
    using assms(2) by (auto simp: valid_trace_def request_trace_check_def list_all_iff split: if_splits)
  have "unfinished (new_run r)" for r by (simp add: unfinished_def new_run_def)
  moreover have "set (take n (map sr_request_id (tc_requests t))) \<subseteq> set (map sr_request_id (tc_requests t))" for n
    by (rule set_take_subset)
  moreover have "\<forall>r \<in> set (map new_run (tc_requests t)). run_ok r \<and> unfinished r"
    using ok new_run_ok calculation(1) by auto
  moreover have "map run_id (map new_run (tc_requests t)) = map sr_request_id (tc_requests t)" by simp
  ultimately show ?thesis
    using d spec_ok(1) [OF assms(1)] unfolding sim_wf_def new_simulator_def
    by (simp only: simulator.simps) (auto simp: comp_def)
qed

text \<open>An invariant of the steps is an invariant of the replay loop.\<close>

lemma run_loop_invariant:
  assumes "run_loop n mc s = Inr (mc', s')" "P s"
    and "\<And>s e s'. P s \<Longrightarrow> sim_step s = Inr (e, s') \<Longrightarrow> P s'"
  shows "P s'"
  using assms(1,2)
proof (induction n arbitrary: mc s)
  case 0
  then show ?case by simp
next
  case (Suc n)
  then obtain e t where t: "sim_step s = Inr (e, t)" by (auto simp: result_simps)
  then have "P t" using assms(3) Suc.prems(2) by blast
  then show ?case using Suc t by (auto simp: Let_def split: if_splits)
qed

lemma run_loop_total:
  assumes "P s" and "\<And>s. P s \<Longrightarrow> \<exists>e s'. sim_step s = Inr (e, s') \<and> P s'"
  shows "\<exists>r. run_loop n mc s = Inr r"
  using assms(1)
proof (induction n arbitrary: mc s)
  case 0
  then show ?case by simp
next
  case (Suc n)
  obtain e t where t: "sim_step s = Inr (e, t)" "P t" using assms(2) Suc.prems by blast
  show ?case using t Suc.IH [OF t(2)] by (auto simp: Let_def)
qed

lemma run_loop_length:
  assumes "run_loop n mc s = Inr (mc', s')"
  shows "length (si_iterations s') \<le> length (si_iterations s) + n"
  using assms
proof (induction n arbitrary: mc s)
  case 0
  then show ?case by simp
next
  case (Suc n)
  then obtain e t where t: "sim_step s = Inr (e, t)" by (auto simp: result_simps)
  have "si_iterations t = si_iterations s @ [e]"
    using sim_step_shape [OF t] by auto
  then show ?case using Suc.prems Suc.IH [of _ t] t by (fastforce simp: Let_def split: if_splits)
qed

definition audited :: "scheduler_spec \<Rightarrow> simulator \<Rightarrow> bool" where
  "audited sp s \<longleftrightarrow> sim_wf s \<and> si_spec s = sp \<and> (\<forall>e \<in> set (si_iterations s).
     conservation_residual e = 0 \<and> scheduled_total e \<le> max_batched_tokens sp + 1)"

lemma audited_step: "audited sp s \<Longrightarrow> sim_step s = Inr (e, s') \<Longrightarrow> audited sp s'"
  using sim_step_keeps [of s e s'] by (auto simp: audited_def)

lemma audited_new:
  assumes "is_ok (scheduler_spec_check sp)" "valid_trace t"
  shows "audited sp (new_simulator sp t)"
  using new_simulator_wf [OF assms] by (simp add: audited_def new_simulator_def)

definition limited :: "scheduler_spec \<Rightarrow> simulator \<Rightarrow> bool" where
  "limited sp s \<longleftrightarrow> sim_wf s \<and> sim_reserving s \<and> si_spec s = sp \<and> (sp_mode sp \<noteq> STATIC \<longrightarrow> sim_in_limits s
     \<and> si_kv_peak_blocks s \<le> kv_block_limit sp \<and> (\<forall>e \<in> set (si_iterations s). le_kv_used_blocks e \<le> kv_block_limit sp
     \<and> int (length (le_running e)) \<le> max_sequences sp))"

lemma limited_step:
  assumes "limited sp s"
  shows "\<exists>e s'. sim_step s = Inr (e, s') \<and> limited sp s'"
proof -
  have wf: "sim_wf s" "sim_reserving s" "si_spec s = sp" using assms by (auto simp: limited_def)
  obtain e s' where st: "sim_step s = Inr (e, s')" "sim_reserving s'"
    "sp_mode sp \<noteq> STATIC \<Longrightarrow> sim_in_limits s \<Longrightarrow> sim_in_limits s' \<and> le_kv_used_blocks e \<le> kv_block_limit sp
       \<and> int (length (le_running e)) \<le> max_sequences sp"
    using sim_step_total [OF wf(1,2)] wf(3) by metis
  have "si_kv_peak_blocks s' = max (si_kv_peak_blocks s) (le_kv_used_blocks e)"
    using sim_step_shape [OF st(1)] by auto
  then have "limited sp s'"
    using assms st sim_step_keeps [OF wf(1) st(1)] wf(3) by (auto simp: limited_def)
  with st(1) show ?thesis by blast
qed

lemma new_simulator_limited:
  assumes sp: "is_ok (scheduler_spec_check sp)" "kv_blocks sp \<le> 2 ^ 53" "admission_reserve_full_isl sp"
    and t: "valid_trace t" "\<forall>r \<in> set (tc_requests t). prompt_tokens r + max_new_tokens r < 2 ^ 53"
  shows "limited sp (new_simulator sp t)"
proof -
  let ?s = "new_simulator sp t"
  have wf: "sim_wf ?s" using sp(1) t(1) by (rule new_simulator_wf)
  note i = init_work_wf [OF wf]
  have d: "distinct (ids (init_work ?s))" using i(1) by (simp add: phase_inv_def work_wf_def)
  have "\<forall>r \<in> set (w_runs (init_work ?s)). prompt_tokens (rr_spec r) + max_new_tokens (rr_spec r) < 2 ^ 53"
    using t(2) i(7) by (simp add: new_simulator_def) (simp add: new_run_def)
  then have res: "sim_reserving ?s"
    using work_all_runs [OF d, of "\<lambda>r. prompt_tokens (rr_spec r) + max_new_tokens (rr_spec r) < 2 ^ 53"] sp spec_ok(3)
    by (simp add: sim_reserving_def reserving_def new_simulator_def)
  have "w_running (init_work ?s) = []" by (simp add: init_work_def new_simulator_def new_run_def)
  moreover have "0 \<le> kv_block_limit sp"
    using int_times_float_bounds(1) [of "kv_blocks sp" "sp_watermark sp"] spec_ok [OF sp(1)] sp(2)
    by (simp add: kv_block_limit_def)
  ultimately have "sim_in_limits ?s" "0 \<le> kv_block_limit sp"
    using spec_ok(2) [OF sp(1)] by (simp_all add: sim_in_limits_def in_limits_def kv_def new_simulator_def)
  moreover have "si_spec ?s = sp" "si_kv_peak_blocks ?s = 0" "si_iterations ?s = []" by (simp_all add: new_simulator_def)
  ultimately show ?thesis using wf res by (simp add: limited_def)
qed

section \<open>Properties\<close>

text \<open>C6: in every replay that returns, in any mode and under any policy, each iteration of the ledger
  satisfies the token-conservation identity (so the audit is clean), schedules at most one token more
  than its budget, and every request that finished without being cancelled produced exactly the
  tokens it asked for; its computed positions are its prompt, its output and what preemption threw
  away.\<close>

theorem simulate_ledger_sound:
  assumes sp: "is_ok (scheduler_spec_check sp)" and t: "valid_trace t" and r: "simulate sp t n = Inr res"
  shows "cr_ok (conservation_audit (sm_iterations res))
    \<and> (\<forall>e \<in> set (sm_iterations res). scheduled_total e \<le> max_batched_tokens sp + 1)
    \<and> length (sm_outcomes res) = length (tc_requests t)
    \<and> (\<forall>i < length (tc_requests t). 0 \<le> oc_finish_iteration (sm_outcomes res ! i) \<and> \<not> oc_cancelled (sm_outcomes res ! i)
        \<longrightarrow> oc_output_tokens (sm_outcomes res ! i) = max_new_tokens (tc_requests t ! i)
          \<and> oc_computed_positions (sm_outcomes res ! i) = prompt_tokens (tc_requests t ! i)
              + max_new_tokens (tc_requests t ! i) + oc_recomputed_positions (sm_outcomes res ! i))"
proof -
  obtain mc s where l: "run_loop (nat n) 0 (new_simulator sp t) = Inr (mc, s)"
    and res: "sm_iterations res = si_iterations s" "sm_outcomes res = map (outcome_of (si_iteration s)) (si_runs s)"
    using r by (auto simp: simulate_def sim_run_def result_simps split: if_splits)
  have a: "audited sp s" using l audited_new [OF sp t] audited_step by (rule run_loop_invariant)
  have specs: "map rr_spec (si_runs s) = tc_requests t"
  proof (rule run_loop_invariant [OF l, where P = "\<lambda>s. audited sp s \<and> map rr_spec (si_runs s) = tc_requests t", THEN conjunct2])
    show "audited sp (new_simulator sp t) \<and> map rr_spec (si_runs (new_simulator sp t)) = tc_requests t"
      using audited_new [OF sp t] by (simp add: new_simulator_def new_run_def comp_def)
    fix s e s'
    assume s: "audited sp s \<and> map rr_spec (si_runs s) = tc_requests t" and st: "sim_step s = Inr (e, s')"
    have "map rr_spec (si_runs s') = map rr_spec (si_runs s)" using s sim_step_keeps(6) [OF _ st] by (auto simp: audited_def)
    then show "audited sp s' \<and> map rr_spec (si_runs s') = tc_requests t" using s st audited_step by auto
  qed
  have len: "length (si_runs s) = length (tc_requests t)" using specs by (metis length_map)
  have fin: "rr_output_tokens q = max_new_tokens (rr_spec q) \<and> rr_computed q = prompt_tokens (rr_spec q) + max_new_tokens (rr_spec q)"
    if "q \<in> set (si_runs s)" "0 \<le> rr_finish_iteration q" "\<not> rr_cancelled q" for q
  proof -
    have "run_ok q" using a that(1) by (simp add: audited_def sim_wf_def)
    then show ?thesis using that(2,3) by (cases "rr_state q") (auto simp: run_ok_def)
  qed
  have "rr_spec (si_runs s ! i) = tc_requests t ! i" if "i < length (tc_requests t)" for i
    using specs len that by (metis nth_map)
  then show ?thesis using a len fin by (auto simp: audited_def audit_ok_iff res outcome_of_def)
qed

definition demo_spec :: scheduler_spec where
  "demo_spec = \<lparr>sp_mode = ''continuous'', max_batched_tokens = 4, max_sequences = 2, sp_block_size = 4, kv_blocks = 4,
     chunk_size = 0, decode_priority = False, long_prefill_threshold = 0, preemption_policy = ''recompute_longest'',
     admission_reserve_full_isl = True, sp_watermark = 1, sp_prefix_cache = False\<rparr>"

definition demo_request :: "string \<Rightarrow> sim_request" where
  "demo_request rid = \<lparr>sr_request_id = rid, prompt_tokens = 4, max_new_tokens = 2, submit_iteration = 0,
     shared_prefix_tokens = 0, cancel_at_iteration = None, sr_priority = 0\<rparr>"

definition demo_trace :: "string list \<Rightarrow> request_trace" where
  "demo_trace rids = \<lparr>tc_name = ''demo'', tc_requests = map demo_request rids, tc_description = ''''\<rparr>"

lemma demo_valid: "distinct rids \<Longrightarrow> rids \<noteq> [] \<Longrightarrow> valid_trace (demo_trace rids)"
  by (auto simp: valid_trace_def demo_trace_def request_trace_check_def sim_request_check_def demo_request_def
      comp_def list_all_iff)

lemma demo_spec_valid: "is_ok (scheduler_spec_check demo_spec)"
  by (simp add: scheduler_spec_check_def demo_spec_def mode_defs)

lemma demo_replay:
  "map_sum id (map scheduled_total \<circ> sm_iterations) (simulate demo_spec (demo_trace [''a'']) 8) = Inr [5, 1]"
  by code_simp

theorem simulate_ledger_sound_witness:
  "\<exists>res. simulate demo_spec (demo_trace [''a'']) 8 = Inr res \<and> cr_ok (conservation_audit (sm_iterations res))"
proof -
  obtain res where res: "simulate demo_spec (demo_trace [''a'']) 8 = Inr res"
    using demo_replay by (cases "simulate demo_spec (demo_trace [''a'']) 8") auto
  show ?thesis
    using simulate_ledger_sound [OF demo_spec_valid demo_valid res] res by simp
qed

text \<open>C7: a replay with full-length reservation never raises: for every valid configuration and trace with
  token counts below \<open>2^53\<close> it returns within the given number of iterations; outside static mode
  the blocks reserved by the running requests never exceed \<open>int(kv_blocks * watermark)\<close>, nor the
  running requests \<open>max_sequences\<close>, in any iteration.\<close>

theorem simulate_total_in_limits:
  assumes sp: "is_ok (scheduler_spec_check sp)" "kv_blocks sp \<le> 2 ^ 53" "admission_reserve_full_isl sp"
    and t: "valid_trace t" "\<forall>r \<in> set (tc_requests t). prompt_tokens r + max_new_tokens r < 2 ^ 53" and n: "0 < n"
  shows "\<exists>res. simulate sp t n = Inr res \<and> int (length (sm_iterations res)) \<le> n
    \<and> (sp_mode sp \<noteq> STATIC \<longrightarrow> sm_kv_peak_blocks res \<le> kv_block_limit sp
        \<and> (\<forall>e \<in> set (sm_iterations res). le_kv_used_blocks e \<le> kv_block_limit sp
             \<and> int (length (le_running e)) \<le> max_sequences sp))"
proof -
  have l: "limited sp (new_simulator sp t)" using sp t by (rule new_simulator_limited)
  obtain mc s where r: "run_loop (nat n) 0 (new_simulator sp t) = Inr (mc, s)"
    using run_loop_total [of "limited sp", OF l limited_step, of "nat n" 0] by auto
  have "limited sp s"
  proof (rule run_loop_invariant [OF r, of "limited sp", OF l])
    fix s e s' assume "limited sp s" "sim_step s = Inr (e, s')"
    then show "limited sp s'" using limited_step [of sp s] by auto
  qed
  moreover have "length (si_iterations s) \<le> nat n" using run_loop_length [OF r] by (simp add: new_simulator_def)
  ultimately show ?thesis using r n by (auto simp: simulate_def sim_run_def limited_def)
qed

theorem simulate_total_in_limits_witness:
  "\<exists>res. simulate demo_spec (demo_trace [''a'', ''b'']) 8 = Inr res \<and> sm_kv_peak_blocks res \<le> 4"
proof -
  have k: "kv_block_limit demo_spec = 4" by code_simp
  have "kv_blocks demo_spec \<le> 2 ^ 53" "admission_reserve_full_isl demo_spec" "sp_mode demo_spec \<noteq> STATIC"
    by (simp_all add: demo_spec_def mode_defs)
  moreover have "\<forall>r \<in> set (tc_requests (demo_trace [''a'', ''b''])). prompt_tokens r + max_new_tokens r < 2 ^ 53"
    by (simp add: demo_trace_def demo_request_def)
  ultimately show ?thesis
    using simulate_total_in_limits [OF demo_spec_valid _ _ demo_valid, of "[''a'', ''b'']" 8] k by auto
qed

text \<open>The token budget is a soft bound: the first output token of a request whose prefill ends exactly at
  the budget is charged although nothing is left, so a valid configuration with a budget of four
  tokens schedules five in one iteration.\<close>

theorem budget_exceeded_by_first_token:
  "\<exists>sp t n res e. is_ok (scheduler_spec_check sp) \<and> valid_trace t \<and> simulate sp t n = Inr res
     \<and> e \<in> set (sm_iterations res) \<and> scheduled_total e = le_token_budget e + 1"
proof -
  have "map_sum id (\<lambda>res. map (\<lambda>e. scheduled_total e - le_token_budget e) (sm_iterations res))
      (simulate demo_spec (demo_trace [''a'']) 8) = Inr [1, - 3]" by code_simp
  then obtain res where res: "simulate demo_spec (demo_trace [''a'']) 8 = Inr res"
    "map (\<lambda>e. scheduled_total e - le_token_budget e) (sm_iterations res) = [1, - 3]"
    by (cases "simulate demo_spec (demo_trace [''a'']) 8") auto
  from res(2) obtain e where "e \<in> set (sm_iterations res)" "scheduled_total e = le_token_budget e + 1" by fastforce
  moreover have "valid_trace (demo_trace [''a''])" by (rule demo_valid) simp_all
  ultimately show ?thesis using res(1) demo_spec_valid by blast
qed

section \<open>Without full reservation\<close>

text \<open>With \<open>admission_reserve_full_isl\<close> switched off nothing can run: the reservation of a request that
  has computed nothing is zero blocks, so the first prefill chunk of the first admitted request
  exceeds it and the iteration raises.\<close>

theorem no_reserve_never_starts:
  assumes sp: "is_ok (scheduler_spec_check sp)" "\<not> admission_reserve_full_isl sp" "kv_blocks sp \<le> 2 ^ 53"
    and r: "is_ok (sim_request_check r)" "submit_iteration r = 0" "cancel_at_iteration r = None" and n: "0 < n"
  shows "simulate sp \<lparr>tc_name = name, tc_requests = [r], tc_description = d\<rparr> n = Inl (ConfigError ''request_id'')"
proof -
  let ?t = "\<lparr>tc_name = name, tc_requests = [r], tc_description = d\<rparr>"
  let ?s = "new_simulator sp ?t" and ?id = "sr_request_id r"
  let ?q = "(new_run r)\<lparr>rr_state := R_RUNNING, rr_admitted_iteration := 0\<rparr>"
  note ok = spec_ok [OF sp(1)]
  have b0: "blocks_for 0 (sp_block_size sp) = Inr 0" using blocks_for_exact [of 0] ok(3) by (simp add: exact_blocks_def)
  have lim: "0 \<le> kv_block_limit sp"
    using int_times_float_bounds(1) [of "kv_blocks sp" "sp_watermark sp"] ok sp(3) by (simp add: kv_block_limit_def)
  define w where "w = init_work ?s"
  define v where "v = sched_admit 0 ?id w"
  have w: "w_runs w = [new_run r]" "w_running w = []" "w_waiting w = [?id]" "w_budget w = max_batched_tokens sp"
    by (simp_all add: w_def init_work_def new_simulator_def new_run_def run_id_def)
  have dw: "deref w ?id = new_run r" by (simp add: deref_def w)
  have dv: "deref v ?id = ?q" "w_running v = [?id]" "w_budget v = max_batched_tokens sp"
    by (simp_all add: v_def sched_admit_def deref_def upd_obj_def w mutate_def run_id_def new_run_def)
  have p: "0 < prompt_tokens r" using r(1) by (simp add: sim_request_ok)
  have sb: "si_static_batch ?s = (if sp_mode sp = STATIC then [?id] else [])"
    using ok(2) by (simp add: new_simulator_def take_Cons split: nat.splits)
  have c: "cancel_phase 0 w = w" using r(3) by (simp add: cancel_phase_def w cancel_one_def Let_def dw) (simp add: new_run_def)
  have "capacity_ok sp ?id w = Inr True"
    using sp(2) b0 lim by (simp add: capacity_ok_def w dw blocks_held_def reserve_blocks_def reserve_target_def) (simp add: new_run_def)
  then have a: "admission_phase sp 0 w = Inr v"
    using r(2) ok(2) by (simp add: admission_phase_def w dw v_def) (simp add: new_run_def)
  define u where "u = static_phase sp 0 (si_static_batch ?s) v"
  have u: "deref u ?id = ?q" "w_running u = [?id]" "w_budget u = max_batched_tokens sp"
    using dv r(2) by (auto simp: u_def sb static_phase_def Let_def static_join_def run_done_def new_run_def)
  have "0 < prefill_allowance sp u ?q"
    using sp(1) p ok u by (auto simp: prefill_allowance_def Let_def new_run_def scheduler_spec_check_def split: if_splits)
  moreover have "\<not> prefilled ?q" using p by (simp add: prefilled_def new_run_def)
  ultimately have "schedule_one sp 0 ?id u = Inl (ConfigError ''request_id'')"
    using sp(2) b0 u by (simp add: schedule_one_def Let_def run_done_def reserve_blocks_def reserve_target_def) (simp add: new_run_def)
  then have "schedule_phase sp 0 u = Inl (ConfigError ''request_id'')"
    by (simp add: schedule_phase_def service_order_def u)
  then have "sim_step ?s = Inl (ConfigError ''request_id'')"
    using a c unfolding sim_step_def Let_def u_def w_def by (simp add: new_simulator_def)
  moreover obtain m where "nat n = Suc m" using n by (metis gr0_implies_Suc zero_less_nat_eq)
  ultimately show ?thesis using n by (simp add: simulate_def sim_run_def)
qed

theorem no_reserve_never_starts_witness:
  "simulate (demo_spec\<lparr>admission_reserve_full_isl := False\<rparr>)
     \<lparr>tc_name = ''t'', tc_requests = [demo_request ''a''], tc_description = ''''\<rparr> 8 = Inl (ConfigError ''request_id'')"
  by (rule no_reserve_never_starts)
    (simp_all add: demo_spec_def demo_request_def scheduler_spec_check_def sim_request_check_def mode_defs)

section \<open>Starvation under preemption\<close>

text \<open>Two requests that need two blocks each, in a pool of three: after every iteration one of them is
  running with its first token and the other one waits.\<close>

definition starve_spec :: scheduler_spec where
  "starve_spec = demo_spec\<lparr>kv_blocks := 3\<rparr>"

definition waits :: "string \<Rightarrow> request_run \<Rightarrow> bool" where
  "waits rid r \<longleftrightarrow> rr_spec r = demo_request rid \<and> rr_state r = R_WAITING \<and> rr_computed r = 0
     \<and> rr_output_tokens r = 0 \<and> rr_first_token_iteration r = -1 \<and> \<not> rr_cancelled r \<and> rr_finish_iteration r = -1"

definition runs :: "string \<Rightarrow> request_run \<Rightarrow> bool" where
  "runs rid r \<longleftrightarrow> rr_spec r = demo_request rid \<and> rr_state r = R_RUNNING \<and> rr_computed r = 5
     \<and> rr_output_tokens r = 1 \<and> 0 \<le> rr_first_token_iteration r \<and> \<not> rr_cancelled r \<and> rr_finish_iteration r = -1"

definition starving :: "simulator \<Rightarrow> bool" where
  "starving s \<longleftrightarrow> si_spec s = starve_spec \<and> 0 \<le> si_iteration s \<and> (\<exists>a b. si_runs s = [a, b]
     \<and> (waits ''a'' a \<and> runs ''b'' b \<or> runs ''a'' a \<and> waits ''b'' b))"

lemma starve_limit: "kv_block_limit starve_spec = 3"
  by code_simp

lemma starve_need: "rr_spec r = demo_request rid \<Longrightarrow> reserve_blocks starve_spec r = Inr 2"
  using blocks_for_exact [of 6 4]
  by (simp add: reserve_blocks_def reserve_target_def starve_spec_def demo_spec_def demo_request_def exact_blocks_def)

lemmas step_defs = sim_step_def Let_def init_work_def run_id_def cancel_phase_def cancel_one_def deref_def
  admission_phase_def capacity_ok_def blocks_held_def starve_need starve_limit select_victim_def sched_preempt_def
  sched_admit_def mutate_def upd_obj_def static_phase_def schedule_phase_def service_order_def schedule_one_def
  run_done_def prefilled_def prefill_allowance_def give_prefill_def give_first_token_def completion_phase_def
  complete_one_def ledger_entry_def conservation_residual_def scheduled_total_def total_computed_def

lemma starve_spec_simps:
  "sp_mode starve_spec = ''continuous''" "max_batched_tokens starve_spec = 4"
  "max_sequences starve_spec = 2" "sp_block_size starve_spec = 4" "preemption_policy starve_spec = ''recompute_longest''"
  "decode_priority starve_spec = False"
  by (simp_all add: starve_spec_def demo_spec_def)

lemma demo_request_simps:
  "sr_request_id (demo_request x) = x" "prompt_tokens (demo_request x) = 4" "max_new_tokens (demo_request x) = 2"
  "submit_iteration (demo_request x) = 0" "cancel_at_iteration (demo_request x) = None" "sr_priority (demo_request x) = 0"
  by (simp_all add: demo_request_def)

lemmas starve_simps = starve_spec_simps demo_request_simps mode_defs

text \<open>One iteration: the running request is preempted for the waiting one, which then gets its first token.\<close>

lemma starve_step:
  assumes "starving s"
  shows "\<exists>e s'. sim_step s = Inr (e, s') \<and> starving s'"
proof -
  obtain a b where s: "si_spec s = starve_spec" "0 \<le> si_iteration s" "si_runs s = [a, b]"
    and ab: "waits ''a'' a \<and> runs ''b'' b \<or> runs ''a'' a \<and> waits ''b'' b"
    using assms by (auto simp: starving_def)
  from ab show ?thesis
  proof
    assume "waits ''a'' a \<and> runs ''b'' b"
    with s have "\<exists>e s'. sim_step s = Inr (e, s') \<and> starving s'"
      apply (cases a, cases b, cases s)
      apply (simp add: waits_def runs_def)
      apply (simp add: step_defs starve_simps)
      apply (simp add: starving_def waits_def runs_def)
      done
    then show ?thesis .
  next
    assume "runs ''a'' a \<and> waits ''b'' b"
    with s have "\<exists>e s'. sim_step s = Inr (e, s') \<and> starving s'"
      apply (cases a, cases b, cases s)
      apply (simp add: waits_def runs_def)
      apply (simp add: step_defs starve_simps)
      apply (simp add: starving_def waits_def runs_def)
      done
    then show ?thesis .
  qed
qed

lemma starve_start:
  "\<exists>e s'. sim_step (new_simulator starve_spec (demo_trace [''a'', ''b''])) = Inr (e, s') \<and> starving s'"
  by (simp add: new_simulator_def demo_trace_def new_run_def step_defs starve_simps)
    (simp add: starving_def waits_def runs_def demo_request_simps)

lemma starving_not_done: "starving s \<Longrightarrow> \<not> list_all run_done (si_runs s)"
  by (auto simp: starving_def waits_def runs_def run_done_def)

lemma starving_loop:
  assumes "starving s"
  shows "\<exists>mc' s'. run_loop n mc s = Inr (mc', s') \<and> starving s' \<and> length (si_iterations s') = length (si_iterations s) + n"
  using assms
proof (induction n arbitrary: mc s)
  case 0
  then show ?case by simp
next
  case (Suc n)
  obtain e t where t: "sim_step s = Inr (e, t)" "starving t" using starve_step Suc.prems by blast
  have "si_iterations t = si_iterations s @ [e]" using sim_step_shape [OF t(1)] by auto
  then show ?case using t Suc.IH [OF t(2)] starving_not_done [OF t(2)] by (auto simp: Let_def)
qed

text \<open>The default preemption policy is not live: for two requests that each fit alone but not together,
  both submitted at the start, every replay of whatever length runs all its iterations and finishes
  neither of them, because each iteration throws away the work of the request admitted before.\<close>

theorem preemption_starves:
  assumes "0 < n"
  shows "\<exists>res. simulate starve_spec (demo_trace [''a'', ''b'']) n = Inr res
    \<and> int (length (sm_iterations res)) = n \<and> (\<forall>oc \<in> set (sm_outcomes res). oc_finish_iteration oc = -1)"
proof -
  let ?s = "new_simulator starve_spec (demo_trace [''a'', ''b''])"
  obtain m where m: "nat n = Suc m" using assms by (metis gr0_implies_Suc zero_less_nat_eq)
  obtain e t where t: "sim_step ?s = Inr (e, t)" "starving t" using starve_start by blast
  obtain mc s where s: "run_loop m (max 0 (int (length (filter (\<lambda>r. rr_state r \<in> {R_RUNNING, R_PREFILLING, R_DECODING}) (si_runs t))))) t
      = Inr (mc, s)" "starving s" "length (si_iterations s) = length (si_iterations t) + m"
    using starving_loop [OF t(2)] by blast
  have "length (si_iterations t) = 1" using sim_step_shape [OF t(1)] by (auto simp: new_simulator_def)
  moreover have "\<forall>r \<in> set (si_runs s). rr_finish_iteration r = -1"
    using s(2) by (auto simp: starving_def waits_def runs_def)
  ultimately show ?thesis
    using assms m t s starving_not_done [OF t(2)]
    by (auto simp: simulate_def sim_run_def Let_def outcome_of_def)
qed

theorem preemption_starves_witness:
  "\<exists>res. simulate starve_spec (demo_trace [''a'', ''b'']) 100 = Inr res \<and> length (sm_iterations res) = 100"
  using preemption_starves [of 100] by auto

end
