(* ===== verification/Scheduler_Reports.thy ===== *)
theory Scheduler_Reports
  imports Scheduler
begin

text \<open>
  The pure helpers around the scheduler (\<open>hqsb/runtime/scheduler.py\<close>): the builders of named request
  traces, the chunk boundaries of a chunked prefill with their coverage audit, and the congestion
  detector over an iteration ledger.
\<close>

section \<open>Trace builders\<close>

text \<open>The keyword arguments the builders hand to every request.\<close>

record request_kwargs =
  rk_submit_iteration :: int
  rk_shared_prefix_tokens :: int
  rk_cancel_at_iteration :: "int option"
  rk_priority :: int

definition make_request :: "string \<Rightarrow> int \<Rightarrow> int \<Rightarrow> request_kwargs \<Rightarrow> sim_request res" where
  "make_request rid prompt out kw = sim_request_check
     \<lparr>sr_request_id = rid, prompt_tokens = prompt, max_new_tokens = out, submit_iteration = rk_submit_iteration kw,
      shared_prefix_tokens = rk_shared_prefix_tokens kw, cancel_at_iteration = rk_cancel_at_iteration kw,
      sr_priority = rk_priority kw\<rparr>"

definition make_trace :: "string \<Rightarrow> sim_request list \<Rightarrow> request_trace res" where
  "make_trace name rs = request_trace_check \<lparr>tc_name = name, tc_requests = rs, tc_description = ''''\<rparr>"

definition homogeneous_trace :: "string \<Rightarrow> int \<Rightarrow> int \<Rightarrow> int \<Rightarrow> request_kwargs \<Rightarrow> request_trace res" where
  "homogeneous_trace name count prompt out kw =
     bindE (all_res (map (\<lambda>i. make_request (name @ ''-'' @ str_nat i) prompt out kw) [0..<nat count]))
       (make_trace name)"

definition mixed_trace ::
  "string \<Rightarrow> int \<Rightarrow> int \<Rightarrow> int \<Rightarrow> int \<Rightarrow> int \<Rightarrow> bool \<Rightarrow> request_kwargs \<Rightarrow> request_trace res" where
  "mixed_trace name short_count long_count short_prompt long_prompt out long_first kw =
     (let longs = map (\<lambda>i. make_request (name @ ''-long-'' @ str_nat i) long_prompt out kw) [0..<nat long_count];
          shorts = map (\<lambda>i. make_request (name @ ''-short-'' @ str_nat i) short_prompt out kw) [0..<nat short_count]
      in bindE (all_res (if long_first then longs @ shorts else shorts @ longs)) (make_trace name))"

definition shared_prefix_trace ::
  "string \<Rightarrow> int \<Rightarrow> int \<Rightarrow> int list \<Rightarrow> int \<Rightarrow> request_kwargs \<Rightarrow> request_trace res" where
  "shared_prefix_trace name count shared_prefix suffixes out kw =
     (if suffixes = [] then Inl (ConfigError ''suffix_choices'')
      else bindE (all_res (map (\<lambda>i. make_request (name @ ''-'' @ str_nat i)
                     (shared_prefix + suffixes ! (i mod length suffixes)) out
                     (kw\<lparr>rk_shared_prefix_tokens := shared_prefix\<rparr>)) [0..<nat count]))
             (make_trace name))"

lemma make_request_id: "make_request rid p n kw = Inr r \<Longrightarrow> sr_request_id r = rid"
  by (auto simp: make_request_def sim_request_check_def split: if_splits)

lemma built_ids:
  assumes "all_res (map (\<lambda>i. make_request (g i) (p i) n kw) is) = Inr xs"
  shows "map sr_request_id xs = map g is"
  using assms
proof (induction "is" arbitrary: xs)
  case (Cons i "is")
  then obtain r rs where "xs = r # rs" "make_request (g i) (p i) n kw = Inr r"
    "all_res (map (\<lambda>i. make_request (g i) (p i) n kw) is) = Inr rs" by (auto simp: result_simps)
  with Cons.IH [OF this(3)] make_request_id show ?case by auto
qed auto

lemma all_res_append: "all_res (xs @ ys) = Inr zs \<Longrightarrow> \<exists>us vs. zs = us @ vs \<and> all_res xs = Inr us \<and> all_res ys = Inr vs"
  by (auto simp: all_res_Inr append_eq_map_conv map_eq_append_conv)

lemma distinct_numbered: "distinct (map (\<lambda>i. name @ str_nat i) [0..<n])"
  by (auto simp: distinct_map inj_on_def dest: str_nat_inj)

section \<open>Chunked prefill\<close>

function chunk_loop :: "int \<Rightarrow> int \<Rightarrow> int \<Rightarrow> (int \<times> int) list" where
  "chunk_loop prompt chunk start =
     (if start < prompt \<and> 0 < chunk
      then (start, min (start + chunk) prompt) # chunk_loop prompt chunk (min (start + chunk) prompt) else [])"
  by pat_completeness auto
termination
  by (relation "measure (\<lambda>(prompt, chunk, start). nat (prompt - start))") auto

declare chunk_loop.simps [simp del]

definition chunk_boundaries :: "int \<Rightarrow> int \<Rightarrow> (int \<times> int) list res" where
  "chunk_boundaries prompt chunk =
     (if prompt \<le> 0 \<or> chunk \<le> 0 then Inl (ConfigError ''chunk_boundaries'') else Inr (chunk_loop prompt chunk 0))"

datatype chunk_problem = Chunk_count int int | Chunk_start int int int | Chunk_cover int int

fun coverage_loop :: "nat \<Rightarrow> int \<Rightarrow> (int \<times> int) list \<Rightarrow> chunk_problem list \<times> int" where
  "coverage_loop i cursor [] = ([], cursor)"
| "coverage_loop i cursor ((start, count) # rest) =
     (let (ps, c) = coverage_loop (Suc i) (start + count) rest in
      ((if start \<noteq> cursor then [Chunk_start (int i) start cursor] else []) @ ps, c))"

record coverage_report =
  cv_ok :: bool
  cv_problems :: "chunk_problem list"
  cv_chunks :: "(int \<times> int) list"

definition chunk_coverage_audit :: "int \<Rightarrow> int \<Rightarrow> (int \<times> int) list \<Rightarrow> coverage_report res" where
  "chunk_coverage_audit prompt chunk scheduled = bindE (chunk_boundaries prompt chunk) (\<lambda>expected.
     let p1 = (if length scheduled \<noteq> length expected
               then [Chunk_count (int (length expected)) (int (length scheduled))] else []);
         (p2, cursor) = coverage_loop 0 0 scheduled;
         p3 = (if cursor \<noteq> prompt then [Chunk_cover cursor prompt] else []);
         problems = p1 @ p2 @ p3
     in Inr \<lparr>cv_ok = (problems = []), cv_problems = problems, cv_chunks = scheduled\<rparr>)"

text \<open>Consecutive chunks \<open>(start, count)\<close> from \<open>a\<close> to \<open>b\<close>.\<close>

fun tiles :: "int \<Rightarrow> (int \<times> int) list \<Rightarrow> int \<Rightarrow> bool" where
  "tiles a [] b \<longleftrightarrow> a = b"
| "tiles a ((start, count) # rest) b \<longleftrightarrow> start = a \<and> tiles (start + count) rest b"

definition chunk_of :: "int \<times> int \<Rightarrow> int \<times> int" where
  "chunk_of = (\<lambda>(start, stop). (start, stop - start))"

text \<open>How many chunks contain the token \<open>x\<close>.\<close>

definition covering :: "int \<Rightarrow> (int \<times> int) list \<Rightarrow> nat" where
  "covering x chunks = length (filter (\<lambda>(start, count). start \<le> x \<and> x < start + count) chunks)"

lemma tiles_le: "tiles a xs b \<Longrightarrow> \<forall>(s, n) \<in> set xs. 0 \<le> n \<Longrightarrow> a \<le> b"
  by (induction a xs b rule: tiles.induct) auto

lemma tiles_cover:
  "tiles a xs b \<Longrightarrow> \<forall>(s, n) \<in> set xs. 0 \<le> n \<Longrightarrow> covering x xs = (if a \<le> x \<and> x < b then 1 else 0)"
proof (induction a xs b rule: tiles.induct)
  case (1 a b)
  then show ?case by (simp add: covering_def)
next
  case (2 a start count rest b)
  then have "covering x rest = (if start + count \<le> x \<and> x < b then 1 else 0)" "start + count \<le> b" "0 \<le> count"
    using tiles_le by auto
  with 2 show ?case by (auto simp: covering_def)
qed

lemma coverage_loop_tiles: "fst (coverage_loop i a xs) = [] \<and> snd (coverage_loop i a xs) = b \<longleftrightarrow> tiles a xs b"
  by (induction i a xs rule: coverage_loop.induct) (auto simp: Let_def split: prod.splits)

lemma audit_ok_tiles:
  assumes "chunk_boundaries prompt chunk = Inr rs"
  shows "\<exists>r. chunk_coverage_audit prompt chunk xs = Inr r \<and> (cv_ok r \<longleftrightarrow> length xs = length rs \<and> tiles 0 xs prompt)"
  using assms coverage_loop_tiles [of 0 0 xs prompt]
  by (cases "coverage_loop 0 0 xs") (auto simp: chunk_coverage_audit_def Let_def)

lemma chunk_loop_pos: "(s, e) \<in> set (chunk_loop prompt chunk start) \<Longrightarrow> s < e"
proof (induction prompt chunk start rule: chunk_loop.induct)
  case (1 prompt chunk start)
  then show ?case by (cases "start < prompt \<and> 0 < chunk") (auto simp: chunk_loop.simps [of prompt chunk start])
qed

lemma chunk_loop_tiles:
  assumes "0 < chunk" "start \<le> prompt"
  shows "tiles start (map chunk_of (chunk_loop prompt chunk start)) prompt"
    "\<forall>(s, e) \<in> set (chunk_loop prompt chunk start). e - s \<le> chunk"
    "int (length (chunk_loop prompt chunk start)) = exact_blocks (prompt - start) chunk"
proof -
  have "tiles start (map chunk_of (chunk_loop prompt chunk start)) prompt
      \<and> (\<forall>(s, e) \<in> set (chunk_loop prompt chunk start). e - s \<le> chunk)
      \<and> int (length (chunk_loop prompt chunk start)) = exact_blocks (prompt - start) chunk"
    using assms
  proof (induction prompt chunk start rule: chunk_loop.induct)
    case (1 prompt chunk start)
    show ?case
    proof (cases "start < prompt")
      case True
      let ?m = "min (start + chunk) prompt"
      note ih = "1.IH" [OF conjI [OF True "1.prems"(1)] "1.prems"(1)]
      have len: "exact_blocks (prompt - start) chunk = 1 + exact_blocks (prompt - ?m) chunk"
      proof (cases "start + chunk \<le> prompt")
        case True
        have "prompt - start + chunk - 1 = (prompt - ?m + chunk - 1) + chunk" using True by simp
        then have "(prompt - start + chunk - 1) div chunk = (prompt - ?m + chunk - 1) div chunk + 1"
          using "1.prems"(1) by (simp only: div_add_self2)
        then show ?thesis by (simp add: exact_blocks_def)
      next
        case False
        have "(prompt - start + chunk - 1) div chunk = 1"
        proof (rule int_div_pos_eq [of _ _ _ "prompt - start - 1"])
          show "prompt - start + chunk - 1 = chunk * 1 + (prompt - start - 1)" by simp
        qed (use True False in auto)
        then show ?thesis using False "1.prems"(1) by (simp add: exact_blocks_def min_def)
      qed
      then show ?thesis
        using True "1.prems" ih by (subst (1 2 3) chunk_loop.simps) (auto simp: min_def chunk_of_def split: if_splits)
    next
      case False
      then show ?thesis using "1.prems" by (subst (1 2 3) chunk_loop.simps) (auto simp: exact_blocks_def)
    qed
  qed
  then show "tiles start (map chunk_of (chunk_loop prompt chunk start)) prompt"
    "\<forall>(s, e) \<in> set (chunk_loop prompt chunk start). e - s \<le> chunk"
    "int (length (chunk_loop prompt chunk start)) = exact_blocks (prompt - start) chunk" by auto
qed

section \<open>Congestion\<close>

datatype congestion_reason = Waiting_grew int | Budget_saturated | Preemption_forced

record congestion_report =
  cg_congestion_iteration :: "int option"
  cg_reasons :: "congestion_reason list"
  cg_waiting_growth_iterations :: int
  cg_budget_saturation :: rat
  cg_kv_pressure :: rat
  cg_preemption_iterations :: "int list"

record congestion_scan =
  cs_waiting_growth :: int
  cs_iteration :: "int option"
  cs_reasons :: "congestion_reason list"
  cs_preemptions :: "int list"
  cs_saturated :: int

definition congestion_reason_of :: "int \<Rightarrow> int \<Rightarrow> iteration_ledger_entry \<Rightarrow> congestion_reason option" where
  "congestion_reason_of growth_run growth e =
     (if growth \<ge> growth_run then Some (Waiting_grew growth)
      else if scheduled_total e \<ge> le_token_budget e then Some Budget_saturated
      else if le_oom_or_preemption e \<noteq> '''' then Some Preemption_forced
      else None)"

definition scan_entry :: "int \<Rightarrow> rat \<Rightarrow> congestion_scan \<Rightarrow> iteration_ledger_entry \<Rightarrow> congestion_scan" where
  "scan_entry growth_run threshold c e =
     (let saturated = cs_saturated c + (if of_int (scheduled_total e) \<ge> int_times_float (le_token_budget e) threshold then 1 else 0);
          growth = (if le_waiting e \<noteq> [] then cs_waiting_growth c + 1 else 0);
          preemptions = (if le_oom_or_preemption e \<noteq> '''' then cs_preemptions c @ [le_iteration e] else cs_preemptions c);
          c' = c\<lparr>cs_saturated := saturated, cs_waiting_growth := growth, cs_preemptions := preemptions\<rparr>
      in case cs_iteration c of
           Some _ \<Rightarrow> c'
         | None \<Rightarrow> (case congestion_reason_of growth_run growth e of
             None \<Rightarrow> c'
           | Some why \<Rightarrow> c'\<lparr>cs_iteration := Some (le_iteration e), cs_reasons := cs_reasons c @ [why]\<rparr>))"

definition detect_congestion :: "simulation_result \<Rightarrow> int \<Rightarrow> rat \<Rightarrow> congestion_report" where
  "detect_congestion res growth_run threshold =
     (let c = foldl (scan_entry growth_run threshold)
                \<lparr>cs_waiting_growth = 0, cs_iteration = None, cs_reasons = [], cs_preemptions = [], cs_saturated = 0\<rparr>
                (sm_iterations res)
      in \<lparr>cg_congestion_iteration = cs_iteration c, cg_reasons = cs_reasons c,
          cg_waiting_growth_iterations = cs_waiting_growth c,
          cg_budget_saturation = int_truediv (cs_saturated c) (max (int (length (sm_iterations res))) 1),
          cg_kv_pressure = int_truediv (sm_kv_peak_blocks res) (max (kv_blocks (sm_spec res)) 1),
          cg_preemption_iterations = cs_preemptions c\<rparr>)"

text \<open>Length of the run of iterations with waiting requests that ends at the end of the list.\<close>

definition waiting_run :: "iteration_ledger_entry list \<Rightarrow> int" where
  "waiting_run es = int (length (takeWhile (\<lambda>e. le_waiting e \<noteq> []) (rev es)))"

definition congested_at :: "int \<Rightarrow> iteration_ledger_entry list \<Rightarrow> nat \<Rightarrow> bool" where
  "congested_at growth_run es i \<longleftrightarrow> waiting_run (take (Suc i) es) \<ge> growth_run
     \<or> scheduled_total (es ! i) \<ge> le_token_budget (es ! i) \<or> le_oom_or_preemption (es ! i) \<noteq> ''''"

lemma congestion_reason_None:
  "congestion_reason_of k g e = None \<longleftrightarrow> \<not> (g \<ge> k \<or> scheduled_total e \<ge> le_token_budget e \<or> le_oom_or_preemption e \<noteq> '''')"
  by (simp add: congestion_reason_of_def)

lemma waiting_run_snoc: "waiting_run (es @ [e]) = (if le_waiting e \<noteq> [] then waiting_run es + 1 else 0)"
  by (simp add: waiting_run_def)

lemma scan_correct:
  assumes "c = foldl (scan_entry k th) \<lparr>cs_waiting_growth = 0, cs_iteration = None, cs_reasons = [], cs_preemptions = [], cs_saturated = 0\<rparr> es"
  shows "cs_waiting_growth c = waiting_run es"
    "cs_preemptions c = map le_iteration (filter (\<lambda>e. le_oom_or_preemption e \<noteq> '''') es)"
    "cs_iteration c = map_option (\<lambda>i. le_iteration (es ! i)) (find (congested_at k es) [0..<length es])"
    "length (cs_reasons c) = (if cs_iteration c = None then 0 else 1)"
proof -
  have "cs_waiting_growth c = waiting_run es
     \<and> cs_preemptions c = map le_iteration (filter (\<lambda>e. le_oom_or_preemption e \<noteq> '''') es)
     \<and> cs_iteration c = map_option (\<lambda>i. le_iteration (es ! i)) (find (congested_at k es) [0..<length es])
     \<and> length (cs_reasons c) = (if cs_iteration c = None then 0 else 1)"
    using assms
  proof (induction es arbitrary: c rule: rev_induct)
    case Nil
    then show ?case by (simp add: waiting_run_def)
  next
    case (snoc e es)
    define d where "d = foldl (scan_entry k th) \<lparr>cs_waiting_growth = 0, cs_iteration = None, cs_reasons = [], cs_preemptions = [], cs_saturated = 0\<rparr> es"
    have c: "c = scan_entry k th d e" using snoc.prems by (simp add: d_def)
    note d = snoc.IH [OF d_def]
    have same: "find (congested_at k (es @ [e])) [0..<length es] = find (congested_at k es) [0..<length es]"
      by (intro find_cong) (auto simp: congested_at_def nth_append)
    have "find P (xs @ [x]) = (case find P xs of None \<Rightarrow> if P x then Some x else None | Some y \<Rightarrow> Some y)" for P xs and x :: nat
      by (induction xs) auto
    then have f: "find (congested_at k (es @ [e])) [0..<length (es @ [e])] =
        (case find (congested_at k es) [0..<length es] of
           None \<Rightarrow> if congested_at k (es @ [e]) (length es) then Some (length es) else None | Some i \<Rightarrow> Some i)"
      using same by simp
    have lt: "i < length es" if "find (congested_at k es) [0..<length es] = Some i" for i
      using that by (auto simp: find_Some_iff)
    have last: "congested_at k (es @ [e]) (length es) \<longleftrightarrow>
        congestion_reason_of k (if le_waiting e \<noteq> [] then waiting_run es + 1 else 0) e \<noteq> None"
      by (simp add: congested_at_def waiting_run_snoc congestion_reason_None)
    show ?case
      using d last lt unfolding f
      by (auto simp: c scan_entry_def Let_def waiting_run_snoc nth_append split: option.splits)
  qed
  then show "cs_waiting_growth c = waiting_run es"
    "cs_preemptions c = map le_iteration (filter (\<lambda>e. le_oom_or_preemption e \<noteq> '''') es)"
    "cs_iteration c = map_option (\<lambda>i. le_iteration (es ! i)) (find (congested_at k es) [0..<length es])"
    "length (cs_reasons c) = (if cs_iteration c = None then 0 else 1)" by auto
qed

section \<open>Properties\<close>

text \<open>The chunk boundaries of a prompt are \<open>\<lceil>prompt / chunk\<rceil>\<close> ranges no longer than a chunk that
  contain every token of the prompt exactly once and nothing else, and the coverage audit accepts
  them; conversely, a schedule of non-negative chunks that the audit accepts contains every token
  exactly once.\<close>

theorem chunk_boundaries_tile:
  assumes "0 < prompt" "0 < chunk"
  shows "\<exists>rs. chunk_boundaries prompt chunk = Inr rs \<and> int (length rs) = exact_blocks prompt chunk
    \<and> (\<forall>(s, e) \<in> set rs. e - s \<le> chunk)
    \<and> (\<forall>x. covering x (map chunk_of rs) = (if 0 \<le> x \<and> x < prompt then 1 else 0))
    \<and> (\<exists>r. chunk_coverage_audit prompt chunk (map chunk_of rs) = Inr r \<and> cv_ok r)
    \<and> (\<forall>xs r x. chunk_coverage_audit prompt chunk xs = Inr r \<and> cv_ok r \<and> (\<forall>(s, n) \<in> set xs. 0 \<le> n)
         \<longrightarrow> covering x xs = (if 0 \<le> x \<and> x < prompt then 1 else 0))"
proof -
  define rs where "rs = chunk_loop prompt chunk 0"
  have rs: "chunk_boundaries prompt chunk = Inr rs" using assms by (simp add: chunk_boundaries_def rs_def)
  note t = chunk_loop_tiles [OF assms(2) less_imp_le [OF assms(1)], folded rs_def]
  have pos: "\<forall>(s, n) \<in> set (map chunk_of rs). 0 \<le> n"
    by (auto simp: chunk_of_def rs_def dest: chunk_loop_pos)
  obtain r where "chunk_coverage_audit prompt chunk (map chunk_of rs) = Inr r" "cv_ok r"
    using audit_ok_tiles [OF rs, of "map chunk_of rs"] t(1) by auto
  moreover have "covering x xs = (if 0 \<le> x \<and> x < prompt then 1 else 0)"
    if "chunk_coverage_audit prompt chunk xs = Inr q" "cv_ok q" "\<forall>(s, n) \<in> set xs. 0 \<le> n" for xs q x
    using audit_ok_tiles [OF rs, of xs] that tiles_cover by auto
  ultimately show ?thesis
    using rs t tiles_cover [OF t(1) pos] by (intro exI [of _ rs]) auto
qed

theorem chunk_boundaries_tile_witness:
  "\<exists>rs. chunk_boundaries 10 4 = Inr rs \<and> int (length rs) = 3 \<and> covering 7 (map chunk_of rs) = 1"
proof -
  have e: "exact_blocks 10 4 = 3" by (simp add: exact_blocks_def)
  obtain rs where "chunk_boundaries 10 4 = Inr rs" "int (length rs) = exact_blocks 10 4"
    "\<forall>x. covering x (map chunk_of rs) = (if 0 \<le> x \<and> x < 10 then 1 else 0)"
    using chunk_boundaries_tile [of 10 4] by auto
  then show ?thesis using e by auto
qed

text \<open>The congestion detector marks the first iteration in which the queue has been waiting for the given
  number of consecutive iterations, the token budget is used up, or a request was preempted; it marks
  none exactly when there is no such iteration, gives one reason for the marked one, and lists all
  iterations with preemptions.\<close>

theorem detect_congestion_first:
  assumes "g = detect_congestion res k th"
  shows "(\<forall>i. cg_congestion_iteration g = Some i \<longleftrightarrow>
        (\<exists>j < length (sm_iterations res). congested_at k (sm_iterations res) j \<and> le_iteration (sm_iterations res ! j) = i
           \<and> (\<forall>m < j. \<not> congested_at k (sm_iterations res) m)))
    \<and> (cg_congestion_iteration g = None \<longleftrightarrow> (\<forall>j < length (sm_iterations res). \<not> congested_at k (sm_iterations res) j))
    \<and> length (cg_reasons g) = (if cg_congestion_iteration g = None then 0 else 1)
    \<and> cg_preemption_iterations g = map le_iteration (filter (\<lambda>e. le_oom_or_preemption e \<noteq> '''') (sm_iterations res))"
proof -
  define c where "c = foldl (scan_entry k th) \<lparr>cs_waiting_growth = 0, cs_iteration = None, cs_reasons = [],
     cs_preemptions = [], cs_saturated = 0\<rparr> (sm_iterations res)"
  note s = scan_correct [OF c_def]
  have g: "cg_congestion_iteration g = cs_iteration c" "cg_reasons g = cs_reasons c"
    "cg_preemption_iterations g = cs_preemptions c"
    by (simp_all add: assms detect_congestion_def c_def Let_def)
  have first: "find P [0..<n] = Some j \<longleftrightarrow> j < n \<and> P j \<and> (\<forall>m < j. \<not> P m)" for P n j
    by (auto simp: find_Some_iff)
  have "map_option h x = Some i \<longleftrightarrow> (\<exists>j. x = Some j \<and> h j = i)" for h :: "nat \<Rightarrow> int" and x i
    by auto
  then show ?thesis
    unfolding g s(2,3) s(4) [unfolded s(3)] by (auto simp: first find_None_iff)
qed

text \<open>Two iterations with a waiting request, the second one with a preemption, and a window of three.\<close>

theorem detect_congestion_first_witness:
  "cg_congestion_iteration (detect_congestion
     \<lparr>sm_trace = \<lparr>tc_name = '''', tc_requests = [], tc_description = ''''\<rparr>,
      sm_spec = \<lparr>sp_mode = CONTINUOUS, max_batched_tokens = 8, max_sequences = 2, sp_block_size = 4, kv_blocks = 4,
         chunk_size = 0, decode_priority = False, long_prefill_threshold = 0, preemption_policy = ''none'',
         admission_reserve_full_isl = True, sp_watermark = 1, sp_prefix_cache = False\<rparr>,
      sm_iterations = [(default_entry 0)\<lparr>le_waiting := [''a''], le_token_budget := 8\<rparr>,
         (default_entry 1)\<lparr>le_waiting := [''a''], le_token_budget := 8, le_oom_or_preemption := ''preempt''\<rparr>],
      sm_outcomes = [], sm_padding_slots = 0, sm_max_concurrent_running = 0, sm_kv_peak_blocks = 0\<rparr> 3 1) = Some 1"
  by (simp add: detect_congestion_first [OF refl, THEN conjunct1, rule_format] congested_at_def waiting_run_def
      default_entry_def scheduled_total_def less_Suc_eq numeral_2_eq_2 exI [of _ 1])

text \<open>The builder of short/long mixtures succeeds on every non-empty mixture of valid lengths, whatever the
  name and the order: it makes the requested number of requests, and their generated ids never clash
  (so the uniqueness check of the trace never fires).\<close>

theorem mixed_trace_valid:
  assumes "0 < short_prompt" "0 < long_prompt" "0 < out" "0 \<le> rk_submit_iteration kw"
    "0 \<le> rk_shared_prefix_tokens kw" "rk_shared_prefix_tokens kw \<le> short_prompt" "rk_shared_prefix_tokens kw \<le> long_prompt"
    and some: "0 < short_count \<or> 0 < long_count"
  shows "\<exists>t. mixed_trace name short_count long_count short_prompt long_prompt out long_first kw = Inr t
    \<and> length (tc_requests t) = nat short_count + nat long_count \<and> distinct (map sr_request_id (tc_requests t))"
proof -
  define req where "req = (\<lambda>rid p. \<lparr>sr_request_id = rid, prompt_tokens = p, max_new_tokens = out,
     submit_iteration = rk_submit_iteration kw, shared_prefix_tokens = rk_shared_prefix_tokens kw,
     cancel_at_iteration = rk_cancel_at_iteration kw, sr_priority = rk_priority kw\<rparr>)"
  define L where "L = map (\<lambda>i. req (name @ ''-long-'' @ str_nat i) long_prompt) [0..<nat long_count]"
  define S where "S = map (\<lambda>i. req (name @ ''-short-'' @ str_nat i) short_prompt) [0..<nat short_count]"
  have mk: "make_request rid short_prompt out kw = Inr (req rid short_prompt)"
    "make_request rid long_prompt out kw = Inr (req rid long_prompt)" for rid
    using assms by (simp_all add: make_request_def sim_request_check_def req_def)
  have "distinct (map sr_request_id L)" "distinct (map sr_request_id S)"
    using distinct_numbered [of "name @ ''-long-''" "nat long_count"] distinct_numbered [of "name @ ''-short-''" "nat short_count"]
    by (simp_all add: L_def S_def req_def comp_def)
  moreover have "set (map sr_request_id L) \<inter> set (map sr_request_id S) = {}"
    by (auto simp: L_def S_def req_def)
  ultimately have d: "distinct (map sr_request_id (if long_first then L @ S else S @ L))" by auto
  have "all_res (if long_first then map (\<lambda>i. make_request (name @ ''-long-'' @ str_nat i) long_prompt out kw) [0..<nat long_count]
        @ map (\<lambda>i. make_request (name @ ''-short-'' @ str_nat i) short_prompt out kw) [0..<nat short_count]
      else map (\<lambda>i. make_request (name @ ''-short-'' @ str_nat i) short_prompt out kw) [0..<nat short_count]
        @ map (\<lambda>i. make_request (name @ ''-long-'' @ str_nat i) long_prompt out kw) [0..<nat long_count])
      = Inr (if long_first then L @ S else S @ L)"
    by (auto simp: all_res_Inr mk L_def S_def comp_def)
  then have "mixed_trace name short_count long_count short_prompt long_prompt out long_first kw
      = make_trace name (if long_first then L @ S else S @ L)"
    unfolding mixed_trace_def Let_def by (simp only: bindE.simps)
  moreover have "length (if long_first then L @ S else S @ L) = nat short_count + nat long_count"
    by (simp add: L_def S_def)
  moreover have "(if long_first then L @ S else S @ L) \<noteq> []" using some by (auto simp: L_def S_def)
  ultimately show ?thesis using d by (auto simp: make_trace_def request_trace_check_def simp del: map_append split: if_splits)
qed

theorem mixed_trace_valid_witness:
  "\<exists>t. mixed_trace ''m'' 11 1 16 4096 32 True
      \<lparr>rk_submit_iteration = 0, rk_shared_prefix_tokens = 0, rk_cancel_at_iteration = None, rk_priority = 0\<rparr> = Inr t
    \<and> length (tc_requests t) = 12"
  using mixed_trace_valid [of 16 4096 32 "\<lparr>rk_submit_iteration = 0, rk_shared_prefix_tokens = 0,
      rk_cancel_at_iteration = None, rk_priority = 0\<rparr>" 11 1 "''m''" True] by auto

end
