(* ===== verification/Circuit.thy ===== *)
theory Circuit
  imports Float64 Errors
begin

text \<open>
  \<open>hqsb/serving/circuit.py\<close>: the health classification, the per-instance circuit breaker with its
  sliding window, half-open probes and quarantine, the audit that recomputes its transitions from the
  recorded counters, and the recovery timeline. Times are nanoseconds as unbounded integers; the open
  duration is a double.
\<close>

section \<open>Classes and health\<close>

definition COUNTED_FAILURE_CLASSES :: "string list" where
  "COUNTED_FAILURE_CLASSES =
     [''backend_unavailable'', ''backend_oom'', ''backend_timeout'', ''malformed_response'', ''protocol_failure'']"

definition EXCLUDED_FAILURE_CLASSES :: "string list" where
  "EXCLUDED_FAILURE_CLASSES = [''client_4xx'', ''user_cancel'', ''admission_reject'', ''deadline_infeasible'']"

definition QUARANTINE_CLASSES :: "string list" where
  "QUARANTINE_CLASSES =
     [''model_identity_mismatch'', ''precision_identity_mismatch'', ''token_quality_identity_mismatch'',
      ''corrupt_cache_identity'']"

datatype circuit_state = CLOSED | OPEN | HALF_OPEN

record health_state =
  process_alive :: bool
  adapter_ready :: bool
  model_epoch_warm :: bool
  capability_probe_fresh :: bool
  transient_overload :: bool
  hs_circuit_state :: circuit_state
  hs_quarantined :: bool
  hs_quarantine_reason :: string
  hs_model_epoch :: string

datatype health_class =
    H_quarantined | H_down | H_not_ready | H_model_cold | H_probe_stale | H_circuit_open | H_degraded | H_ready

definition classification :: "health_state \<Rightarrow> health_class" where
  "classification h =
     (if hs_quarantined h then H_quarantined
      else if \<not> process_alive h then H_down
      else if \<not> adapter_ready h then H_not_ready
      else if \<not> model_epoch_warm h then H_model_cold
      else if \<not> capability_probe_fresh h then H_probe_stale
      else if hs_circuit_state h = OPEN then H_circuit_open
      else if transient_overload h then H_degraded
      else H_ready)"

definition routable :: "health_state \<Rightarrow> bool" where
  "routable h \<longleftrightarrow> classification h = H_ready"

section \<open>The breaker\<close>

record circuit_spec =
  window_samples :: int
  min_samples :: int
  failure_rate_threshold :: rat
  consecutive_failure_threshold :: int
  open_duration_ms :: rat
  max_open_duration_ms :: rat
  half_open_probes_required :: int
  half_open_probe_concurrency :: int
  telemetry_freshness_ms :: rat

record failure_observation =
  fo_monotonic_ns :: int
  fo_failure_class :: string
  fo_detail :: string

record circuit_counters =
  ct_window_samples :: int
  ct_window_failures :: int
  ct_consecutive_failures :: int
  ct_successes :: int
  ct_state :: circuit_state
  ct_open_count :: int
  ct_quarantined :: bool

datatype event_target = To_CLOSED | To_OPEN | To_HALF_OPEN | To_QUARANTINED | To_CLEARED

datatype event_reason =
    Correctness_failure string | Failure_rate rat | Consecutive_failures int | Half_open_probe_failed
  | Half_open_probes_succeeded | Open_duration_elapsed | Cleared_by string

record circuit_event =
  ce_monotonic_ns :: int
  ce_target :: event_target
  ce_reason :: event_reason
  ce_counters :: circuit_counters

record circuit_breaker =
  cb_spec :: circuit_spec
  cb_instance_id :: string
  cb_state :: circuit_state
  cb_observations :: "failure_observation list"
  cb_events :: "circuit_event list"
  cb_successes :: int
  cb_consecutive_failures :: int
  cb_opened_at_ns :: "int option"
  cb_open_count :: int
  cb_half_open_probes :: int
  cb_half_open_successes :: int
  cb_quarantined :: bool
  cb_quarantine_reason :: string

definition new_breaker :: "circuit_spec \<Rightarrow> string \<Rightarrow> circuit_breaker" where
  "new_breaker sp iid = \<lparr>cb_spec = sp, cb_instance_id = iid, cb_state = CLOSED, cb_observations = [], cb_events = [],
     cb_successes = 0, cb_consecutive_failures = 0, cb_opened_at_ns = None, cb_open_count = 0,
     cb_half_open_probes = 0, cb_half_open_successes = 0, cb_quarantined = False, cb_quarantine_reason = ''''\<rparr>"

text \<open>The slice \<open>xs[-n:]\<close>, with Python's reading of \<open>n \<le> 0\<close>.\<close>

definition slice_last :: "int \<Rightarrow> 'a list \<Rightarrow> 'a list" where
  "slice_last n xs = (if n > 0 then drop (length xs - nat n) xs else drop (nat (- n)) xs)"

definition window :: "circuit_breaker \<Rightarrow> failure_observation list" where
  "window b = slice_last (window_samples (cb_spec b)) (cb_observations b)"

definition counters :: "circuit_breaker \<Rightarrow> circuit_counters" where
  "counters b = \<lparr>ct_window_samples = int (length (window b)), ct_window_failures = int (length (window b)),
     ct_consecutive_failures = cb_consecutive_failures b, ct_successes = cb_successes b, ct_state = cb_state b,
     ct_open_count = cb_open_count b, ct_quarantined = cb_quarantined b\<rparr>"

text \<open>\<open>_event\<close> appends the event it returns.\<close>

definition mk_event :: "int \<Rightarrow> event_target \<Rightarrow> event_reason \<Rightarrow> circuit_breaker \<Rightarrow> circuit_event" where
  "mk_event ns target why b = \<lparr>ce_monotonic_ns = ns, ce_target = target, ce_reason = why, ce_counters = counters b\<rparr>"

definition log_event :: "int \<Rightarrow> event_target \<Rightarrow> event_reason \<Rightarrow> circuit_breaker \<Rightarrow> circuit_event \<times> circuit_breaker" where
  "log_event ns target why b = (let e = mk_event ns target why b in (e, b\<lparr>cb_events := cb_events b @ [e]\<rparr>))"

definition open_circuit :: "int \<Rightarrow> event_reason \<Rightarrow> circuit_breaker \<Rightarrow> circuit_event \<times> circuit_breaker" where
  "open_circuit ns why b = log_event ns To_OPEN why
     (b\<lparr>cb_state := OPEN, cb_opened_at_ns := Some ns, cb_open_count := cb_open_count b + 1,
        cb_half_open_probes := 0, cb_half_open_successes := 0\<rparr>)"

definition close_circuit :: "int \<Rightarrow> event_reason \<Rightarrow> circuit_breaker \<Rightarrow> circuit_event \<times> circuit_breaker" where
  "close_circuit ns why b = log_event ns To_CLOSED why
     (b\<lparr>cb_state := CLOSED, cb_opened_at_ns := None, cb_observations := []\<rparr>)"

text \<open>A counted failure: the observation is appended and the run of failures grows.\<close>

definition count_failure :: "string \<Rightarrow> int \<Rightarrow> string \<Rightarrow> circuit_breaker \<Rightarrow> circuit_breaker" where
  "count_failure failure_class ns detail b = b\<lparr>
     cb_observations := cb_observations b @ [\<lparr>fo_monotonic_ns = ns, fo_failure_class = failure_class, fo_detail = detail\<rparr>],
     cb_consecutive_failures := cb_consecutive_failures b + 1\<rparr>"

text \<open>The two triggers of a closed breaker: the failure rate over the window, a run of failures.\<close>

definition trip_reason :: "circuit_breaker \<Rightarrow> event_reason option" where
  "trip_reason b =
     (let win = window b; failures = int (length win);
          rate = (if win \<noteq> [] then int_truediv failures (int (length win)) else 0);
          rate_exceeded = (int (length win) \<ge> min_samples (cb_spec b) \<and> rate \<ge> failure_rate_threshold (cb_spec b));
          run_exceeded = (cb_consecutive_failures b \<ge> consecutive_failure_threshold (cb_spec b))
      in if rate_exceeded \<or> run_exceeded
         then Some (if rate_exceeded then Failure_rate rate else Consecutive_failures (cb_consecutive_failures b))
         else None)"

definition record_failure :: "string \<Rightarrow> int \<Rightarrow> string \<Rightarrow> (circuit_breaker, circuit_event option) op" where
  "record_failure failure_class ns detail b =
     (if failure_class \<in> set EXCLUDED_FAILURE_CLASSES then (Inr None, b)
      else if failure_class \<in> set QUARANTINE_CLASSES then
        (case log_event ns To_QUARANTINED (Correctness_failure failure_class)
                (b\<lparr>cb_quarantined := True, cb_quarantine_reason := failure_class\<rparr>) of
           (e, b') \<Rightarrow> (Inr (Some e), b'))
      else if failure_class \<notin> set COUNTED_FAILURE_CLASSES then (Inl (ConfigError ''failure_class''), b)
      else let b1 = count_failure failure_class ns detail b in
        (case cb_state b1 of
           CLOSED \<Rightarrow> (case trip_reason b1 of
               None \<Rightarrow> (Inr None, b1)
             | Some why \<Rightarrow> (case open_circuit ns why b1 of (e, b2) \<Rightarrow> (Inr (Some e), b2)))
         | HALF_OPEN \<Rightarrow> (case open_circuit ns Half_open_probe_failed b1 of (e, b2) \<Rightarrow> (Inr (Some e), b2))
         | OPEN \<Rightarrow> (Inr None, b1)))"

definition record_success :: "int \<Rightarrow> circuit_breaker \<Rightarrow> circuit_event option \<times> circuit_breaker" where
  "record_success ns b =
     (let b1 = b\<lparr>cb_successes := cb_successes b + 1, cb_consecutive_failures := 0\<rparr> in
      if cb_state b1 = HALF_OPEN then
        let b2 = b1\<lparr>cb_half_open_successes := cb_half_open_successes b1 + 1\<rparr> in
        if cb_half_open_successes b2 \<ge> half_open_probes_required (cb_spec b2) then
          (case close_circuit ns Half_open_probes_succeeded b2 of (e, b3) \<Rightarrow> (Some e, b3))
        else (None, b2)
      else (None, b1))"

text \<open>\<open>opened_at_ns or monotonic_ns\<close>: an opening time of zero counts as unset.\<close>

definition opened_or_now :: "circuit_breaker \<Rightarrow> int \<Rightarrow> int" where
  "opened_or_now b ns = (case cb_opened_at_ns b of None \<Rightarrow> ns | Some t \<Rightarrow> if t = 0 then ns else t)"

datatype allow_reason =
    A_ok | A_quarantined string | A_open | A_half_open_probe | A_half_open_full

definition allow_request :: "int \<Rightarrow> circuit_breaker \<Rightarrow> (bool \<times> allow_reason) \<times> circuit_breaker" where
  "allow_request ns b =
     (if cb_quarantined b then ((False, A_quarantined (cb_quarantine_reason b)), b)
      else case cb_state b of
        CLOSED \<Rightarrow> ((True, A_ok), b)
      | OPEN \<Rightarrow>
          if of_int (ns - opened_or_now b ns) \<ge> fl (open_duration_ms (cb_spec b) * 1000000) then
            (case log_event ns To_HALF_OPEN Open_duration_elapsed
                    (b\<lparr>cb_state := HALF_OPEN, cb_half_open_probes := 0, cb_half_open_successes := 0\<rparr>) of
               (e, b') \<Rightarrow> ((True, A_half_open_probe), b'\<lparr>cb_events := cb_events b' @ [e]\<rparr>))
          else ((False, A_open), b)
      | HALF_OPEN \<Rightarrow>
          if cb_half_open_probes b \<ge> half_open_probe_concurrency (cb_spec b) then ((False, A_half_open_full), b)
          else ((True, A_half_open_probe), b\<lparr>cb_half_open_probes := cb_half_open_probes b + 1\<rparr>))"

definition clear_quarantine :: "int \<Rightarrow> string \<Rightarrow> (circuit_breaker, circuit_event) op" where
  "clear_quarantine ns operator b =
     (if \<not> cb_quarantined b then (Inl (ConfigError ''quarantine''), b)
      else if operator = '''' then (Inl (ConfigError ''operator''), b)
      else case log_event ns To_CLEARED (Cleared_by operator)
                  (b\<lparr>cb_quarantined := False, cb_quarantine_reason := ''''\<rparr>) of
             (e, b') \<Rightarrow> (Inr e, b'))"

datatype recompute_problem = Open_count_mismatch int int | Open_not_following

definition transition_is_recomputable :: "circuit_breaker \<Rightarrow> recompute_problem list" where
  "transition_is_recomputable b =
     (let open_events = filter (\<lambda>e. ce_target e = To_OPEN) (cb_events b) in
      (if int (length open_events) \<noteq> cb_open_count b
       then [Open_count_mismatch (cb_open_count b) (int (length open_events))] else [])
      @ concat (map (\<lambda>e. if ct_window_failures (ce_counters e) < min_samples (cb_spec b)
             \<and> (ct_consecutive_failures (ce_counters e) < consecutive_failure_threshold (cb_spec b)
                \<and> ce_reason e \<noteq> Half_open_probe_failed)
          then [Open_not_following] else []) open_events))"

section \<open>Recovery timeline\<close>

record recovery_timeline =
  fault_injected_ns :: int
  fault_detected_ns :: "int option"
  no_new_routes_ns :: "int option"
  requests_resolved_ns :: "int option"
  recovery_started_ns :: "int option"
  ready_new_epoch_ns :: "int option"
  normal_route_share_ns :: "int option"
  slo_back_in_band_ns :: "int option"

definition delta_ms :: "recovery_timeline \<Rightarrow> int option \<Rightarrow> int option \<Rightarrow> rat option" where
  "delta_ms r value origin = map_option (\<lambda>v.
     fl (fl (of_int (v - (case origin of None \<Rightarrow> fault_injected_ns r | Some o' \<Rightarrow> o'))) / 1000000)) value"

record recovery_metrics =
  MTTD :: "rat option"
  isolation_time :: "rat option"
  request_resolution :: "rat option"
  backend_recovery :: "rat option"
  traffic_recovery :: "rat option"
  SLO_recovery :: "rat option"

definition recovery_metrics_of :: "recovery_timeline \<Rightarrow> recovery_metrics" where
  "recovery_metrics_of r = \<lparr>MTTD = delta_ms r (fault_detected_ns r) None,
     isolation_time = delta_ms r (no_new_routes_ns r) None,
     request_resolution = delta_ms r (requests_resolved_ns r) None,
     backend_recovery = delta_ms r (ready_new_epoch_ns r) (recovery_started_ns r),
     traffic_recovery = delta_ms r (normal_route_share_ns r) (ready_new_epoch_ns r),
     SLO_recovery = delta_ms r (slo_back_in_band_ns r) None\<rparr>"

definition milestones :: "recovery_timeline \<Rightarrow> (string \<times> int option) list" where
  "milestones r = [(''fault_detected_ns'', fault_detected_ns r), (''no_new_routes_ns'', no_new_routes_ns r),
     (''requests_resolved_ns'', requests_resolved_ns r), (''ready_new_epoch_ns'', ready_new_epoch_ns r),
     (''normal_route_share_ns'', normal_route_share_ns r), (''slo_back_in_band_ns'', slo_back_in_band_ns r)]"

fun order_problems :: "string \<Rightarrow> int \<Rightarrow> (string \<times> int option) list \<Rightarrow> (string \<times> string) list" where
  "order_problems pname pvalue [] = []"
| "order_problems pname pvalue ((name, None) # rest) = order_problems pname pvalue rest"
| "order_problems pname pvalue ((name, Some v) # rest) =
     (if v < pvalue then [(name, pname)] else []) @ order_problems name v rest"

definition recovery_problems :: "recovery_timeline \<Rightarrow> (string \<times> string) list" where
  "recovery_problems r = order_problems ''fault_injected_ns'' (fault_injected_ns r) (milestones r)"

section \<open>Clients of a breaker\<close>

datatype breaker_op =
    Fail string int string | Succeed int | Ask int | Clear int string

fun apply_op :: "breaker_op \<Rightarrow> circuit_breaker \<Rightarrow> circuit_breaker" where
  "apply_op (Fail c ns d) b = snd (record_failure c ns d b)"
| "apply_op (Succeed ns) b = snd (record_success ns b)"
| "apply_op (Ask ns) b = snd (allow_request ns b)"
| "apply_op (Clear ns who) b = snd (clear_quarantine ns who b)"

definition run_ops :: "breaker_op list \<Rightarrow> circuit_breaker \<Rightarrow> circuit_breaker" where
  "run_ops ops b = foldl (\<lambda>b op. apply_op op b) b ops"

lemma run_ops_induct:
  assumes "P b" "\<And>op b. op \<in> set ops \<Longrightarrow> P b \<Longrightarrow> P (apply_op op b)"
  shows "P (run_ops ops b)"
  using assms by (induction ops arbitrary: b) (auto simp: run_ops_def)

text \<open>The invariant behind the audit.\<close>

definition open_events :: "circuit_breaker \<Rightarrow> circuit_event list" where
  "open_events b = filter (\<lambda>e. ce_target e = To_OPEN) (cb_events b)"

definition follows :: "circuit_spec \<Rightarrow> circuit_event \<Rightarrow> bool" where
  "follows sp e \<longleftrightarrow> ct_window_failures (ce_counters e) \<ge> min_samples sp
     \<or> ct_consecutive_failures (ce_counters e) \<ge> consecutive_failure_threshold sp \<or> ce_reason e = Half_open_probe_failed"

definition breaker_inv :: "circuit_breaker \<Rightarrow> bool" where
  "breaker_inv b \<longleftrightarrow> int (length (open_events b)) = cb_open_count b \<and> (\<forall>e \<in> set (open_events b). follows (cb_spec b) e)"

lemmas breaker_defs = log_event_def mk_event_def open_circuit_def close_circuit_def open_events_def Let_def

lemma new_breaker_inv: "breaker_inv (new_breaker sp iid)"
  by (simp add: breaker_inv_def new_breaker_def open_events_def)

lemma apply_op_spec: "cb_spec (apply_op op b) = cb_spec b"
  by (cases op) (auto simp: record_failure_def count_failure_def record_success_def allow_request_def clear_quarantine_def
      breaker_defs split: circuit_state.splits option.splits)

lemma open_circuit_inv:
  assumes "breaker_inv b" "int (length (window b)) \<ge> min_samples (cb_spec b)
      \<or> cb_consecutive_failures b \<ge> consecutive_failure_threshold (cb_spec b) \<or> why = Half_open_probe_failed"
  shows "breaker_inv (snd (open_circuit ns why b))"
  using assms by (auto simp: breaker_inv_def breaker_defs follows_def counters_def window_def)

lemma trip_reason_cause:
  "trip_reason b = Some why \<Longrightarrow> int (length (window b)) \<ge> min_samples (cb_spec b)
     \<or> cb_consecutive_failures b \<ge> consecutive_failure_threshold (cb_spec b)"
  by (auto simp: trip_reason_def Let_def split: if_splits)

lemma count_failure_inv: "breaker_inv b \<Longrightarrow> breaker_inv (count_failure c ns d b)"
  by (simp add: breaker_inv_def count_failure_def open_events_def)

lemma record_failure_inv:
  assumes "breaker_inv b"
  shows "breaker_inv (snd (record_failure c ns d b))"
proof -
  let ?b = "count_failure c ns d b"
  have o1: "breaker_inv (snd (open_circuit ns why ?b))" if "trip_reason ?b = Some why \<or> why = Half_open_probe_failed" for why
    using that trip_reason_cause open_circuit_inv [OF count_failure_inv [OF assms]] by blast
  have q: "breaker_inv (snd (log_event ns To_QUARANTINED why (b\<lparr>cb_quarantined := True, cb_quarantine_reason := c\<rparr>)))" for why
    using assms by (simp add: breaker_inv_def breaker_defs)
  have sp: "snd (case x of (e, b') \<Rightarrow> (Inr (Some e), b')) = snd x" for x :: "circuit_event \<times> circuit_breaker"
    by (cases x) simp
  show ?thesis
    using assms count_failure_inv [OF assms] q o1
    by (auto simp: record_failure_def Let_def sp split: circuit_state.splits option.splits)
qed

lemma apply_op_inv: "breaker_inv b \<Longrightarrow> breaker_inv (apply_op op b)"
proof (cases op)
  case (Fail c ns d)
  then show "breaker_inv b \<Longrightarrow> ?thesis" using record_failure_inv by simp
qed (auto simp: record_success_def allow_request_def clear_quarantine_def breaker_inv_def breaker_defs
      split: circuit_state.splits)

end
