(* ===== verification/Circuit_Props.thy ===== *)
theory Circuit_Props
  imports Circuit
begin

text \<open>
  The properties of the circuit breaker: the audit of its own transitions is always clean, it opens
  after the configured run of failures and then refuses until the open duration has passed, a
  quarantine outlives everything but an operator, the probes of a half-open breaker are bounded, and
  with fewer probes than required successes the breaker cannot close again.
\<close>

section \<open>Audit\<close>

text \<open>C9: whatever sequence of failures, successes, routing questions and quarantine clearings a breaker goes
  through, the audit that recomputes its transitions finds no problem: the number of OPEN events equals
  the open count, and every opening follows from the counters recorded with it.\<close>

theorem breaker_audit_clean:
  "transition_is_recomputable (run_ops ops (new_breaker sp iid)) = []"
proof -
  let ?b = "run_ops ops (new_breaker sp iid)"
  have inv: "breaker_inv ?b" by (rule run_ops_induct) (auto simp: new_breaker_inv apply_op_inv)
  then show ?thesis
    by (auto simp: transition_is_recomputable_def Let_def breaker_inv_def open_events_def follows_def not_less)
qed

section \<open>Opening\<close>

definition is_counted :: "breaker_op \<Rightarrow> bool" where
  "is_counted op = (case op of Fail c _ _ \<Rightarrow> c \<in> set COUNTED_FAILURE_CLASSES | _ \<Rightarrow> False)"

lemma counted_classes:
  "c \<in> set COUNTED_FAILURE_CLASSES \<Longrightarrow> c \<notin> set EXCLUDED_FAILURE_CLASSES \<and> c \<notin> set QUARANTINE_CLASSES"
  by (auto simp: COUNTED_FAILURE_CLASSES_def EXCLUDED_FAILURE_CLASSES_def QUARANTINE_CLASSES_def)

lemma counted_step:
  assumes "is_counted op" "cb_state b = OPEN \<or> cb_state b = CLOSED \<and> cb_consecutive_failures b \<ge> k"
    "k < consecutive_failure_threshold (cb_spec b)"
  shows "cb_state (apply_op op b) = OPEN \<or> cb_state (apply_op op b) = CLOSED
      \<and> cb_consecutive_failures (apply_op op b) \<ge> k + 1 \<and> k + 1 < consecutive_failure_threshold (cb_spec b)"
proof -
  obtain c ns d where op: "op = Fail c ns d" "c \<in> set COUNTED_FAILURE_CLASSES"
    using assms(1) by (cases op) (auto simp: is_counted_def)
  have t: "cb_consecutive_failures x < consecutive_failure_threshold (cb_spec x)" if "trip_reason x = None" for x
    using that by (auto simp: trip_reason_def Let_def split: if_splits)
  show ?thesis
    using assms(2,3) counted_classes [OF op(2)] op(2) t [of "count_failure c ns d b"]
    by (cases "trip_reason (count_failure c ns d b)")
      (auto simp: op(1) record_failure_def Let_def count_failure_def open_circuit_def log_event_def)
qed

lemma counted_run:
  assumes "list_all is_counted ops" "cb_state b = OPEN \<or> cb_state b = CLOSED \<and> cb_consecutive_failures b \<ge> k
      \<and> k < consecutive_failure_threshold (cb_spec b)"
  shows "cb_state (run_ops ops b) = OPEN \<or> cb_state (run_ops ops b) = CLOSED
      \<and> cb_consecutive_failures (run_ops ops b) \<ge> k + int (length ops) \<and> k + int (length ops) < consecutive_failure_threshold (cb_spec b)"
  using assms
proof (induction ops arbitrary: b k)
  case Nil
  then show ?case by (auto simp: run_ops_def)
next
  case (Cons op ops)
  have step: "cb_state (apply_op op b) = OPEN \<or> cb_state (apply_op op b) = CLOSED
      \<and> cb_consecutive_failures (apply_op op b) \<ge> k + 1 \<and> k + 1 < consecutive_failure_threshold (cb_spec (apply_op op b))"
  proof (cases "cb_state b = OPEN")
    case True
    obtain c ns d where op: "op = Fail c ns d" "c \<in> set COUNTED_FAILURE_CLASSES"
      using Cons.prems(1) by (cases op) (auto simp: is_counted_def)
    show ?thesis using True op counted_classes [OF op(2)] by (simp add: record_failure_def Let_def count_failure_def)
  next
    case False
    then show ?thesis using counted_step [of op b k] Cons.prems by (simp add: apply_op_spec)
  qed
  have "run_ops (op # ops) b = run_ops ops (apply_op op b)" by (simp add: run_ops_def)
  then show ?case
    using Cons.IH [OF _ step] Cons.prems(1) by (simp add: apply_op_spec add.assoc)
qed

text \<open>A closed breaker opens after at most the configured number of consecutive backend failures,
  whatever their classes, and once open it refuses every request until the open duration has passed
  since it opened, without changing; the first question after that admits a probe and makes the
  breaker half-open.\<close>

theorem breaker_opens_and_refuses:
  assumes "cb_state b = CLOSED" "0 \<le> cb_consecutive_failures b" "0 < consecutive_failure_threshold (cb_spec b)"
    and "list_all is_counted ops" "int (length ops) \<ge> consecutive_failure_threshold (cb_spec b)"
  shows "cb_state (run_ops ops b) = OPEN
    \<and> (\<forall>b' t ns. cb_state b' = OPEN \<and> \<not> cb_quarantined b' \<and> cb_opened_at_ns b' = Some t \<and> t \<noteq> 0 \<longrightarrow>
        (if of_int (ns - t) < fl (open_duration_ms (cb_spec b') * 1000000)
         then allow_request ns b' = ((False, A_open), b')
         else fst (allow_request ns b') = (True, A_half_open_probe)
           \<and> cb_state (snd (allow_request ns b')) = HALF_OPEN \<and> cb_half_open_successes (snd (allow_request ns b')) = 0))"
proof -
  have "cb_state (run_ops ops b) = OPEN" using counted_run [OF assms(4), of b 0] assms by auto
  then show ?thesis by (auto simp: allow_request_def opened_or_now_def log_event_def Let_def)
qed

definition demo_circuit :: circuit_spec where
  "demo_circuit = \<lparr>window_samples = 50, min_samples = 20, failure_rate_threshold = 1 / 2,
     consecutive_failure_threshold = 5, open_duration_ms = 5000, max_open_duration_ms = 60000,
     half_open_probes_required = 3, half_open_probe_concurrency = 1, telemetry_freshness_ms = 2000\<rparr>"

theorem breaker_opens_and_refuses_witness:
  "cb_state (run_ops (replicate 5 (Fail ''backend_timeout'' 7 '''')) (new_breaker demo_circuit ''i'')) = OPEN"
  using breaker_opens_and_refuses [of "new_breaker demo_circuit ''i''" "replicate 5 (Fail ''backend_timeout'' 7 '''')"]
  by (auto simp: new_breaker_def demo_circuit_def is_counted_def COUNTED_FAILURE_CLASSES_def list_all_iff)

section \<open>Quarantine\<close>

definition clears :: "breaker_op \<Rightarrow> bool" where
  "clears op = (case op of Clear _ who \<Rightarrow> who \<noteq> '''' | _ \<Rightarrow> False)"

lemma quarantine_step: "cb_quarantined b \<Longrightarrow> \<not> clears op \<Longrightarrow> cb_quarantined (apply_op op b)"
  by (cases op) (auto simp: clears_def record_failure_def count_failure_def record_success_def allow_request_def
      clear_quarantine_def breaker_defs split: circuit_state.splits option.splits)

text \<open>A correctness quarantine ends only by an operator: after any sequence of operations in which no named
  operator clears it, a quarantined breaker still refuses every request at every time, and asking
  changes nothing.\<close>

theorem quarantine_outlives_everything_but_operator:
  assumes "cb_quarantined b" and "list_all (\<lambda>op. \<not> clears op) ops"
  shows "\<exists>why. allow_request ns (run_ops ops b) = ((False, A_quarantined why), run_ops ops b)"
proof -
  have "cb_quarantined (run_ops ops b)"
    by (rule run_ops_induct) (use assms quarantine_step in \<open>auto simp: list_all_iff\<close>)
  then show ?thesis by (simp add: allow_request_def)
qed

theorem quarantine_outlives_everything_but_operator_witness:
  "\<exists>why. fst (allow_request 99 (run_ops [Succeed 1, Ask 2, Clear 3 '''', Succeed 4]
     (apply_op (Fail ''corrupt_cache_identity'' 0 '''') (new_breaker demo_circuit ''i'')))) = (False, A_quarantined why)"
proof -
  let ?b = "apply_op (Fail ''corrupt_cache_identity'' 0 '''') (new_breaker demo_circuit ''i'')"
  have "cb_quarantined ?b"
    by (simp add: record_failure_def EXCLUDED_FAILURE_CLASSES_def QUARANTINE_CLASSES_def log_event_def Let_def)
  then show ?thesis
    using quarantine_outlives_everything_but_operator [of ?b "[Succeed 1, Ask 2, Clear 3 '''', Succeed 4]" 99]
    by (auto simp: clears_def)
qed

section \<open>Half-open probes\<close>

text \<open>A client of a half-open breaker whose probes all succeed: it asks, and it reports a success only for a
  request that was admitted and has not been reported. The second component counts the admitted
  requests that are still in flight.\<close>

fun probe_run :: "breaker_op list \<Rightarrow> circuit_breaker \<times> nat \<Rightarrow> (circuit_breaker \<times> nat) option" where
  "probe_run [] s = Some s"
| "probe_run (Ask ns # ops) (b, n) =
     (case allow_request ns b of ((ok, _), b') \<Rightarrow> probe_run ops (b', if ok then Suc n else n))"
| "probe_run (Succeed ns # ops) (b, Suc n) = probe_run ops (snd (record_success ns b), n)"
| "probe_run _ _ = None"

text \<open>The probe that turned the breaker half-open is not counted, hence the one.\<close>

definition probe_inv :: "circuit_breaker \<times> nat \<Rightarrow> bool" where
  "probe_inv = (\<lambda>(b, n). cb_state b = HALF_OPEN \<and> \<not> cb_quarantined b
     \<and> cb_half_open_successes b + int n = cb_half_open_probes b + 1
     \<and> cb_half_open_probes b \<le> max 0 (half_open_probe_concurrency (cb_spec b)))"

lemma probe_run_inv:
  assumes "probe_run ops (b, n) = Some (b', n')" "probe_inv (b, n)"
    "max 0 (half_open_probe_concurrency (cb_spec b)) + 1 < half_open_probes_required (cb_spec b)"
  shows "probe_inv (b', n') \<and> cb_spec b' = cb_spec b"
  using assms
proof (induction ops arbitrary: b n)
  case Nil
  then show ?case by simp
next
  case (Cons op ops)
  show ?case
  proof (cases op)
    case (Ask ns)
    obtain ok why c where a: "allow_request ns b = ((ok, why), c)" by (metis prod.exhaust)
    have "probe_inv (c, if ok then Suc n else n)" "cb_spec c = cb_spec b"
      using a Cons.prems(2) by (auto simp: probe_inv_def allow_request_def split: if_splits)
    then show ?thesis using Cons.IH [of c "if ok then Suc n else n"] Cons.prems(1,3) a by (simp add: Ask)
  next
    case (Succeed ns)
    obtain m where m: "n = Suc m" using Cons.prems(1) by (cases n) (auto simp: Succeed)
    let ?c = "snd (record_success ns b)"
    have "cb_half_open_successes b + 1 < half_open_probes_required (cb_spec b)"
      using Cons.prems(2,3) by (auto simp: probe_inv_def m)
    then have "probe_inv (?c, m)" "cb_spec ?c = cb_spec b"
      using Cons.prems(2) by (auto simp: probe_inv_def record_success_def Let_def m)
    then show ?thesis using Cons.IH [of ?c m] Cons.prems(1,3) by (simp add: Succeed m)
  qed (use Cons.prems(1) in simp_all)
qed

text \<open>C10: a half-open breaker admits at most one probe more than its probe concurrency, and if it requires more
  successes than that it never closes again by successful probes: from the moment it turns half-open,
  with every probe succeeding, it stays half-open, and once its probes are used up it refuses every
  request at every later time. The shipped configuration (one concurrent probe, three required
  successes) is such a configuration.\<close>

theorem half_open_never_closes:
  assumes "cb_state b = OPEN" "\<not> cb_quarantined b" "allow_request ns b = ((True, why), b1)"
    and "max 0 (half_open_probe_concurrency (cb_spec b)) + 1 < half_open_probes_required (cb_spec b)"
    and "probe_run ops (b1, 1) = Some (b2, n)"
  shows "cb_state b2 = HALF_OPEN \<and> cb_half_open_successes b2 + int n \<le> max 0 (half_open_probe_concurrency (cb_spec b)) + 1
    \<and> (half_open_probe_concurrency (cb_spec b) \<le> cb_half_open_probes b2
         \<longrightarrow> (\<forall>t. allow_request t b2 = ((False, A_half_open_full), b2)))"
proof -
  have "probe_inv (b1, 1)" "cb_spec b1 = cb_spec b"
    using assms(1,2,3) by (auto simp: probe_inv_def allow_request_def log_event_def Let_def split: if_splits)
  with probe_run_inv [OF assms(5)] assms(4) have "probe_inv (b2, n)" "cb_spec b2 = cb_spec b" by auto
  then show ?thesis by (auto simp: probe_inv_def allow_request_def)
qed

theorem half_open_never_closes_witness:
  "\<exists>b1 b2. allow_request (10 ^ 10) (run_ops (replicate 5 (Fail ''backend_timeout'' 7 '''')) (new_breaker demo_circuit ''i'')) = ((True, A_half_open_probe), b1)
     \<and> probe_run [Succeed 1, Ask 2, Succeed 3] (b1, 1) = Some (b2, 0)
     \<and> cb_state b2 = HALF_OPEN \<and> (\<forall>t. allow_request t b2 = ((False, A_half_open_full), b2))"
proof -
  let ?b = "run_ops (replicate 5 (Fail ''backend_timeout'' 7 '''')) (new_breaker demo_circuit ''i'')"
  have "cb_state ?b = OPEN \<and> \<not> cb_quarantined ?b \<and> cb_spec ?b = demo_circuit \<and>
     fst (allow_request (10 ^ 10) ?b) = (True, A_half_open_probe)
     \<and> map_option snd (probe_run [Succeed 1, Ask 2, Succeed 3] (snd (allow_request (10 ^ 10) ?b), 1)) = Some 0
     \<and> map_option (cb_half_open_probes \<circ> fst) (probe_run [Succeed 1, Ask 2, Succeed 3] (snd (allow_request (10 ^ 10) ?b), 1)) = Some 1"
    by code_simp
  then obtain b1 b2 where o1: "cb_state ?b = OPEN" "\<not> cb_quarantined ?b" "cb_spec ?b = demo_circuit"
    and b1: "allow_request (10 ^ 10) ?b = ((True, A_half_open_probe), b1)"
    and b2: "probe_run [Succeed 1, Ask 2, Succeed 3] (b1, 1) = Some (b2, 0)" "cb_half_open_probes b2 = 1"
    by (cases "allow_request (10 ^ 10) ?b") auto
  have "max 0 (half_open_probe_concurrency (cb_spec ?b)) + 1 < half_open_probes_required (cb_spec ?b)"
    "half_open_probe_concurrency (cb_spec ?b) = 1" unfolding o1(3) by (simp_all add: demo_circuit_def)
  with half_open_never_closes [OF o1(1,2) b1 _ b2(1)] b2(2) b1 b2(1) show ?thesis by auto
qed

section \<open>Recovery timeline\<close>

lemma order_problems_sorted:
  "order_problems pn pv ms = [] \<longleftrightarrow> sorted (pv # List.map_filter snd ms)"
  by (induction pn pv ms rule: order_problems.induct) (auto simp: not_less dest: order.trans)

text \<open>A recovery timeline is reported free of problems exactly when the milestones that were reached are in
  non-decreasing order after the injection of the fault; and then no recovery metric that is measured
  from the injection is negative.\<close>

theorem recovery_timeline_ordered:
  "(recovery_problems r = [] \<longleftrightarrow> sorted (fault_injected_ns r # List.map_filter snd (milestones r)))
   \<and> (recovery_problems r = [] \<longrightarrow> (\<forall>x \<in> {MTTD (recovery_metrics_of r), isolation_time (recovery_metrics_of r),
        request_resolution (recovery_metrics_of r), SLO_recovery (recovery_metrics_of r)}. \<forall>v. x = Some v \<longrightarrow> 0 \<le> v))"
proof -
  have iff: "recovery_problems r = [] \<longleftrightarrow> sorted (fault_injected_ns r # List.map_filter snd (milestones r))"
    by (simp add: recovery_problems_def order_problems_sorted)
  have nn: "0 \<le> v" if "delta_ms r (Some m) None = Some v" "fault_injected_ns r \<le> m" for m v
    using that by (auto simp: delta_ms_def intro!: fl_nonneg divide_nonneg_nonneg)
  have "fault_injected_ns r \<le> m" if "recovery_problems r = []" "(name, Some m) \<in> set (milestones r)" for name m
    using that by (auto simp: iff milestones_def List.map_filter_simps split: option.splits)
  then have d: "0 \<le> v" if "recovery_problems r = []" "x \<in> snd ` set (milestones r)" "delta_ms r x None = Some v" for x v
    using that nn by (cases x) (auto simp: delta_ms_def)
  show ?thesis
  proof (intro conjI impI ballI allI)
    fix x v
    assume p: "recovery_problems r = []" and v: "x = Some v" and
      "x \<in> {MTTD (recovery_metrics_of r), isolation_time (recovery_metrics_of r),
        request_resolution (recovery_metrics_of r), SLO_recovery (recovery_metrics_of r)}"
    then have "\<exists>y \<in> snd ` set (milestones r). delta_ms r y None = Some v"
      by (simp add: recovery_metrics_of_def milestones_def) metis
    then show "0 \<le> v" using d [OF p] by blast
  qed (rule iff)
qed

theorem recovery_timeline_ordered_witness:
  "\<exists>v. MTTD (recovery_metrics_of \<lparr>fault_injected_ns = 10, fault_detected_ns = Some 2000010, no_new_routes_ns = None,
      requests_resolved_ns = None, recovery_started_ns = None, ready_new_epoch_ns = None, normal_route_share_ns = None,
      slo_back_in_band_ns = None\<rparr>) = Some v \<and> 0 \<le> v"
proof -
  let ?r = "\<lparr>fault_injected_ns = 10, fault_detected_ns = Some 2000010, no_new_routes_ns = None,
      requests_resolved_ns = None, recovery_started_ns = None, ready_new_epoch_ns = None, normal_route_share_ns = None,
      slo_back_in_band_ns = None\<rparr>"
  have "recovery_problems ?r = []" by (simp add: recovery_problems_def milestones_def)
  moreover obtain v where v: "MTTD (recovery_metrics_of ?r) = Some v" by (simp add: recovery_metrics_of_def delta_ms_def)
  ultimately show ?thesis using recovery_timeline_ordered [of ?r] by auto
qed

end
