(* ===== verification/Queue_Policies.thy ===== *)
theory Queue_Policies
  imports Float64 Errors "HOL-Library.Multiset"
begin

text \<open>
  \<open>hqsb/serving/policies.py\<close>: the three queue policies (FIFO, strict priority, weighted fair) behind one
  interface. A policy sees a queue of waiting entries, picks one, charges its tenant and returns a
  decision record. The chosen entry is identified by its position in the queue; charging mutates it
  in place. The interface all three share is the locale \<open>min_policy\<close>: a selection is the first minimal
  entry under a key that may depend on the policy's history, and it is charged to its tenant.
\<close>

section \<open>Entries and decisions\<close>

definition POLICIES :: "string list" where
  "POLICIES = [''fifo'', ''strict_priority'', ''weighted_fair'']"

definition SERVICE_UNITS :: "string list" where
  "SERVICE_UNITS = [''logical_tokens'', ''computed_positions'', ''weighted_cost'']"

definition PRIORITY_ORDER :: "(string \<times> int) list" where
  "PRIORITY_ORDER = [(''high'', 0), (''normal'', 1), (''low'', 2)]"

record queue_entry =
  qe_request_id :: string
  qe_tenant :: string
  qe_request_class :: string
  qe_priority :: string
  qe_enqueued_ns :: int
  qe_estimated_cost :: rat
  qe_entitlement :: rat
  qe_deadline_ns :: "int option"
  qe_prompt_tokens :: int
  qe_reserved_output_tokens :: int
  qe_prefix_hit_tokens :: int
  qe_actual_cost :: rat
  qe_charged_cost :: rat
  qe_served_at_ns :: "int option"
  qe_cancelled :: bool
  qe_timeout :: bool

definition queue_entry_check :: "queue_entry \<Rightarrow> queue_entry res" where
  "queue_entry_check e =
     (if qe_priority e \<notin> fst ` set PRIORITY_ORDER then Inl (ConfigError ''priority'')
      else if qe_entitlement e \<le> 0 then Inl (ConfigError ''entitlement'')
      else Inr e)"

definition prediction_error :: "queue_entry \<Rightarrow> rat option" where
  "prediction_error e = (if qe_actual_cost e = 0 then None else Some (fl (qe_actual_cost e - qe_estimated_cost e)))"

datatype decision_reason = Oldest_enqueue | Priority_first string | Smallest_service string rat rat

record policy_decision =
  pd_policy :: string
  pd_selected_request_id :: string
  pd_reason :: decision_reason
  pd_now_ns :: int
  pd_queue_depth :: int
  pd_waited_ns :: int
  pd_virtual_time_after :: rat
  pd_tie_break :: string
  pd_work_conserving :: bool
  pd_counters :: "(string \<times> rat) list"

record policy_state =
  ps_served_cost :: "(string \<times> rat) list"
  ps_served_count :: "(string \<times> int) list"

definition new_policy :: policy_state where
  "new_policy = \<lparr>ps_served_cost = [], ps_served_count = []\<rparr>"

definition get_or :: "'v \<Rightarrow> ('k \<times> 'v) list \<Rightarrow> 'k \<Rightarrow> 'v" where
  "get_or d m k = (case map_of m k of None \<Rightarrow> d | Some v \<Rightarrow> v)"

text \<open>\<open>charged_cost or actual_cost or estimated_cost\<close>.\<close>

definition charge_of :: "queue_entry \<Rightarrow> rat" where
  "charge_of e = (if qe_charged_cost e \<noteq> 0 then qe_charged_cost e
     else if qe_actual_cost e \<noteq> 0 then qe_actual_cost e else qe_estimated_cost e)"

definition charge :: "queue_entry \<Rightarrow> policy_state \<Rightarrow> queue_entry \<times> policy_state" where
  "charge e s = (let c = charge_of e in
     (e\<lparr>qe_charged_cost := c\<rparr>,
      s\<lparr>ps_served_cost := AList.update (qe_tenant e) (fl (get_or 0 (ps_served_cost s) (qe_tenant e) + c)) (ps_served_cost s),
        ps_served_count := AList.update (qe_tenant e) (get_or 0 (ps_served_count s) (qe_tenant e) + 1) (ps_served_count s)\<rparr>))"

definition policy_counters :: "policy_state \<Rightarrow> (string \<times> rat) list" where
  "policy_counters s = sort_key fst (ps_served_cost s)"

definition refund :: "queue_entry \<Rightarrow> rat \<Rightarrow> policy_state \<Rightarrow> (queue_entry \<times> policy_state) res" where
  "refund e fraction s =
     (if \<not> (0 \<le> fraction \<and> fraction \<le> 1) then Inl (ConfigError ''unexecuted_fraction'')
      else let r = fl (qe_charged_cost e * fraction) in
        Inr (e\<lparr>qe_charged_cost := fl (qe_charged_cost e - r)\<rparr>,
             s\<lparr>ps_served_cost := AList.update (qe_tenant e)
                  (max 0 (fl (get_or 0 (ps_served_cost s) (qe_tenant e) - r))) (ps_served_cost s)\<rparr>))"

section \<open>Selection\<close>

text \<open>\<open>min\<close> over the queue with a key: the position of the first minimal entry.\<close>

definition first_min :: "(queue_entry \<Rightarrow> 'k::linorder) \<Rightarrow> queue_entry list \<Rightarrow> nat option" where
  "first_min key q = argmin (\<lambda>i. key (q ! i)) [0..<length q]"

definition fifo_select ::
  "policy_state \<Rightarrow> queue_entry list \<Rightarrow> int \<Rightarrow> (policy_decision \<times> nat \<times> policy_state \<times> queue_entry list) option" where
  "fifo_select s q now = (case first_min qe_enqueued_ns q of
     None \<Rightarrow> None
   | Some i \<Rightarrow> (case charge (q ! i) s of (e, s') \<Rightarrow>
       Some (\<lparr>pd_policy = ''fifo'', pd_selected_request_id = qe_request_id e, pd_reason = Oldest_enqueue,
               pd_now_ns = now, pd_queue_depth = int (length q), pd_waited_ns = now - qe_enqueued_ns e,
               pd_virtual_time_after = 0, pd_tie_break = ''request_id'', pd_work_conserving = True,
               pd_counters = policy_counters s'\<rparr>, i, s', q[i := e])))"

definition priority_rank :: "queue_entry \<Rightarrow> int" where
  "priority_rank e = the (map_of PRIORITY_ORDER (qe_priority e))"

definition priority_key :: "queue_entry \<Rightarrow> int \<times> int \<times> string" where
  "priority_key e = (priority_rank e, qe_enqueued_ns e, qe_request_id e)"

definition strict_select ::
  "policy_state \<Rightarrow> queue_entry list \<Rightarrow> int \<Rightarrow> (policy_decision \<times> nat \<times> policy_state \<times> queue_entry list) option" where
  "strict_select s q now = (case first_min priority_key q of
     None \<Rightarrow> None
   | Some i \<Rightarrow> (case charge (q ! i) s of (e, s') \<Rightarrow>
       Some (\<lparr>pd_policy = ''strict_priority'', pd_selected_request_id = qe_request_id e,
               pd_reason = Priority_first (qe_priority e), pd_now_ns = now, pd_queue_depth = int (length q),
               pd_waited_ns = now - qe_enqueued_ns e, pd_virtual_time_after = 0,
               pd_tie_break = ''enqueue_time_then_request_id'', pd_work_conserving = True,
               pd_counters = policy_counters s'\<rparr>, i, s', q[i := e])))"

record weighted_fair =
  wf_base :: policy_state
  wf_service_unit :: string
  wf_virtual_time :: "(string \<times> rat) list"

definition new_weighted_fair :: "string \<Rightarrow> weighted_fair res" where
  "new_weighted_fair service_unit =
     (if service_unit \<notin> set SERVICE_UNITS then Inl (ConfigError ''service_unit'')
      else Inr \<lparr>wf_base = new_policy, wf_service_unit = service_unit, wf_virtual_time = []\<rparr>)"

definition normalized_service :: "weighted_fair \<Rightarrow> string \<Rightarrow> rat \<Rightarrow> rat" where
  "normalized_service w tenant entitlement = fl (get_or 0 (wf_virtual_time w) tenant / entitlement)"

definition wf_baseline :: "(string \<times> rat) list \<Rightarrow> rat" where
  "wf_baseline vt = (if vt = [] then 0 else Min (snd ` set vt))"

text \<open>\<open>setdefault\<close> for the tenants of the queue; the iteration order of the set only permutes the new
  entries of the dictionary, which is read by key and by minimum.\<close>

definition wf_charged :: "queue_entry list \<Rightarrow> (string \<times> rat) list \<Rightarrow> (string \<times> rat) list" where
  "wf_charged q vt = foldl (\<lambda>m t. if map_of m t = None then AList.update t (wf_baseline vt) m else m) vt
     (remdups (map qe_tenant q))"

definition wf_key :: "(string \<times> rat) list \<Rightarrow> queue_entry \<Rightarrow> rat \<times> int \<times> string" where
  "wf_key vt e = (fl (get_or 0 vt (qe_tenant e) / qe_entitlement e), qe_enqueued_ns e, qe_request_id e)"

definition weighted_select ::
  "weighted_fair \<Rightarrow> queue_entry list \<Rightarrow> int \<Rightarrow> (policy_decision \<times> nat \<times> weighted_fair \<times> queue_entry list) option" where
  "weighted_select w q now = (let vt = wf_charged q (wf_virtual_time w) in
     case first_min (wf_key vt) q of
       None \<Rightarrow> None
     | Some i \<Rightarrow>
         (let served = charge_of (q ! i); t = qe_tenant (q ! i); before = get_or 0 vt t; after = fl (before + served)
          in case charge (q ! i) (wf_base w) of (e, s') \<Rightarrow>
            Some (\<lparr>pd_policy = ''weighted_fair'', pd_selected_request_id = qe_request_id e,
                    pd_reason = Smallest_service t before (qe_entitlement e), pd_now_ns = now,
                    pd_queue_depth = int (length q), pd_waited_ns = now - qe_enqueued_ns e,
                    pd_virtual_time_after = after, pd_tie_break = ''enqueue_time_then_request_id'',
                    pd_work_conserving = True, pd_counters = policy_counters s'\<rparr>,
                  i, w\<lparr>wf_base := s', wf_virtual_time := AList.update t after vt\<rparr>, q[i := e])))"

datatype any_policy = Fifo policy_state | Strict_priority policy_state | Weighted_fair weighted_fair

definition build_policy :: "string \<Rightarrow> string \<Rightarrow> any_policy res" where
  "build_policy name service_unit =
     (if name = ''fifo'' then Inr (Fifo new_policy)
      else if name = ''strict_priority'' then Inr (Strict_priority new_policy)
      else if name = ''weighted_fair'' then bindE (new_weighted_fair service_unit) (\<lambda>w. Inr (Weighted_fair w))
      else Inl (ConfigError ''name''))"

section \<open>The interface\<close>

text \<open>The log of the decisions (\<open>DecisionLog\<close>) and its audit.\<close>

definition log_record :: "policy_decision option \<Rightarrow> policy_decision list \<Rightarrow> policy_decision list" where
  "log_record d ds = (case d of None \<Rightarrow> ds | Some x \<Rightarrow> ds @ [x])"

definition work_conserving_problems :: "(int \<times> int \<times> bool) list \<Rightarrow> (int \<times> int) list" where
  "work_conserving_problems snapshots =
     map (\<lambda>(now, depth, selected). (now, depth)) (filter (\<lambda>(now, depth, selected). depth > 0 \<and> \<not> selected) snapshots)"

text \<open>The first minimal entry.\<close>

lemma first_min_None: "first_min key q = None \<longleftrightarrow> q = []"
  by (simp add: first_min_def)

lemma first_min_less: "first_min key q = Some i \<Longrightarrow> i < length q"
  using argmin_mem by (fastforce simp: first_min_def)

lemma first_min_le: "first_min key q = Some i \<Longrightarrow> e \<in> set q \<Longrightarrow> key (q ! i) \<le> key e"
  unfolding first_min_def in_set_conv_nth by (auto dest: argmin_le)

lemma argmin_first: "argmin f xs = Some x \<Longrightarrow> \<exists>ys zs. xs = ys @ x # zs \<and> (\<forall>y \<in> set ys. f x < f y)"
proof (induction xs)
  case (Cons a xs)
  show ?case
  proof (cases "argmin f xs")
    case None
    then show ?thesis using Cons.prems by (intro exI [of _ "[]"] exI [of _ xs]) auto
  next
    case (Some y)
    show ?thesis
    proof (cases "f a \<le> f y")
      case True
      then show ?thesis using Cons.prems Some by (intro exI [of _ "[]"] exI [of _ xs]) auto
    next
      case False
      then have "x = y" using Cons.prems Some by simp
      with Cons.IH Some obtain ys zs where "xs = ys @ x # zs" "\<forall>y \<in> set ys. f x < f y" by auto
      with False \<open>x = y\<close> show ?thesis by (intro exI [of _ "a # ys"] exI [of _ zs]) auto
    qed
  qed
qed simp

lemma first_min_strict: "first_min key q = Some i \<Longrightarrow> j < i \<Longrightarrow> key (q ! i) < key (q ! j)"
proof -
  assume m: "first_min key q = Some i" and j: "j < i"
  obtain ys zs where s: "[0..<length q] = ys @ i # zs" "\<forall>y \<in> set ys. key (q ! i) < key (q ! y)"
    using argmin_first [OF m [unfolded first_min_def]] by blast
  have "length ys = i"
  proof -
    have "[0..<length q] ! length ys = i" "length ys < length [0..<length q]" unfolding s(1) by simp_all
    then show ?thesis by simp
  qed
  then have "ys = [0..<i]" using s(1) by (metis append_eq_conv_conj take_upt le0 add_0 first_min_less m less_imp_le add.commute)
  with s(2) j show ?thesis by simp
qed

text \<open>The entry at position \<open>i\<close> is next under a strict order: none is before it, and it is before every one that
  stands in front of it in the queue.\<close>

definition next_under :: "(queue_entry \<Rightarrow> queue_entry \<Rightarrow> bool) \<Rightarrow> queue_entry list \<Rightarrow> nat \<Rightarrow> bool" where
  "next_under before q i \<longleftrightarrow> i < length q \<and> (\<forall>j < length q. \<not> before (q ! j) (q ! i)) \<and> (\<forall>j < i. before (q ! i) (q ! j))"

text \<open>What a selection does to the queue and the counters: the chosen entry is charged once, to its tenant only.\<close>

definition charged_once :: "queue_entry list \<Rightarrow> nat \<Rightarrow> queue_entry list \<Rightarrow> policy_state \<Rightarrow> policy_state \<Rightarrow> bool" where
  "charged_once q i q' s s' \<longleftrightarrow> q' = q[i := (q ! i)\<lparr>qe_charged_cost := charge_of (q ! i)\<rparr>]
     \<and> (\<forall>t. get_or 0 (ps_served_cost s') t = (if t = qe_tenant (q ! i) then fl (get_or 0 (ps_served_cost s) t + charge_of (q ! i))
          else get_or 0 (ps_served_cost s) t))
     \<and> (\<forall>t. get_or 0 (ps_served_count s') t = get_or 0 (ps_served_count s) t + (if t = qe_tenant (q ! i) then 1 else 0))"

lemma charge_id: "charge e s = (e', s') \<Longrightarrow> qe_request_id e' = qe_request_id e"
  by (auto simp: charge_def Let_def)

lemma charge_once: "charge (q ! i) s = (e, s') \<Longrightarrow> charged_once q i (q[i := e]) s s'"
  by (auto simp: charge_def Let_def charged_once_def get_or_def map_of_update)

locale min_policy =
  fixes select :: "'s \<Rightarrow> queue_entry list \<Rightarrow> int \<Rightarrow> (policy_decision \<times> nat \<times> 's \<times> queue_entry list) option"
    and key :: "'s \<Rightarrow> queue_entry list \<Rightarrow> queue_entry \<Rightarrow> 'k::linorder"
    and base :: "'s \<Rightarrow> policy_state"
  assumes select_iff: "select s q now = None \<longleftrightarrow> first_min (key s q) q = None"
    and select_min: "select s q now = Some (d, i, s', q') \<Longrightarrow> first_min (key s q) q = Some i"
    and select_charge: "select s q now = Some (d, i, s', q') \<Longrightarrow> charge (q ! i) (base s) = (q' ! i, base s') \<and> q' = q[i := q' ! i]"
    and select_id: "select s q now = Some (d, i, s', q') \<Longrightarrow> pd_selected_request_id d = qe_request_id (q ! i)"
begin

text \<open>A selection is made iff a request waits.\<close>

lemma work_conserving: "select s q now = None \<longleftrightarrow> q = []"
  using select_iff first_min_None by metis

lemma selects_next:
  assumes "select s q now = Some (d, i, s', q')"
    and "\<And>a b. a \<in> set q \<Longrightarrow> b \<in> set q \<Longrightarrow> before a b \<longleftrightarrow> key s q a < key s q b"
  shows "next_under before q i"
proof -
  note m = select_min [OF assms(1)]
  have i: "i < length q" using m by (rule first_min_less)
  moreover have "\<not> before (q ! j) (q ! i)" if "j < length q" for j
    using first_min_le [OF m nth_mem [OF that]] assms(2) that i by (simp add: leD)
  moreover have "before (q ! i) (q ! j)" if "j < i" for j
    using first_min_strict [OF m that] assms(2) that i by simp
  ultimately show ?thesis by (simp add: next_under_def)
qed

lemma charges_once: "select s q now = Some (d, i, s', q') \<Longrightarrow> charged_once q i q' (base s) (base s')"
  using select_charge charge_once by metis

end

interpretation fifo: min_policy fifo_select "\<lambda>s q. qe_enqueued_ns" "\<lambda>s. s"
  by unfold_locales
    (auto simp: fifo_select_def first_min_None dest: first_min_less charge_id split: option.splits prod.splits)

interpretation strict: min_policy strict_select "\<lambda>s q. priority_key" "\<lambda>s. s"
  by unfold_locales
    (auto simp: strict_select_def first_min_None dest: first_min_less charge_id split: option.splits prod.splits)

interpretation weighted: min_policy weighted_select "\<lambda>w q. wf_key (wf_charged q (wf_virtual_time w))" wf_base
  by unfold_locales
    (auto simp: weighted_select_def Let_def first_min_None dest: first_min_less charge_id split: option.splits prod.splits)

section \<open>Properties\<close>

lemma wf_charged_get:
  fixes vt :: "(string \<times> rat) list"
  shows "map_of (wf_charged q vt) t = (case map_of vt t of Some v \<Rightarrow> Some v
     | None \<Rightarrow> if t \<in> qe_tenant ` set q then Some (wf_baseline vt) else None)"
proof -
  have gen: "map_of (foldl (\<lambda>m t. if map_of m t = None then AList.update t b m else m) m ts) t =
      (case map_of m t of Some v \<Rightarrow> Some v | None \<Rightarrow> if t \<in> set ts then Some b else None)" for b :: rat and m ts
    by (induction ts arbitrary: m) (auto simp: map_of_update split: option.splits)
  show ?thesis unfolding wf_charged_def gen by (simp split: option.splits)
qed

lemma wf_baseline_le: "map_of vt t = Some v \<Longrightarrow> wf_baseline vt \<le> v"
  by (auto simp: wf_baseline_def dest!: map_of_SomeD intro!: Min_le rev_image_eqI)

text \<open>The orders of the three policies, written out: older first; the priority classes high, normal, low and then
  older, ties by request id; and the smaller service of the tenant per entitlement, where a tenant
  without history counts as having the smallest virtual time of the tenants already known, then older, ties
  by request id.\<close>

definition older :: "queue_entry \<Rightarrow> queue_entry \<Rightarrow> bool" where
  "older a b \<longleftrightarrow> qe_enqueued_ns a < qe_enqueued_ns b"

definition older_or_id :: "queue_entry \<Rightarrow> queue_entry \<Rightarrow> bool" where
  "older_or_id a b \<longleftrightarrow> older a b \<or> qe_enqueued_ns a = qe_enqueued_ns b \<and> qe_request_id a < qe_request_id b"

definition higher_class :: "queue_entry \<Rightarrow> queue_entry \<Rightarrow> bool" where
  "higher_class a b \<longleftrightarrow> qe_priority a = ''high'' \<and> qe_priority b \<noteq> ''high'' \<or> qe_priority a = ''normal'' \<and> qe_priority b = ''low''"

definition strict_before :: "queue_entry \<Rightarrow> queue_entry \<Rightarrow> bool" where
  "strict_before a b \<longleftrightarrow> higher_class a b \<or> qe_priority a = qe_priority b \<and> older_or_id a b"

definition entry_service :: "weighted_fair \<Rightarrow> queue_entry \<Rightarrow> rat" where
  "entry_service w e = fl ((case map_of (wf_virtual_time w) (qe_tenant e) of Some v \<Rightarrow> v
     | None \<Rightarrow> if wf_virtual_time w = [] then 0 else Min (snd ` set (wf_virtual_time w))) / qe_entitlement e)"

definition fair_before :: "weighted_fair \<Rightarrow> queue_entry \<Rightarrow> queue_entry \<Rightarrow> bool" where
  "fair_before w a b \<longleftrightarrow> entry_service w a < entry_service w b \<or> entry_service w a = entry_service w b \<and> older_or_id a b"

lemma priority_key_order:
  assumes "queue_entry_check a = Inr a" "queue_entry_check b = Inr b"
  shows "strict_before a b \<longleftrightarrow> priority_key a < priority_key b"
proof -
  have p: "qe_priority e = ''high'' \<and> priority_rank e = 0 \<or> qe_priority e = ''normal'' \<and> priority_rank e = 1
      \<or> qe_priority e = ''low'' \<and> priority_rank e = 2" if "queue_entry_check e = Inr e" for e
    using that by (auto simp: queue_entry_check_def PRIORITY_ORDER_def priority_rank_def split: if_splits)
  have "higher_class a b \<longleftrightarrow> priority_rank a < priority_rank b" "qe_priority a = qe_priority b \<longleftrightarrow> priority_rank a = priority_rank b"
    using p [OF assms(1)] p [OF assms(2)] by (auto simp: higher_class_def)
  then show ?thesis by (auto simp: strict_before_def older_or_id_def older_def priority_key_def less_prod_def')
qed

lemma wf_key_order:
  assumes "a \<in> set q" "b \<in> set q"
  shows "fair_before w a b \<longleftrightarrow> wf_key (wf_charged q (wf_virtual_time w)) a < wf_key (wf_charged q (wf_virtual_time w)) b"
proof -
  have "fl (get_or 0 (wf_charged q (wf_virtual_time w)) (qe_tenant e) / qe_entitlement e) = entry_service w e" if "e \<in> set q" for e
    using that by (auto simp: get_or_def wf_charged_get entry_service_def wf_baseline_def split: option.splits)
  then show ?thesis using assms by (auto simp: fair_before_def older_or_id_def older_def wf_key_def less_prod_def')
qed

text \<open>The virtual times after a weighted selection: the chosen tenant's grows by what it is charged, and the other
  tenants of the queue keep theirs or enter at the minimum.\<close>

lemma weighted_virtual_time:
  assumes "weighted_select w q now = Some (d, i, w', q')"
  shows "map_of (wf_virtual_time w') t =
    (let vt = map_of (wf_charged q (wf_virtual_time w)) in
     if t = qe_tenant (q ! i) then Some (fl (get_or 0 (wf_charged q (wf_virtual_time w)) t + charge_of (q ! i))) else vt t)"
  using assms by (auto simp: weighted_select_def Let_def map_of_update split: option.splits prod.splits)

text \<open>C11: a queue policy selects a request iff one waits (it is work-conserving), and the one it selects is the next
  one of its order, the first in the queue among equals: under FIFO the oldest; under strict priority the
  highest class (high, normal, low), then the oldest, then the smallest request id; under weighted fair
  queueing the entry whose tenant has the least virtual time per entitlement, a new tenant
  counting as the least served one known, then the oldest, then the smallest request id. Each selection charges the chosen
  entry once, to its tenant and no other, and weighted fair queueing adds the charge to the virtual time of that tenant.\<close>

theorem policies_select_next:
  assumes "\<forall>e \<in> set q. queue_entry_check e = Inr e"
  shows "(fifo_select s q now = None \<longleftrightarrow> q = []) \<and> (strict_select s q now = None \<longleftrightarrow> q = []) \<and> (weighted_select w q now = None \<longleftrightarrow> q = [])
    \<and> (\<forall>d i s' q'. fifo_select s q now = Some (d, i, s', q') \<longrightarrow>
          next_under older q i \<and> pd_selected_request_id d = qe_request_id (q ! i) \<and> charged_once q i q' s s')
    \<and> (\<forall>d i s' q'. strict_select s q now = Some (d, i, s', q') \<longrightarrow>
          next_under strict_before q i \<and> pd_selected_request_id d = qe_request_id (q ! i) \<and> charged_once q i q' s s')
    \<and> (\<forall>d i w' q'. weighted_select w q now = Some (d, i, w', q') \<longrightarrow>
          next_under (fair_before w) q i \<and> pd_selected_request_id d = qe_request_id (q ! i) \<and> charged_once q i q' (wf_base w) (wf_base w')
        \<and> (\<forall>t. map_of (wf_virtual_time w') t =
              (if t = qe_tenant (q ! i) then Some (fl (get_or (wf_baseline (wf_virtual_time w)) (wf_virtual_time w) t + charge_of (q ! i)))
               else if t \<in> qe_tenant ` set q then Some (get_or (wf_baseline (wf_virtual_time w)) (wf_virtual_time w) t)
               else map_of (wf_virtual_time w) t)))"
proof (intro conjI allI impI fifo.work_conserving strict.work_conserving weighted.work_conserving)
  fix d i s' q' assume sel: "fifo_select s q now = Some (d, i, s', q')"
  show "next_under older q i" using sel by (rule fifo.selects_next) (simp add: older_def)
  show "pd_selected_request_id d = qe_request_id (q ! i)" "charged_once q i q' s s'"
    using fifo.select_id [OF sel] fifo.charges_once [OF sel] .
next
  fix d i s' q' assume sel: "strict_select s q now = Some (d, i, s', q')"
  show "next_under strict_before q i" using sel by (rule strict.selects_next) (use assms in \<open>simp add: priority_key_order\<close>)
  show "pd_selected_request_id d = qe_request_id (q ! i)" "charged_once q i q' s s'"
    using strict.select_id [OF sel] strict.charges_once [OF sel] .
next
  fix d i w' q' assume sel: "weighted_select w q now = Some (d, i, w', q')"
  show n: "next_under (fair_before w) q i" using sel by (rule weighted.selects_next) (rule wf_key_order)
  show "pd_selected_request_id d = qe_request_id (q ! i)" "charged_once q i q' (wf_base w) (wf_base w')"
    using weighted.select_id [OF sel] weighted.charges_once [OF sel] .
  have "q ! i \<in> set q" using n by (simp add: next_under_def)
  then show "map_of (wf_virtual_time w') t =
      (if t = qe_tenant (q ! i) then Some (fl (get_or (wf_baseline (wf_virtual_time w)) (wf_virtual_time w) t + charge_of (q ! i)))
       else if t \<in> qe_tenant ` set q then Some (get_or (wf_baseline (wf_virtual_time w)) (wf_virtual_time w) t)
       else map_of (wf_virtual_time w) t)" for t
    using weighted_virtual_time [OF sel, of t] by (auto simp: Let_def wf_charged_get get_or_def split: option.splits)
qed

definition demo_entry :: "string \<Rightarrow> string \<Rightarrow> string \<Rightarrow> int \<Rightarrow> rat \<Rightarrow> queue_entry" where
  "demo_entry rid tenant priority ns entitlement = \<lparr>qe_request_id = rid, qe_tenant = tenant, qe_request_class = '''', qe_priority = priority,
     qe_enqueued_ns = ns, qe_estimated_cost = 4, qe_entitlement = entitlement, qe_deadline_ns = None, qe_prompt_tokens = 0,
     qe_reserved_output_tokens = 0, qe_prefix_hit_tokens = 0, qe_actual_cost = 0, qe_charged_cost = 0,
     qe_served_at_ns = None, qe_cancelled = False, qe_timeout = False\<rparr>"

text \<open>The oldest entry has low priority and a tenant that has been served less, but whose entitlement is small.\<close>

theorem policies_select_next_witness:
  "\<exists>d s' q' d2 s2 q2 d3 w' q3. let q = [demo_entry ''1'' ''a'' ''low'' 0 1, demo_entry ''2'' ''b'' ''high'' 1 4];
       w = \<lparr>wf_base = new_policy, wf_service_unit = ''weighted_cost'', wf_virtual_time = [(''a'', 8), (''b'', 12)]\<rparr>
     in fifo_select new_policy q 5 = Some (d, 0, s', q') \<and> strict_select new_policy q 5 = Some (d2, 1, s2, q2)
      \<and> weighted_select w q 5 = Some (d3, 1, w', q3)"
proof -
  let ?q = "[demo_entry ''1'' ''a'' ''low'' 0 1, demo_entry ''2'' ''b'' ''high'' 1 4]"
  let ?w = "\<lparr>wf_base = new_policy, wf_service_unit = ''weighted_cost'', wf_virtual_time = [(''a'', 8), (''b'', 12)]\<rparr>"
  have "\<forall>e \<in> set ?q. queue_entry_check e = Inr e" by (simp add: queue_entry_check_def demo_entry_def PRIORITY_ORDER_def)
  note P = policies_select_next [OF this, of new_policy 5 ?w]
  obtain d i s' q' where f: "fifo_select new_policy ?q 5 = Some (d, i, s', q')" using P by fastforce
  obtain d2 i2 s2 q2 where st: "strict_select new_policy ?q 5 = Some (d2, i2, s2, q2)" using P by fastforce
  obtain d3 i3 w' q3 where wt: "weighted_select ?w ?q 5 = Some (d3, i3, w', q3)" using P by fastforce
  have fl: "fl 8 = 8" "fl 3 = 3" using fl_of_int [of 8] fl_of_int [of 3] by simp_all
  have "next_under older ?q i" "next_under strict_before ?q i2" "next_under (fair_before ?w) ?q i3" using P f st wt by blast+
  then have "i = 0" "i2 = 1" "i3 = 1"
    by (auto simp: next_under_def less_Suc_eq older_def strict_before_def higher_class_def fair_before_def entry_service_def demo_entry_def fl)
  then show ?thesis using f st wt by (auto simp: Let_def)
qed

end
