(* ===== verification/Admission.thy ===== *)
theory Admission
  imports Float64 Errors
begin

text \<open>
  \<open>hqsb/serving/admission.py\<close>: the pressure state machine with hysteresis, the admission estimate, the
  bounded queue with its hard caps, the guard of the unbounded counter-example, the retry budget, and
  the recovery report. The random number of a retry's jitter is an argument; configuration documents
  arrive already parsed.
\<close>

section \<open>Pressure state machine\<close>

datatype pressure_state = NORMAL | SOFT_PRESSURE | HARD_PRESSURE | SHEDDING | RECOVERING

datatype direction = Enter | Exit

record pressure_transition =
  pt_source :: pressure_state
  pt_target :: pressure_state
  pt_signal :: string
  pt_threshold :: rat
  pt_direction :: direction

definition pt_satisfied :: "pressure_transition \<Rightarrow> rat \<Rightarrow> bool" where
  "pt_satisfied t value = (case pt_direction t of Enter \<Rightarrow> value \<ge> pt_threshold t | Exit \<Rightarrow> value \<le> pt_threshold t)"

record pressure_spec =
  pr_transitions :: "pressure_transition list"
  pr_min_dwell_windows :: int
  pr_window_ms :: rat

record pressure_signal =
  queue_depth_ratio :: rat
  queue_age_ms :: rat
  inflight_requests :: int
  inflight_tokens :: int
  predicted_kv_ratio :: rat
  sg_deadline_slack_ms :: rat
  recent_slo_violation_ratio :: rat
  buffered_socket_bytes :: int
  process_rss_bytes :: int
  backend_health :: string

text \<open>\<open>value\<close> reads a declared numeric field as a float; \<open>float\<close> of the health string or of a method raises.
  The double-underscore attributes every Python object has are not modelled as signal names.\<close>

definition signal_value :: "pressure_signal \<Rightarrow> string \<Rightarrow> rat res" where
  "signal_value s name =
     (if name = ''queue_depth_ratio'' then Inr (queue_depth_ratio s)
      else if name = ''queue_age_ms'' then Inr (queue_age_ms s)
      else if name = ''inflight_requests'' then Inr (fl (of_int (inflight_requests s)))
      else if name = ''inflight_tokens'' then Inr (fl (of_int (inflight_tokens s)))
      else if name = ''predicted_kv_ratio'' then Inr (predicted_kv_ratio s)
      else if name = ''deadline_slack_ms'' then Inr (sg_deadline_slack_ms s)
      else if name = ''recent_slo_violation_ratio'' then Inr (recent_slo_violation_ratio s)
      else if name = ''buffered_socket_bytes'' then Inr (fl (of_int (buffered_socket_bytes s)))
      else if name = ''process_rss_bytes'' then Inr (fl (of_int (process_rss_bytes s)))
      else if name = ''backend_health'' then Inl (ValueError ''float'')
      else if name \<in> {''value'', ''as_dict''} then Inl (TypeError ''float'')
      else Inl (ConfigError ''signal''))"

record pressure_event =
  pe_monotonic_ns :: int
  pe_source :: pressure_state
  pe_target :: pressure_state
  pe_signal :: string
  pe_value :: rat
  pe_dwell_windows :: int

text \<open>The pending transition is an object of the spec; its position identifies it.\<close>

record pressure_machine =
  pm_spec :: pressure_spec
  pm_state :: pressure_state
  pm_events :: "pressure_event list"
  pm_dwell :: int
  pm_pending :: "nat option"

definition new_pressure_machine :: "pressure_spec \<Rightarrow> pressure_state \<Rightarrow> pressure_machine" where
  "new_pressure_machine sp state = \<lparr>pm_spec = sp, pm_state = state, pm_events = [], pm_dwell = 0, pm_pending = None\<rparr>"

text \<open>The first transition out of the current state whose signal satisfies it.\<close>

fun choose_transition ::
  "pressure_state \<Rightarrow> pressure_signal \<Rightarrow> (nat \<times> pressure_transition) list \<Rightarrow> (nat \<times> pressure_transition) option res" where
  "choose_transition st sg [] = Inr None"
| "choose_transition st sg ((i, t) # ts) =
     (if pt_source t \<noteq> st then choose_transition st sg ts
      else bindE (signal_value sg (pt_signal t)) (\<lambda>v.
        if pt_satisfied t v then Inr (Some (i, t)) else choose_transition st sg ts))"

definition observe :: "pressure_signal \<Rightarrow> int \<Rightarrow> (pressure_machine, pressure_event list) op" where
  "observe sg ns m =
     (case choose_transition (pm_state m) sg (enumerate 0 (pr_transitions (pm_spec m))) of
        Inl e \<Rightarrow> (Inl e, m)
      | Inr None \<Rightarrow> (Inr [], m\<lparr>pm_pending := None, pm_dwell := 0\<rparr>)
      | Inr (Some (i, t)) \<Rightarrow>
          if pm_pending m \<noteq> Some i then (Inr [], m\<lparr>pm_pending := Some i, pm_dwell := 1\<rparr>)
          else let dwell = pm_dwell m + 1 in
            if dwell < pr_min_dwell_windows (pm_spec m) then (Inr [], m\<lparr>pm_dwell := dwell\<rparr>)
            else (case signal_value sg (pt_signal t) of
                Inl e \<Rightarrow> (Inl e, m\<lparr>pm_dwell := dwell\<rparr>)
              | Inr v \<Rightarrow> let e = \<lparr>pe_monotonic_ns = ns, pe_source = pm_state m, pe_target = pt_target t,
                                    pe_signal = pt_signal t, pe_value = v, pe_dwell_windows = dwell\<rparr>
                         in (Inr [e], m\<lparr>pm_state := pt_target t, pm_events := pm_events m @ [e],
                                         pm_pending := None, pm_dwell := 0\<rparr>)))"

definition oscillation_reversals :: "pressure_machine \<Rightarrow> int" where
  "oscillation_reversals m = int (length (filter (\<lambda>(p, c). pe_target p = pe_source c \<and> pe_target c = pe_source p)
     (zip (pm_events m) (tl (pm_events m)))))"

definition oscillating :: "pressure_machine \<Rightarrow> bool" where
  "oscillating m \<longleftrightarrow> oscillation_reversals m > max 1 (int (length (pm_events m)) div 4)"

section \<open>Admission estimate\<close>

record admission_request =
  ar_request_id :: string
  ar_tenant :: string
  ar_request_class :: string
  ar_priority :: string
  ar_input_tokens :: int
  ar_max_tokens :: int
  ar_expected_prefix_hit :: int
  ar_deadline_ns :: "int option"
  ar_class_default_output :: int
  ar_history_mean_output :: "rat option"

record admission_estimate =
  ae_prefill_tokens :: int
  ae_decode_tokens :: rat
  ae_kv_tokens :: int
  ae_deadline_slack_ms :: "rat option"
  ae_feasible :: bool

definition estimate :: "admission_request \<Rightarrow> int \<Rightarrow> rat \<Rightarrow> rat \<Rightarrow> admission_estimate" where
  "estimate r now queue_ms service_ms =
     (let prefill = max 0 (ar_input_tokens r - ar_expected_prefix_hit r);
          reserve = (case ar_history_mean_output r of
             None \<Rightarrow> min (ar_max_tokens r) (ar_class_default_output r)
           | Some h \<Rightarrow> min (ar_max_tokens r) \<lceil>h\<rceil>);
          slack = map_option (\<lambda>d. fl (fl (fl (fl (of_int (d - now)) / 1000000) - queue_ms) - service_ms)) (ar_deadline_ns r)
      in \<lparr>ae_prefill_tokens = prefill, ae_decode_tokens = fl (of_int reserve), ae_kv_tokens = ar_input_tokens r + reserve,
          ae_deadline_slack_ms = slack, ae_feasible = (case slack of None \<Rightarrow> True | Some s \<Rightarrow> \<not> s < 0)\<rparr>)"

section \<open>Bounded queue\<close>

definition REJECT_CODES :: "(string \<times> string) list" where
  "REJECT_CODES = [(''queue_full'', ''queue_full''), (''token_budget'', ''token_budget_exceeded''),
     (''kv_budget'', ''kv_budget_exceeded''), (''deadline'', ''deadline_infeasible''),
     (''health'', ''backend_unavailable''), (''tenant_rate'', ''tenant_rate_limited''), (''shedding'', ''service_overloaded'')]"

definition reject_code :: "string \<Rightarrow> string" where
  "reject_code r = the (map_of REJECT_CODES r)"

record admission_decision =
  ad_admitted :: bool
  ad_code :: string
  ad_queue_class :: string
  ad_queue_depth :: int
  ad_queue_position :: int
  ad_retry_after_ms :: int
  ad_created_backend_state :: bool

record bounded_queue =
  bq_max_requests :: int
  bq_max_tokens :: int
  bq_max_bytes :: int
  bq_token_aware :: bool
  bq_requests :: "string list"
  bq_queued_tokens :: int
  bq_queued_bytes :: int

definition new_bounded_queue :: "int \<Rightarrow> int \<Rightarrow> int \<Rightarrow> bool \<Rightarrow> bounded_queue res" where
  "new_bounded_queue max_requests max_tokens max_bytes token_aware =
     (if max_requests \<le> 0 then Inl (ConfigError ''max_requests'')
      else if max_tokens \<le> 0 then Inl (ConfigError ''max_tokens'')
      else if max_bytes \<le> 0 then Inl (ConfigError ''max_bytes'')
      else Inr \<lparr>bq_max_requests = max_requests, bq_max_tokens = max_tokens, bq_max_bytes = max_bytes,
                bq_token_aware = token_aware, bq_requests = [], bq_queued_tokens = 0, bq_queued_bytes = 0\<rparr>)"

definition bq_depth :: "bounded_queue \<Rightarrow> int" where
  "bq_depth q = int (length (bq_requests q))"

definition bq_depth_ratio :: "bounded_queue \<Rightarrow> rat" where
  "bq_depth_ratio q = int_truediv (bq_depth q) (bq_max_requests q)"

definition rejection :: "string \<Rightarrow> int \<Rightarrow> int \<Rightarrow> admission_decision" where
  "rejection why depth retry_after = \<lparr>ad_admitted = False, ad_code = reject_code why, ad_queue_class = '''',
     ad_queue_depth = depth, ad_queue_position = 0, ad_retry_after_ms = retry_after, ad_created_backend_state = False\<rparr>"

definition try_admit :: "string \<Rightarrow> int \<Rightarrow> int \<Rightarrow> bool \<Rightarrow> bounded_queue \<Rightarrow> admission_decision \<times> bounded_queue" where
  "try_admit rid token_cost byte_cost timed_out q =
     (if timed_out then (rejection ''deadline'' 0 0, q)
      else if bq_depth q \<ge> bq_max_requests q then (rejection ''queue_full'' (bq_depth q) 1000, q)
      else if bq_token_aware q \<and> bq_queued_tokens q + token_cost > bq_max_tokens q
        then (rejection ''token_budget'' (bq_depth q) 1000, q)
      else if bq_token_aware q \<and> bq_queued_bytes q + byte_cost > bq_max_bytes q
        then (rejection ''kv_budget'' (bq_depth q) 1000, q)
      else let q' = q\<lparr>bq_requests := bq_requests q @ [rid], bq_queued_tokens := bq_queued_tokens q + token_cost,
                       bq_queued_bytes := bq_queued_bytes q + byte_cost\<rparr>
           in (\<lparr>ad_admitted = True, ad_code = '''', ad_queue_class = ''bounded'', ad_queue_depth = bq_depth q',
                ad_queue_position = bq_depth q' - 1, ad_retry_after_ms = 0, ad_created_backend_state = False\<rparr>, q'))"

definition bq_release :: "string \<Rightarrow> int \<Rightarrow> int \<Rightarrow> bounded_queue \<Rightarrow> bounded_queue" where
  "bq_release rid token_cost byte_cost q =
     q\<lparr>bq_requests := remove1 rid (bq_requests q), bq_queued_tokens := max 0 (bq_queued_tokens q - token_cost),
       bq_queued_bytes := max 0 (bq_queued_bytes q - byte_cost)\<rparr>"

section \<open>The unbounded counter-example\<close>

record queue_guard =
  ug_max_duration_s :: rat
  ug_kill_guard_requests :: int
  ug_admitted :: int
  ug_started_ns :: "int option"
  ug_stopped :: bool
  ug_stop_reason :: string

definition new_queue_guard :: "rat \<Rightarrow> int \<Rightarrow> queue_guard res" where
  "new_queue_guard max_duration_s kill_guard_requests =
     (if max_duration_s \<le> 0 \<or> kill_guard_requests \<le> 0 then Inl (ConfigError ''guard'')
      else Inr \<lparr>ug_max_duration_s = max_duration_s, ug_kill_guard_requests = kill_guard_requests, ug_admitted = 0,
                ug_started_ns = None, ug_stopped = False, ug_stop_reason = ''''\<rparr>)"

definition guard_check :: "int \<Rightarrow> queue_guard \<Rightarrow> rat \<times> queue_guard" where
  "guard_check now g =
     (let started = (case ug_started_ns g of None \<Rightarrow> now | Some t \<Rightarrow> t);
          elapsed = fl (fl (of_int (now - started)) / 1000000000);
          g' = g\<lparr>ug_started_ns := Some started\<rparr>
      in (elapsed, if elapsed > ug_max_duration_s g \<or> ug_admitted g > ug_kill_guard_requests g
           then g'\<lparr>ug_stopped := True,
                   ug_stop_reason := (if elapsed > ug_max_duration_s g then ''duration guard'' else ''request kill guard'')\<rparr>
           else g'))"

section \<open>Retry budget\<close>

record retry_budget =
  rb_max_attempts :: int
  rb_max_elapsed_ms :: rat
  rb_base_backoff_ms :: rat
  rb_max_backoff_ms :: rat
  rb_jitter_ratio :: rat
  rb_server_wide_ratio :: rat
  rb_spent_ms :: "(string \<times> rat) list"
  rb_attempts :: int
  rb_originals :: int
  rb_server_budget_ms :: rat

definition new_retry_budget :: "int \<Rightarrow> rat \<Rightarrow> rat \<Rightarrow> rat \<Rightarrow> rat \<Rightarrow> rat \<Rightarrow> retry_budget res" where
  "new_retry_budget max_attempts max_elapsed base max_backoff jitter server_wide =
     (if max_attempts < 1 then Inl (ConfigError ''max_attempts_per_request'')
      else Inr \<lparr>rb_max_attempts = max_attempts, rb_max_elapsed_ms = max_elapsed, rb_base_backoff_ms = base,
                rb_max_backoff_ms = max_backoff, rb_jitter_ratio = jitter, rb_server_wide_ratio = server_wide,
                rb_spent_ms = [], rb_attempts = 0, rb_originals = 0, rb_server_budget_ms = 0\<rparr>)"

definition register_original :: "retry_budget \<Rightarrow> retry_budget" where
  "register_original b = (let n = rb_originals b + 1 in
     b\<lparr>rb_originals := n,
       rb_server_budget_ms := fl (fl (fl (of_int n) * rb_max_elapsed_ms b) * rb_server_wide_ratio b)\<rparr>)"

datatype retry_reason =
    Stream_committed | Not_retryable | Attempts_exhausted | Elapsed_exhausted | Server_budget_exhausted | Inside_budgets

record retry_decision =
  rd_retry :: bool
  rd_attempt :: int
  rd_delay_ms :: rat
  rd_reason :: retry_reason
  rd_budget_remaining_ms :: rat

text \<open>One call of \<open>decide\<close>; \<open>u\<close> is the random number in \<open>[0, 1)\<close>.\<close>

record retry_query =
  ry_request_id :: string
  ry_attempt :: int
  ry_elapsed_ms :: rat
  ry_committed :: bool
  ry_retryable :: bool
  ry_server_spent_ms :: rat

definition retry_delay :: "retry_budget \<Rightarrow> int \<Rightarrow> rat \<Rightarrow> rat" where
  "retry_delay b attempt u =
     (let delay = min (fl (rb_base_backoff_ms b * 2 powi (attempt - 1))) (rb_max_backoff_ms b);
          jitter = fl (fl (delay * rb_jitter_ratio b) * fl (fl (u * 2) - 1))
      in max 0 (fl (delay + jitter)))"

definition decide :: "retry_query \<Rightarrow> rat \<Rightarrow> retry_budget \<Rightarrow> retry_decision \<times> retry_budget" where
  "decide y u b =
     (let remaining = fl (rb_max_elapsed_ms b - ry_elapsed_ms y);
          refuse = (\<lambda>why. (\<lparr>rd_retry = False, rd_attempt = ry_attempt y, rd_delay_ms = 0, rd_reason = why,
                             rd_budget_remaining_ms = remaining\<rparr>, b))
      in if ry_committed y then refuse Stream_committed
         else if \<not> ry_retryable y then refuse Not_retryable
         else if ry_attempt y \<ge> rb_max_attempts b then refuse Attempts_exhausted
         else if remaining \<le> 0 then refuse Elapsed_exhausted
         else if rb_server_budget_ms b \<noteq> 0 \<and> ry_server_spent_ms y \<ge> rb_server_budget_ms b
           then refuse Server_budget_exhausted
         else let delay = retry_delay b (ry_attempt y) u;
                  spent = (case map_of (rb_spent_ms b) (ry_request_id y) of None \<Rightarrow> 0 | Some v \<Rightarrow> v)
              in (\<lparr>rd_retry = True, rd_attempt = ry_attempt y, rd_delay_ms = delay, rd_reason = Inside_budgets,
                   rd_budget_remaining_ms = fl (remaining - delay)\<rparr>,
                  b\<lparr>rb_attempts := rb_attempts b + 1,
                    rb_spent_ms := AList.update (ry_request_id y) (fl (spent + delay)) (rb_spent_ms b)\<rparr>))"

definition amplification :: "retry_budget \<Rightarrow> rat option" where
  "amplification b = (if rb_originals b = 0 then None
     else Some (int_truediv (rb_originals b + rb_attempts b) (rb_originals b)))"

definition retry_after_header :: "int \<Rightarrow> string res" where
  "retry_after_header ms =
     (if ms \<le> 0 then Inl (ConfigError ''retry_after_ms'')
      else Inr (str_nat (nat (max 1 \<lceil>fl (fl (of_int ms) / 1000)\<rceil>))))"

section \<open>Overload waveforms\<close>

record overload_phase =
  op_name :: string
  op_offered_ratio :: rat
  op_duration_sec :: rat
  op_policy :: string

definition phase :: "string \<Rightarrow> rat \<Rightarrow> rat \<Rightarrow> string \<Rightarrow> overload_phase" where
  "phase name ratio duration policy =
     \<lparr>op_name = name, op_offered_ratio = fl ratio, op_duration_sec = duration, op_policy = policy\<rparr>"

definition WAVEFORMS :: "(string \<times> overload_phase list) list" where
  "WAVEFORMS =
    [(''ramp'', [phase ''ramp_low'' (4/5) 30 ''bounded'', phase ''ramp_cross'' 1 30 ''bounded'', phase ''ramp_over'' (3/2) 30 ''bounded'']),
     (''step_up'', [phase ''step_120'' (6/5) 20 ''bounded'', phase ''step_150'' (3/2) 20 ''bounded'', phase ''step_down'' (1/2) 20 ''bounded'']),
     (''burst'', [phase ''burst_peak'' 2 5 ''bounded'', phase ''burst_base'' (1/2) 25 ''bounded'']),
     (''sustained'', [phase ''sustained'' (7/5) 60 ''bounded'']),
     (''backend_capacity_drop'', [phase ''drop'' 1 30 ''backend_slow'', phase ''restore'' 1 30 ''bounded'']),
     (''slow_client_pressure'', [phase ''slow_clients'' 1 30 ''slow_clients'']),
     (''step_down'', [phase ''overload'' (3/2) 20 ''bounded'', phase ''recover'' (2/5) 40 ''bounded''])]"

definition overload_plan :: "string \<Rightarrow> rat \<Rightarrow> (overload_phase \<times> rat) list res" where
  "overload_plan name g_star_qps =
     (case map_of WAVEFORMS name of
        None \<Rightarrow> Inl (ConfigError ''waveform'')
      | Some phases \<Rightarrow>
          if g_star_qps \<le> 0 then Inl (ConfigError ''g_star_qps'')
          else Inr (map (\<lambda>p. (p, fl (op_offered_ratio p * g_star_qps))) phases))"

section \<open>Recovery report\<close>

definition first_after :: "int \<Rightarrow> (int \<times> 'v) list \<Rightarrow> ('v \<Rightarrow> bool) \<Rightarrow> int option" where
  "first_after drop_at timeline p =
     map_option fst (find (\<lambda>(t, v). t \<ge> drop_at \<and> p v) timeline)"

record recovery_times =
  rt_queue :: "int option"
  rt_slo :: "int option"
  rt_memory :: "int option"
  rt_state :: "int option"

definition recovery_times_of ::
  "(int \<times> pressure_state) list \<Rightarrow> (int \<times> rat) list \<Rightarrow> (int \<times> bool) list \<Rightarrow> (int \<times> rat) list \<Rightarrow> int \<Rightarrow> rat \<Rightarrow> rat \<Rightarrow> rat
     \<Rightarrow> recovery_times" where
  "recovery_times_of states queue slo memory drop_at baseline tolerance memory_tolerance =
     \<lparr>rt_queue = first_after drop_at queue (\<lambda>v. \<bar>fl (v - baseline)\<bar> \<le> tolerance),
      rt_slo = first_after drop_at slo (\<lambda>ok. ok),
      rt_memory = first_after drop_at memory
        (\<lambda>v. v \<le> fl ((if memory = [] then 0 else Max (snd ` set memory)) + memory_tolerance)),
      rt_state = first_after drop_at states (\<lambda>s. s = NORMAL)\<rparr>"

definition within_window :: "int \<Rightarrow> int \<Rightarrow> int option \<Rightarrow> bool" where
  "within_window drop_at window_ns t = (case t of None \<Rightarrow> False | Some v \<Rightarrow> v - drop_at \<le> window_ns)"

definition recovery_ok :: "int \<Rightarrow> int \<Rightarrow> recovery_times \<Rightarrow> bool" where
  "recovery_ok drop_at window_ns r \<longleftrightarrow> within_window drop_at window_ns (rt_queue r) \<and> within_window drop_at window_ns (rt_slo r)
     \<and> within_window drop_at window_ns (rt_memory r) \<and> within_window drop_at window_ns (rt_state r)"

record safety_inputs =
  si_max_requests :: int
  si_rejects_with_backend_state :: int
  si_expired_still_running :: int
  si_duplicate_tokens :: int
  si_emergency_stop_half_state :: bool

datatype safety_problem =
    Reject_created_state | Ran_past_deadline | Duplicated_tokens | Half_state | No_hard_cap

definition safety_audit :: "safety_inputs \<Rightarrow> safety_problem list" where
  "safety_audit x =
     (if si_rejects_with_backend_state x \<noteq> 0 then [Reject_created_state] else [])
     @ (if si_expired_still_running x \<noteq> 0 then [Ran_past_deadline] else [])
     @ (if si_duplicate_tokens x \<noteq> 0 then [Duplicated_tokens] else [])
     @ (if si_emergency_stop_half_state x then [Half_state] else [])
     @ (if si_max_requests x = 0 then [No_hard_cap] else [])"

end
