(* ===== verification/Admission_Props.thy ===== *)
theory Admission_Props
  imports Admission
begin

text \<open>
  The properties of admission control: the hard caps of the bounded queue hold under every client, its
  accounting is exact for a client that releases what it admitted, the pressure machine cannot change
  state faster than its dwell time and returns to normal when the load drops, retries are bounded per
  request, and the memory condition of the recovery report holds at any sample.
\<close>

section \<open>Bounded queue\<close>

datatype queue_op = Admit string int int bool | Release string int int

fun apply_queue_op :: "queue_op \<Rightarrow> bounded_queue \<Rightarrow> bounded_queue" where
  "apply_queue_op (Admit rid t b timed_out) q = snd (try_admit rid t b timed_out q)"
| "apply_queue_op (Release rid t b) q = bq_release rid t b q"

fun costs_ok :: "queue_op \<Rightarrow> bool" where
  "costs_ok (Admit rid t b timed_out) \<longleftrightarrow> 0 \<le> t \<and> 0 \<le> b"
| "costs_ok (Release rid t b) \<longleftrightarrow> 0 \<le> t \<and> 0 \<le> b"

definition caps_ok :: "bounded_queue \<Rightarrow> bool" where
  "caps_ok q \<longleftrightarrow> bq_depth q \<le> bq_max_requests q \<and> (bq_token_aware q \<longrightarrow> bq_queued_tokens q \<le> bq_max_tokens q
     \<and> bq_queued_bytes q \<le> bq_max_bytes q) \<and> 0 \<le> bq_queued_tokens q \<and> 0 \<le> bq_queued_bytes q
     \<and> 0 \<le> bq_max_tokens q \<and> 0 \<le> bq_max_bytes q"

lemma caps_step: "caps_ok q \<Longrightarrow> costs_ok op \<Longrightarrow> caps_ok (apply_queue_op op q)"
proof (induction op)
  case (Admit rid t b to)
  then show ?case by (auto simp: caps_ok_def try_admit_def Let_def bq_depth_def)
next
  case (Release rid t b)
  have "length (remove1 rid (bq_requests q)) \<le> length (bq_requests q)" by (simp add: length_remove1)
  with Release show ?case by (auto simp: caps_ok_def bq_release_def bq_depth_def)
qed

lemma caps_run: "caps_ok q \<Longrightarrow> list_all costs_ok ops \<Longrightarrow> caps_ok (foldl (\<lambda>q op. apply_queue_op op q) q ops)"
  by (induction ops arbitrary: q) (auto simp: caps_step)

text \<open>The caps of a bounded queue are hard: after any sequence of admissions and releases with non-negative
  costs, in any order and by any clients, the queue holds at most its maximum of requests and, when it
  is token-aware, at most its maximum of tokens and bytes; and a refused admission leaves the queue
  exactly as it was.\<close>

theorem bounded_queue_caps_hold:
  assumes "new_bounded_queue mr mt mb aware = Inr q0" and "list_all costs_ok ops"
    and "q = foldl (\<lambda>q op. apply_queue_op op q) q0 ops"
  shows "bq_depth q \<le> mr \<and> (aware \<longrightarrow> bq_queued_tokens q \<le> mt \<and> bq_queued_bytes q \<le> mb)
    \<and> (\<forall>rid t b to. \<not> ad_admitted (fst (try_admit rid t b to q)) \<longrightarrow> snd (try_admit rid t b to q) = q)"
proof -
  have i: "caps_ok q0" "bq_max_requests q0 = mr" "bq_max_tokens q0 = mt" "bq_max_bytes q0 = mb" "bq_token_aware q0 = aware"
    using assms(1) by (auto simp: new_bounded_queue_def caps_ok_def bq_depth_def split: if_splits)
  have same: "bq_max_requests (apply_queue_op op p) = bq_max_requests p \<and> bq_max_tokens (apply_queue_op op p) = bq_max_tokens p
      \<and> bq_max_bytes (apply_queue_op op p) = bq_max_bytes p \<and> bq_token_aware (apply_queue_op op p) = bq_token_aware p" for op p
    by (cases op) (auto simp: try_admit_def Let_def bq_release_def)
  have "bq_max_requests q = mr \<and> bq_max_tokens q = mt \<and> bq_max_bytes q = mb \<and> bq_token_aware q = aware"
    unfolding assms(3) using i(2-5) by (induction ops arbitrary: q0) (auto simp: same)
  moreover have "caps_ok q" unfolding assms(3) using i(1) assms(2) by (rule caps_run)
  ultimately show ?thesis by (auto simp: caps_ok_def try_admit_def Let_def split: if_splits)
qed

theorem bounded_queue_caps_hold_witness:
  "\<exists>q0. new_bounded_queue 2 100 1000 True = Inr q0
     \<and> bq_depth (foldl (\<lambda>q op. apply_queue_op op q) q0
          [Admit ''a'' 60 10 False, Admit ''b'' 60 10 False, Admit ''c'' 40 10 False, Admit ''d'' 0 0 False]) \<le> 2"
proof -
  obtain q0 where q0: "new_bounded_queue 2 100 1000 True = Inr q0" by (simp add: new_bounded_queue_def)
  have "list_all costs_ok [Admit ''a'' 60 10 False, Admit ''b'' 60 10 False, Admit ''c'' 40 10 False, Admit ''d'' 0 0 False]" by simp
  from bounded_queue_caps_hold [OF q0 this refl] q0 show ?thesis by blast
qed

text \<open>A client that keeps a ledger of what it admitted and releases each request with its own costs.\<close>

datatype ledger_op = L_admit string int int | L_finish string

fun ledger_step :: "(string \<times> int \<times> int) list \<times> bounded_queue \<Rightarrow> ledger_op \<Rightarrow> (string \<times> int \<times> int) list \<times> bounded_queue" where
  "ledger_step (l, q) (L_admit rid t b) =
     (if rid \<in> fst ` set l then (l, q)
      else case try_admit rid t b False q of (d, q') \<Rightarrow> (if ad_admitted d then l @ [(rid, t, b)] else l, q'))"
| "ledger_step (l, q) (L_finish rid) =
     (case map_of l rid of None \<Rightarrow> (l, q)
      | Some (t, b) \<Rightarrow> (remove1 (rid, t, b) l, bq_release rid t b q))"

fun ledger_costs_ok :: "ledger_op \<Rightarrow> bool" where
  "ledger_costs_ok (L_admit rid t b) \<longleftrightarrow> 0 \<le> t \<and> 0 \<le> b"
| "ledger_costs_ok (L_finish rid) \<longleftrightarrow> True"

definition ledger_inv :: "(string \<times> int \<times> int) list \<times> bounded_queue \<Rightarrow> bool" where
  "ledger_inv = (\<lambda>(l, q). distinct (map fst l) \<and> bq_requests q = map fst l
     \<and> bq_queued_tokens q = sum_list (map (fst \<circ> snd) l) \<and> bq_queued_bytes q = sum_list (map (snd \<circ> snd) l)
     \<and> (\<forall>(rid, t, b) \<in> set l. 0 \<le> t \<and> 0 \<le> b))"

lemma map_remove1_distinct:
  "distinct (map f l) \<Longrightarrow> x \<in> set l \<Longrightarrow> map f (remove1 x l) = remove1 (f x) (map f l)"
  by (induction l) (auto simp: rev_image_eqI)

lemma ledger_step_inv:
  assumes "ledger_inv s" "ledger_costs_ok op"
  shows "ledger_inv (ledger_step s op)"
proof -
  obtain l q where s: "s = (l, q)" by fastforce
  show ?thesis
  proof (cases op)
    case (L_admit rid t b)
    then show ?thesis using assms s by (auto simp: ledger_inv_def try_admit_def Let_def rejection_def split: prod.splits)
  next
    case (L_finish rid)
    show ?thesis
    proof (cases "map_of l rid")
      case None
      then show ?thesis using assms(1) s L_finish by simp
    next
      case (Some x)
      obtain t b where x: "x = (t, b)" by fastforce
      have m: "(rid, t, b) \<in> set l" using Some x by (auto dest: map_of_SomeD)
      have inv: "distinct (map fst l)" "\<forall>(rid, t, b) \<in> set l. 0 \<le> t \<and> 0 \<le> b" using assms(1) s by (auto simp: ledger_inv_def)
      have sub: "\<forall>y \<in> set (remove1 (rid, t, b) l). y \<in> set l" by (meson notin_set_remove1)
      have nn: "0 \<le> sum_list (map (fst \<circ> snd) (remove1 (rid, t, b) l))" "0 \<le> sum_list (map (snd \<circ> snd) (remove1 (rid, t, b) l))"
        by (rule sum_list_nonneg, use inv(2) sub in fastforce)+
      have "distinct (map fst (remove1 (rid, t, b) l))" using inv(1) by (simp add: map_remove1_distinct [OF inv(1) m])
      moreover have "\<forall>(rid, t, b) \<in> set (remove1 (rid, t, b) l). 0 \<le> t \<and> 0 \<le> b"
        using inv(2) sub by fastforce
      ultimately show ?thesis
        using assms(1) s L_finish Some x m nn map_remove1_distinct [OF inv(1) m]
        by (auto simp: ledger_inv_def bq_release_def sum_list_remove1)
    qed
  qed
qed

text \<open>C12: for a client that releases each admitted request once, with the costs it was admitted with, the
  queue's accounting is exact after any interleaving of admissions and completions: it holds exactly
  the admitted requests, and its token and byte counters are the sums of their costs (so they return
  to zero when everything has finished).\<close>

theorem bounded_queue_accounting_exact:
  assumes "new_bounded_queue mr mt mb aware = Inr q0" and "list_all ledger_costs_ok ops"
    and "(l, q) = foldl ledger_step ([], q0) ops"
  shows "bq_requests q = map fst l \<and> bq_queued_tokens q = sum_list (map (fst \<circ> snd) l)
    \<and> bq_queued_bytes q = sum_list (map (snd \<circ> snd) l)"
proof -
  have "ledger_inv ([], q0)" using assms(1) by (auto simp: new_bounded_queue_def ledger_inv_def split: if_splits)
  then have "ledger_inv (foldl ledger_step ([], q0) ops)"
    using assms(2) by (induction ops arbitrary: q0 rule: rev_induct) (auto simp: ledger_step_inv)
  then show ?thesis unfolding assms(3) [symmetric] by (simp add: ledger_inv_def)
qed

theorem bounded_queue_accounting_exact_witness:
  "\<exists>q0 l q. new_bounded_queue 4 100 1000 True = Inr q0
     \<and> (l, q) = foldl ledger_step ([], q0) [L_admit ''a'' 60 10, L_admit ''b'' 20 5, L_finish ''a'']
     \<and> bq_queued_tokens q = sum_list (map (fst \<circ> snd) l)"
proof -
  obtain q0 where q0: "new_bounded_queue 4 100 1000 True = Inr q0" by (simp add: new_bounded_queue_def)
  obtain l q where lq: "(l, q) = foldl ledger_step ([], q0) [L_admit ''a'' 60 10, L_admit ''b'' 20 5, L_finish ''a'']"
    by (metis surj_pair)
  show ?thesis using bounded_queue_accounting_exact [OF q0 _ lq] q0 lq by auto
qed

section \<open>Pressure\<close>

definition observe_all :: "(pressure_signal \<times> int) list \<Rightarrow> pressure_machine \<Rightarrow> pressure_machine" where
  "observe_all obs m = foldl (\<lambda>m (sg, ns). snd (observe sg ns m)) m obs"

definition dwell_bound :: "pressure_machine \<Rightarrow> int" where
  "dwell_bound m = max 2 (pr_min_dwell_windows (pm_spec m))"

definition pressure_inv :: "int \<Rightarrow> pressure_machine \<Rightarrow> bool" where
  "pressure_inv n m \<longleftrightarrow> int (length (pm_events m)) * dwell_bound m + pm_dwell m \<le> n
     \<and> 0 \<le> pm_dwell m \<and> (pm_pending m = None \<longrightarrow> pm_dwell m = 0) \<and> (pm_pending m \<noteq> None \<longrightarrow> 1 \<le> pm_dwell m)
     \<and> (\<forall>e \<in> set (pm_events m). pe_dwell_windows e \<ge> dwell_bound m)"

lemma choose_value:
  "choose_transition st sg ts = Inr (Some (i, t)) \<Longrightarrow> (i, t) \<in> set ts \<and> pt_source t = st
     \<and> (\<exists>v. signal_value sg (pt_signal t) = Inr v \<and> pt_satisfied t v)"
  by (induction ts) (auto simp: result_simps split: if_splits)

lemma pressure_step:
  assumes "pressure_inv n m"
  shows "pressure_inv (n + 1) (snd (observe sg ns m))" "pm_spec (snd (observe sg ns m)) = pm_spec m"
proof -
  let ?ch = "choose_transition (pm_state m) sg (enumerate 0 (pr_transitions (pm_spec m)))"
  have "pressure_inv (n + 1) (snd (observe sg ns m)) \<and> pm_spec (snd (observe sg ns m)) = pm_spec m"
  proof (cases ?ch)
    case (Inl e)
    then show ?thesis using assms by (auto simp: observe_def pressure_inv_def)
  next
    case (Inr x)
    show ?thesis
    proof (cases x)
      case None
      then show ?thesis using assms Inr by (auto simp: observe_def pressure_inv_def dwell_bound_def)
    next
      case (Some it)
      obtain i t where it: "it = (i, t)" by fastforce
      obtain v where v: "signal_value sg (pt_signal t) = Inr v" using choose_value Inr Some it by metis
      show ?thesis
        using assms Inr Some it v
        by (auto simp: observe_def pressure_inv_def dwell_bound_def Let_def distrib_right)
    qed
  qed
  then show "pressure_inv (n + 1) (snd (observe sg ns m))" "pm_spec (snd (observe sg ns m)) = pm_spec m" by auto
qed

lemma pressure_run: "pressure_inv n m \<Longrightarrow> pressure_inv (n + int (length obs)) (observe_all obs m)
    \<and> pm_spec (observe_all obs m) = pm_spec m"
proof (induction obs arbitrary: n m)
  case Nil
  then show ?case by (simp add: observe_all_def)
next
  case (Cons o1 obs)
  obtain sg ns where o1: "o1 = (sg, ns)" by fastforce
  note s = pressure_step [OF Cons.prems, of sg ns]
  have "observe_all (o1 # obs) m = observe_all obs (snd (observe sg ns m))" by (simp add: observe_all_def o1)
  moreover have "n + 1 + int (length obs) = n + int (length (o1 # obs))" by simp
  ultimately show ?case using Cons.IH [OF s(1)] s(2) by metis
qed

text \<open>C13: the pressure machine cannot change state faster than its dwell time: over any sequence of
  observations the number of transitions times the dwell bound (the configured minimum, but never
  less than two windows) is at most the number of windows, and every transition was held that long.\<close>

theorem pressure_dwell_bounds_transitions:
  assumes "m = observe_all obs (new_pressure_machine sp st)"
  shows "int (length (pm_events m)) * max 2 (pr_min_dwell_windows sp) \<le> int (length obs)
    \<and> (\<forall>e \<in> set (pm_events m). pe_dwell_windows e \<ge> max 2 (pr_min_dwell_windows sp))"
proof -
  have "pressure_inv 0 (new_pressure_machine sp st)" by (simp add: pressure_inv_def new_pressure_machine_def)
  from pressure_run [OF this, of obs] show ?thesis
    by (auto simp: assms pressure_inv_def dwell_bound_def new_pressure_machine_def)
qed

text \<open>The transitions of the shipped admission specification.\<close>

definition shipped_pressure :: pressure_spec where
  "shipped_pressure = \<lparr>pr_transitions =
     [\<lparr>pt_source = NORMAL, pt_target = SOFT_PRESSURE, pt_signal = ''queue_depth_ratio'', pt_threshold = fl (1/2), pt_direction = Enter\<rparr>,
      \<lparr>pt_source = SOFT_PRESSURE, pt_target = NORMAL, pt_signal = ''queue_depth_ratio'', pt_threshold = fl (3/10), pt_direction = Exit\<rparr>,
      \<lparr>pt_source = SOFT_PRESSURE, pt_target = HARD_PRESSURE, pt_signal = ''queue_depth_ratio'', pt_threshold = fl (3/4), pt_direction = Enter\<rparr>,
      \<lparr>pt_source = HARD_PRESSURE, pt_target = SOFT_PRESSURE, pt_signal = ''queue_depth_ratio'', pt_threshold = fl (11/20), pt_direction = Exit\<rparr>,
      \<lparr>pt_source = HARD_PRESSURE, pt_target = SHEDDING, pt_signal = ''queue_depth_ratio'', pt_threshold = fl (9/10), pt_direction = Enter\<rparr>,
      \<lparr>pt_source = SHEDDING, pt_target = RECOVERING, pt_signal = ''queue_depth_ratio'', pt_threshold = fl (1/2), pt_direction = Exit\<rparr>,
      \<lparr>pt_source = RECOVERING, pt_target = NORMAL, pt_signal = ''queue_depth_ratio'', pt_threshold = fl (3/10), pt_direction = Exit\<rparr>],
     pr_min_dwell_windows = 2, pr_window_ms = 1000\<rparr>"

theorem pressure_dwell_bounds_transitions_witness:
  "int (length (pm_events (observe_all (replicate 5 (\<lparr>queue_depth_ratio = 1, queue_age_ms = 0, inflight_requests = 0,
       inflight_tokens = 0, predicted_kv_ratio = 0, sg_deadline_slack_ms = 0, recent_slo_violation_ratio = 0,
       buffered_socket_bytes = 0, process_rss_bytes = 0, backend_health = ''healthy''\<rparr>, 0))
     (new_pressure_machine shipped_pressure NORMAL)))) \<le> 2"
  using pressure_dwell_bounds_transitions [OF refl, of "replicate 5 (\<lparr>queue_depth_ratio = 1, queue_age_ms = 0, inflight_requests = 0,
       inflight_tokens = 0, predicted_kv_ratio = 0, sg_deadline_slack_ms = 0, recent_slo_violation_ratio = 0,
       buffered_socket_bytes = 0, process_rss_bytes = 0, backend_health = ''healthy''\<rparr>, 0)" shipped_pressure NORMAL]
  by (simp add: shipped_pressure_def)

section \<open>Return to normal\<close>

definition calm :: "pressure_signal \<Rightarrow> bool" where
  "calm sg \<longleftrightarrow> queue_depth_ratio sg \<le> fl (3/10)"

text \<open>The windows left until \<open>NORMAL\<close> while the signal is calm: two for each exit transition that is left,
  less one when the next exit is already pending.\<close>

definition windows_left :: "pressure_machine \<Rightarrow> nat" where
  "windows_left m = (case pm_state m of
     NORMAL \<Rightarrow> 0
   | SOFT_PRESSURE \<Rightarrow> (if pm_pending m = Some 1 then 1 else 2)
   | RECOVERING \<Rightarrow> (if pm_pending m = Some 6 then 1 else 2)
   | HARD_PRESSURE \<Rightarrow> (if pm_pending m = Some 3 then 3 else 4)
   | SHEDDING \<Rightarrow> (if pm_pending m = Some 5 then 3 else 4))"

lemma windows_left_le: "windows_left m \<le> 4"
  by (simp add: windows_left_def split: pressure_state.split)

lemma windows_left_0: "windows_left m = 0 \<Longrightarrow> pm_state m = NORMAL"
  by (simp add: windows_left_def split: pressure_state.splits if_splits)

lemma calm_step:
  assumes "pm_spec m = shipped_pressure" "calm sg" "pressure_inv n m"
  shows "windows_left (snd (observe sg ns m)) \<le> windows_left m - 1"
proof -
  have c: "\<not> fl (1/2) \<le> queue_depth_ratio sg" "queue_depth_ratio sg \<le> fl (11/20)" "queue_depth_ratio sg \<le> fl (1/2)"
    "queue_depth_ratio sg \<le> fl (3/10)"
  proof -
    have "fl (3/10) < fl (1/2)" by code_simp
    moreover have "fl (1/2) \<le> fl (11/20)" by (rule fl_mono) simp
    ultimately show "\<not> fl (1/2) \<le> queue_depth_ratio sg" "queue_depth_ratio sg \<le> fl (11/20)" "queue_depth_ratio sg \<le> fl (1/2)"
      "queue_depth_ratio sg \<le> fl (3/10)" using assms(2) by (auto simp: calm_def)
  qed
  have d: "pm_pending m \<noteq> None \<Longrightarrow> 1 \<le> pm_dwell m" using assms(3) by (auto simp: pressure_inv_def)
  show ?thesis
    using c d assms(1)
    by (cases "pm_state m")
       (auto simp: observe_def shipped_pressure_def signal_value_def pt_satisfied_def windows_left_def Let_def)
qed

lemma calm_run:
  "pm_spec m = shipped_pressure \<Longrightarrow> list_all (\<lambda>(sg, ns). calm sg) obs \<Longrightarrow> pressure_inv n m
     \<Longrightarrow> windows_left (observe_all obs m) \<le> windows_left m - length obs"
proof (induction obs arbitrary: n m)
  case Nil
  then show ?case by (simp add: observe_all_def)
next
  case (Cons o1 obs)
  obtain sg ns where o1: "o1 = (sg, ns)" by fastforce
  note s = pressure_step [OF Cons.prems(3), of sg ns]
  have "observe_all (o1 # obs) m = observe_all obs (snd (observe sg ns m))" by (simp add: observe_all_def o1)
  moreover have "windows_left (snd (observe sg ns m)) \<le> windows_left m - 1"
    using Cons.prems(2) o1 by (intro calm_step [OF Cons.prems(1) _ Cons.prems(3)]) simp
  moreover have "windows_left (observe_all obs (snd (observe sg ns m))) \<le> windows_left (snd (observe sg ns m)) - length obs"
    using Cons.prems(1,2) o1 s by (intro Cons.IH [OF _ _ s(1)]) auto
  ultimately show ?case by simp
qed

text \<open>With the shipped specification the service recovers: whatever happened before, in whatever state,
  four windows in a row with a queue at most three tenths full bring the machine back to \<open>NORMAL\<close>,
  and it stays there as long as the queue stays that low.\<close>

theorem pressure_returns_to_normal:
  assumes "m = observe_all before (new_pressure_machine shipped_pressure st)"
    and "list_all (\<lambda>(sg, ns). queue_depth_ratio sg \<le> fl (3/10)) obs" and "length obs \<ge> 4"
  shows "pm_state (observe_all obs m) = NORMAL"
proof -
  have "pressure_inv 0 (new_pressure_machine shipped_pressure st)" by (simp add: pressure_inv_def new_pressure_machine_def)
  from pressure_run [OF this, of before]
  have i: "pressure_inv (0 + int (length before)) m" "pm_spec m = shipped_pressure"
    by (auto simp: assms(1) new_pressure_machine_def)
  have "windows_left (observe_all obs m) \<le> windows_left m - length obs"
    using assms(2) by (intro calm_run [OF i(2) _ i(1)]) (simp add: calm_def)
  then show ?thesis using windows_left_le [of m] assms(3) by (intro windows_left_0) linarith
qed

definition demo_signal :: "rat \<Rightarrow> pressure_signal" where
  "demo_signal r = \<lparr>queue_depth_ratio = r, queue_age_ms = 0, inflight_requests = 0, inflight_tokens = 0, predicted_kv_ratio = 0,
     sg_deadline_slack_ms = 0, recent_slo_violation_ratio = 0, buffered_socket_bytes = 0, process_rss_bytes = 0,
     backend_health = ''healthy''\<rparr>"

theorem pressure_returns_to_normal_witness:
  "pm_state (observe_all (replicate 6 (demo_signal 1, 0)) (new_pressure_machine shipped_pressure NORMAL)) = SHEDDING
   \<and> pm_state (observe_all (replicate 4 (demo_signal 0, 9))
      (observe_all (replicate 6 (demo_signal 1, 0)) (new_pressure_machine shipped_pressure NORMAL))) = NORMAL"
proof
  show "pm_state (observe_all (replicate 6 (demo_signal 1, 0)) (new_pressure_machine shipped_pressure NORMAL)) = SHEDDING"
    by code_simp
  have "(0 :: rat) \<le> fl (3/10)" by (rule fl_nonneg) simp
  then show "pm_state (observe_all (replicate 4 (demo_signal 0, 9))
      (observe_all (replicate 6 (demo_signal 1, 0)) (new_pressure_machine shipped_pressure NORMAL))) = NORMAL"
    by (intro pressure_returns_to_normal [OF refl]) (auto simp: demo_signal_def list_all_iff)
qed

section \<open>Retries\<close>

text \<open>A client that asks with attempt numbers 1, 2, \<dots> until it is refused.\<close>

fun retry_loop :: "retry_query \<Rightarrow> (int \<Rightarrow> rat \<times> rat) \<Rightarrow> nat \<Rightarrow> retry_budget \<Rightarrow> retry_decision list \<times> retry_budget" where
  "retry_loop y env 0 b = ([], b)"
| "retry_loop y env (Suc n) b =
     (case env (ry_attempt y) of (elapsed, u) \<Rightarrow>
      case decide (y\<lparr>ry_elapsed_ms := elapsed\<rparr>) u b of (d, b') \<Rightarrow>
      if rd_retry d then (case retry_loop (y\<lparr>ry_attempt := ry_attempt y + 1\<rparr>) env n b' of (ds, b'') \<Rightarrow> (d # ds, b''))
      else ([d], b'))"

lemma decide_cases:
  "decide y u b = (d, b') \<Longrightarrow>
     (rd_retry d \<and> \<not> ry_committed y \<and> ry_retryable y \<and> ry_attempt y < rb_max_attempts b
        \<and> rb_max_attempts b' = rb_max_attempts b \<and> rb_attempts b' = rb_attempts b + 1
        \<and> (rb_max_backoff_ms b \<ge> 0 \<longrightarrow> 0 \<le> rd_delay_ms d))
     \<or> (\<not> rd_retry d \<and> b' = b \<and> rd_delay_ms d = 0)"
  by (auto simp: decide_def Let_def retry_delay_def split: if_splits)

lemma retry_loop_bound:
  "retry_loop y env n b = (ds, b') \<Longrightarrow> rb_attempts b' = rb_attempts b + int (length (filter rd_retry ds))
     \<and> int (length (filter rd_retry ds)) \<le> max 0 (rb_max_attempts b - ry_attempt y)
     \<and> (ry_committed y \<or> \<not> ry_retryable y \<longrightarrow> filter rd_retry ds = [])"
proof (induction n arbitrary: y b ds b')
  case 0
  then show ?case by simp
next
  case (Suc n)
  obtain el u where e: "env (ry_attempt y) = (el, u)" by fastforce
  obtain d b1 where d: "decide (y\<lparr>ry_elapsed_ms := el\<rparr>) u b = (d, b1)" by fastforce
  show ?case
  proof (cases "rd_retry d")
    case False
    then show ?thesis using Suc.prems e d decide_cases [OF d] by auto
  next
    case True
    obtain ds1 b2 where l: "retry_loop (y\<lparr>ry_attempt := ry_attempt y + 1\<rparr>) env n b1 = (ds1, b2)" by fastforce
    show ?thesis using Suc.prems Suc.IH [OF l] True e d l decide_cases [OF d] by auto
  qed
qed

text \<open>Retries are bounded per request: a client that asks again after every granted retry gets at most
  \<open>max_attempts - 1\<close> grants, whatever the elapsed times and the random numbers, a
  committed stream or a non-retryable failure is never retried, and the budget counts exactly the
  granted retries.\<close>

theorem retries_bounded:
  assumes "new_retry_budget k el base mx j sw = Inr b" and "ry_attempt y = 1"
    and "retry_loop y env n (register_original b) = (ds, b')"
  shows "int (length (filter rd_retry ds)) \<le> k - 1
    \<and> (ry_committed y \<or> \<not> ry_retryable y \<longrightarrow> filter rd_retry ds = [])
    \<and> rb_attempts b' = int (length (filter rd_retry ds))"
proof -
  have "k \<ge> 1" "rb_attempts (register_original b) = 0" "rb_max_attempts (register_original b) = k"
    using assms(1) by (auto simp: new_retry_budget_def register_original_def Let_def split: if_splits)
  then show ?thesis using retry_loop_bound [OF assms(3)] assms(2) by simp
qed

definition demo_query :: retry_query where
  "demo_query = \<lparr>ry_request_id = ''r'', ry_attempt = 1, ry_elapsed_ms = 0, ry_committed = False, ry_retryable = True,
     ry_server_spent_ms = 0\<rparr>"

theorem retries_bounded_witness:
  "\<exists>b ds b'. new_retry_budget 2 2000 20 500 (fl (3/10)) (fl (1/10)) = Inr b
     \<and> retry_loop demo_query (\<lambda>_. (0, 0)) 5 (register_original b) = (ds, b') \<and> int (length (filter rd_retry ds)) \<le> 1"
proof -
  obtain b where b: "new_retry_budget 2 2000 20 500 (fl (3/10)) (fl (1/10)) = Inr b" by (simp add: new_retry_budget_def)
  obtain ds b' where l: "retry_loop demo_query (\<lambda>_. (0, 0)) 5 (register_original b) = (ds, b')" by fastforce
  have "ry_attempt demo_query = 1" by (simp add: demo_query_def)
  from retries_bounded [OF b this l] have "int (length (filter rd_retry ds)) \<le> 1" by simp
  with b l show ?thesis by blast
qed

section \<open>Recovery report\<close>

text \<open>The memory condition of the recovery report is vacuous: memory counts as recovered at the first
  sample taken after the load drop, whatever was measured, since each sample is compared with the
  maximum of the same timeline.\<close>

theorem memory_recovery_vacuous:
  assumes "\<forall>(t, v) \<in> set memory. is_float v" and "0 \<le> memory_tolerance"
  shows "rt_memory (recovery_times_of states queue slo memory drop_at baseline tolerance memory_tolerance)
    = map_option fst (find (\<lambda>(t, v). t \<ge> drop_at) memory)"
proof -
  have "v \<le> fl (Max (snd ` set memory) + memory_tolerance)" if "(t, v) \<in> set memory" for t v
  proof -
    have "v \<le> Max (snd ` set memory)" using that by (intro Max_ge) force+
    then have "fl v \<le> fl (Max (snd ` set memory) + memory_tolerance)" using assms(2) by (intro fl_mono) simp
    then show ?thesis using assms(1) that by (auto simp: is_float_def)
  qed
  then have "find (\<lambda>(t, v). t \<ge> drop_at \<and> v \<le> fl ((if memory = [] then 0 else Max (snd ` set memory)) + memory_tolerance)) memory
      = find (\<lambda>(t, v). t \<ge> drop_at) memory"
    by (intro find_cong) auto
  then show ?thesis by (simp add: recovery_times_of_def first_after_def)
qed

theorem memory_recovery_vacuous_witness:
  "rt_memory (recovery_times_of [] [] [] [(0, 1), (5, 1000000), (6, 1000000)] 5 0 1 0) = Some 5"
  using memory_recovery_vacuous [of "[(0, 1), (5, 1000000), (6, 1000000)]" 0 "[]" "[]" "[]" 5 0 1]
    fl_of_int [of 1] fl_of_int [of 1000000]
  by (simp add: is_float_def)

end
