(* ===== verification/Quant_Scheme.thy ===== *)
theory Quant_Scheme
  imports Float64 Errors
begin

text \<open>
  \<open>hqsb/quant/rounding.py\<close> and \<open>hqsb/quant/spec.py\<close>: the frozen round modes and the quantization scheme
  with its validation, integer ranges and group arithmetic. A Python float that may be non-finite is
  an \<open>fval\<close>; a finite one is the rational it denotes. The scheme hash (a sha256 of a JSON dump) and
  the factorial case generator are not modelled.
\<close>

section \<open>Round modes\<close>

datatype fval = Finite rat | Non_finite

definition ROUND_NEAREST_EVEN :: string where
  "ROUND_NEAREST_EVEN = ''nearest_even''"

definition ROUND_HALF_AWAY_FROM_ZERO :: string where
  "ROUND_HALF_AWAY_FROM_ZERO = ''half_away_from_zero''"

definition ROUND_TRUNC :: string where
  "ROUND_TRUNC = ''trunc''"

definition ROUND_FLOOR :: string where
  "ROUND_FLOOR = ''floor''"

definition RTN_MODES :: "string list" where
  "RTN_MODES = [ROUND_NEAREST_EVEN, ROUND_HALF_AWAY_FROM_ZERO]"

definition DIAGNOSTIC_MODES :: "string list" where
  "DIAGNOSTIC_MODES = [ROUND_TRUNC, ROUND_FLOOR]"

text \<open>The subtraction of the integer part is a float operation: \<open>rest\<close> is rounded.\<close>

definition round_nearest_even :: "fval \<Rightarrow> rat res" where
  "round_nearest_even value = (case value of
     Non_finite \<Rightarrow> Inl (ConfigError ''non-finite'')
   | Finite v \<Rightarrow>
       let lower = \<lfloor>v\<rfloor>; rest = fl (v - fl (of_int lower)) in
       Inr (fl (of_int (if rest > 1 / 2 then lower + 1
                        else if rest < 1 / 2 then lower
                        else if lower mod 2 = 0 then lower else lower + 1))))"

definition round_half_away_from_zero :: "fval \<Rightarrow> rat res" where
  "round_half_away_from_zero value = (case value of
     Non_finite \<Rightarrow> Inl (ConfigError ''non-finite'')
   | Finite v \<Rightarrow>
       let magnitude = \<bar>v\<bar>; lower = \<lfloor>magnitude\<rfloor>; rest = fl (magnitude - fl (of_int lower));
           rounded = (if rest > 1 / 2 then lower + 1 else if rest < 1 / 2 then lower else lower + 1)
       in Inr (fl (of_int (if v \<ge> 0 then rounded else - rounded))))"

definition round_trunc :: "fval \<Rightarrow> rat res" where
  "round_trunc value = (case value of
     Non_finite \<Rightarrow> Inl (ConfigError ''non-finite'') | Finite v \<Rightarrow> Inr (fl (of_int (trunc_rat v))))"

definition round_floor :: "fval \<Rightarrow> rat res" where
  "round_floor value = (case value of
     Non_finite \<Rightarrow> Inl (ConfigError ''non-finite'') | Finite v \<Rightarrow> Inr (fl (of_int \<lfloor>v\<rfloor>)))"

definition ROUNDERS :: "(string \<times> (fval \<Rightarrow> rat res)) list" where
  "ROUNDERS = [(ROUND_NEAREST_EVEN, round_nearest_even), (ROUND_HALF_AWAY_FROM_ZERO, round_half_away_from_zero),
     (ROUND_TRUNC, round_trunc), (ROUND_FLOOR, round_floor)]"

definition coerce_round_value :: "fval \<Rightarrow> int res" where
  "coerce_round_value value = (case value of
     Non_finite \<Rightarrow> Inl (ConfigError ''round result'')
   | Finite v \<Rightarrow> if v \<noteq> of_int \<lfloor>v\<rfloor> then Inl (ConfigError ''round result'') else Inr (trunc_rat v))"

definition get_rounder :: "string \<Rightarrow> bool \<Rightarrow> (fval \<Rightarrow> rat res) res" where
  "get_rounder mode allow_non_rtn =
     (case map_of ROUNDERS mode of
        None \<Rightarrow> Inl (ConfigError ''round mode'')
      | Some r \<Rightarrow> if mode \<in> set DIAGNOSTIC_MODES \<and> \<not> allow_non_rtn then Inl (ConfigError ''not RTN'') else Inr r)"

definition is_rtn :: "string \<Rightarrow> bool" where
  "is_rtn mode \<longleftrightarrow> mode \<in> set RTN_MODES"

section \<open>Integer ranges and groups\<close>

definition SYMMETRIC :: string where
  "SYMMETRIC = ''symmetric''"

definition TWOS_COMPLEMENT :: string where
  "TWOS_COMPLEMENT = ''twos_complement''"

definition integer_range :: "int \<Rightarrow> string \<Rightarrow> (int \<times> int) res" where
  "integer_range bits policy =
     (if \<not> (1 \<le> bits \<and> bits \<le> 8) then Inl (ConfigError ''bits'')
      else if policy = SYMMETRIC then Inr (- (push_bit (nat (bits - 1)) 1 - 1), push_bit (nat (bits - 1)) 1 - 1)
      else if policy = TWOS_COMPLEMENT then Inr (- push_bit (nat (bits - 1)) 1, push_bit (nat (bits - 1)) 1 - 1)
      else Inl (ConfigError ''range policy''))"

definition groups_per_row :: "int \<Rightarrow> int option \<Rightarrow> int res" where
  "groups_per_row k group_size =
     (if k < 0 then Inl (ConfigError ''K'')
      else case group_size of
        None \<Rightarrow> Inr (if k > 0 then 1 else 0)
      | Some g \<Rightarrow> if g \<le> 0 then Inl (ConfigError ''group_size'')
                  else if k = 0 then Inr 0 else Inr ((k + g - 1) div g))"

definition tail_length :: "int \<Rightarrow> int option \<Rightarrow> int res" where
  "tail_length k group_size =
     (if k < 0 then Inl (ConfigError ''K'')
      else case group_size of
        None \<Rightarrow> Inr k
      | Some g \<Rightarrow> if g \<le> 0 then Inl (ConfigError ''group_size'')
                  else if k = 0 then Inr 0
                  else Inr (if k mod g \<noteq> 0 then k mod g else min k g))"

section \<open>The quantization scheme\<close>

record quant_scheme =
  qs_bits :: int
  qs_range_policy :: string
  qs_symmetric :: bool
  qs_granularity :: string
  qs_axis :: int
  qs_group_size :: "int option"
  qs_round_mode :: string
  qs_scale_dtype :: string
  qs_zero_dtype :: string
  qs_zero_group_policy :: string
  qs_constant_group_policy :: string
  qs_nan_policy :: string
  qs_compute_dtype :: string
  qs_pack_version :: string
  qs_label :: string

text \<open>The default arguments of the constructor.\<close>

definition default_scheme :: quant_scheme where
  "default_scheme = \<lparr>qs_bits = 8, qs_range_policy = SYMMETRIC, qs_symmetric = True, qs_granularity = ''per_channel'', qs_axis = - 1,
     qs_group_size = None, qs_round_mode = ROUND_NEAREST_EVEN, qs_scale_dtype = ''float32'', qs_zero_dtype = ''int8'',
     qs_zero_group_policy = ''zero_group_scale_one'', qs_constant_group_policy = ''constant_group_zero_code'',
     qs_nan_policy = ''reject'', qs_compute_dtype = ''float64'', qs_pack_version = ''hqsb.nibble.v1'', qs_label = ''rtn''\<rparr>"

definition scheme_validate :: "quant_scheme \<Rightarrow> unit res" where
  "scheme_validate s =
     bindE (integer_range (qs_bits s) (qs_range_policy s)) (\<lambda>_.
     bindE (ensure (qs_granularity s \<in> {''per_tensor'', ''per_channel'', ''per_group''}) (ConfigError ''granularity'')) (\<lambda>_.
     bindE (ensure (qs_round_mode s \<in> set RTN_MODES \<or> is_rtn (qs_round_mode s)) (ConfigError ''round mode'')) (\<lambda>_.
     bindE (ensure (qs_scale_dtype s \<in> {''float16'', ''float32'', ''float64''}) (ConfigError ''scale dtype'')) (\<lambda>_.
     bindE (ensure (qs_zero_dtype s \<in> {''int8'', ''int16'', ''int32''}) (ConfigError ''zero dtype'')) (\<lambda>_.
     bindE (ensure (qs_zero_group_policy s \<in> {''zero_group_scale_one'', ''zero_group_scale_min_positive''})
             (ConfigError ''zero-group policy'')) (\<lambda>_.
     bindE (ensure (qs_constant_group_policy s \<in> {''constant_group_zero_code'', ''constant_group_reject''})
             (ConfigError ''constant-group policy'')) (\<lambda>_.
     bindE (ensure (qs_nan_policy s \<in> {''reject'', ''propagate''}) (ConfigError ''NaN policy'')) (\<lambda>_.
     bindE (if qs_granularity s = ''per_tensor'' \<or> qs_granularity s = ''per_channel''
            then ensure (qs_group_size s = None) (ConfigError ''group_size'')
            else case qs_group_size s of None \<Rightarrow> Inl (ConfigError ''group_size'')
                 | Some g \<Rightarrow> ensure (g > 0) (ConfigError ''group_size'')) (\<lambda>_.
     bindE (if qs_symmetric s then ensure (qs_range_policy s = SYMMETRIC) (ConfigError ''range policy'')
            else ensure (qs_range_policy s = TWOS_COMPLEMENT) (ConfigError ''range policy'')) (\<lambda>_.
     bindE (ensure (take 5 (qs_compute_dtype s) = ''float'') (ConfigError ''compute_dtype'')) (\<lambda>_.
     ensure (qs_label s \<noteq> '''') (ConfigError ''label''))))))))))))"

definition scheme_range :: "quant_scheme \<Rightarrow> (int \<times> int) res" where
  "scheme_range s = integer_range (qs_bits s) (qs_range_policy s)"

definition qmax_positive :: "quant_scheme \<Rightarrow> int" where
  "qmax_positive s = push_bit (nat (qs_bits s - 1)) 1 - 1"

definition levels :: "quant_scheme \<Rightarrow> int res" where
  "levels s = bindE (scheme_range s) (\<lambda>(qmin, qmax). Inr (qmax - qmin + 1))"

definition unit_count :: "quant_scheme \<Rightarrow> int \<Rightarrow> int res" where
  "unit_count s k = groups_per_row k (qs_group_size s)"

definition MAIN_W8 :: quant_scheme where
  "MAIN_W8 = default_scheme\<lparr>qs_label := ''rtn_w8_per_channel''\<rparr>"

definition MAIN_W4 :: quant_scheme where
  "MAIN_W4 = default_scheme\<lparr>qs_bits := 4, qs_label := ''rtn_w4_per_group''\<rparr>"

definition MAIN_W4_GROUP :: quant_scheme where
  "MAIN_W4_GROUP = default_scheme\<lparr>qs_bits := 4, qs_granularity := ''per_group'', qs_group_size := Some 128, qs_label := ''rtn_w4_g128''\<rparr>"

section \<open>Rounding on floats\<close>

text \<open>
  What a client of the round-to-nearest modes relies on: an integral result at distance at most one
  half, with integers unchanged. The two modes differ only on ties.
\<close>

locale nearest_rounder =
  fixes rnd :: "rat \<Rightarrow> int"
  assumes nearest: "\<bar>of_int (rnd x) - x\<bar> \<le> 1 / 2"
begin

lemma fixes_integers: "rnd (of_int n) = n"
proof -
  have "\<bar>of_int (rnd (of_int n) - n)\<bar> < (1 :: rat)" using nearest [of "of_int n"] by simp
  then have "\<bar>rnd (of_int n) - n\<bar> < 1" by (metis of_int_abs of_int_less_1_iff)
  then show ?thesis by simp
qed

lemma monotone: "x + 1 \<le> y \<Longrightarrow> rnd x \<le> rnd y"
proof -
  assume "x + 1 \<le> y"
  then have "(of_int (rnd x) :: rat) \<le> of_int (rnd y)" using nearest [of x] nearest [of y] by linarith
  then show ?thesis by simp
qed

text \<open>Clamping a rounded value into a range that contains the rounded point loses nothing.\<close>

lemma clamp_free: "of_int lo \<le> x \<Longrightarrow> x \<le> of_int hi \<Longrightarrow> lo \<le> rnd x \<and> rnd x \<le> hi"
proof -
  assume x: "of_int lo \<le> x" "x \<le> of_int hi"
  have "(of_int (lo - 1) :: rat) < of_int (rnd x)" "(of_int (rnd x) :: rat) < of_int (hi + 1)"
    using nearest [of x] x by linarith+
  then have "lo - 1 < rnd x" "rnd x < hi + 1" by (simp_all only: of_int_less_iff)
  then show ?thesis by simp
qed

text \<open>The dequantization error of a code is at most half a step.\<close>

lemma half_step: "0 < scale \<Longrightarrow> \<bar>x - scale * of_int (rnd (x / scale))\<bar> \<le> scale / 2"
proof -
  assume s: "0 < scale"
  have "\<bar>x - scale * of_int (rnd (x / scale))\<bar> = \<bar>of_int (rnd (x / scale)) - x / scale\<bar> * scale"
    using s by (simp add: abs_if field_simps)
  also have "\<dots> \<le> 1 / 2 * scale" using s by (intro mult_right_mono nearest) simp
  finally show ?thesis by simp
qed

end

text \<open>Rounding half away from zero, on the exact value.\<close>

definition round_half_away :: "rat \<Rightarrow> int" where
  "round_half_away x = (if x \<ge> 0 then \<lfloor>x + 1 / 2\<rfloor> else - \<lfloor>- x + 1 / 2\<rfloor>)"

interpretation even: nearest_rounder round_half_even
  by unfold_locales (rule round_half_even_error)

interpretation away: nearest_rounder round_half_away
proof
  fix x :: rat
  show "\<bar>of_int (round_half_away x) - x\<bar> \<le> 1 / 2"
    using floor_correct [of "x + 1/2"] floor_correct [of "- x + 1/2"] unfolding round_half_away_def
    by (cases "x \<ge> 0") (simp_all only: if_True if_False of_int_minus, linarith+)
qed

text \<open>A multiple of a power of two that needs at most 53 bits is a float.\<close>

lemma fl_multiple:
  assumes y: "y = of_int n * 2 powi j" and b: "\<bar>y\<bar> < 2 powi (j + 53)"
  shows "fl y = y"
proof (cases "y = 0")
  case False
  then have pos: "0 < \<bar>y\<bar>" by simp
  have "(2 :: rat) powi ilog2 \<bar>y\<bar> < 2 powi (j + 53)" using ilog2_bounds(1) [OF pos] b by simp
  then have le: "ilog2 \<bar>y\<bar> - 52 \<le> j" using powi_two_mono [of "j + 53" "ilog2 \<bar>y\<bar>"] by (cases "ilog2 \<bar>y\<bar> - 52 \<le> j") auto
  have "(2 :: rat) powi j = 2 powi (int (nat (j - (ilog2 \<bar>y\<bar> - 52))) + (ilog2 \<bar>y\<bar> - 52))" using le by simp
  also have "\<dots> = 2 powi int (nat (j - (ilog2 \<bar>y\<bar> - 52))) * ulp y"
    by (simp only: ulp_def power_int_add rel_simps simp_thms)
  also have "\<dots> = 2 ^ nat (j - (ilog2 \<bar>y\<bar> - 52)) * ulp y"
    by (simp only: power_int_of_nat)
  finally have "y = of_int (n * 2 ^ nat (j - (ilog2 \<bar>y\<bar> - 52))) * ulp y" using y by simp
  then show ?thesis by (rule fl_eq_if_multiple)
qed simp

lemma float_multiple:
  assumes "is_float x" "2 powi k \<le> \<bar>x\<bar>"
  obtains n where "x = of_int n * 2 powi (k - 52)"
proof -
  have nz: "x \<noteq> 0" using assms(2) powi_two_pos [of k] by (metis abs_zero linorder_not_le)
  then have x: "x = of_int (round_half_even (x / ulp x)) * ulp x" using assms(1) by (simp add: is_float_def fl_def)
  have "(2 :: rat) powi k < 2 powi (ilog2 \<bar>x\<bar> + 1)" using ilog2_bounds(2) [of "\<bar>x\<bar>"] nz assms(2) by simp
  then have "k - 52 \<le> ilog2 \<bar>x\<bar> - 52" using powi_two_mono [of "ilog2 \<bar>x\<bar> + 1" k] by (cases "k \<le> ilog2 \<bar>x\<bar>") auto
  then have "ulp x = 2 powi (int (nat (ilog2 \<bar>x\<bar> - k)) + (k - 52))" by (simp add: ulp_def)
  also have "\<dots> = 2 ^ nat (ilog2 \<bar>x\<bar> - k) * 2 powi (k - 52)"
    by (simp only: power_int_add rel_simps simp_thms power_int_of_nat)
  finally have "x = of_int (round_half_even (x / ulp x) * 2 ^ nat (ilog2 \<bar>x\<bar> - k)) * 2 powi (k - 52)" using x by simp
  then show thesis by (rule that)
qed

lemma float_large_int: "is_float x \<Longrightarrow> 2 ^ 52 \<le> \<bar>x\<bar> \<Longrightarrow> x = of_int \<lfloor>x\<rfloor>"
  using float_multiple [of x 52] by fastforce

lemma fl_floor:
  assumes "is_float x"
  shows "fl (of_int \<lfloor>x\<rfloor>) = of_int \<lfloor>x\<rfloor>"
proof (cases "2 ^ 52 \<le> \<bar>x\<bar>")
  case True
  then show ?thesis using float_large_int [OF assms] assms by (metis is_float_def)
next
  case False
  then have "\<bar>of_int \<lfloor>x\<rfloor>\<bar> \<le> (of_int (2 ^ 53) :: rat)" using floor_correct [of x] by simp linarith
  then have "\<bar>\<lfloor>x\<rfloor>\<bar> \<le> 2 ^ 53" by (metis of_int_abs of_int_le_iff)
  then show ?thesis by (rule fl_of_int)
qed

lemma fl_rest:
  assumes "is_float x" and "x \<ge> 0 \<or> 1 / 2 \<le> \<bar>x\<bar>"
  shows "fl (x - of_int \<lfloor>x\<rfloor>) = x - of_int \<lfloor>x\<rfloor>"
proof (cases "1 / 2 \<le> \<bar>x\<bar>")
  case True
  obtain n where n: "x = of_int n * 2 powi (- 53)"
    using float_multiple [OF assms(1), of "- 1"] True by (auto simp: power_int_minus)
  have "x - of_int \<lfloor>x\<rfloor> = of_int (n - \<lfloor>x\<rfloor> * 2 ^ 53) * 2 powi (- 53)"
    by (subst n) (simp add: power_int_minus field_simps)
  moreover have "\<bar>x - of_int \<lfloor>x\<rfloor>\<bar> < 2 powi (- 53 + 53)" using floor_correct [of x] by simp
  ultimately show ?thesis by (rule fl_multiple)
next
  case False
  then have "\<lfloor>x\<rfloor> = 0" using assms(2) by (intro floor_unique) auto
  then show ?thesis using assms(1) by (simp add: is_float_def)
qed

lemma fl_round_result:
  assumes "is_float x" and "\<bar>of_int r - x\<bar> \<le> 1 / 2"
  shows "fl (of_int r) = of_int r"
proof (cases "2 ^ 52 \<le> \<bar>x\<bar>")
  case True
  then have x: "x = of_int \<lfloor>x\<rfloor>" by (rule float_large_int [OF assms(1)])
  then have "\<bar>of_int (r - \<lfloor>x\<rfloor>)\<bar> < (1 :: rat)" using assms(2) by simp
  then have "\<bar>r - \<lfloor>x\<rfloor>\<bar> < 1" by (metis of_int_abs of_int_less_1_iff)
  then have "r = \<lfloor>x\<rfloor>" by simp
  then show ?thesis using fl_floor [OF assms(1)] by simp
next
  case False
  then have "\<bar>x\<bar> < 4503599627370496" by simp
  then have "\<bar>of_int r\<bar> \<le> (9007199254740992 :: rat)" using assms(2) by linarith
  then have "\<bar>of_int r\<bar> \<le> (of_int (2 ^ 53) :: rat)" by simp
  then have "\<bar>r\<bar> \<le> 2 ^ 53" by (metis of_int_abs of_int_le_iff)
  then show ?thesis by (rule fl_of_int)
qed

lemma round_nearest_even_exact:
  assumes "is_float v"
  shows "round_nearest_even (Finite v) = Inr (of_int (round_half_even v))"
proof -
  note r = fl_round_result [OF assms round_half_even_error]
  show ?thesis
  proof (cases "v \<ge> 0 \<or> 1 / 2 \<le> \<bar>v\<bar>")
    case True
    have "round_nearest_even (Finite v) = Inr (fl (of_int (round_half_even v)))"
      by (simp add: round_nearest_even_def Let_def fl_floor [OF assms] fl_rest [OF assms True] round_half_even_def even_iff_mod_2_eq_zero)
    then show ?thesis using r by simp
  next
    case False
    then have f: "\<lfloor>v\<rfloor> = - 1" by (intro floor_unique) auto
    have "fl (1/2) \<le> fl (v + 1)" using False by (intro fl_mono) linarith
    moreover have "fl (1/2) = 1/2" using fl_powi [of "- 1"] by (simp add: power_int_minus)
    moreover have "fl (- 1) = - 1" using fl_of_int [of "- 1"] by simp
    moreover have "1 / 2 < v + 1" using False by linarith
    ultimately show ?thesis by (simp add: round_nearest_even_def round_half_even_def Let_def f)
  qed
qed

lemma round_half_away_exact:
  assumes "is_float v"
  shows "round_half_away_from_zero (Finite v) = Inr (of_int (round_half_away v))"
proof -
  have m: "is_float \<bar>v\<bar>" using assms by (simp add: is_float_def fl_minus abs_if)
  have c: "\<lfloor>x + 1 / 2\<rfloor> = (if x - of_int \<lfloor>x\<rfloor> < 1 / 2 then \<lfloor>x\<rfloor> else \<lfloor>x\<rfloor> + 1)" for x :: rat
  proof (cases "x - of_int \<lfloor>x\<rfloor> < 1 / 2")
    case True
    then have "\<lfloor>x + 1 / 2\<rfloor> = \<lfloor>x\<rfloor>" using floor_correct [of x] by (intro floor_unique) linarith+
    then show ?thesis using True by simp
  next
    case False
    then have "\<lfloor>x + 1 / 2\<rfloor> = \<lfloor>x\<rfloor> + 1" using floor_correct [of x] by (intro floor_unique) linarith+
    then show ?thesis using False by simp
  qed
  let ?lower = "\<lfloor>\<bar>v\<bar>\<rfloor>" and ?rest = "fl (\<bar>v\<bar> - fl (of_int \<lfloor>\<bar>v\<bar>\<rfloor>))"
  have rest: "?rest = \<bar>v\<bar> - of_int ?lower" using fl_rest [OF m] fl_floor [OF m] by simp
  have "(if ?rest > 1 / 2 then ?lower + 1 else if ?rest < 1 / 2 then ?lower else ?lower + 1) = \<lfloor>\<bar>v\<bar> + 1 / 2\<rfloor>"
    unfolding rest c by auto
  moreover have "round_half_away v = (if v \<ge> 0 then \<lfloor>\<bar>v\<bar> + 1 / 2\<rfloor> else - \<lfloor>\<bar>v\<bar> + 1 / 2\<rfloor>)"
    by (simp add: round_half_away_def)
  ultimately have "round_half_away_from_zero (Finite v) = Inr (fl (of_int (round_half_away v)))"
    by (simp only: round_half_away_from_zero_def Let_def fval.case)
  then show ?thesis using fl_round_result [OF assms away.nearest] by simp
qed

text \<open>C16: the round-to-nearest modes are exact on floats although they round the fraction they compare: for
  every finite float the result is the exact rounding of the real value (ties to even, ties away from
  zero), so it is an integer at distance at most one half, integral inputs are unchanged, and
  \<open>coerce_round_value\<close> accepts it; a non-finite input is refused by both.\<close>

theorem rtn_modes_exact:
  assumes "get_rounder mode False = Inr rounder" and "is_float v"
  shows "rounder (Finite v) = Inr (of_int (if mode = ROUND_NEAREST_EVEN then round_half_even v else round_half_away v))
    \<and> (\<forall>r. rounder (Finite v) = Inr r \<longrightarrow> \<bar>r - v\<bar> \<le> 1 / 2 \<and> (\<exists>n. r = of_int n \<and> coerce_round_value (Finite r) = Inr n))
    \<and> (v = of_int \<lfloor>v\<rfloor> \<longrightarrow> rounder (Finite v) = Inr v) \<and> is_ok (rounder Non_finite) = False"
proof -
  have m: "mode = ROUND_NEAREST_EVEN \<and> rounder = round_nearest_even
      \<or> mode \<noteq> ROUND_NEAREST_EVEN \<and> rounder = round_half_away_from_zero"
    using assms(1) by (auto simp: get_rounder_def ROUNDERS_def DIAGNOSTIC_MODES_def ROUND_NEAREST_EVEN_def ROUND_HALF_AWAY_FROM_ZERO_def
        ROUND_TRUNC_def ROUND_FLOOR_def split: option.splits if_splits)
  have r: "rounder (Finite v) = Inr (of_int (if mode = ROUND_NEAREST_EVEN then round_half_even v else round_half_away v))"
    using m assms(2) by (auto simp: round_nearest_even_exact round_half_away_exact)
  have "coerce_round_value (Finite (of_int n)) = Inr n" for n
    by (simp add: coerce_round_value_def trunc_rat_def)
  moreover have "v = of_int \<lfloor>v\<rfloor> \<Longrightarrow> round_half_even v = \<lfloor>v\<rfloor> \<and> round_half_away v = \<lfloor>v\<rfloor>"
    using even.fixes_integers away.fixes_integers by metis
  moreover have "is_ok (rounder Non_finite) = False"
    using m by (auto simp: round_nearest_even_def round_half_away_from_zero_def)
  ultimately show ?thesis using r even.nearest [of v] away.nearest [of v] by auto
qed

theorem rtn_modes_exact_witness:
  "round_nearest_even (Finite (5/2)) = Inr 2 \<and> is_float (5/2)"
proof -
  have f: "is_float (5/2)" by code_simp
  have g: "get_rounder ROUND_NEAREST_EVEN False = Inr round_nearest_even"
    by (simp add: get_rounder_def ROUNDERS_def DIAGNOSTIC_MODES_def ROUND_NEAREST_EVEN_def ROUND_TRUNC_def ROUND_FLOOR_def)
  have "round_half_even (5/2) = 2" by code_simp
  with rtn_modes_exact [OF g f] f show ?thesis by simp
qed

section \<open>Validated schemes\<close>

lemma integer_range_bounds:
  assumes "integer_range bits policy = Inr (qmin, qmax)"
  shows "1 \<le> bits" "bits \<le> 8" "qmin \<le> 0" "0 \<le> qmax" "- (2 ^ nat (bits - 1)) \<le> qmin" "qmax = 2 ^ nat (bits - 1) - 1"
  using assms by (auto simp: integer_range_def push_bit_eq_mult split: if_splits)

lemma groups_tile:
  fixes g k :: int
  assumes "0 < g" "0 < k"
  shows "0 < (k + g - 1) div g" "0 < (if k mod g \<noteq> 0 then k mod g else min k g)" "(if k mod g \<noteq> 0 then k mod g else min k g) \<le> g"
    "((k + g - 1) div g - 1) * g + (if k mod g \<noteq> 0 then k mod g else min k g) = k"
proof -
  have e: "k = (k div g) * g + k mod g" by (rule div_mult_mod_eq [symmetric])
  have mb: "0 \<le> k mod g" "k mod g < g" using assms by simp_all
  have d0: "0 \<le> k div g" using assms by (simp add: pos_imp_zdiv_nonneg_iff)
  show p: "0 < (k + g - 1) div g" using assms by (simp add: pos_imp_zdiv_pos_iff)
  show "0 < (if k mod g \<noteq> 0 then k mod g else min k g)" "(if k mod g \<noteq> 0 then k mod g else min k g) \<le> g"
    using assms mb by auto
  show "((k + g - 1) div g - 1) * g + (if k mod g \<noteq> 0 then k mod g else min k g) = k"
  proof (cases "k mod g = 0")
    case True
    have "k + g - 1 = k div g * g + (g - 1)" using e True by simp
    then have "(k + g - 1) div g = k div g + (g - 1) div g" using assms by (metis add.commute div_mult_self1 less_irrefl)
    then have "(k + g - 1) div g = k div g" using assms by simp
    moreover have "g \<le> k" using True assms by (simp add: dvd_eq_mod_eq_0 zdvd_imp_le)
    ultimately show ?thesis using True e by (simp add: algebra_simps)
  next
    case False
    have "k + g - 1 = k div g * g + (g + (k mod g - 1))" using e by simp
    then have "(k + g - 1) div g = k div g + (g + (k mod g - 1)) div g" using assms by (metis add.commute div_mult_self1 less_irrefl)
    moreover have "(k mod g - 1) div g = 0" using False mb by (intro div_pos_pos_trivial) linarith+
    then have "(g + (k mod g - 1)) div g = 1" using assms by simp
    ultimately have "(k + g - 1) div g = k div g + 1" by simp
    then show ?thesis using False e by simp
  qed
qed

text \<open>A scheme that passes validation quantizes a row of any width into groups that tile it: the number
  of groups and the length of the last one are defined, all but the last group are full, the last one
  is not empty and not longer than a group, and together they have exactly the width of the row; and
  its integer range is non-empty, contains zero, fits the declared number of bits and has
  \<open>2 ^ bits\<close> levels, one less when it is symmetric.\<close>

theorem scheme_groups_and_range:
  assumes "scheme_validate s = Inr ()" and "0 < k"
  shows "\<exists>n t qmin qmax. unit_count s k = Inr n \<and> tail_length k (qs_group_size s) = Inr t \<and> scheme_range s = Inr (qmin, qmax)
    \<and> 0 < n \<and> 0 < t \<and> (case qs_group_size s of None \<Rightarrow> n = 1 \<and> t = k | Some g \<Rightarrow> t \<le> g \<and> (n - 1) * g + t = k)
    \<and> - (2 ^ nat (qs_bits s - 1)) \<le> qmin \<and> qmin \<le> 0 \<and> 0 \<le> qmax \<and> qmax < 2 ^ nat (qs_bits s - 1)
    \<and> levels s = Inr (2 ^ nat (qs_bits s) - (if qs_symmetric s then 1 else 0))"
proof -
  obtain qmin qmax where r: "integer_range (qs_bits s) (qs_range_policy s) = Inr (qmin, qmax)"
    using assms(1) by (auto simp: scheme_validate_def result_simps)
  note b = integer_range_bounds [OF r]
  have sym: "qs_range_policy s = (if qs_symmetric s then SYMMETRIC else TWOS_COMPLEMENT)"
    using assms(1) by (auto simp: scheme_validate_def result_simps split: if_splits)
  have pow: "2 ^ nat (qs_bits s) = 2 * (2 :: int) ^ nat (qs_bits s - 1)"
    using b(1) by (simp flip: power_Suc add: Suc_nat_eq_nat_zadd1)
  have lev: "levels s = Inr (2 ^ nat (qs_bits s) - (if qs_symmetric s then 1 else 0))"
    using r sym by (auto simp: levels_def scheme_range_def pow integer_range_def push_bit_eq_mult SYMMETRIC_def TWOS_COMPLEMENT_def split: if_splits)
  have g: "g > 0" if "qs_group_size s = Some g" for g
    using assms(1) that by (auto simp: scheme_validate_def result_simps split: if_splits)
  have "\<exists>n t. unit_count s k = Inr n \<and> tail_length k (qs_group_size s) = Inr t \<and> 0 < n \<and> 0 < t
      \<and> (case qs_group_size s of None \<Rightarrow> n = 1 \<and> t = k | Some g \<Rightarrow> t \<le> g \<and> (n - 1) * g + t = k)"
  proof (cases "qs_group_size s")
    case None
    then show ?thesis using assms(2) by (auto simp: unit_count_def groups_per_row_def tail_length_def)
  next
    case (Some g)
    then show ?thesis using groups_tile [OF g [OF Some] assms(2)] g [OF Some] assms(2)
      by (auto simp: unit_count_def groups_per_row_def tail_length_def)
  qed
  then show ?thesis using r b lev by (auto simp: scheme_range_def)
qed

theorem scheme_groups_and_range_witness:
  "scheme_validate MAIN_W4_GROUP = Inr () \<and> levels MAIN_W4_GROUP = Inr 15"
proof -
  have v: "scheme_validate MAIN_W4_GROUP = Inr ()" by code_simp
  from scheme_groups_and_range [OF v, of 300] v show ?thesis by (auto simp: MAIN_W4_GROUP_def default_scheme_def)
qed

end
