(* ===== verification/Packing.thy ===== *)
theory Packing
  imports Quant_Scheme "HOL-Library.Word"
begin

text \<open>
  \<open>hqsb/quant/packing.py\<close>: the canonical byte form of logical codes (two 4-bit codes or one 8-bit code
  per byte), its two decoders, the planned kernel layouts and the kernel variants. Bytes are 8-bit
  words. Logical codes arrive as numbers (rationals) because the code checks that they are integral;
  scales may be non-finite. Hashes are not modelled: a parent hash is carried along as a string.
\<close>

unbundle bit_operations_syntax

type_synonym byte = "8 word"

section \<open>Layout identities\<close>

definition PACK_NIBBLE_V1 :: string where
  "PACK_NIBBLE_V1 = ''hqsb.nibble.v1''"

definition PACK_BYTE_V1 :: string where
  "PACK_BYTE_V1 = ''hqsb.byte.v1''"

definition NIBBLE_LOW_FIRST :: string where
  "NIBBLE_LOW_FIRST = ''low_first''"

definition NIBBLE_HIGH_FIRST :: string where
  "NIBBLE_HIGH_FIRST = ''high_first''"

definition KNOWN_LAYOUTS :: "(string \<times> int \<times> string) list" where
  "KNOWN_LAYOUTS = [(''hqsb.w4a16.rowmajor.nk.v1'', 4, NIBBLE_LOW_FIRST), (''hqsb.w4a16.hifirst.nk.v1'', 4, NIBBLE_HIGH_FIRST),
     (''hqsb.w8a16.rowmajor.nk.v1'', 8, NIBBLE_LOW_FIRST)]"

abbreviation unknown_pack_version :: exc where
  "unknown_pack_version \<equiv> ArtifactError ''unknown_pack_version''"

abbreviation unknown_layout_id :: exc where
  "unknown_layout_id \<equiv> ArtifactError ''unknown_layout_id''"

abbreviation bad_length :: exc where
  "bad_length \<equiv> ArtifactError ''payload_length_mismatch''"

abbreviation bad_padding :: exc where
  "bad_padding \<equiv> ArtifactError ''nonzero_padding_nibble''"

abbreviation code_out_of_range :: exc where
  "code_out_of_range \<equiv> ArtifactError ''code_out_of_range''"

abbreviation bad_alignment :: exc where
  "bad_alignment \<equiv> ArtifactError ''alignment_not_satisfied''"

definition canonical_pack_version :: "int \<Rightarrow> string res" where
  "canonical_pack_version bits =
     (if bits = 4 then Inr PACK_NIBBLE_V1 else if bits = 8 then Inr PACK_BYTE_V1 else Inl unknown_pack_version)"

definition packed_row_bytes :: "int \<Rightarrow> int \<Rightarrow> int res" where
  "packed_row_bytes bits cols =
     (if bits = 4 then Inr ((cols + 1) div 2) else if bits = 8 then Inr cols else Inl unknown_pack_version)"

section \<open>Canonical packing\<close>

text \<open>\<open>int(code)\<close>, refused when the number is not integral.\<close>

definition integral_code :: "rat \<Rightarrow> int res" where
  "integral_code code = (if fl code \<noteq> fl (of_int (trunc_rat code)) then Inl code_out_of_range else Inr (trunc_rat code))"

fun integral_codes :: "rat list \<Rightarrow> int list res" where
  "integral_codes [] = Inr []"
| "integral_codes (c # cs) = bindE (integral_code c) (\<lambda>i. bindE (integral_codes cs) (\<lambda>is. Inr (i # is)))"

text \<open>One step of the nibble loop: \<open>out[index // 2] |= nibble\<close>, shifted for the high half.\<close>

definition or_nibble :: "string \<Rightarrow> byte list \<Rightarrow> nat \<times> int \<Rightarrow> byte list" where
  "or_nibble nibble_order out = (\<lambda>(index, code).
     let nibble = word_of_int code AND 15 :: byte;
         even_position = (index mod 2 = 0);
         placed = (if nibble_order = NIBBLE_LOW_FIRST
                   then (if even_position then nibble else push_bit 4 nibble)
                   else (if even_position then push_bit 4 nibble else nibble))
     in out[index div 2 := out ! (index div 2) OR placed])"

definition pack_canonical :: "rat list \<Rightarrow> int \<Rightarrow> string \<Rightarrow> byte list res" where
  "pack_canonical q bits nibble_order =
     bindE (integral_codes q) (\<lambda>codes.
       if nibble_order \<notin> {NIBBLE_LOW_FIRST, NIBBLE_HIGH_FIRST} then Inl unknown_pack_version
       else if bits = 4
         then Inr (foldl (or_nibble nibble_order) (replicate ((length codes + 1) div 2) 0) (enumerate 0 codes))
       else if bits = 8 then Inr (map (\<lambda>code. word_of_int code AND 255) codes)
       else Inl unknown_pack_version)"

definition signed_from_nibble :: "byte \<Rightarrow> int" where
  "signed_from_nibble nibble = (let n = uint (nibble AND 15) in if n \<ge> 8 then n - 16 else n)"

definition signed_from_byte :: "byte \<Rightarrow> int" where
  "signed_from_byte b = (let n = uint (b AND 255) in if n \<ge> 128 then n - 256 else n)"

definition validate_codes :: "rat list \<Rightarrow> quant_scheme \<Rightarrow> unit res" where
  "validate_codes codes scheme =
     bindE (scheme_range scheme) (\<lambda>(qmin, qmax).
       ensure (list_all (\<lambda>code. of_int qmin \<le> code \<and> code \<le> of_int qmax) codes) code_out_of_range)"

definition validate_optional :: "int list \<Rightarrow> quant_scheme option \<Rightarrow> int list res" where
  "validate_optional codes scheme = (case scheme of None \<Rightarrow> Inr codes
     | Some s \<Rightarrow> bindE (validate_codes (map of_int codes) s) (\<lambda>_. Inr codes))"

text \<open>The nibble at a logical index, and the padding nibble of the last byte.\<close>

definition nibble_at :: "string \<Rightarrow> byte list \<Rightarrow> nat \<Rightarrow> byte" where
  "nibble_at nibble_order payload index =
     (let b = payload ! (index div 2) in
      if nibble_order = NIBBLE_LOW_FIRST
      then (if index mod 2 = 0 then b AND 15 else drop_bit 4 b AND 15)
      else (if index mod 2 = 0 then drop_bit 4 b AND 15 else b AND 15))"

definition padding_nibble :: "string \<Rightarrow> byte list \<Rightarrow> byte res" where
  "padding_nibble nibble_order payload =
     (if payload = [] then Inl IndexError
      else Inr (if nibble_order = NIBBLE_HIGH_FIRST then last payload AND 15 else drop_bit 4 (last payload) AND 15))"

definition unpack_canonical :: "byte list \<Rightarrow> int \<Rightarrow> int \<Rightarrow> quant_scheme option \<Rightarrow> string \<Rightarrow> int list res" where
  "unpack_canonical payload count bits scheme nibble_order =
     (if count < 0 then Inl (ArtifactError ''count'')
      else bindE (packed_row_bytes bits count) (\<lambda>expected.
        if int (length payload) \<noteq> expected then Inl bad_length
        else if nibble_order \<notin> {NIBBLE_LOW_FIRST, NIBBLE_HIGH_FIRST} then Inl unknown_pack_version
        else if bits = 4
          then let codes = map (\<lambda>i. signed_from_nibble (nibble_at nibble_order payload i)) [0..<nat count] in
               bindE (padding_nibble nibble_order payload) (\<lambda>p.
                 if count mod 2 = 1 \<and> p \<noteq> 0 then Inl bad_padding else validate_optional codes scheme)
        else if bits = 8 then validate_optional (map signed_from_byte payload) scheme
        else Inl unknown_pack_version))"

section \<open>The independent decoder\<close>

text \<open>The loop over the bytes, with its early exits once \<open>count\<close> codes are there.\<close>

fun independent_loop :: "string \<Rightarrow> int \<Rightarrow> int list \<Rightarrow> byte list \<Rightarrow> int list" where
  "independent_loop nibble_order count codes [] = codes"
| "independent_loop nibble_order count codes (b # bs) =
     (if int (length codes) \<ge> count then codes
      else let low = signed_from_nibble (b AND 15);
               high = signed_from_nibble (drop_bit 4 b AND 15);
               one = (if nibble_order = NIBBLE_LOW_FIRST then low else high);
               two = (if nibble_order = NIBBLE_LOW_FIRST then high else low)
           in if int (length (codes @ [one])) \<ge> count then codes @ [one]
              else independent_loop nibble_order count (codes @ [one, two]) bs)"

definition unpack_independent :: "byte list \<Rightarrow> int \<Rightarrow> int \<Rightarrow> string \<Rightarrow> int list res" where
  "unpack_independent payload count bits nibble_order =
     (if count < 0 then Inl bad_length
      else bindE (packed_row_bytes bits count) (\<lambda>expected.
        if int (length payload) \<noteq> expected then Inl bad_length
        else if bits = 4
          then let codes = independent_loop nibble_order count [] payload in
               if int (length codes) \<noteq> count then Inl bad_length else Inr codes
        else if bits = 8 then Inr (map sint payload)
        else Inl unknown_pack_version))"

section \<open>Kernel layouts\<close>

record kernel_layout =
  kl_layout_id :: string
  kl_layout_version :: string
  kl_bits :: int
  kl_rows :: int
  kl_cols :: int
  kl_padded_cols :: int
  kl_valid_cols :: int
  kl_row_stride_bytes :: int
  kl_alignment :: int
  kl_group_size :: "int option"
  kl_groups_per_row :: int
  kl_nibble_order :: string
  kl_scale_dtype :: string
  kl_zero_dtype :: string
  kl_scale_count :: int
  kl_zero_count :: int
  kl_payload_bytes :: int
  kl_scale_bytes :: int
  kl_zero_bytes :: int
  kl_parent_canonical_hash :: "string option"

definition kl_total_bytes :: "kernel_layout \<Rightarrow> int" where
  "kl_total_bytes l = kl_payload_bytes l + kl_scale_bytes l + kl_zero_bytes l"

definition dtype_bytes :: "string \<Rightarrow> int res" where
  "dtype_bytes dtype = (case map_of [(''float16'', 2), (''float32'', 4), (''float64'', 8), (''int8'', 1), (''int16'', 2), (''int32'', 4)] dtype of
     None \<Rightarrow> Inl KeyError | Some n \<Rightarrow> Inr n)"

definition resolved_layout :: "quant_scheme \<Rightarrow> string option \<Rightarrow> string" where
  "resolved_layout scheme layout_id =
     (if layout_id = None \<or> layout_id = Some ''''
      then (if qs_bits scheme = 4 then ''hqsb.w4a16.rowmajor.nk.v1'' else ''hqsb.w8a16.rowmajor.nk.v1'')
      else the layout_id)"

definition plan_kernel_layout :: "quant_scheme \<Rightarrow> int \<Rightarrow> int \<Rightarrow> string option \<Rightarrow> int \<Rightarrow> string option \<Rightarrow> kernel_layout res" where
  "plan_kernel_layout scheme rows cols layout_id alignment parent_hash =
     (if rows < 0 \<or> cols < 0 then Inl bad_length
      else let layout = resolved_layout scheme layout_id in
      case map_of KNOWN_LAYOUTS layout of
        None \<Rightarrow> Inl unknown_layout_id
      | Some (layout_bits, nibble_order) \<Rightarrow>
          if layout_bits \<noteq> qs_bits scheme then Inl unknown_layout_id
          else if alignment \<le> 0 \<or> alignment mod 2 \<noteq> 0 then Inl bad_alignment
          else let padded_cols = cols + (if qs_bits scheme = 4 \<and> cols mod 2 \<noteq> 0 then 1 else 0) in
            bindE (packed_row_bytes (qs_bits scheme) padded_cols) (\<lambda>raw_row_bytes.
            let row_stride = ((raw_row_bytes + alignment - 1) div alignment) * alignment in
            bindE (unit_count scheme cols) (\<lambda>groups.
            bindE (dtype_bytes (qs_scale_dtype scheme)) (\<lambda>sb.
            let zero_count = (if qs_symmetric scheme then 0 else rows * groups) in
            bindE (if qs_symmetric scheme then Inr 0 else bindE (dtype_bytes (qs_zero_dtype scheme)) (\<lambda>zb. Inr (zb * zero_count))) (\<lambda>zero_bytes.
            Inr \<lparr>kl_layout_id = layout, kl_layout_version = ''1'', kl_bits = qs_bits scheme, kl_rows = rows, kl_cols = cols,
                 kl_padded_cols = padded_cols, kl_valid_cols = cols, kl_row_stride_bytes = row_stride, kl_alignment = alignment,
                 kl_group_size = qs_group_size scheme, kl_groups_per_row = groups, kl_nibble_order = nibble_order,
                 kl_scale_dtype = qs_scale_dtype scheme, kl_zero_dtype = qs_zero_dtype scheme, kl_scale_count = rows * groups,
                 kl_zero_count = zero_count, kl_payload_bytes = rows * row_stride, kl_scale_bytes = sb * (rows * groups),
                 kl_zero_bytes = zero_bytes, kl_parent_canonical_hash = parent_hash\<rparr>)))))"

section \<open>Kernel variants\<close>

record packed_tensor =
  pk_layout :: kernel_layout
  pk_payload :: "byte list"
  pk_scales :: "rat list"
  pk_zeros :: "int list"

text \<open>A finite positive scale, and the float it is stored as.\<close>

fun scale_ok :: "fval \<Rightarrow> bool" where
  "scale_ok (Finite x) \<longleftrightarrow> \<not> x \<le> 0"
| "scale_ok Non_finite \<longleftrightarrow> False"

fun finite_value :: "fval \<Rightarrow> rat" where
  "finite_value (Finite x) = x"
| "finite_value Non_finite = 0"

text \<open>Python slice assignment \<open>xs[a:b] = ys\<close> for \<open>a \<le> b\<close>.\<close>

definition slice_assign :: "nat \<Rightarrow> nat \<Rightarrow> 'a list \<Rightarrow> 'a list \<Rightarrow> 'a list" where
  "slice_assign a b ys xs = take a xs @ ys @ drop b xs"

definition pack_row :: "kernel_layout \<Rightarrow> int \<Rightarrow> rat list \<Rightarrow> nat \<Rightarrow> byte list res" where
  "pack_row layout bits q row =
     (let cols = nat (kl_cols layout);
          values = map trunc_rat (take cols (drop (row * cols) q));
          row_values = (if kl_padded_cols layout > kl_cols layout then values @ [0] else values)
      in bindE (pack_canonical (map of_int row_values) bits (kl_nibble_order layout)) (\<lambda>packed.
           Inr (slice_assign 0 (length packed) packed (replicate (nat (kl_row_stride_bytes layout)) 0))))"

definition place_row :: "kernel_layout \<Rightarrow> int \<Rightarrow> rat list \<Rightarrow> nat \<Rightarrow> byte list \<Rightarrow> byte list res" where
  "place_row layout bits q row out =
     bindE (pack_row layout bits q row) (\<lambda>row_bytes.
       let stride = nat (kl_row_stride_bytes layout); start = row * stride in
       Inr (slice_assign start (start + stride) row_bytes out))"

definition pack_kernel_variant ::
  "rat list \<Rightarrow> fval list \<Rightarrow> int list \<Rightarrow> quant_scheme \<Rightarrow> int \<Rightarrow> int \<Rightarrow> string option \<Rightarrow> int \<Rightarrow> string option \<Rightarrow> packed_tensor res" where
  "pack_kernel_variant q scales zeros scheme rows cols layout_id alignment parent_hash =
     bindE (plan_kernel_layout scheme rows cols layout_id alignment parent_hash) (\<lambda>layout.
     bindE (ensure (int (length q) = rows * cols) bad_length) (\<lambda>_.
     bindE (validate_codes q scheme) (\<lambda>_.
     bindE (ensure (list_all scale_ok scales) bad_length) (\<lambda>_.
     bindE (ensure (int (length scales) = kl_scale_count layout) bad_length) (\<lambda>_.
     bindE (ensure (qs_symmetric scheme \<or> int (length zeros) = kl_zero_count layout) bad_length) (\<lambda>_.
     bindE (forE (place_row layout (qs_bits scheme) q) [0..<nat rows] (replicate (nat (kl_payload_bytes layout)) 0)) (\<lambda>out.
     bindE (ensure (int (length out) = kl_payload_bytes layout) bad_length) (\<lambda>_.
     Inr \<lparr>pk_layout = layout, pk_payload = out, pk_scales = map finite_value scales,
          pk_zeros = (if qs_symmetric scheme then [] else zeros)\<rparr>))))))))"

definition unpack_row :: "packed_tensor \<Rightarrow> quant_scheme \<Rightarrow> bool \<Rightarrow> nat \<Rightarrow> int list \<Rightarrow> int list res" where
  "unpack_row packed scheme indep row out =
     (let layout = pk_layout packed;
          stride = nat (kl_row_stride_bytes layout);
          row_bytes = take stride (drop (row * stride) (pk_payload packed))
      in bindE (packed_row_bytes (qs_bits scheme) (kl_padded_cols layout)) (\<lambda>packed_len.
         bindE (if indep
                then unpack_independent (take (nat packed_len) row_bytes) (kl_padded_cols layout) (qs_bits scheme) (kl_nibble_order layout)
                else unpack_canonical (take (nat packed_len) row_bytes) (kl_padded_cols layout) (qs_bits scheme) None (kl_nibble_order layout)) (\<lambda>row_values.
         Inr (out @ take (nat (kl_cols layout)) row_values))))"

text \<open>Decoding a layout whose dimensions are non-negative, as every planned layout is.\<close>

definition unpack_kernel_variant :: "packed_tensor \<Rightarrow> quant_scheme \<Rightarrow> bool \<Rightarrow> int list res" where
  "unpack_kernel_variant packed scheme indep =
     (let layout = pk_layout packed; n = int (length (pk_payload packed)) in
      if n \<noteq> kl_payload_bytes layout then Inl bad_length
      else if kl_alignment layout = 0 then Inl ZeroDivisionError
      else if n mod kl_alignment layout \<noteq> 0 then Inl bad_alignment
      else bindE (forE (unpack_row packed scheme indep) [0..<nat (kl_rows layout)] []) (\<lambda>out.
           bindE (ensure (int (length out) = kl_rows layout * kl_cols layout) bad_length) (\<lambda>_.
           bindE (validate_codes (map of_int out) scheme) (\<lambda>_. Inr out))))"

end
