(* ===== verification/Packing_Props.thy ===== *)
theory Packing_Props
  imports Packing
begin

text \<open>
  The canonical packing is a bijection between codes that fit the width and well-padded payloads, the
  independent decoder agrees with the canonical one, and a kernel variant decodes to the codes it was
  packed from, with either decoder. The nibble-level facts are bitwise identities on bytes; the row
  loops of the kernel variants are proved once for any decoder that inverts \<open>pack_canonical\<close>.
\<close>

section \<open>Nibbles and bytes\<close>

lemma mask15: "(15 :: byte) = mask 4"
  by (simp add: mask_numeral)

lemma uint_nibble: "uint (word_of_int c AND 15 :: byte) = c mod 16"
proof -
  have "uint (take_bit 4 (word_of_int c :: byte)) = take_bit 4 (take_bit 8 c)"
    by (simp add: unsigned_take_bit_eq uint_word_of_int_eq del: take_bit_take_bit)
  also have "\<dots> = c mod 16" by (simp add: take_bit_take_bit take_bit_eq_mod [of 4])
  finally show ?thesis by (simp only: mask15 take_bit_eq_mask)
qed

lemma byte_and_255 [simp]: "(b :: byte) AND 255 = b"
proof -
  have "(255 :: byte) = mask 8" by (simp add: mask_numeral)
  then show ?thesis by (simp only: take_bit_eq_mask [symmetric]) (simp add: take_bit_word_eq_self)
qed

lemma signed_nibble_code: "- 8 \<le> c \<Longrightarrow> c \<le> 7 \<Longrightarrow> signed_from_nibble (word_of_int c AND 15) = c"
  by (simp add: signed_from_nibble_def Let_def uint_nibble) presburger

lemma nibble_signed_code: "word_of_int (signed_from_nibble b) AND 15 = b AND 15"
proof -
  have "uint (word_of_int (signed_from_nibble b) AND 15 :: byte) = uint (b AND 15)"
  proof -
    have "b = word_of_int (uint b)" by simp
    then have "uint (b AND 15) = uint b mod 16" using uint_nibble by metis
    then have "0 \<le> uint (b AND 15)" "uint (b AND 15) < 16" by auto
    then show ?thesis by (simp add: uint_nibble signed_from_nibble_def Let_def)
  qed
  then show ?thesis by (simp only: word_uint_eq_iff)
qed

lemma signed_nibble_range: "- 8 \<le> signed_from_nibble b \<and> signed_from_nibble b \<le> 7"
proof -
  have "uint (b AND 15) = uint b mod 16" using uint_nibble [of "uint b"] by simp
  then have "0 \<le> uint (b AND 15)" "uint (b AND 15) < 16" by auto
  then show ?thesis unfolding signed_from_nibble_def Let_def by presburger
qed

text \<open>What one \<open>|=\<close> of the packing loop does to the two halves of a byte.\<close>

lemma or_low_half: "(b OR (n AND 15)) AND 15 = (b AND 15) OR (n AND 15 :: byte)"
    "drop_bit 4 (b OR (n AND 15)) AND 15 = (drop_bit 4 b AND 15 :: byte)"
  unfolding mask15 by (rule bit_word_eqI; auto simp: bit_simps)+

lemma or_high_half: "(b OR push_bit 4 (n AND 15)) AND 15 = (b AND 15 :: byte)"
    "drop_bit 4 (b OR push_bit 4 (n AND 15)) AND 15 = (drop_bit 4 b AND 15) OR (n AND 15 :: byte)"
  unfolding mask15 by (rule bit_word_eqI; auto simp: bit_simps)+

lemma byte_eq_halves: "b AND 15 = c AND 15 \<Longrightarrow> drop_bit 4 b AND 15 = drop_bit 4 c AND 15 \<Longrightarrow> b = (c :: byte)"
proof -
  assume a: "b AND 15 = c AND 15" "drop_bit 4 b AND 15 = drop_bit 4 c AND 15"
  show "b = c"
  proof (rule bit_word_eqI)
    fix n
    assume n: "n < LENGTH(8)"
    show "bit b n \<longleftrightarrow> bit c n"
    proof (cases "n < 4")
      case True
      then show ?thesis using arg_cong [OF a(1), of "\<lambda>w. bit w n"] by (simp add: mask15 bit_simps)
    next
      case False
      then have "n - 4 < 4" using n by simp
      then show ?thesis using False arg_cong [OF a(2), of "\<lambda>w. bit w (n - 4)"] n by (simp add: mask15 bit_simps)
    qed
  qed
qed

lemma wrap_byte:
  fixes u :: int
  assumes "0 \<le> u" "u < 256"
  shows "(u + 128) mod 256 = (if u \<ge> 128 then u - 128 else u + 128)"
proof (cases "u \<ge> 128")
  case True
  have "(u + 128) mod 256 = (u + 128 - 256) mod 256" by (simp only: minus_mod_self2)
  then show ?thesis using True assms by simp
qed (use assms in simp)

lemma signed_from_byte_sint: "signed_from_byte b = sint b"
proof -
  have u: "0 \<le> uint b" "uint b < 256" using unsigned_greater_eq [of b] uint_bounded [of b] by auto
  have "sint b = signed_take_bit 7 (uint b)" by (simp add: sint_uint)
  also have "\<dots> = (if uint b \<ge> 128 then uint b - 256 else uint b)"
    using wrap_byte [OF u] by (simp add: signed_take_bit_eq_take_bit_shift take_bit_eq_mod [of 8])
  finally show ?thesis by (simp add: signed_from_byte_def Let_def)
qed

lemma signed_byte_code: "- 128 \<le> c \<Longrightarrow> c \<le> 127 \<Longrightarrow> signed_from_byte (word_of_int c) = c"
  by (simp add: signed_from_byte_def Let_def uint_word_of_int_eq take_bit_eq_mod) presburger

lemma byte_signed_code: "word_of_int (signed_from_byte b) = b"
  by (simp add: signed_from_byte_sint)

lemma signed_byte_range: "- 128 \<le> signed_from_byte b \<and> signed_from_byte b \<le> 127"
proof -
  have "0 \<le> uint b" "uint b < 256" using unsigned_greater_eq [of b] uint_bounded [of b] by auto
  then show ?thesis unfolding signed_from_byte_def Let_def byte_and_255 by presburger
qed

section \<open>The packing loop\<close>

lemma nibble_at_masked: "nibble_at o' p i = nibble_at o' p i AND 15"
  by (simp add: nibble_at_def Let_def ac_simps)

lemma length_or_nibble [simp]: "length (or_nibble o' out ic) = length out"
  by (simp add: or_nibble_def Let_def split: prod.split)

lemma nibble_at_or:
  assumes "i div 2 < length out" "j div 2 < length out"
  shows "nibble_at o' (or_nibble o' out (i, c)) j
    = (if j = i then nibble_at o' out i OR (word_of_int c AND 15) else nibble_at o' out j)"
proof (cases "i div 2 = j div 2")
  case False
  then show ?thesis using assms by (auto simp: nibble_at_def or_nibble_def Let_def)
next
  case True
  then have "j = i \<longleftrightarrow> j mod 2 = i mod 2" by (metis div_mult_mod_eq)
  moreover define w where "w = (word_of_int c AND 15 :: byte)"
  have "(b OR w) AND 15 = b AND 15 OR w" "drop_bit 4 (b OR w) AND 15 = drop_bit 4 b AND 15"
    "(b OR push_bit 4 w) AND 15 = b AND 15" "drop_bit 4 (b OR push_bit 4 w) AND 15 = drop_bit 4 b AND 15 OR w" for b
    unfolding w_def by (rule or_low_half or_high_half)+
  ultimately show ?thesis using True assms
    unfolding or_nibble_def Let_def prod.case w_def [symmetric]
    by (cases "i mod 2 = 0"; cases "j mod 2 = 0") (simp_all add: nibble_at_def Let_def)
qed

lemma pack_loop:
  assumes "(n + length cs + 1) div 2 \<le> length out" and "\<And>j. n \<le> j \<Longrightarrow> j div 2 < length out \<Longrightarrow> nibble_at o' out j = 0"
    and "j div 2 < length out"
  shows "nibble_at o' (foldl (or_nibble o') out (enumerate n cs)) j
    = (if n \<le> j \<and> j < n + length cs then word_of_int (cs ! (j - n)) AND 15 else nibble_at o' out j)"
  using assms
proof (induction cs arbitrary: n out)
  case Nil
  then show ?case by auto
next
  case (Cons c cs)
  let ?out = "or_nibble o' out (n, c)"
  have n: "n div 2 < length out" using Cons.prems(1) by simp
  have "nibble_at o' (foldl (or_nibble o') ?out (enumerate (Suc n) cs)) j
      = (if Suc n \<le> j \<and> j < Suc n + length cs then word_of_int (cs ! (j - Suc n)) AND 15 else nibble_at o' ?out j)"
  proof (rule Cons.IH)
    show "(Suc n + length cs + 1) div 2 \<le> length ?out" using Cons.prems(1) by simp
    show "nibble_at o' ?out i = 0" if "Suc n \<le> i" "i div 2 < length ?out" for i
      using that Cons.prems(2) [of i] n by (simp add: nibble_at_or)
    show "j div 2 < length ?out" using Cons.prems(3) by simp
  qed
  moreover have "nibble_at o' ?out j = (if j = n then word_of_int c AND 15 else nibble_at o' out j)"
    using Cons.prems(2) [of n] Cons.prems(3) n by (simp add: nibble_at_or)
  ultimately show ?case by (auto simp: nth_Cons')
qed

lemma length_pack_loop [simp]: "length (foldl (or_nibble o') out ics) = length out"
  by (induction ics arbitrary: out) auto

lemma trunc_of_int [simp]: "trunc_rat (of_int c) = c"
  by (simp add: trunc_rat_def)

lemma integral_codes_of_int [simp]: "integral_codes (map of_int cs) = Inr cs"
  by (induction cs) (auto simp: integral_code_def trunc_rat_def)

abbreviation known_order :: "string \<Rightarrow> bool" where
  "known_order o' \<equiv> o' \<in> {NIBBLE_LOW_FIRST, NIBBLE_HIGH_FIRST}"

definition pack4 :: "string \<Rightarrow> int list \<Rightarrow> byte list" where
  "pack4 o' cs = foldl (or_nibble o') (replicate ((length cs + 1) div 2) 0) (enumerate 0 cs)"

lemma length_pack4 [simp]: "length (pack4 o' cs) = (length cs + 1) div 2"
  by (simp add: pack4_def)

lemma nibble_at_pack4:
  assumes "j div 2 < (length cs + 1) div 2"
  shows "nibble_at o' (pack4 o' cs) j = (if j < length cs then word_of_int (cs ! j) AND 15 else 0)"
proof -
  have "nibble_at o' (replicate ((length cs + 1) div 2) 0) i = 0" if "i div 2 < (length cs + 1) div 2" for i
    using that by (simp add: nibble_at_def)
  then show ?thesis using assms pack_loop [of 0 cs "replicate ((length cs + 1) div 2) 0" o' j]
    by (simp add: pack4_def)
qed

lemma pack_canonical_of_int:
  "known_order o' \<Longrightarrow> pack_canonical (map of_int cs) bits o'
     = (if bits = 4 then Inr (pack4 o' cs) else if bits = 8 then Inr (map word_of_int cs) else Inl unknown_pack_version)"
  by (simp add: pack_canonical_def pack4_def)

section \<open>Decoding\<close>

text \<open>Codes that fit the width.\<close>

definition fits :: "int \<Rightarrow> int list \<Rightarrow> bool" where
  "fits bits cs \<longleftrightarrow> (bits = 4 \<or> bits = 8) \<and> list_all (\<lambda>c. - (2 ^ nat (bits - 1)) \<le> c \<and> c < 2 ^ nat (bits - 1)) cs"

lemma fits_simps: "fits 4 cs \<longleftrightarrow> list_all (\<lambda>c. - 8 \<le> c \<and> c \<le> 7) cs" "fits 8 cs \<longleftrightarrow> list_all (\<lambda>c. - 128 \<le> c \<and> c \<le> 127) cs"
  by (auto simp: fits_def list_all_iff)

lemma padding_nibble_at:
  "known_order o' \<Longrightarrow> payload \<noteq> [] \<Longrightarrow> padding_nibble o' payload = Inr (nibble_at o' payload (2 * length payload - 1))"
proof -
  assume o': "known_order o'" and p: "payload \<noteq> []"
  have "(2 * length payload - 1) mod 2 = 1" "(2 * length payload - 1) div 2 = length payload - 1" using p by (cases payload; simp)+
  then show ?thesis using o' p
    by (auto simp: padding_nibble_def nibble_at_def Let_def last_conv_nth NIBBLE_LOW_FIRST_def NIBBLE_HIGH_FIRST_def)
qed

lemma unpack_pack_canonical:
  assumes "pack_canonical (map of_int cs) bits o' = Inr bs" "fits bits cs" "cs \<noteq> []"
  shows "unpack_canonical bs (int (length cs)) bits None o' = Inr cs"
proof -
  have o': "known_order o'" using assms(1) by (auto simp: pack_canonical_def split: if_splits)
  consider "bits = 4" | "bits = 8" using assms(2) by (auto simp: fits_def)
  then show ?thesis
  proof cases
    case 1
    have bs: "bs = pack4 o' cs" using assms(1) o' 1 by (simp add: pack_canonical_of_int)
    have "0 < (length cs + 1) div 2" using assms(3) by (cases cs) auto
    then have ne: "bs \<noteq> []" using length_pack4 [of o' cs] bs by (metis length_greater_0_conv)
    have codes: "map (\<lambda>i. signed_from_nibble (nibble_at o' bs i)) [0..<length cs] = cs"
      using assms(2) 1 by (auto simp: bs fits_simps list_all_length nibble_at_pack4 signed_nibble_code intro!: nth_equalityI)
    have "nibble_at o' bs (2 * length bs - 1) = 0" if "odd (length cs)"
      using that ne by (auto simp: bs nibble_at_pack4 elim!: oddE)
    then obtain p where p: "padding_nibble o' bs = Inr p" "odd (length cs) \<Longrightarrow> p = 0"
      using padding_nibble_at [OF o' ne] by auto
    have "length bs = (length cs + 1) div 2" using bs by simp
    then show ?thesis using 1 o' codes p
      by (auto simp: unpack_canonical_def packed_row_bytes_def validate_optional_def zdiv_int odd_iff_mod_2_eq_one [symmetric])
  next
    case 2
    have bs: "bs = map word_of_int cs" using assms(1) o' 2 by (simp add: pack_canonical_of_int)
    have "map signed_from_byte bs = cs"
      using assms(2) 2 by (auto simp: bs fits_simps list_all_iff signed_byte_code intro!: map_idI)
    then show ?thesis using 2 o' by (auto simp: unpack_canonical_def packed_row_bytes_def validate_optional_def bs)
  qed
qed

lemma nibbles_eqI:
  assumes "length ps = length qs" "\<And>j. j div 2 < length ps \<Longrightarrow> nibble_at o' ps j = nibble_at o' qs j"
  shows "ps = qs"
proof (rule nth_equalityI [OF assms(1)])
  fix i
  assume "i < length ps"
  then have h: "nibble_at o' ps (2 * i) = nibble_at o' qs (2 * i)" "nibble_at o' ps (2 * i + 1) = nibble_at o' qs (2 * i + 1)"
    using assms(2) [of "2 * i"] assms(2) [of "2 * i + 1"] by simp_all
  show "ps ! i = qs ! i"
  proof (cases "o' = NIBBLE_LOW_FIRST")
    case True
    show ?thesis by (rule byte_eq_halves) (use h True in \<open>simp_all add: nibble_at_def Let_def\<close>)
  next
    case False
    show ?thesis by (rule byte_eq_halves) (use h False in \<open>simp_all add: nibble_at_def Let_def\<close>)
  qed
qed

lemma pack_unpack_canonical:
  assumes "unpack_canonical bs count bits None o' = Inr cs"
  shows "pack_canonical (map of_int cs) bits o' = Inr bs \<and> fits bits cs \<and> int (length cs) = count"
proof -
  have o': "known_order o'" and c: "0 \<le> count" and l: "packed_row_bytes bits count = Inr (int (length bs))"
    using assms by (auto simp: unpack_canonical_def result_simps split: if_splits)
  consider (nibbles) "bits = 4" | (bytes) "bits = 8"
    using l by (auto simp: packed_row_bytes_def split: if_splits)
  then show ?thesis
  proof cases
    case nibbles
    have cs: "cs = map (\<lambda>i. signed_from_nibble (nibble_at o' bs i)) [0..<nat count]"
      and ne: "bs \<noteq> []" and pad: "odd count \<Longrightarrow> nibble_at o' bs (2 * length bs - 1) = 0"
      using assms nibbles o' padding_nibble_at [OF o', of bs]
      by (auto simp: unpack_canonical_def validate_optional_def result_simps padding_nibble_def odd_iff_mod_2_eq_one split: if_splits)
    have lb: "length bs = (length cs + 1) div 2" using l nibbles c cs by (simp add: packed_row_bytes_def)
    have "pack4 o' cs = bs"
    proof (rule nibbles_eqI)
      fix j
      assume "j div 2 < length (pack4 o' cs)"
      then have j: "j div 2 < (length cs + 1) div 2" by simp
      show "nibble_at o' (pack4 o' cs) j = nibble_at o' bs j"
      proof (cases "j < length cs")
        case True
        then show ?thesis using j by (simp add: nibble_at_pack4 cs nibble_signed_code) (metis nibble_at_masked)
      next
        case False
        then have "j = length cs" "odd (length cs)" using j by presburger+
        then show ?thesis using j pad cs c lb by (auto simp: nibble_at_pack4 even_nat_iff elim!: oddE)
      qed
    qed (simp add: lb)
    moreover have "fits 4 cs" using cs signed_nibble_range by (auto simp: fits_simps list_all_iff)
    moreover have "int (length cs) = count" using cs c by simp
    ultimately show ?thesis using nibbles o' pack_canonical_of_int [of o' cs 4] by simp
  next
    case bytes
    then have "cs = map signed_from_byte bs" "int (length bs) = count"
      using assms l by (auto simp: unpack_canonical_def validate_optional_def result_simps packed_row_bytes_def split: if_splits)
    moreover from this have "map word_of_int cs = bs" "fits 8 cs"
      using signed_byte_range by (auto simp: byte_signed_code fits_simps list_all_iff comp_def)
    ultimately show ?thesis using bytes o' pack_canonical_of_int [of o' cs 8] by simp
  qed
qed

text \<open>The independent decoder reads the payload byte by byte; both decoders read the same nibbles.\<close>

definition both :: "string \<Rightarrow> byte \<Rightarrow> int list" where
  "both o' b = (if o' = NIBBLE_LOW_FIRST then [signed_from_nibble (b AND 15), signed_from_nibble (drop_bit 4 b AND 15)]
     else [signed_from_nibble (drop_bit 4 b AND 15), signed_from_nibble (b AND 15)])"

lemma length_both [simp]: "length (concat (map (both o') bs)) = 2 * length bs"
  by (induction bs) (auto simp: both_def)

lemma independent_loop_take:
  "int (length codes) \<le> count \<Longrightarrow>
     independent_loop o' count codes bs = codes @ take (nat count - length codes) (concat (map (both o') bs))"
proof (induction bs arbitrary: codes)
  case Nil
  then show ?case by simp
next
  case (Cons b bs)
  consider "nat count = length codes" | "nat count = length codes + 1" | "length codes + 2 \<le> nat count"
    using Cons.prems by linarith
  then show ?case
  proof cases
    case 3
    then have "nat count - length codes = Suc (Suc (nat count - length codes - 2))" by simp
    then show ?thesis using 3 Cons.IH [of "codes @ both o' b"] by (auto simp: both_def Let_def)
  qed (use Cons.prems in \<open>auto simp: both_def Let_def\<close>)
qed

lemma nibble_at_Cons: "nibble_at o' (b # bs) (Suc (Suc i)) = nibble_at o' bs i"
proof -
  have "Suc (Suc i) mod 2 = i mod 2" by presburger
  then show ?thesis by (simp add: nibble_at_def Let_def)
qed

lemma upt_two: "[0..<Suc (Suc n)] = 0 # 1 # map (\<lambda>i. Suc (Suc i)) [0..<n]"
proof -
  have "map (\<lambda>i. Suc (Suc i)) [0..<n] = map Suc (map Suc [0..<n])" by simp
  also have "\<dots> = [Suc (Suc 0)..<Suc (Suc n)]" by (simp only: map_Suc_upt)
  finally show ?thesis by (simp add: upt_conv_Cons del: upt_Suc)
qed

lemma both_nibbles:
  "map (\<lambda>i. signed_from_nibble (nibble_at o' bs i)) [0..<2 * length bs] = concat (map (both o') bs)"
proof (induction bs)
  case Nil
  then show ?case by simp
next
  case (Cons b bs)
  have "[0..<2 * length (b # bs)] = 0 # 1 # map (\<lambda>i. Suc (Suc i)) [0..<2 * length bs]"
    using upt_two [of "2 * length bs"] by simp
  moreover have "both o' b = [signed_from_nibble (nibble_at o' (b # bs) 0), signed_from_nibble (nibble_at o' (b # bs) 1)]"
    by (simp add: both_def nibble_at_def)
  ultimately show ?case using Cons.IH by (simp only: list.map map_map comp_def nibble_at_Cons concat.simps append.simps)
qed

lemma decoders_read_same:
  assumes "0 \<le> count" "nat count \<le> 2 * length bs"
  shows "independent_loop o' count [] bs = map (\<lambda>i. signed_from_nibble (nibble_at o' bs i)) [0..<nat count]"
proof -
  have "map (\<lambda>i. signed_from_nibble (nibble_at o' bs i)) [0..<nat count]
      = take (nat count) (map (\<lambda>i. signed_from_nibble (nibble_at o' bs i)) [0..<2 * length bs])"
    using assms by (simp add: take_map min_def)
  then show ?thesis using assms by (simp add: independent_loop_take both_nibbles)
qed

lemma decoders_agree:
  assumes "known_order o'" "bs \<noteq> []"
  shows "unpack_canonical bs count bits None o' = Inr cs \<longleftrightarrow>
    unpack_independent bs count bits o' = Inr cs \<and> (bits = 4 \<and> odd count \<longrightarrow> padding_nibble o' bs = Inr 0)"
proof (cases "0 \<le> count \<and> packed_row_bytes bits count = Inr (int (length bs))")
  case False
  then show ?thesis
    by (cases "packed_row_bytes bits count") (auto simp: unpack_canonical_def unpack_independent_def)
next
  case True
  then consider (nibbles) "bits = 4" | (bytes) "bits = 8" by (auto simp: packed_row_bytes_def split: if_splits)
  then show ?thesis
  proof cases
    case nibbles
    then have "nat count \<le> 2 * length bs" using True by (simp add: packed_row_bytes_def) linarith
    with True have d: "independent_loop o' count [] bs = map (\<lambda>i. signed_from_nibble (nibble_at o' bs i)) [0..<nat count]"
      by (intro decoders_read_same) auto
    show ?thesis using True nibbles assms d padding_nibble_at [OF assms]
      by (auto simp: unpack_canonical_def unpack_independent_def validate_optional_def odd_iff_mod_2_eq_one)
  next
    case bytes
    then show ?thesis using True assms
      by (auto simp: unpack_canonical_def unpack_independent_def validate_optional_def signed_from_byte_sint cong: map_cong)
  qed
qed

text \<open>The boundary: an empty payload is the packed form of no codes, but at 4 bits the decoder looks at the
  padding nibble of its last byte first.\<close>

lemma empty_payload:
  assumes "nibble_order \<in> {NIBBLE_LOW_FIRST, NIBBLE_HIGH_FIRST}"
  shows "pack_canonical [] 4 nibble_order = Inr []" "pack_canonical [] 8 nibble_order = Inr []"
    "unpack_canonical [] 0 4 scheme nibble_order = Inl IndexError" "unpack_canonical [] 0 8 None nibble_order = Inr []"
    "unpack_independent [] 0 4 nibble_order = Inr []" "unpack_independent [] 0 8 nibble_order = Inr []"
  using assms by (auto simp: pack_canonical_def unpack_canonical_def unpack_independent_def packed_row_bytes_def padding_nibble_def validate_optional_def)

text \<open>C15: canonical packing is a bijection between the codes that fit the width and the payloads the decoder
  accepts: codes that fit come back from their packed form, a
  payload the decoder accepts is exactly the packed form of the codes it decodes to (so no two
  payloads of one length decode alike), and the codes decoded always fit. Both nibble orders and both
  widths, with one exception: the empty list of codes at 4 bits packs to the empty payload, which the
  decoder refuses with an \<open>IndexError\<close>.\<close>

theorem canonical_packing_bijective:
  assumes "nibble_order \<in> {NIBBLE_LOW_FIRST, NIBBLE_HIGH_FIRST}" and "bits = 4 \<or> bits = 8"
  shows "(unpack_canonical payload (int (length codes)) bits None nibble_order = Inr codes
      \<longleftrightarrow> pack_canonical (map of_int codes) bits nibble_order = Inr payload
        \<and> (\<forall>c \<in> set codes. - (2 ^ nat (bits - 1)) \<le> c \<and> c < 2 ^ nat (bits - 1)) \<and> (codes \<noteq> [] \<or> bits = 8))
    \<and> pack_canonical [] 4 nibble_order = Inr [] \<and> unpack_canonical [] 0 4 None nibble_order = Inl IndexError"
proof (cases "codes = []")
  case True
  have "unpack_canonical payload 0 bits None nibble_order = Inr [] \<longleftrightarrow> payload = [] \<and> bits = 8"
    using pack_unpack_canonical [of payload 0 bits nibble_order "[]"] empty_payload [OF assms(1)] assms(2) by auto
  then show ?thesis using True empty_payload [OF assms(1)] assms(2) by auto
next
  case False
  then show ?thesis
    using unpack_pack_canonical [of codes bits nibble_order payload] pack_unpack_canonical [of payload "int (length codes)" bits nibble_order codes]
      empty_payload [OF assms(1)] assms
    by (auto simp: fits_def list_all_iff)
qed

theorem canonical_packing_bijective_witness:
  "pack_canonical (map of_int [- 8, 7, - 1]) 4 NIBBLE_LOW_FIRST = Inr [0x78, 0x0F]
   \<and> unpack_canonical [0x78, 0x0F] 3 4 None NIBBLE_LOW_FIRST = Inr [- 8, 7, - 1]"
proof -
  have p: "pack_canonical (map of_int [- 8, 7, - 1]) 4 NIBBLE_LOW_FIRST = Inr [0x78, 0x0F]"
    by code_simp
  have "\<forall>c \<in> set [- 8, 7, - 1]. - (2 ^ nat (4 - 1)) \<le> c \<and> c < (2 :: int) ^ nat (4 - 1)" by simp
  with p canonical_packing_bijective [of NIBBLE_LOW_FIRST 4 "[0x78, 0x0F]" "[- 8, 7, - 1]"] show ?thesis by simp
qed

text \<open>The two decoders, written independently, agree: on a non-empty payload the canonical decoder returns
  codes exactly when the independent one returns the same codes and, for an odd number of 4-bit codes,
  the padding nibble is zero, which only the canonical decoder checks.\<close>

theorem independent_decoder_agrees:
  assumes "nibble_order \<in> {NIBBLE_LOW_FIRST, NIBBLE_HIGH_FIRST}" and "payload \<noteq> []"
  shows "unpack_canonical payload count bits None nibble_order = Inr codes \<longleftrightarrow>
    unpack_independent payload count bits nibble_order = Inr codes
    \<and> (bits = 4 \<and> odd count \<longrightarrow> padding_nibble nibble_order payload = Inr 0)"
  using assms by (rule decoders_agree)

theorem independent_decoder_agrees_witness:
  "unpack_independent [0xF8, 0xF1] 3 4 NIBBLE_LOW_FIRST = Inr [- 8, - 1, 1]
   \<and> unpack_canonical [0xF8, 0xF1] 3 4 None NIBBLE_LOW_FIRST \<noteq> Inr [- 8, - 1, 1]"
proof
  show "unpack_independent [0xF8, 0xF1] 3 4 NIBBLE_LOW_FIRST = Inr [- 8, - 1, 1]"
    by code_simp
  have "padding_nibble NIBBLE_LOW_FIRST [0xF8, 0xF1] \<noteq> Inr 0" by code_simp
  then show "unpack_canonical [0xF8, 0xF1] 3 4 None NIBBLE_LOW_FIRST \<noteq> Inr [- 8, - 1, 1]"
    using independent_decoder_agrees [of NIBBLE_LOW_FIRST "[0xF8, 0xF1]" 3 4 "[- 8, - 1, 1]"] by simp
qed

section \<open>Kernel variants\<close>

lemma forE_append: "forE f (xs @ ys) s = bindE (forE f xs s) (forE f ys)"
proof (induction xs arbitrary: s)
  case (Cons x xs)
  then show ?case by (cases "f x s") simp_all
qed simp

lemma length_concat_const: "(\<And>i. i < n \<Longrightarrow> length (f i) = k) \<Longrightarrow> length (concat (map f [0..<n])) = n * k"
  by (induction n) auto

lemma slice_concat:
  assumes "\<And>i. i < n \<Longrightarrow> length (f i) = k" "i < n"
  shows "take k (drop (i * k) (concat (map f [0..<n]))) = f i"
proof -
  have "[0..<n] = [0..<i] @ i # [Suc i..<n]" using assms(2)
    by (metis add_0 less_imp_add_positive less_imp_le_nat upt_add_eq_append upt_conv_Cons zero_le)
  then show ?thesis using length_concat_const [of i f k] assms by simp
qed

lemma concat_slices: "n * k \<le> length xs \<Longrightarrow> concat (map (\<lambda>i. take k (drop (i * k) xs)) [0..<n]) = take (n * k) xs"
proof (induction n)
  case (Suc n)
  have "take (Suc n * k) xs = take (n * k) xs @ take k (drop (n * k) xs)"
    using take_add [of "n * k" k xs] by (simp add: add.commute)
  then show ?case using Suc by simp
qed simp

text \<open>The row loop of the packer lays the rows out one after the other.\<close>

lemma place_rows:
  assumes "\<And>i. i < R \<Longrightarrow> pack_row layout bits q i = Inr (rb i)" "\<And>i. i < R \<Longrightarrow> length (rb i) = nat (kl_row_stride_bytes layout)"
    and "r \<le> R" and "length out = R * nat (kl_row_stride_bytes layout)"
  shows "forE (place_row layout bits q) [0..<r] out
    = Inr (concat (map rb [0..<r]) @ drop (r * nat (kl_row_stride_bytes layout)) out)"
  using assms(3)
proof (induction r)
  case 0
  then show ?case by simp
next
  case (Suc r)
  define S where "S = nat (kl_row_stride_bytes layout)"
  let ?A = "concat (map rb [0..<r])"
  have A: "length ?A = r * S"
    unfolding S_def using assms(2) Suc.prems by (intro length_concat_const) simp
  have "slice_assign (r * S) (r * S + S) (rb r) (?A @ drop (r * S) out) = ?A @ rb r @ drop (Suc r * S) out"
    by (simp add: slice_assign_def A add.commute)
  then have "place_row layout bits q r (?A @ drop (r * S) out) = Inr (concat (map rb [0..<Suc r]) @ drop (Suc r * S) out)"
    using assms(1) [of r] Suc.prems by (simp add: place_row_def S_def Let_def)
  moreover have "forE (place_row layout bits q) [0..<r] out = Inr (?A @ drop (r * S) out)"
    using Suc by (simp add: S_def)
  moreover have "[0..<Suc r] = [0..<r] @ [r]" by simp
  ultimately show ?case by (simp only: forE_append bindE.simps forE.simps S_def)
qed

lemma pack_canonical_length:
  assumes "pack_canonical (map of_int cs) bits o' = Inr bs"
  shows "packed_row_bytes bits (int (length cs)) = Inr (int (length bs))"
proof -
  have "known_order o'" using assms by (auto simp: pack_canonical_def split: if_splits)
  then have "bits = 4 \<and> bs = pack4 o' cs \<or> bits = 8 \<and> bs = map word_of_int cs"
    using assms pack_canonical_of_int [of o' cs bits] by (auto split: if_splits)
  then show ?thesis by (auto simp: packed_row_bytes_def zdiv_int)
qed

text \<open>What a row decoder has to do: invert the packing of codes that fit.\<close>

locale row_decoder =
  fixes dec :: "byte list \<Rightarrow> int \<Rightarrow> int \<Rightarrow> string \<Rightarrow> int list res"
  assumes dec_pack: "pack_canonical (map of_int cs) bits o' = Inr bs \<Longrightarrow> fits bits cs \<Longrightarrow> cs \<noteq> []
    \<Longrightarrow> dec bs (int (length cs)) bits o' = Inr cs"
begin

lemma dec_injective:
  "pack_canonical (map of_int cs) bits o' = Inr bs \<Longrightarrow> pack_canonical (map of_int cs') bits o' = Inr bs
    \<Longrightarrow> fits bits cs \<Longrightarrow> fits bits cs' \<Longrightarrow> length cs = length cs' \<Longrightarrow> cs = cs'"
  using dec_pack [of cs bits o' bs] dec_pack [of cs' bits o' bs] by (metis length_0_conv sum.inject(2))

text \<open>The row loop of the decoder, when every row is the packed form of its padded codes.\<close>

lemma decode_rows:
  assumes row: "\<And>i o''. i < R \<Longrightarrow> f i o'' = bindE (dec (bs i) (int (length (vals i))) bits o') (\<lambda>vs. Inr (o'' @ take C vs))"
    and pk: "\<And>i. i < R \<Longrightarrow> pack_canonical (map of_int (vals i)) bits o' = Inr (bs i) \<and> fits bits (vals i) \<and> vals i \<noteq> []"
    and "r \<le> R"
  shows "forE f [0..<r] out = Inr (out @ concat (map (\<lambda>i. take C (vals i)) [0..<r]))"
  using assms(3)
proof (induction r)
  case 0
  then show ?case by simp
next
  case (Suc r)
  then show ?case using row [of r] pk [of r] dec_pack [of "vals r"] by (simp add: forE_append)
qed

end

interpretation canonical: row_decoder "\<lambda>bs count bits o'. unpack_canonical bs count bits None o'"
  by unfold_locales (rule unpack_pack_canonical)

interpretation independent_dec: row_decoder unpack_independent
proof
  fix cs bits o' bs
  assume a: "pack_canonical (map of_int cs) bits o' = Inr bs" "fits bits cs" "cs \<noteq> []"
  have o': "known_order o'" using a(1) by (auto simp: pack_canonical_def split: if_splits)
  have "0 < int (length cs)" using a(3) by simp
  moreover from this have "0 < (int (length cs) + 1) div 2" by linarith
  ultimately have "0 < int (length bs)" using pack_canonical_length [OF a(1)]
    by (auto simp: packed_row_bytes_def split: if_splits)
  then have "bs \<noteq> []" by auto
  then show "unpack_independent bs (int (length cs)) bits o' = Inr cs"
    using decoders_agree [OF o'] unpack_pack_canonical [OF a] by blast
qed

lemma plan_facts:
  assumes "plan_kernel_layout scheme rows cols layout_id alignment ph = Inr l"
  shows "0 \<le> rows" "0 \<le> cols" "kl_rows l = rows" "kl_cols l = cols" "known_order (kl_nibble_order l)"
    "kl_alignment l = alignment" "0 < alignment" "kl_payload_bytes l = rows * kl_row_stride_bytes l"
    "qs_bits scheme = 4 \<or> qs_bits scheme = 8"
    "kl_padded_cols l = cols + (if qs_bits scheme = 4 \<and> cols mod 2 \<noteq> 0 then 1 else 0)"
    "\<exists>n. packed_row_bytes (qs_bits scheme) (kl_padded_cols l) = Inr n
       \<and> kl_row_stride_bytes l = ((n + alignment - 1) div alignment) * alignment"
proof -
  have a: "\<not> (rows < 0 \<or> cols < 0)" by (rule ccontr) (use assms in \<open>simp add: plan_kernel_layout_def\<close>)
  obtain lb o' where k: "map_of KNOWN_LAYOUTS (resolved_layout scheme layout_id) = Some (lb, o')"
    using assms a by (cases "map_of KNOWN_LAYOUTS (resolved_layout scheme layout_id)") (auto simp: plan_kernel_layout_def)
  have b: "lb = qs_bits scheme" by (rule ccontr) (use assms a k in \<open>simp add: plan_kernel_layout_def\<close>)
  have c: "\<not> (alignment \<le> 0 \<or> alignment mod 2 \<noteq> 0)" by (rule ccontr) (use assms a k b in \<open>simp add: plan_kernel_layout_def\<close>)
  define pc where "pc = cols + (if qs_bits scheme = 4 \<and> cols mod 2 \<noteq> 0 then 1 else 0)"
  obtain n where n: "packed_row_bytes (qs_bits scheme) pc = Inr n"
    using assms a k b c by (cases "packed_row_bytes (qs_bits scheme) pc") (auto simp: plan_kernel_layout_def Let_def pc_def)
  have "kl_rows l = rows \<and> kl_cols l = cols \<and> kl_nibble_order l = o' \<and> kl_alignment l = alignment
      \<and> kl_row_stride_bytes l = ((n + alignment - 1) div alignment) * alignment
      \<and> kl_payload_bytes l = rows * kl_row_stride_bytes l \<and> kl_padded_cols l = pc"
    using assms a k b c n by (auto simp: plan_kernel_layout_def Let_def pc_def result_simps)
  moreover have "known_order o'" "lb = 4 \<or> lb = 8" using k by (auto simp: KNOWN_LAYOUTS_def split: if_splits)
  ultimately show "0 \<le> rows" "0 \<le> cols" "kl_rows l = rows" "kl_cols l = cols" "known_order (kl_nibble_order l)"
    "kl_alignment l = alignment" "0 < alignment" "kl_payload_bytes l = rows * kl_row_stride_bytes l"
    "qs_bits scheme = 4 \<or> qs_bits scheme = 8"
    "kl_padded_cols l = cols + (if qs_bits scheme = 4 \<and> cols mod 2 \<noteq> 0 then 1 else 0)"
    "\<exists>n. packed_row_bytes (qs_bits scheme) (kl_padded_cols l) = Inr n
       \<and> kl_row_stride_bytes l = ((n + alignment - 1) div alignment) * alignment"
    using a b c n unfolding pc_def by simp_all
qed

text \<open>The codes of one row with their padding, and what the packer makes of a whole matrix.\<close>

definition row_codes :: "quant_scheme \<Rightarrow> nat \<Rightarrow> int list \<Rightarrow> nat \<Rightarrow> int list" where
  "row_codes scheme C q i = take C (drop (i * C) q) @ (if qs_bits scheme = 4 \<and> C mod 2 \<noteq> 0 then [0] else [])"

lemma stride_ge:
  fixes n a :: int
  shows "0 < a \<Longrightarrow> n \<le> ((n + a - 1) div a) * a"
proof -
  assume a: "0 < a"
  have "(n + a - 1) = (n + a - 1) div a * a + (n + a - 1) mod a" by simp
  moreover have "(n + a - 1) mod a < a" using a by simp
  ultimately show ?thesis by linarith
qed

lemma valid_codes_fit:
  assumes "validate_codes (map of_int cs) scheme = Inr ()" "qs_bits scheme = 4 \<or> qs_bits scheme = 8"
  shows "fits (qs_bits scheme) cs"
proof -
  obtain qmin qmax where r: "integer_range (qs_bits scheme) (qs_range_policy scheme) = Inr (qmin, qmax)"
    and c: "\<forall>c \<in> set cs. qmin \<le> c \<and> c \<le> qmax"
    using assms(1) by (auto simp: validate_codes_def scheme_range_def result_simps list_all_iff split: prod.splits)
  show ?thesis using integer_range_bounds [OF r] c assms(2) by (fastforce simp: fits_def list_all_iff)
qed

lemma row_in_matrix:
  fixes C R i :: nat
  assumes "i < R"
  shows "i * C + C \<le> R * C"
  using assms by (metis Suc_leI mult_Suc mult_le_mono1 add.commute)

lemma row_length: "i < R \<Longrightarrow> length q = R * C \<Longrightarrow> length (take C (drop (i * C) q)) = C"
  using row_in_matrix [of i R C] by (simp add: min_absorb2)

lemma packed_rows:
  assumes p: "pack_kernel_variant (map of_int q) scales zeros scheme rows cols lid al ph = Inr p" and "0 < cols"
  obtains l bs n where "plan_kernel_layout scheme rows cols lid al ph = Inr l" "pk_layout p = l"
    "int (length q) = rows * cols" "validate_codes (map of_int q) scheme = Inr ()"
    "packed_row_bytes (qs_bits scheme) (kl_padded_cols l) = Inr (int n)" "n \<le> nat (kl_row_stride_bytes l)"
    "pk_payload p = concat (map (\<lambda>i. bs i @ replicate (nat (kl_row_stride_bytes l) - n) 0) [0..<nat rows])"
    "\<forall>i < nat rows. length (bs i) = n
       \<and> pack_canonical (map of_int (row_codes scheme (nat cols) q i)) (qs_bits scheme) (kl_nibble_order l) = Inr (bs i)
       \<and> fits (qs_bits scheme) (row_codes scheme (nat cols) q i)
       \<and> int (length (row_codes scheme (nat cols) q i)) = kl_padded_cols l"
proof -
  obtain l where l: "plan_kernel_layout scheme rows cols lid al ph = Inr l" and lq: "int (length q) = rows * cols"
    and v: "validate_codes (map of_int q) scheme = Inr ()" and pl: "pk_layout p = l"
    and out: "forE (place_row l (qs_bits scheme) (map of_int q)) [0..<nat rows] (replicate (nat (kl_payload_bytes l)) 0) = Inr (pk_payload p)"
    using p by (auto simp: pack_kernel_variant_def result_simps)
  note f = plan_facts [OF l]
  let ?C = "nat cols" and ?b = "qs_bits scheme" and ?S = "nat (kl_row_stride_bytes l)" and ?o = "kl_nibble_order l"
  obtain m where m: "packed_row_bytes ?b (kl_padded_cols l) = Inr m" "kl_row_stride_bytes l = ((m + al - 1) div al) * al"
    using f(11) by blast
  have m0: "0 \<le> m" using m(1) f(2,9,10) by (auto simp: packed_row_bytes_def split: if_splits)
  define n where "n = nat m"
  have nS: "n \<le> ?S" using stride_ge [OF f(7), of m] m(2) by (simp add: n_def nat_mono)
  define bs where "bs i = (if ?b = 4 then pack4 ?o (row_codes scheme ?C q i) else map word_of_int (row_codes scheme ?C q i))" for i
  have lenq: "length q = nat rows * ?C" using lq f(1,2) by (metis nat_int nat_mult_distrib)
  have par: "odd ?C \<longleftrightarrow> cols mod 2 \<noteq> 0" using assms(2) even_nat_iff [of cols] by (metis even_iff_mod_2_eq_zero less_imp_le)
  have len: "int (length (row_codes scheme ?C q i)) = kl_padded_cols l" if "i < nat rows" for i
    using row_length [OF that lenq] f(10) par assms(2) by (simp add: row_codes_def odd_iff_mod_2_eq_one)
  have fit: "fits ?b (row_codes scheme ?C q i)" for i
    using valid_codes_fit [OF v f(9)] f(9)
    by (auto simp: fits_def row_codes_def list_all_iff dest: in_set_takeD in_set_dropD)
  have pk: "pack_canonical (map of_int (row_codes scheme ?C q i)) ?b ?o = Inr (bs i)" for i
    using f(9) pack_canonical_of_int [OF f(5), of "row_codes scheme ?C q i" ?b] by (auto simp: bs_def)
  have lb: "length (bs i) = n" if "i < nat rows" for i
    using pack_canonical_length [OF pk, of i] len [OF that] m(1) by (simp add: n_def)
  have "pack_row l ?b (map of_int q) i = Inr (bs i @ replicate (?S - n) 0)" if "i < nat rows" for i
  proof -
    have "map trunc_rat (take ?C (drop (i * ?C) (map of_int q))) = take ?C (drop (i * ?C) q)"
      by (simp add: take_map drop_map comp_def)
    then have "pack_row l ?b (map of_int q) i = bindE (pack_canonical (map of_int (row_codes scheme ?C q i)) ?b ?o)
        (\<lambda>packed. Inr (slice_assign 0 (length packed) packed (replicate ?S 0)))"
      using f(4,10) par by (simp add: pack_row_def row_codes_def Let_def odd_iff_mod_2_eq_one)
    then show ?thesis by (simp add: pk slice_assign_def lb [OF that])
  qed
  moreover have "length (replicate (nat (kl_payload_bytes l)) (0 :: byte)) = nat rows * ?S" using f(1,8) by (simp add: nat_mult_distrib)
  ultimately have "pk_payload p = concat (map (\<lambda>i. bs i @ replicate (?S - n) 0) [0..<nat rows])"
    using place_rows [of "nat rows" l ?b "map of_int q" "\<lambda>i. bs i @ replicate (?S - n) 0" "nat rows"] out lb nS by simp
  moreover have "packed_row_bytes ?b (kl_padded_cols l) = Inr (int n)" using m(1) m0 by (simp add: n_def)
  ultimately show thesis using that [of l n bs] l pl lq v nS lb pk fit len by blast
qed

context row_decoder begin

text \<open>A kernel variant decodes to the codes it was packed from, whichever decoder reads the rows.\<close>

lemma unpack_packed:
  assumes p: "pack_kernel_variant (map of_int q) scales zeros scheme rows cols lid al ph = Inr p" and "0 < cols"
    and u: "\<And>bs count. (if indep then unpack_independent bs count (qs_bits scheme) (kl_nibble_order (pk_layout p))
        else unpack_canonical bs count (qs_bits scheme) None (kl_nibble_order (pk_layout p)))
      = dec bs count (qs_bits scheme) (kl_nibble_order (pk_layout p))"
  shows "unpack_kernel_variant p scheme indep = Inr q"
proof -
  obtain l bs n where l: "plan_kernel_layout scheme rows cols lid al ph = Inr l" "pk_layout p = l"
    and lq: "int (length q) = rows * cols" and v: "validate_codes (map of_int q) scheme = Inr ()"
    and n: "packed_row_bytes (qs_bits scheme) (kl_padded_cols l) = Inr (int n)" "n \<le> nat (kl_row_stride_bytes l)"
    and pl: "pk_payload p = concat (map (\<lambda>i. bs i @ replicate (nat (kl_row_stride_bytes l) - n) 0) [0..<nat rows])"
    and r': "\<forall>i < nat rows. length (bs i) = n
       \<and> pack_canonical (map of_int (row_codes scheme (nat cols) q i)) (qs_bits scheme) (kl_nibble_order l) = Inr (bs i)
       \<and> fits (qs_bits scheme) (row_codes scheme (nat cols) q i)
       \<and> int (length (row_codes scheme (nat cols) q i)) = kl_padded_cols l"
    by (rule packed_rows [OF p assms(2)], rule that, assumption+)
  note r = r' [rule_format]
  note f = plan_facts [OF l(1)]
  let ?S = "nat (kl_row_stride_bytes l)" and ?rb = "\<lambda>i. bs i @ replicate (nat (kl_row_stride_bytes l) - n) 0"
  have lenr: "length (?rb i) = ?S" if "i < nat rows" for i using r [OF that] n(2) by simp
  have "length (pk_payload p) = nat rows * ?S" unfolding pl using lenr by (rule length_concat_const)
  moreover have s0: "0 \<le> kl_row_stride_bytes l" using f(11) f(7) n(1) by (auto simp: pos_imp_zdiv_nonneg_iff)
  ultimately have lp: "int (length (pk_payload p)) = kl_payload_bytes l" using f(1,8) by simp
  have am: "kl_payload_bytes l mod kl_alignment l = 0" using f(6,8,11) by auto
  have row: "unpack_row p scheme indep i out = bindE (dec (bs i) (int (length (row_codes scheme (nat cols) q i))) (qs_bits scheme)
      (kl_nibble_order l)) (\<lambda>vs. Inr (out @ take (nat cols) vs))" if i: "i < nat rows" for i out
  proof -
    have "take ?S (drop (i * ?S) (pk_payload p)) = ?rb i" unfolding pl using lenr i by (rule slice_concat)
    then have "take n (take ?S (drop (i * ?S) (pk_payload p))) = bs i" using r [OF i] by simp
    then show ?thesis using r [OF i] n(1) f(4) u [of "bs i" "kl_padded_cols l"]
      by (cases indep) (simp_all add: unpack_row_def Let_def l(2))
  qed
  have lenq: "length q = nat rows * nat cols" using lq f(1,2) by (metis nat_int nat_mult_distrib)
  have "take (nat cols) (row_codes scheme (nat cols) q i) = take (nat cols) (drop (i * nat cols) q)" if "i < nat rows" for i
    using row_length [OF that lenq] by (simp add: row_codes_def)
  then have "map (\<lambda>i. take (nat cols) (row_codes scheme (nat cols) q i)) [0..<nat rows]
      = map (\<lambda>i. take (nat cols) (drop (i * nat cols) q)) [0..<nat rows]" by simp
  then have m: "concat (map (\<lambda>i. take (nat cols) (row_codes scheme (nat cols) q i)) [0..<nat rows]) = q"
    using concat_slices [of "nat rows" "nat cols" q] lenq by (simp only: order_refl take_all_iff simp_thms)
  have "row_codes scheme (nat cols) q i \<noteq> []" if "i < nat rows" for i
    using r [OF that] f(2,10) assms(2) by (auto split: if_splits)
  then have "forE (unpack_row p scheme indep) [0..<nat rows] []
      = Inr ([] @ concat (map (\<lambda>i. take (nat cols) (row_codes scheme (nat cols) q i)) [0..<nat rows]))"
    by (intro decode_rows [where R = "nat rows" and bs = bs and bits = "qs_bits scheme" and o' = "kl_nibble_order l"] row) (use r in auto)
  then have "forE (unpack_row p scheme indep) [0..<nat rows] [] = Inr q" using m by simp
  then show ?thesis using lp am f(3,4,6,7) lq v by (simp add: unpack_kernel_variant_def Let_def l(2))
qed

end

text \<open>A matrix without columns: its payload is empty, and every row decodes to no codes or not at all.\<close>

lemma forE_same: "(\<And>x. x \<in> set xs \<Longrightarrow> f x s = Inr s) \<Longrightarrow> forE f xs s = Inr s"
  by (induction xs) simp_all

lemma unpack_no_columns:
  assumes p: "pack_kernel_variant (map of_int q) scales zeros scheme rows 0 lid al ph = Inr p"
  shows "q = []" "unpack_kernel_variant p scheme True = Inr q"
    "unpack_kernel_variant p scheme False = (if qs_bits scheme = 4 \<and> 0 < rows then Inl IndexError else Inr q)"
proof -
  obtain l where l: "plan_kernel_layout scheme rows 0 lid al ph = Inr l" and lq: "int (length q) = rows * 0"
    and v: "validate_codes (map of_int q) scheme = Inr ()" and pl: "pk_layout p = l" "int (length (pk_payload p)) = kl_payload_bytes l"
    using p by (auto simp: pack_kernel_variant_def result_simps)
  note f = plan_facts [OF l]
  show q: "q = []" using lq by simp
  obtain n where n: "packed_row_bytes (qs_bits scheme) (kl_padded_cols l) = Inr n"
      "kl_row_stride_bytes l = ((n + al - 1) div al) * al" using f(11) by blast
  have pc: "kl_padded_cols l = 0" using f(10) by simp
  then have n0: "n = 0" using n(1) f(9) by (auto simp: packed_row_bytes_def)
  then have stride: "kl_row_stride_bytes l = 0" using n(2) f(7) by simp
  then have empty: "pk_payload p = []" "kl_payload_bytes l = 0" using pl f(8) by simp_all
  have o': "kl_nibble_order l \<in> {NIBBLE_LOW_FIRST, NIBBLE_HIGH_FIRST}" using f(5) by simp
  have row: "unpack_row p scheme indep i out = bindE
      (if indep then unpack_independent [] 0 (qs_bits scheme) (kl_nibble_order l)
       else unpack_canonical [] 0 (qs_bits scheme) None (kl_nibble_order l)) (\<lambda>vs. Inr out)" for indep i out
    using n(1) n0 pc f(4) by (simp add: unpack_row_def Let_def pl empty)
  have done': "unpack_kernel_variant p scheme indep = bindE (forE (unpack_row p scheme indep) [0..<nat rows] [])
      (\<lambda>out. bindE (ensure (out = []) bad_length) (\<lambda>_. bindE (validate_codes (map of_int out) scheme) (\<lambda>_. Inr out)))" for indep
    using empty f(3,4,6,7) by (simp add: unpack_kernel_variant_def Let_def pl)
  have ok: "unpack_kernel_variant p scheme indep = Inr q" if "\<And>i. i < nat rows \<Longrightarrow> unpack_row p scheme indep i [] = Inr []" for indep
    using forE_same [of "[0..<nat rows]" "unpack_row p scheme indep" "[]"] that v unfolding done' q by simp
  show "unpack_kernel_variant p scheme True = Inr q" using f(9) by (intro ok) (auto simp: row empty_payload [OF o'])
  show "unpack_kernel_variant p scheme False = (if qs_bits scheme = 4 \<and> 0 < rows then Inl IndexError else Inr q)"
  proof (cases "qs_bits scheme = 4 \<and> 0 < rows")
    case True
    then have "[0..<nat rows] = 0 # [1..<nat rows]" by (simp add: upt_conv_Cons)
    then show ?thesis unfolding done' using True by (simp add: row empty_payload [OF o'])
  next
    case False
    then show ?thesis using f(9) ok [of False] by (auto simp: row empty_payload [OF o'])
  qed
qed

text \<open>C14: a kernel variant is lossless: whenever packing a matrix of codes succeeds, the independent decoder
  returns exactly those codes, and so does the canonical one, except for 4-bit matrices that have rows but
  no columns, which it refuses with an \<open>IndexError\<close>; the payload
  has the planned size and every row starts on an alignment boundary.\<close>

theorem kernel_variant_roundtrip:
  assumes "pack_kernel_variant (map of_int q) scales zeros scheme rows cols layout_id alignment parent = Inr p"
  shows "unpack_kernel_variant p scheme True = Inr q
    \<and> unpack_kernel_variant p scheme False = (if qs_bits scheme = 4 \<and> cols = 0 \<and> 0 < rows then Inl IndexError else Inr q)
    \<and> int (length (pk_payload p)) = rows * kl_row_stride_bytes (pk_layout p)
    \<and> alignment dvd kl_row_stride_bytes (pk_layout p)"
proof -
  obtain l where l: "plan_kernel_layout scheme rows cols layout_id alignment parent = Inr l" "pk_layout p = l"
    "int (length (pk_payload p)) = kl_payload_bytes l"
    using assms(1) by (auto simp: pack_kernel_variant_def result_simps)
  note f = plan_facts [OF l(1)]
  have "unpack_kernel_variant p scheme True = Inr q
    \<and> unpack_kernel_variant p scheme False = (if qs_bits scheme = 4 \<and> cols = 0 \<and> 0 < rows then Inl IndexError else Inr q)"
  proof (cases "cols = 0")
    case True
    then show ?thesis using unpack_no_columns [OF assms [unfolded True]] by simp
  next
    case False
    then have c: "0 < cols" using f(2) by simp
    have "unpack_kernel_variant p scheme False = Inr q" "unpack_kernel_variant p scheme True = Inr q"
      by (rule canonical.unpack_packed [OF assms c], simp) (rule independent_dec.unpack_packed [OF assms c], simp)
    then show ?thesis using False by simp
  qed
  moreover have "alignment dvd kl_row_stride_bytes l" using f(11) by auto
  ultimately show ?thesis using l f(8) by simp
qed

theorem kernel_variant_roundtrip_witness:
  "\<exists>p. pack_kernel_variant (map of_int [7, - 7, 0, 1, 2, 3]) [Finite 1, Finite (1/2)] [] MAIN_W4 2 3 None 16 None = Inr p
     \<and> unpack_kernel_variant p MAIN_W4 True = Inr [7, - 7, 0, 1, 2, 3]"
proof -
  have "is_ok (pack_kernel_variant (map of_int [7, - 7, 0, 1, 2, 3]) [Finite 1, Finite (1/2)] [] MAIN_W4 2 3 None 16 None)"
    by code_simp
  then obtain p where p: "pack_kernel_variant (map of_int [7, - 7, 0, 1, 2, 3]) [Finite 1, Finite (1/2)] [] MAIN_W4 2 3 None 16 None = Inr p"
    by (auto simp: is_ok_iff)
  from kernel_variant_roundtrip [OF p] p show ?thesis by auto
qed

text \<open>The empty matrix breaks the canonical decoder: a row without columns packs to an empty payload,
  which the independent decoder reads back and the canonical one refuses with an \<open>IndexError\<close>; and a
  non-integral code that lies in the range is silently truncated by the kernel packer, although the
  canonical packer refuses it.\<close>

theorem packing_boundary_faults:
  "unpack_canonical [] 0 4 None NIBBLE_LOW_FIRST = Inl IndexError \<and> unpack_independent [] 0 4 NIBBLE_LOW_FIRST = Inr []
   \<and> pack_canonical [] 4 NIBBLE_LOW_FIRST = Inr []
   \<and> pack_canonical [3/2, 0] 4 NIBBLE_LOW_FIRST = Inl code_out_of_range
   \<and> map_sum id (\<lambda>p. unpack_kernel_variant p MAIN_W4 False)
       (pack_kernel_variant [3/2, 0] [Finite 1] [] MAIN_W4 1 2 None 16 None) = Inr (Inr [1, 0])"
  by code_simp

end
