(* ===== verification/Prefix_Key.thy ===== *)
theory Prefix_Key
  imports Errors
begin

text \<open>
  The keys of the prefix cache (\<open>hqsb/runtime/prefix_cache.py\<close>): the fields a key must bind, the token
  digest, the canonical JSON text the digest covers, and the matching predicates. The hash function is
  an argument (\<open>sha256\<close>, the hexadecimal digest of a text); the JSON encoder of the standard library is
  modelled for strings of code points below 256.
\<close>

section \<open>Texts\<close>

definition str_int :: "int \<Rightarrow> string" where
  "str_int i = (if i < 0 then CHR ''-'' # str_nat (nat (- i)) else str_nat (nat i))"

fun join :: "string \<Rightarrow> string list \<Rightarrow> string" where
  "join sep [] = ''''"
| "join sep [s] = s"
| "join sep (s # ss) = s @ sep @ join sep ss"

definition hex_digit :: "nat \<Rightarrow> char" where
  "hex_digit n = ''0123456789abcdef'' ! n"

text \<open>\<open>json.dumps\<close> with its default \<open>ensure_ascii\<close>: everything outside the printable ASCII range is escaped.\<close>

definition json_char :: "char \<Rightarrow> string" where
  "json_char c =
     (if c = CHR 0x22 then [CHR 0x5C, CHR 0x22]
      else if c = CHR 0x5C then [CHR 0x5C, CHR 0x5C]
      else if c = CHR 0x0A then [CHR 0x5C, CHR ''n'']
      else if c = CHR 0x0D then [CHR 0x5C, CHR ''r'']
      else if c = CHR 0x09 then [CHR 0x5C, CHR ''t'']
      else if c = CHR 0x0C then [CHR 0x5C, CHR ''f'']
      else if c = CHR 0x08 then [CHR 0x5C, CHR ''b'']
      else let n = of_char c :: nat in
        if n < 32 \<or> 126 < n then [CHR 0x5C, CHR ''u'', CHR ''0'', CHR ''0'', hex_digit (n div 16), hex_digit (n mod 16)]
        else [c])"

definition json_string :: "string \<Rightarrow> string" where
  "json_string s = CHR 0x22 # concat (map json_char s) @ [CHR 0x22]"

text \<open>\<open>json.dumps(payload, sort_keys=True)\<close> of a dictionary of strings.\<close>

definition json_dict :: "(string \<times> string) list \<Rightarrow> string" where
  "json_dict kvs = CHR ''{'' # join '', '' (map (\<lambda>(k, v). json_string k @ '': '' @ json_string v) (sort_key fst kvs)) @ ''}''"

section \<open>Keys\<close>

definition CACHE_KEY_FIELDS :: "string list" where
  "CACHE_KEY_FIELDS = [''model_id'', ''weight_revision'', ''precision'', ''quant_artifact_hash'', ''adapter_hash'', ''tokenizer_id'',
     ''chat_template_hash'', ''rope_config_hash'', ''attention_config_hash'', ''cache_layout_version'', ''block_group'',
     ''tenant_domain'', ''multimodal_identity'']"

definition SPAN_KEY_FIELDS :: "string list" where
  "SPAN_KEY_FIELDS = [''parent_chain_digest'', ''block_token_sequence_hash'']"

definition ALL_KEY_FIELDS :: "string list" where
  "ALL_KEY_FIELDS = CACHE_KEY_FIELDS @ SPAN_KEY_FIELDS"

definition token_digest :: "(string \<Rightarrow> string) \<Rightarrow> int list \<Rightarrow> string" where
  "token_digest sha256 tokens = sha256 (join '','' (map str_int tokens))"

record prefix_key =
  ky_fields :: "(string \<times> string) list"
  ky_tokens :: "int list"
  ky_digest :: string

definition key_check :: "prefix_key \<Rightarrow> prefix_key res" where
  "key_check k = (if list_all (\<lambda>name. map_of (ky_fields k) name \<noteq> None) ALL_KEY_FIELDS then Inr k
     else Inl (ConfigError ''prefix key''))"

text \<open>The value of a field of a complete key.\<close>

definition ky_field :: "prefix_key \<Rightarrow> string \<Rightarrow> string" where
  "ky_field k name = the (map_of (ky_fields k) name)"

definition ky_length :: "prefix_key \<Rightarrow> int" where
  "ky_length k = int (length (ky_tokens k))"

definition content_digest :: "(string \<Rightarrow> string) \<Rightarrow> prefix_key \<Rightarrow> string" where
  "content_digest sha256 k = token_digest sha256 (ky_tokens k)"

definition canonical_text :: "(string \<Rightarrow> string) \<Rightarrow> prefix_key \<Rightarrow> string" where
  "canonical_text sha256 k =
     json_dict (map (\<lambda>name. (name, ky_field k name)) ALL_KEY_FIELDS @ [(''content_digest'', content_digest sha256 k)])"

definition compute_digest :: "(string \<Rightarrow> string) \<Rightarrow> prefix_key \<Rightarrow> string" where
  "compute_digest sha256 k = sha256 (canonical_text sha256 k)"

definition effective_digest :: "(string \<Rightarrow> string) \<Rightarrow> prefix_key \<Rightarrow> string" where
  "effective_digest sha256 k = (if ky_digest k \<noteq> '''' then ky_digest k else compute_digest sha256 k)"

definition identity_matches :: "prefix_key \<Rightarrow> prefix_key \<Rightarrow> bool" where
  "identity_matches k k' \<longleftrightarrow> list_all (\<lambda>name. ky_field k name = ky_field k' name) CACHE_KEY_FIELDS"

definition span_matches :: "prefix_key \<Rightarrow> prefix_key \<Rightarrow> bool" where
  "span_matches k k' \<longleftrightarrow> list_all (\<lambda>name. ky_field k name = ky_field k' name) SPAN_KEY_FIELDS"

definition content_matches :: "prefix_key \<Rightarrow> prefix_key \<Rightarrow> bool" where
  "content_matches k k' \<longleftrightarrow> ky_tokens k = ky_tokens k'"

definition key_matches :: "prefix_key \<Rightarrow> prefix_key \<Rightarrow> bool" where
  "key_matches k k' \<longleftrightarrow> identity_matches k k' \<and> span_matches k k' \<and> content_matches k k'"

text \<open>The keyword arguments of \<open>build_prefix_key\<close> besides the identity, the tokens and the span.\<close>

record key_options =
  ko_parent_chain_digest :: string
  ko_block_group :: string
  ko_tenant_domain :: string
  ko_cache_layout_version :: string
  ko_multimodal_identity :: string
  ko_block_size :: int

definition default_key_options :: key_options where
  "default_key_options = \<lparr>ko_parent_chain_digest = '''', ko_block_group = ''full_attention'', ko_tenant_domain = ''shared'',
     ko_cache_layout_version = ''1.0.0'', ko_multimodal_identity = '''', ko_block_size = 0\<rparr>"

text \<open>Python's \<open>xs[a:b]\<close> for \<open>0 \<le> a\<close>: an end below zero counts from the end of the list.\<close>

definition py_slice :: "int \<Rightarrow> int \<Rightarrow> 'a list \<Rightarrow> 'a list" where
  "py_slice a b xs = (let e = (if b < 0 then max 0 (b + int (length xs)) else b) in drop (nat a) (take (nat e) xs))"

definition build_prefix_key ::
  "(string \<Rightarrow> string) \<Rightarrow> (string \<times> string) list \<Rightarrow> int list \<Rightarrow> int \<times> int \<Rightarrow> key_options \<Rightarrow> prefix_key res" where
  "build_prefix_key sha256 identity tokens token_span opts =
     (let (start, stop) = token_span in
      if start < 0 \<or> stop > int (length tokens) then Inl (ConfigError ''token_span'')
      else
        let stop' = (if ko_block_size opts \<noteq> 0 then start + ((stop - start) div ko_block_size opts) * ko_block_size opts else stop);
            span = py_slice start stop' tokens;
            ident = (\<lambda>name. (name, case map_of identity name of None \<Rightarrow> '''' | Some v \<Rightarrow> v))
        in key_check \<lparr>ky_fields =
             [ident ''model_id'', ident ''weight_revision'', ident ''precision'', ident ''quant_artifact_hash'', ident ''adapter_hash'',
              ident ''tokenizer_id'', ident ''chat_template_hash'', ident ''rope_config_hash'', ident ''attention_config_hash'',
              (''cache_layout_version'', ko_cache_layout_version opts), (''block_group'', ko_block_group opts),
              (''tenant_domain'', ko_tenant_domain opts), (''multimodal_identity'', ko_multimodal_identity opts),
              (''parent_chain_digest'', if ko_parent_chain_digest opts \<noteq> '''' then ko_parent_chain_digest opts
                 else token_digest sha256 (py_slice 0 start tokens)),
              (''block_token_sequence_hash'', token_digest sha256 span)],
             ky_tokens = span, ky_digest = ''''\<rparr>)"

section \<open>The canonical text determines the key\<close>

text \<open>A reader for one JSON character, which inverts the encoder.\<close>

definition hex_value :: "char \<Rightarrow> nat" where
  "hex_value c = (let n = of_char c :: nat in if n < 58 then n - 48 else n - 87)"

fun json_read :: "string \<Rightarrow> (char \<times> string) option" where
  "json_read (CHR 0x5C # x # r) =
     (if x = CHR ''n'' then Some (CHR 0x0A, r) else if x = CHR ''r'' then Some (CHR 0x0D, r)
      else if x = CHR ''t'' then Some (CHR 0x09, r) else if x = CHR ''f'' then Some (CHR 0x0C, r)
      else if x = CHR ''b'' then Some (CHR 0x08, r)
      else if x = CHR ''u'' then Some (char_of (16 * hex_value (r ! 2) + hex_value (r ! 3)), drop 4 r)
      else Some (x, r))"
| "json_read (c # r) = Some (c, r)"
| "json_read [] = None"

lemma hex_round: "n < 16 \<Longrightarrow> hex_value (hex_digit n) = n"
proof -
  have "list_all (\<lambda>n. hex_value (hex_digit n) = n) [0..<16]" by code_simp
  then show "n < 16 \<Longrightarrow> ?thesis" by (simp only: list_all_iff set_upt) simp
qed

lemma json_read_plain: "c \<noteq> CHR 0x5C \<Longrightarrow> json_read (c # r) = Some (c, r)"
  by (cases c; cases r) (auto split: if_splits)

lemma json_read_char: "json_read (json_char c @ r) = Some (c, r)"
proof -
  let ?n = "of_char c :: nat"
  have n: "?n < 256" by (rule nat_of_char_less_256)
  have d: "?n div 16 < 16" using n by (intro less_mult_imp_div_less) simp
  have "16 * hex_value (hex_digit (?n div 16)) + hex_value (hex_digit (?n mod 16)) = ?n"
    using hex_round [OF d] hex_round [of "?n mod 16"] by simp
  then show ?thesis by (auto simp: json_char_def Let_def json_read_plain)
qed

lemma json_char_start: "\<exists>x r. json_char c = x # r \<and> x \<noteq> CHR 0x22"
  by (simp add: json_char_def Let_def)

lemma json_body_split:
  "concat (map json_char s) @ CHR 0x22 # r = concat (map json_char s') @ CHR 0x22 # r' \<Longrightarrow> s = s' \<and> r = r'"
proof (induction s arbitrary: s')
  case Nil
  then show ?case using json_char_start by (cases s') (auto, metis append_Cons list.inject)
next
  case (Cons c s)
  show ?case
  proof (cases s')
    case Nil
    then show ?thesis using Cons.prems json_char_start [of c] by auto
  next
    case (Cons c' t')
    have "json_read (json_char c @ concat (map json_char s) @ CHR 0x22 # r)
        = json_read (json_char c' @ concat (map json_char t') @ CHR 0x22 # r')"
      using Cons.prems Cons by simp
    then show ?thesis using Cons.IH [of t'] Cons by (simp add: json_read_char)
  qed
qed

lemma json_string_split: "json_string s @ r = json_string s' @ r' \<Longrightarrow> s = s' \<and> r = r'"
proof -
  assume "json_string s @ r = json_string s' @ r'"
  then have "concat (map json_char s) @ CHR 0x22 # r = concat (map json_char s') @ CHR 0x22 # r'" by (simp add: json_string_def)
  then show ?thesis by (rule json_body_split)
qed

lemma sort_key_graph: "sort_key fst (map (\<lambda>n. (n, g n)) ns) = map (\<lambda>n. (n, g n)) (sort ns)"
proof -
  have "insort_key fst (n, g n) (map (\<lambda>n. (n, g n)) xs) = map (\<lambda>n. (n, g n)) (insort n xs)" for n xs
    by (induction xs) auto
  then show ?thesis by (induction ns) (auto simp: sort_key_def)
qed

lemma json_items_inj:
  "join '', '' (map (\<lambda>n. json_string n @ '': '' @ json_string (g n)) ns) @ ''}''
     = join '', '' (map (\<lambda>n. json_string n @ '': '' @ json_string (g' n)) ns) @ ''}'' \<Longrightarrow> list_all (\<lambda>n. g n = g' n) ns"
proof (induction ns rule: induct_list012)
  case (2 n)
  then have "json_string (g n) @ ''}'' = json_string (g' n) @ ''}''" by simp
  then have "g n = g' n \<and> ''}'' = ''}''" by (rule json_string_split)
  then show ?case by simp
next
  case (3 n m ns)
  let ?R = "\<lambda>g. '', '' @ join '', '' (map (\<lambda>n. json_string n @ '': '' @ json_string (g n)) (m # ns)) @ ''}''"
  have "json_string n @ '': '' @ json_string (g n) @ ?R g = json_string n @ '': '' @ json_string (g' n) @ ?R g'"
    using 3(3) by simp
  then have "json_string (g n) @ ?R g = json_string (g' n) @ ?R g'" by simp
  then have "g n = g' n \<and> ?R g = ?R g'" by (rule json_string_split)
  then show ?case using 3(2) by simp
qed simp

lemma json_dict_inj:
  "json_dict (map (\<lambda>n. (n, g n)) ns) = json_dict (map (\<lambda>n. (n, g' n)) ns) \<longleftrightarrow> list_all (\<lambda>n. g n = g' n) ns"
proof
  assume "json_dict (map (\<lambda>n. (n, g n)) ns) = json_dict (map (\<lambda>n. (n, g' n)) ns)"
  then have "join '', '' (map (\<lambda>n. json_string n @ '': '' @ json_string (g n)) (sort ns)) @ ''}''
      = join '', '' (map (\<lambda>n. json_string n @ '': '' @ json_string (g' n)) (sort ns)) @ ''}''"
    by (simp add: json_dict_def sort_key_graph comp_def)
  then show "list_all (\<lambda>n. g n = g' n) ns" using json_items_inj by (fastforce simp: list_all_iff)
next
  assume "list_all (\<lambda>n. g n = g' n) ns"
  then have "map (\<lambda>n. (n, g n)) ns = map (\<lambda>n. (n, g' n)) ns" by (simp add: list_all_iff)
  then show "json_dict (map (\<lambda>n. (n, g n)) ns) = json_dict (map (\<lambda>n. (n, g' n)) ns)" by (rule arg_cong)
qed

text \<open>The digested text of a token list determines the tokens.\<close>

lemma str_nat_digits: "c \<in> set (str_nat n) \<Longrightarrow> 48 \<le> (of_char c :: nat) \<and> (of_char c :: nat) \<le> 57"
proof (induction n rule: str_nat.induct)
  case (1 n)
  show ?case
  proof (cases "n < 10")
    case True
    then show ?thesis using 1(2) by (subst (asm) str_nat.simps) simp
  next
    case False
    then have "c \<in> set (str_nat (n div 10)) \<or> c = char_of (48 + n mod 10)"
      using 1(2) by (subst (asm) str_nat.simps) auto
    moreover have "48 + n mod 10 \<le> 57" by simp
    ultimately show ?thesis using 1(1) False by auto
  qed
qed

lemma str_int_chars: "CHR '','' \<notin> set (str_int i)"
  using str_nat_digits [of "CHR '',''"] by (auto simp: str_int_def)

lemma str_int_inj: "str_int i = str_int j \<Longrightarrow> i = j"
proof -
  have m: "str_nat n \<noteq> CHR ''-'' # s" for n s using str_nat_digits [of "CHR ''-''" n] by auto
  assume "str_int i = str_int j"
  then show "i = j" using str_nat_inj m [symmetric] m by (fastforce simp: str_int_def split: if_splits)
qed

lemma split_at_comma:
  "CHR '','' \<notin> set a \<Longrightarrow> CHR '','' \<notin> set b \<Longrightarrow> a @ CHR '','' # r = b @ CHR '','' # r' \<Longrightarrow> a = b \<and> r = r'"
proof (induction a arbitrary: b)
  case Nil
  then show ?case by (cases b) auto
next
  case (Cons x a)
  then show ?case by (cases b) auto
qed

lemma str_int_ne [simp]: "str_int i \<noteq> []"
  by (simp add: str_int_def)

lemma join_two: "join '','' (map str_int (x # y # zs)) = str_int x @ CHR '','' # join '','' (map str_int (y # zs))"
  by simp

lemma join_Nil: "join '','' (map str_int xs) = [] \<longleftrightarrow> xs = []"
  by (cases xs rule: remdups_adj.cases) simp_all

lemma single_no_comma: "str_int x \<noteq> a @ CHR '','' # r"
  using str_int_chars [of x] by auto

lemma token_text_inj: "join '','' (map str_int xs) = join '','' (map str_int ys) \<Longrightarrow> xs = ys"
proof (induction xs arbitrary: ys rule: induct_list012)
  case 1
  then have "join '','' (map str_int ys) = []" by simp
  then show ?case by (simp only: join_Nil)
next
  case (2 x)
  consider "ys = []" | y where "ys = [y]" | y y' zs where "ys = y # y' # zs" by (metis remdups_adj.cases)
  then show ?case
  proof cases
    case 3
    then show ?thesis using "2" single_no_comma by (simp only: join_two) simp
  qed (use "2" str_int_inj in auto)
next
  case (3 x x' xs)
  consider "ys = []" | y where "ys = [y]" | y y' zs where "ys = y # y' # zs" by (metis remdups_adj.cases)
  then show ?case
  proof cases
    case 1
    then show ?thesis using 3(3) by simp
  next
    case 2
    then show ?thesis using 3(3) single_no_comma [symmetric] by (simp only: join_two) simp
  next
    case c: 3
    have "str_int x @ CHR '','' # join '','' (map str_int (x' # xs)) = str_int y @ CHR '','' # join '','' (map str_int (y' # zs))"
      using 3(3) unfolding c join_two .
    then have "str_int x = str_int y \<and> join '','' (map str_int (x' # xs)) = join '','' (map str_int (y' # zs))"
      using str_int_chars by (intro split_at_comma) auto
    then show ?thesis using str_int_inj 3(2) c by metis
  qed
qed

text \<open>The text that is hashed for a key binds everything the key claims: two keys have the same canonical
  text iff they agree on every identity and span field and on the digest of their tokens, whatever the
  field values contain (quotes, commas and control characters included); and the text hashed for a
  token list is different for every token list.\<close>

theorem canonical_text_binds_key:
  "(canonical_text sha256 k = canonical_text sha256 k' \<longleftrightarrow>
      identity_matches k k' \<and> span_matches k k' \<and> content_digest sha256 k = content_digest sha256 k')
   \<and> (join '','' (map str_int xs) = join '','' (map str_int ys) \<longleftrightarrow> xs = ys)"
proof -
  define g where "g k n = (if n = ''content_digest'' then content_digest sha256 k else ky_field k n)" for k n
  have fresh: "''content_digest'' \<notin> set ALL_KEY_FIELDS" by (simp add: ALL_KEY_FIELDS_def CACHE_KEY_FIELDS_def SPAN_KEY_FIELDS_def)
  have g: "map (\<lambda>name. (name, ky_field k name)) ALL_KEY_FIELDS @ [(''content_digest'', content_digest sha256 k)]
      = map (\<lambda>n. (n, g k n)) (ALL_KEY_FIELDS @ [''content_digest''])" for k
    using fresh by (auto simp: g_def)
  have "list_all (\<lambda>n. g k n = g k' n) ALL_KEY_FIELDS \<longleftrightarrow> list_all (\<lambda>n. ky_field k n = ky_field k' n) ALL_KEY_FIELDS"
    using fresh by (auto simp: g_def list_all_iff)
  then have "canonical_text sha256 k = canonical_text sha256 k' \<longleftrightarrow>
      list_all (\<lambda>n. ky_field k n = ky_field k' n) ALL_KEY_FIELDS \<and> content_digest sha256 k = content_digest sha256 k'"
    unfolding canonical_text_def g json_dict_inj by (simp add: g_def)
  then show ?thesis using token_text_inj
    by (auto simp: identity_matches_def span_matches_def ALL_KEY_FIELDS_def)
qed

end
