(* ===== verification/Prefix_Cache.thy ===== *)
theory Prefix_Cache
  imports Prefix_Key Float64
begin

text \<open>
  The prefix cache itself (\<open>hqsb/runtime/prefix_cache.py\<close>): entries with reference counts, lookup over KV
  groups, release, eviction and the invariant report, the collision fixtures and the net-saving model.
  Entries live in a dictionary in insertion order; an entry object is addressed by its id. The sum of
  the entries' byte values (Python's \<open>sum\<close> over floats, whose rounding depends on the interpreter) is
  an argument, as is the hash function.
\<close>

record cache_entry =
  ce_entry_id :: string
  ce_key :: prefix_key
  ce_token_count :: int
  ce_block_ids :: "int list"
  ce_bytes_value :: rat
  ce_refcount :: int
  ce_reuse_count :: int
  ce_last_use_iteration :: int
  ce_readers :: "string list"
  ce_pinned :: bool

definition ce_block_group :: "cache_entry \<Rightarrow> string" where
  "ce_block_group e = ky_field (ce_key e) ''block_group''"

record cache_spec =
  cs_block_size :: int
  cs_collision_policy :: string
  cs_eviction_policy :: string
  cs_max_cache_bytes :: rat
  cs_allow_cancelled_retain :: bool
  cs_verify_token_equality :: bool
  cs_cache_layout_version :: string

definition cache_spec_check :: "cache_spec \<Rightarrow> unit res" where
  "cache_spec_check s =
     (if cs_block_size s \<le> 0 then Inl (ConfigError ''block_size'')
      else if cs_collision_policy s \<notin> {''strong_digest'', ''digest_plus_token_equality''} then Inl (ConfigError ''collision_policy'')
      else if cs_eviction_policy s \<notin> {''lru'', ''lru_reuse_aware''} then Inl (ConfigError ''eviction_policy'')
      else if cs_max_cache_bytes s \<le> 0 then Inl (ConfigError ''max_cache_bytes'')
      else if cs_collision_policy s = ''digest_plus_token_equality'' \<and> \<not> cs_verify_token_equality s
        then Inl (ConfigError ''verify_token_equality'')
      else Inr ())"

section \<open>Lookup results\<close>

record lookup_result =
  lr_query_tokens :: int
  lr_full_block_hits :: int
  lr_partial_tail_tokens :: int
  lr_cached_tokens :: int
  lr_computed_tokens :: int
  lr_first_miss_index :: int
  lr_resumed_position :: int
  lr_refcounts :: "int list"
  lr_block_group_hits :: "string list"
  lr_collision_detected :: bool
  lr_rejected_reason :: string

definition lookup_result_check :: "lookup_result \<Rightarrow> lookup_result res" where
  "lookup_result_check r =
     (if lr_cached_tokens r + lr_computed_tokens r \<noteq> lr_query_tokens r then Inl (ConfigError ''cached_tokens'')
      else if lr_partial_tail_tokens r > lr_query_tokens r - lr_cached_tokens r then Inl (ConfigError ''partial_tail_tokens'')
      else Inr r)"

definition hit_fraction :: "lookup_result \<Rightarrow> rat" where
  "hit_fraction r = (if lr_query_tokens r = 0 then 0 else int_truediv (lr_cached_tokens r) (lr_query_tokens r))"

section \<open>The cache\<close>

record eviction_record =
  er_entry_id :: string
  er_reason :: string
  er_bytes :: rat

record prefix_cache =
  pc_spec :: cache_spec
  pc_entries :: "(string \<times> cache_entry) list"
  pc_lookups :: "(string \<times> prefix_key \<times> lookup_result) list"
  pc_evictions :: "eviction_record list"
  pc_clock :: int

definition new_cache :: "cache_spec \<Rightarrow> prefix_cache" where
  "new_cache sp = \<lparr>pc_spec = sp, pc_entries = [], pc_lookups = [], pc_evictions = [], pc_clock = 0\<rparr>"

text \<open>\<open>f"entry-{n:04d}"\<close>\<close>

definition entry_name :: "nat \<Rightarrow> string" where
  "entry_name n = ''entry-'' @ replicate (4 - length (str_nat n)) CHR ''0'' @ str_nat n"

definition cache_insert :: "prefix_key \<Rightarrow> int list \<Rightarrow> rat \<Rightarrow> string \<Rightarrow> (prefix_cache, cache_entry) op" where
  "cache_insert key block_ids bytes_value request_id c =
     (let bs = cs_block_size (pc_spec c) in
      if ky_length key = 0 \<or> ky_length key mod bs \<noteq> 0 then (Inl (ConfigError ''token_count''), c)
      else if int (length block_ids) \<noteq> ky_length key div bs then (Inl (ConfigError ''block_ids''), c)
      else let clock = pc_clock c + 1;
               e = \<lparr>ce_entry_id = entry_name (length (pc_entries c)), ce_key = key, ce_token_count = ky_length key,
                    ce_block_ids = block_ids, ce_bytes_value = bytes_value, ce_refcount = 1, ce_reuse_count = 0,
                    ce_last_use_iteration = clock, ce_readers = [request_id], ce_pinned = False\<rparr>
           in (Inr e, c\<lparr>pc_entries := AList.update (ce_entry_id e) e (pc_entries c), pc_clock := clock\<rparr>))"

section \<open>Matching\<close>

datatype match_reason =
    Identity_mismatch | Entry_not_shared | No_complete_block | Digest_mismatch | Forced_collision | Match_ok

record match =
  mt_length :: int
  mt_accepted :: bool
  mt_collision :: bool
  mt_reason :: match_reason

definition no_match :: "bool \<Rightarrow> match_reason \<Rightarrow> match" where
  "no_match collision why = \<lparr>mt_length = 0, mt_accepted = False, mt_collision = collision, mt_reason = why\<rparr>"

definition match_entry :: "(string \<Rightarrow> string) \<Rightarrow> cache_spec \<Rightarrow> cache_entry \<Rightarrow> prefix_key \<Rightarrow> int \<Rightarrow> match" where
  "match_entry sha256 sp e query query_tokens =
     (if \<not> identity_matches (ce_key e) query then no_match False Identity_mismatch
      else if ce_refcount e \<le> 0 then no_match False Entry_not_shared
      else let m = min (ce_token_count e) query_tokens; len = m - m mod cs_block_size sp in
        if len = 0 then no_match False No_complete_block
        else let overlap = py_slice 0 len (ky_tokens query);
                 entry_overlap = py_slice 0 len (ky_tokens (ce_key e));
                 stored = ky_digest (ce_key e);
                 ok = \<lparr>mt_length = len, mt_accepted = True, mt_collision = False, mt_reason = Match_ok\<rparr>
             in if stored \<noteq> '''' \<and> stored \<noteq> effective_digest sha256 query then no_match False Digest_mismatch
                else if stored = '''' \<and> token_digest sha256 entry_overlap \<noteq> token_digest sha256 overlap
                  then no_match False Digest_mismatch
                else if overlap \<noteq> entry_overlap \<and> cs_collision_policy sp = ''digest_plus_token_equality''
                  then no_match True Forced_collision
                else ok)"

text \<open>What one pass over the entries collects: the best length per group, the entries to touch, whether a
  collision was seen and the first reason for a rejection.\<close>

record scan =
  sn_per_group :: "(string \<times> int) list"
  sn_touching :: "string list"
  sn_collisions :: int
  sn_rejected :: "match_reason option"

definition scan_entry ::
  "(string \<Rightarrow> string) \<Rightarrow> cache_spec \<Rightarrow> prefix_key \<Rightarrow> int \<Rightarrow> string list \<Rightarrow> scan \<Rightarrow> string \<times> cache_entry \<Rightarrow> scan" where
  "scan_entry sha256 sp key query_tokens block_groups s = (\<lambda>(eid, e).
     if ce_block_group e \<notin> set block_groups then s
     else let d = match_entry sha256 sp e key query_tokens;
              s1 = (if mt_collision d then s\<lparr>sn_collisions := sn_collisions s + 1\<rparr> else s)
          in if \<not> mt_accepted d
             then s1\<lparr>sn_rejected := (case sn_rejected s of None \<Rightarrow> Some (mt_reason d) | Some r \<Rightarrow> Some r)\<rparr>
             else let old = (case map_of (sn_per_group s) (ce_block_group e) of None \<Rightarrow> 0 | Some n \<Rightarrow> n)
                  in s1\<lparr>sn_touching := sn_touching s @ [eid],
                        sn_per_group := AList.update (ce_block_group e) (max old (mt_length d)) (sn_per_group s)\<rparr>)"

definition scan_entries ::
  "(string \<Rightarrow> string) \<Rightarrow> cache_spec \<Rightarrow> prefix_key \<Rightarrow> int \<Rightarrow> string list \<Rightarrow> (string \<times> cache_entry) list \<Rightarrow> scan" where
  "scan_entries sha256 sp key query_tokens block_groups es =
     foldl (scan_entry sha256 sp key query_tokens block_groups)
       \<lparr>sn_per_group = [], sn_touching = [], sn_collisions = 0, sn_rejected = None\<rparr> es"

definition group_length :: "scan \<Rightarrow> string \<Rightarrow> int" where
  "group_length s g = (case map_of (sn_per_group s) g of None \<Rightarrow> 0 | Some n \<Rightarrow> n)"

definition touch_entry :: "int \<Rightarrow> string \<Rightarrow> cache_entry \<Rightarrow> cache_entry" where
  "touch_entry clock request_id e =
     (let e1 = e\<lparr>ce_reuse_count := ce_reuse_count e + 1, ce_last_use_iteration := clock\<rparr> in
      if request_id \<notin> set (ce_readers e)
      then e1\<lparr>ce_readers := ce_readers e @ [request_id], ce_refcount := ce_refcount e + 1\<rparr> else e1)"

definition touch_entries :: "int \<Rightarrow> string \<Rightarrow> string list \<Rightarrow> (string \<times> cache_entry) list \<Rightarrow> (string \<times> cache_entry) list" where
  "touch_entries clock request_id ids es =
     map (\<lambda>(eid, e). (eid, if eid \<in> set ids then touch_entry clock request_id e else e)) es"

fun reason_text :: "match_reason \<Rightarrow> string" where
  "reason_text Identity_mismatch = ''identity_mismatch''"
| "reason_text Entry_not_shared = ''entry_not_shared''"
| "reason_text No_complete_block = ''no_complete_block''"
| "reason_text Digest_mismatch = ''digest_mismatch''"
| "reason_text Forced_collision = ''forced_collision''"
| "reason_text Match_ok = ''''"

definition cache_lookup ::
  "(string \<Rightarrow> string) \<Rightarrow> prefix_key \<Rightarrow> int \<Rightarrow> string list \<Rightarrow> string \<Rightarrow> (prefix_cache, lookup_result) op" where
  "cache_lookup sha256 key query_tokens block_groups request_id c =
     (if query_tokens \<le> 0 then (Inl (ConfigError ''query_tokens''), c)
      else if query_tokens > ky_length key then (Inl (ConfigError ''query_tokens''), c)
      else
        let sp = pc_spec c; bs = cs_block_size sp;
            s = scan_entries sha256 sp key query_tokens block_groups (pc_entries c);
            best = (if block_groups = [] then 0 else Min (group_length s ` set block_groups));
            hits = best div bs; cached = hits * bs;
            clock = pc_clock c + 1;
            es = touch_entries clock request_id (sn_touching s) (pc_entries c);
            c1 = c\<lparr>pc_clock := clock, pc_entries := es\<rparr>
        in case lookup_result_check
             \<lparr>lr_query_tokens = query_tokens, lr_full_block_hits = hits, lr_partial_tail_tokens = query_tokens - cached,
              lr_cached_tokens = cached, lr_computed_tokens = query_tokens - cached, lr_first_miss_index = cached,
              lr_resumed_position = cached, lr_refcounts = map (\<lambda>eid. ce_refcount (the (map_of es eid))) (sn_touching s),
              lr_block_group_hits = sort (map fst (sn_per_group s)), lr_collision_detected = (sn_collisions s \<noteq> 0),
              lr_rejected_reason = (if sn_touching s = [] then (case sn_rejected s of None \<Rightarrow> '''' | Some r \<Rightarrow> reason_text r) else '''')\<rparr>
           of Inl e \<Rightarrow> (Inl e, c1)
            | Inr r \<Rightarrow> (Inr r, c1\<lparr>pc_lookups := pc_lookups c @ [(request_id, key, r)]\<rparr>))"

section \<open>Lifecycle\<close>

definition cache_drop :: "string \<Rightarrow> string \<Rightarrow> (prefix_cache, unit) op" where
  "cache_drop eid reason c =
     (case map_of (pc_entries c) eid of
        None \<Rightarrow> (Inr (), c)
      | Some e \<Rightarrow> if ce_refcount e > 0 then (Inl (ConfigError ''refcount''), c)
                  else (Inr (), c\<lparr>pc_entries := AList.delete eid (pc_entries c),
                         pc_evictions := pc_evictions c @ [\<lparr>er_entry_id = eid, er_reason = reason, er_bytes = ce_bytes_value e\<rparr>]\<rparr>))"

definition release_reader :: "string \<Rightarrow> cache_entry \<Rightarrow> cache_entry" where
  "release_reader request_id e =
     e\<lparr>ce_readers := filter (\<lambda>r. r \<noteq> request_id) (ce_readers e), ce_refcount := max (ce_refcount e - 1) 0\<rparr>"

text \<open>The body of the release loop for one entry of the snapshot, addressed by its id.\<close>

definition release_entry :: "string \<Rightarrow> bool \<Rightarrow> string \<Rightarrow> (prefix_cache, bool) op" where
  "release_entry request_id retain eid c =
     (case map_of (pc_entries c) eid of
        None \<Rightarrow> (Inr False, c)
      | Some e \<Rightarrow>
          if request_id \<notin> set (ce_readers e) then (Inr False, c)
          else let e' = release_reader request_id e;
                   c1 = c\<lparr>pc_entries := AList.update eid e' (pc_entries c)\<rparr>
               in if ce_refcount e' = 0 \<and> \<not> retain
                  then (case cache_drop eid ''release-no-retain'' c1 of (Inl x, c2) \<Rightarrow> (Inl x, c2) | (Inr _, c2) \<Rightarrow> (Inr True, c2))
                  else (Inr True, c1))"

fun release_loop :: "string \<Rightarrow> bool \<Rightarrow> string list \<Rightarrow> string list \<Rightarrow> (prefix_cache, string list) op" where
  "release_loop request_id retain [] released c = (Inr released, c)"
| "release_loop request_id retain (eid # eids) released c =
     (case release_entry request_id retain eid c of
        (Inl x, c') \<Rightarrow> (Inl x, c')
      | (Inr b, c') \<Rightarrow> release_loop request_id retain eids (if b then released @ [eid] else released) c')"

definition cache_release :: "string \<Rightarrow> bool \<Rightarrow> (prefix_cache, string list) op" where
  "cache_release request_id retain c = release_loop request_id retain (map fst (pc_entries c)) [] c"

definition total_bytes :: "(rat list \<Rightarrow> rat) \<Rightarrow> prefix_cache \<Rightarrow> rat" where
  "total_bytes fsum c = fsum (map (ce_bytes_value \<circ> snd) (pc_entries c))"

definition eviction_candidates :: "prefix_cache \<Rightarrow> cache_entry list" where
  "eviction_candidates c = filter (\<lambda>e. ce_refcount e = 0 \<and> \<not> ce_pinned e) (map snd (pc_entries c))"

definition victim_key :: "cache_spec \<Rightarrow> cache_entry \<Rightarrow> int \<times> int \<times> string" where
  "victim_key sp e = (if cs_eviction_policy sp = ''lru'' then (0, ce_last_use_iteration e, ce_entry_id e)
     else (ce_reuse_count e, ce_last_use_iteration e, ce_entry_id e))"

definition cache_victim :: "prefix_cache \<Rightarrow> cache_entry option" where
  "cache_victim c = argmin (victim_key (pc_spec c)) (eviction_candidates c)"

definition cache_limit :: "rat \<Rightarrow> prefix_cache \<Rightarrow> rat" where
  "cache_limit target_bytes c = min target_bytes (cs_max_cache_bytes (pc_spec c))"

text \<open>The \<open>while\<close> loop of \<open>evict\<close>; every round that goes on has dropped one entry, so as many rounds as there
  are entries are enough (\<open>evict_loop_enough\<close>).\<close>

fun evict_loop :: "(rat list \<Rightarrow> rat) \<Rightarrow> rat \<Rightarrow> nat \<Rightarrow> cache_entry list \<Rightarrow> (prefix_cache, cache_entry list) op" where
  "evict_loop fsum limit fuel evicted c =
     (if \<not> total_bytes fsum c > limit then (Inr evicted, c)
      else case cache_victim c of
        None \<Rightarrow> (Inr evicted, c)
      | Some v \<Rightarrow>
          (case fuel of
             0 \<Rightarrow> (Inl (RuntimeError ''fuel''), c)
           | Suc n \<Rightarrow>
             (case cache_drop (ce_entry_id v) ''capacity'' c of
                (Inl x, c') \<Rightarrow> (Inl x, c')
              | (Inr _, c') \<Rightarrow> evict_loop fsum limit n (evicted @ [v]) c')))"

declare evict_loop.simps [simp del]

definition cache_evict :: "(rat list \<Rightarrow> rat) \<Rightarrow> rat \<Rightarrow> (prefix_cache, cache_entry list) op" where
  "cache_evict fsum target_bytes c = evict_loop fsum (cache_limit target_bytes c) (length (pc_entries c)) [] c"

definition cache_reset :: "prefix_cache \<Rightarrow> int \<times> prefix_cache" where
  "cache_reset c = (int (length (pc_entries c)), c\<lparr>pc_entries := []\<rparr>)"

definition active_entries :: "prefix_cache \<Rightarrow> int" where
  "active_entries c = int (length (filter (\<lambda>(eid, e). ce_refcount e > 0) (pc_entries c)))"

datatype cache_problem = Refcount_differs string | Partial_block string | Block_count string

definition entry_problems :: "cache_spec \<Rightarrow> cache_entry \<Rightarrow> cache_problem list" where
  "entry_problems sp e =
     (if ce_refcount e \<noteq> int (length (ce_readers e)) then [Refcount_differs (ce_entry_id e)] else [])
     @ (if ce_token_count e mod cs_block_size sp \<noteq> 0 then [Partial_block (ce_entry_id e)] else [])
     @ (if int (length (ce_block_ids e)) \<noteq> ce_token_count e div cs_block_size sp then [Block_count (ce_entry_id e)] else [])"

record cache_report =
  cr_problems :: "cache_problem list"
  cr_entries :: int
  cr_active :: int
  cr_bytes :: rat
  cr_within_cap :: bool

definition cache_invariant_report :: "(rat list \<Rightarrow> rat) \<Rightarrow> prefix_cache \<Rightarrow> cache_report" where
  "cache_invariant_report fsum c =
     \<lparr>cr_problems = concat (map (entry_problems (pc_spec c) \<circ> snd) (pc_entries c)), cr_entries = int (length (pc_entries c)),
      cr_active = active_entries c, cr_bytes = total_bytes fsum c, cr_within_cap = (total_bytes fsum c \<le> cs_max_cache_bytes (pc_spec c))\<rparr>"

section \<open>Fixtures and the net saving\<close>

definition forged_key :: "(string \<Rightarrow> string) \<Rightarrow> int list \<Rightarrow> prefix_key \<Rightarrow> prefix_key" where
  "forged_key sha256 prompt base = base\<lparr>ky_tokens := (prompt ! 0 + 7) # py_slice 1 32 prompt, ky_digest := effective_digest sha256 base\<rparr>"

record collision_report =
  cl_served_tokens :: int
  cl_collision_detected :: bool
  cl_rejected_reason :: string
  cl_correct :: bool

definition collision_is_detected :: "(string \<Rightarrow> string) \<Rightarrow> cache_spec \<Rightarrow> (string \<times> string) list \<Rightarrow> int list \<Rightarrow> collision_report res" where
  "collision_is_detected sha256 sp identity prompt =
     bindE (build_prefix_key sha256 identity prompt (0, 32) default_key_options) (\<lambda>base.
     bindE (key_check (forged_key sha256 prompt base)) (\<lambda>forged.
     let (r, c) = cache_insert forged (map int [0..<nat (32 div cs_block_size sp)]) 1024 ''r0'' (new_cache sp) in
     bindE r (\<lambda>_. bindE (fst (cache_lookup sha256 base 32 [''full_attention''] ''r1'' c)) (\<lambda>res.
       Inr \<lparr>cl_served_tokens = lr_cached_tokens res, cl_collision_detected = lr_collision_detected res,
            cl_rejected_reason = lr_rejected_reason res, cl_correct = (lr_cached_tokens res = 0)\<rparr>))))"

record net_saving =
  ns_baseline_prefill_ms :: rat
  ns_cached_request_prefill_ms :: rat
  ns_lookup_hash_ms :: rat
  ns_eviction_recompute_ms :: rat
  ns_other_requests_impact_ms :: rat
  ns_saved_tokens :: int

definition net_saved_time_ms :: "net_saving \<Rightarrow> rat" where
  "net_saved_time_ms n = fl (fl (fl (fl (ns_baseline_prefill_ms n - ns_cached_request_prefill_ms n) - ns_lookup_hash_ms n)
     - ns_eviction_recompute_ms n) - ns_other_requests_impact_ms n)"

definition naive_saving_ms :: "net_saving \<Rightarrow> rat \<Rightarrow> rat res" where
  "naive_saving_ms n ms_per_token =
     (if ms_per_token \<le> 0 then Inl (ConfigError ''ms_per_token'') else Inr (int_times_float (ns_saved_tokens n) ms_per_token))"

record cache_comparison =
  cq_token_sequence_equal :: bool
  cq_kv_boundary_equal :: bool
  cq_resumed_position_equal :: bool
  cq_finish_reason_equal :: bool
  cq_quality_gate_passed :: bool

definition comparison_check :: "cache_comparison \<Rightarrow> unit res" where
  "comparison_check q = (if \<not> cq_quality_gate_passed q then Inl (ConfigError ''quality_gate_passed'') else Inr ())"

definition semantically_equivalent :: "cache_comparison \<Rightarrow> bool" where
  "semantically_equivalent q \<longleftrightarrow> cq_token_sequence_equal q \<and> cq_kv_boundary_equal q \<and> cq_resumed_position_equal q
     \<and> cq_finish_reason_equal q"

end
