(* ===== verification/Prefix_Cache_Props.thy ===== *)
theory Prefix_Cache_Props
  imports Prefix_Cache Refcounted_Store
begin

text \<open>
  The properties of the prefix cache: the caches reachable by its operations are consistent, eviction
  ends and takes only unread entries in the declared order, a served prefix is token-equal to the
  query in every KV group, and three ways in which the cache does not do what it promises.
\<close>

section \<open>Reachable caches\<close>

definition entry_ok :: "cache_spec \<Rightarrow> string \<times> cache_entry \<Rightarrow> bool" where
  "entry_ok sp = (\<lambda>(eid, e). ce_entry_id e = eid \<and> ce_refcount e = int (length (ce_readers e)) \<and> distinct (ce_readers e)
     \<and> ce_token_count e = ky_length (ce_key e) \<and> ce_token_count e mod cs_block_size sp = 0
     \<and> int (length (ce_block_ids e)) = ce_token_count e div cs_block_size sp)"

definition cache_wf :: "prefix_cache \<Rightarrow> bool" where
  "cache_wf c \<longleftrightarrow> distinct (map fst (pc_entries c)) \<and> (\<forall>x \<in> set (pc_entries c). entry_ok (pc_spec c) x)"

text \<open>The operations of a client, with any hash function and any float sum; failed calls keep their effects.\<close>

inductive cache_step :: "prefix_cache \<Rightarrow> prefix_cache \<Rightarrow> bool" where
  Insert: "cache_step c (snd (cache_insert key block_ids bytes_value request_id c))"
| Lookup: "cache_step c (snd (cache_lookup sha256 key query_tokens block_groups request_id c))"
| Release: "cache_step c (snd (cache_release request_id retain c))"
| Evict: "cache_step c (snd (cache_evict fsum target_bytes c))"
| Reset: "cache_step c (snd (cache_reset c))"

inductive_cases cache_stepE: "cache_step c c'"

lemma update_mem: "x \<in> set (AList.update k v al) \<Longrightarrow> x = (k, v) \<or> x \<in> set al"
  by (induction al) (auto split: if_splits)

lemma delete_mem: "x \<in> set (AList.delete k al) \<longleftrightarrow> x \<in> set al \<and> fst x \<noteq> k"
  by (auto simp: AList.delete_eq)

lemma length_delete_less: "k \<in> fst ` set al \<Longrightarrow> length (AList.delete k al) < length al"
proof -
  assume "k \<in> fst ` set al"
  then obtain v where "(k, v) \<in> set al" by auto
  then show ?thesis unfolding AList.delete_eq by (rule length_filter_less) simp
qed

lemma wf_update:
  "cache_wf c \<Longrightarrow> entry_ok (pc_spec c) (eid, e) \<Longrightarrow> cache_wf (c\<lparr>pc_entries := AList.update eid e (pc_entries c)\<rparr>)"
  by (auto simp: cache_wf_def distinct_update dest!: update_mem)

lemma wf_delete: "cache_wf c \<Longrightarrow> cache_wf (c\<lparr>pc_entries := AList.delete eid (pc_entries c), pc_evictions := x\<rparr>)"
  by (auto simp: cache_wf_def distinct_delete delete_mem)

lemma wf_lookup_entry: "cache_wf c \<Longrightarrow> map_of (pc_entries c) eid = Some e \<Longrightarrow> entry_ok (pc_spec c) (eid, e)"
  by (auto simp: cache_wf_def dest: map_of_SomeD)

lemma insert_wf: "cache_wf c \<Longrightarrow> cache_wf (snd (cache_insert key ids bv rid c))"
proof -
  assume wf: "cache_wf c"
  have "cache_wf (c\<lparr>pc_entries := es, pc_clock := k\<rparr>) = cache_wf (c\<lparr>pc_entries := es\<rparr>)" for es k
    by (simp add: cache_wf_def)
  then show ?thesis using wf by (auto simp: cache_insert_def Let_def entry_ok_def intro!: wf_update)
qed

lemma touch_ok: "entry_ok sp (eid, e) \<Longrightarrow> entry_ok sp (eid, touch_entry k rid e)"
  by (auto simp: entry_ok_def touch_entry_def Let_def)

lemma lookup_wf: "cache_wf c \<Longrightarrow> cache_wf (snd (cache_lookup sha key q groups rid c))"
proof -
  assume wf: "cache_wf c"
  have "map fst (touch_entries k rid ids es) = map fst es" for k ids es by (auto simp: touch_entries_def)
  moreover have "\<forall>x \<in> set (touch_entries k rid ids (pc_entries c)). entry_ok (pc_spec c) x" for k ids
    using wf by (auto simp: touch_entries_def cache_wf_def touch_ok split: if_splits)
  ultimately show ?thesis using wf by (simp add: cache_lookup_def cache_wf_def Let_def split: sum.split)
qed

lemma release_ok: "entry_ok sp (eid, e) \<Longrightarrow> rid \<in> set (ce_readers e) \<Longrightarrow> entry_ok sp (eid, release_reader rid e)"
proof -
  assume e: "entry_ok sp (eid, e)" and r: "rid \<in> set (ce_readers e)"
  have "removeAll rid xs = filter (\<lambda>r. r \<noteq> rid) xs" for xs by (induction xs) auto
  then have "filter (\<lambda>r. r \<noteq> rid) (ce_readers e) = remove1 rid (ce_readers e)"
    using e distinct_remove1_removeAll [of "ce_readers e" rid] by (simp add: entry_ok_def)
  moreover have "int (length (remove1 rid (ce_readers e))) = int (length (ce_readers e)) - 1" "1 \<le> int (length (ce_readers e))"
    using length_remove1_int [OF r] length_pos_if_in_set [OF r] by auto
  ultimately show ?thesis using e by (auto simp: entry_ok_def release_reader_def)
qed

lemma drop_wf: "cache_wf c \<Longrightarrow> cache_wf (snd (cache_drop eid why c))"
  by (auto simp: cache_drop_def wf_delete split: option.split)

lemma release_entry_wf: "cache_wf c \<Longrightarrow> cache_wf (snd (release_entry rid retain eid c))"
proof (cases "map_of (pc_entries c) eid")
  case None
  then show "cache_wf c \<Longrightarrow> ?thesis" by (simp add: release_entry_def)
next
  case (Some e)
  assume wf: "cache_wf c"
  have "rid \<in> set (ce_readers e) \<Longrightarrow> cache_wf (c\<lparr>pc_entries := AList.update eid (release_reader rid e) (pc_entries c)\<rparr>)"
    using wf wf_lookup_entry [OF wf Some] by (intro wf_update) (auto intro: release_ok)
  note up = this
  show ?thesis
  proof (cases "rid \<in> set (ce_readers e)")
    case True
    then show ?thesis using drop_wf [OF up [OF True], of eid "''release-no-retain''"] up
      by (auto simp: release_entry_def Let_def Some split: prod.split sum.split)
  qed (use wf Some in \<open>simp add: release_entry_def\<close>)
qed

lemma release_loop_wf: "cache_wf c \<Longrightarrow> cache_wf (snd (release_loop rid retain eids acc c))"
proof (induction eids arbitrary: acc c)
  case (Cons eid eids)
  then show ?case using release_entry_wf [OF Cons.prems, of rid retain eid]
    by (cases "release_entry rid retain eid c") (auto split: sum.split)
qed simp

lemma evict_loop_wf: "cache_wf c \<Longrightarrow> cache_wf (snd (evict_loop fsum limit fuel acc c))"
proof (induction fuel arbitrary: acc c)
  case 0
  then show ?case by (subst evict_loop.simps) (auto split: option.split)
next
  case (Suc n)
  show ?case
  proof (cases "cache_victim c")
    case None
    then show ?thesis using Suc.prems by (subst evict_loop.simps) auto
  next
    case (Some v)
    then show ?thesis using Suc drop_wf [OF Suc.prems, of "ce_entry_id v" "''capacity''"]
      by (subst evict_loop.simps) (auto split: prod.split sum.split)
  qed
qed

lemma reset_wf: "cache_wf (snd (cache_reset c))"
  by (simp add: cache_reset_def cache_wf_def)

lemma step_wf: "cache_step c c' \<Longrightarrow> cache_wf c \<Longrightarrow> cache_wf c'"
  by (induction rule: cache_step.induct)
     (auto simp: insert_wf lookup_wf cache_release_def release_loop_wf cache_evict_def evict_loop_wf reset_wf)

definition readers_of_entry :: "prefix_cache \<Rightarrow> string \<Rightarrow> string list" where
  "readers_of_entry c eid = (case map_of (pc_entries c) eid of None \<Rightarrow> [] | Some e \<Rightarrow> ce_readers e)"

interpretation cache_store: refcounted_store cache_wf readers_of_entry cache_step "\<lambda>eid. cache_drop eid ''capacity''"
proof
  fix c c' eid r
  show "cache_step c c' \<Longrightarrow> cache_wf c \<Longrightarrow> cache_wf c'" by (rule step_wf)
  show "cache_wf c \<Longrightarrow> cache_drop eid ''capacity'' c = (Inr (), c') \<Longrightarrow> readers_of_entry c eid = []"
    by (auto simp: cache_drop_def readers_of_entry_def entry_ok_def split: option.splits if_splits dest: wf_lookup_entry)
  show "cache_wf c \<Longrightarrow> cache_drop eid ''capacity'' c = (r, c') \<Longrightarrow> cache_wf c'" using drop_wf by (metis snd_conv)
qed

lemma new_cache_wf: "cache_wf (new_cache sp)"
  by (simp add: new_cache_def cache_wf_def)

lemmas reachable_wf = cache_store.steps_inv [OF _ new_cache_wf]

text \<open>C17: in every cache reachable by insertions, lookups, releases, evictions and resets, in any order and with
  failed calls in between, the invariant report is clean, an entry that some request reads cannot be
  dropped, and the report counts exactly the entries with readers as active.\<close>

theorem reachable_cache_consistent:
  assumes "cache_step\<^sup>*\<^sup>* (new_cache sp) c"
  shows "cr_problems (cache_invariant_report fsum c) = []
    \<and> (\<forall>eid. readers_of_entry c eid \<noteq> [] \<longrightarrow> (\<exists>x c'. cache_drop eid ''capacity'' c = (Inl x, c')))
    \<and> active_entries c = int (length (filter (\<lambda>(eid, e). ce_readers e \<noteq> []) (pc_entries c)))"
proof -
  have wf: "cache_wf c" using assms by (rule reachable_wf)
  then have "cr_problems (cache_invariant_report fsum c) = []"
    by (auto simp: cache_invariant_report_def cache_wf_def entry_ok_def entry_problems_def)
  moreover have "(case x of (eid, e) \<Rightarrow> ce_refcount e > 0) = (case x of (eid, e) \<Rightarrow> ce_readers e \<noteq> [])" if "x \<in> set (pc_entries c)" for x
    using wf that by (cases x) (auto simp: cache_wf_def entry_ok_def)
  then have "filter (\<lambda>(eid, e). ce_refcount e > 0) (pc_entries c) = filter (\<lambda>(eid, e). ce_readers e \<noteq> []) (pc_entries c)"
    by (rule filter_cong [OF refl])
  ultimately show ?thesis
    using cache_store.held_entry_refused [OF assms new_cache_wf] by (simp add: active_entries_def)
qed

definition demo_spec :: cache_spec where
  "demo_spec = \<lparr>cs_block_size = 2, cs_collision_policy = ''digest_plus_token_equality'', cs_eviction_policy = ''lru'',
     cs_max_cache_bytes = 100, cs_allow_cancelled_retain = False, cs_verify_token_equality = True, cs_cache_layout_version = ''1.0.0''\<rparr>"

definition demo_key :: "int list \<Rightarrow> prefix_key" where
  "demo_key tokens = \<lparr>ky_fields = map (\<lambda>n. (n, ''x'')) ALL_KEY_FIELDS, ky_tokens = tokens, ky_digest = ''''\<rparr>"

text \<open>Two entries, one of them read by a second request.\<close>

definition demo_cache :: prefix_cache where
  "demo_cache = snd (cache_lookup id (demo_key [1, 2, 3]) 3 [''x''] ''r3''
     (snd (cache_insert (demo_key [5, 6]) [8] 60 ''r2'' (snd (cache_insert (demo_key [1, 2]) [7] 50 ''r1'' (new_cache demo_spec))))))"

lemma demo_reachable: "cache_step\<^sup>*\<^sup>* (new_cache demo_spec) demo_cache"
proof -
  note more = rtranclp.rtrancl_into_rtrancl [where r = cache_step]
  note insert = more [OF _ cache_step.Insert] and lookup = more [OF _ cache_step.Lookup]
  show ?thesis unfolding demo_cache_def by (rule lookup, rule insert, rule insert, rule rtranclp.rtrancl_refl)
qed

theorem reachable_cache_consistent_witness:
  "readers_of_entry demo_cache ''entry-0000'' = [''r1'', ''r3'']
   \<and> cr_problems (cache_invariant_report sum_list demo_cache) = []"
proof
  show "readers_of_entry demo_cache ''entry-0000'' = [''r1'', ''r3'']" by code_simp
  show "cr_problems (cache_invariant_report sum_list demo_cache) = []"
    using reachable_cache_consistent [OF demo_reachable] by blast
qed

section \<open>Eviction\<close>

lemma victim_facts:
  assumes "cache_victim c = Some v"
  shows "v \<in> snd ` set (pc_entries c)" "ce_refcount v = 0" "\<not> ce_pinned v"
    "\<And>e. e \<in> set (eviction_candidates c) \<Longrightarrow> victim_key (pc_spec c) v \<le> victim_key (pc_spec c) e"
  using assms argmin_mem [of "victim_key (pc_spec c)" "eviction_candidates c" v] argmin_le [of "victim_key (pc_spec c)" "eviction_candidates c" v]
  by (auto simp: cache_victim_def eviction_candidates_def)

lemma drop_victim:
  assumes "cache_wf c" "cache_victim c = Some v"
  obtains c' where "cache_drop (ce_entry_id v) ''capacity'' c = (Inr (), c')" "pc_spec c' = pc_spec c"
    "pc_entries c' = AList.delete (ce_entry_id v) (pc_entries c)" "length (pc_entries c') < length (pc_entries c)"
proof -
  obtain eid where m: "(eid, v) \<in> set (pc_entries c)" using victim_facts(1) [OF assms(2)] by auto
  then have eid: "eid = ce_entry_id v" using assms(1) by (auto simp: cache_wf_def entry_ok_def)
  have "map_of (pc_entries c) (ce_entry_id v) = Some v" using m eid assms(1) by (simp add: cache_wf_def)
  then show thesis using that victim_facts(2) [OF assms(2)] m eid length_delete_less [of "ce_entry_id v" "pc_entries c"]
    by (force simp: cache_drop_def)
qed

text \<open>What the loop achieves, from any well-formed cache with enough rounds.\<close>

definition eviction_post :: "(rat list \<Rightarrow> rat) \<Rightarrow> rat \<Rightarrow> prefix_cache \<Rightarrow> cache_entry list \<Rightarrow> prefix_cache \<Rightarrow> bool" where
  "eviction_post fsum limit c vs c' \<longleftrightarrow> pc_spec c' = pc_spec c
    \<and> pc_entries c' = filter (\<lambda>x. fst x \<notin> ce_entry_id ` set vs) (pc_entries c)
    \<and> (\<forall>v \<in> set vs. (ce_entry_id v, v) \<in> set (pc_entries c) \<and> ce_refcount v = 0 \<and> \<not> ce_pinned v
         \<and> (\<forall>e \<in> set (eviction_candidates c'). victim_key (pc_spec c) v \<le> victim_key (pc_spec c) e))
    \<and> (total_bytes fsum c' \<le> limit \<or> eviction_candidates c' = [])"

lemma post_Cons:
  assumes wf: "cache_wf c" and v: "cache_victim c = Some v" and d: "pc_spec c1 = pc_spec c" "pc_entries c1 = AList.delete (ce_entry_id v) (pc_entries c)"
    and post: "eviction_post fsum limit c1 vs c'"
  shows "eviction_post fsum limit c (v # vs) c'"
proof -
  have en: "pc_entries c' = filter (\<lambda>x. fst x \<notin> ce_entry_id ` set (v # vs)) (pc_entries c)"
    using post d(2) by (auto simp: eviction_post_def AList.delete_eq intro!: filter_cong)
  have "set (eviction_candidates c') \<subseteq> set (eviction_candidates c)" using en by (auto simp: eviction_candidates_def)
  moreover have "(ce_entry_id v, v) \<in> set (pc_entries c)" using victim_facts(1) [OF v] wf by (auto simp: cache_wf_def entry_ok_def)
  ultimately have "\<forall>w \<in> set (v # vs). (ce_entry_id w, w) \<in> set (pc_entries c) \<and> ce_refcount w = 0 \<and> \<not> ce_pinned w
         \<and> (\<forall>e \<in> set (eviction_candidates c'). victim_key (pc_spec c) w \<le> victim_key (pc_spec c) e)"
    using post d victim_facts(2,3,4) [OF v] by (auto simp: eviction_post_def delete_mem)
  then show ?thesis using en post d(1) unfolding eviction_post_def by simp
qed

lemma evict_loop_enough:
  assumes "cache_wf c" "length (pc_entries c) \<le> fuel"
  shows "\<exists>vs c'. evict_loop fsum limit fuel acc c = (Inr (acc @ vs), c') \<and> eviction_post fsum limit c vs c'"
  using assms
proof (induction fuel arbitrary: acc c)
  case 0
  then have "pc_entries c = []" by simp
  then show ?case by (subst evict_loop.simps) (auto simp: cache_victim_def eviction_candidates_def eviction_post_def)
next
  case (Suc n)
  consider "total_bytes fsum c \<le> limit" | "\<not> total_bytes fsum c \<le> limit" "cache_victim c = None"
    | v where "\<not> total_bytes fsum c \<le> limit" "cache_victim c = Some v" by (cases "cache_victim c") auto
  then show ?case
  proof cases
    case (3 v)
    obtain c1 where d: "cache_drop (ce_entry_id v) ''capacity'' c = (Inr (), c1)" "pc_spec c1 = pc_spec c"
      "pc_entries c1 = AList.delete (ce_entry_id v) (pc_entries c)" "length (pc_entries c1) < length (pc_entries c)"
      using drop_victim [OF Suc.prems(1) 3(2)] by blast
    have wf1: "cache_wf c1" using drop_wf [OF Suc.prems(1)] d(1) by (metis snd_conv)
    have "length (pc_entries c1) \<le> n" using d(4) Suc.prems(2) by simp
    from Suc.IH [OF wf1 this, of "acc @ [v]"] obtain vs c' where
      r: "evict_loop fsum limit n (acc @ [v]) c1 = (Inr ((acc @ [v]) @ vs), c')" "eviction_post fsum limit c1 vs c'" by blast
    have "evict_loop fsum limit (Suc n) acc c = (Inr (acc @ v # vs), c')"
      using 3 d(1) r(1) by (subst evict_loop.simps) simp
    then show ?thesis using post_Cons [OF Suc.prems(1) 3(2) d(2,3) r(2)] by blast
  qed (subst evict_loop.simps, simp add: eviction_post_def cache_victim_def)+
qed

text \<open>C18: eviction ends and does what it says, for any byte sum: from every reachable cache it returns, the
  entries it removed were unread and unpinned, every other entry is kept unchanged, no entry it could
  still take precedes a removed one in the eviction order, and afterwards the cache fits the limit
  (the target, or the cap when that is lower) unless every entry left is read or pinned.\<close>

theorem evict_reclaims_unread:
  assumes "cache_step\<^sup>*\<^sup>* (new_cache sp) c"
  shows "\<exists>vs c'. cache_evict fsum target_bytes c = (Inr vs, c')
    \<and> pc_entries c' = filter (\<lambda>x. fst x \<notin> ce_entry_id ` set vs) (pc_entries c)
    \<and> (\<forall>v \<in> set vs. (ce_entry_id v, v) \<in> set (pc_entries c) \<and> ce_readers v = [] \<and> \<not> ce_pinned v
         \<and> (\<forall>e \<in> set (eviction_candidates c'). victim_key (pc_spec c) v \<le> victim_key (pc_spec c) e))
    \<and> (total_bytes fsum c' \<le> min target_bytes (cs_max_cache_bytes (pc_spec c))
       \<or> (\<forall>(eid, e) \<in> set (pc_entries c'). ce_readers e \<noteq> [] \<or> ce_pinned e))"
proof -
  have wf: "cache_wf c" using assms by (rule reachable_wf)
  obtain vs c' where e: "cache_evict fsum target_bytes c = (Inr vs, c')" "eviction_post fsum (cache_limit target_bytes c) c vs c'"
    using evict_loop_enough [OF wf order_refl, of fsum "cache_limit target_bytes c" "[]"] by (auto simp: cache_evict_def)
  have ref: "ce_refcount e = 0 \<longleftrightarrow> ce_readers e = []" if "(eid, e) \<in> set (pc_entries c)" for eid e
    using wf that by (auto simp: cache_wf_def entry_ok_def)
  have en: "pc_entries c' = filter (\<lambda>x. fst x \<notin> ce_entry_id ` set vs) (pc_entries c)" using e(2) by (simp add: eviction_post_def)
  have "\<forall>(eid, e) \<in> set (pc_entries c'). ce_readers e \<noteq> [] \<or> ce_pinned e" if "eviction_candidates c' = []"
    using that en ref by (fastforce simp: eviction_candidates_def filter_empty_conv)
  then show ?thesis using e ref en unfolding eviction_post_def cache_limit_def by blast
qed

text \<open>The first prefix of the example, retained after its only reader has left.\<close>

definition retained_cache :: prefix_cache where
  "retained_cache = snd (cache_release ''r1'' True (snd (cache_insert (demo_key [1, 2]) [7] 50 ''r1'' (new_cache demo_spec))))"

lemma retained_reachable: "cache_step\<^sup>*\<^sup>* (new_cache demo_spec) retained_cache"
proof -
  note more = rtranclp.rtrancl_into_rtrancl [where r = cache_step]
  show ?thesis
    unfolding retained_cache_def by (rule more [OF more [OF rtranclp.rtrancl_refl cache_step.Insert] cache_step.Release])
qed

theorem evict_reclaims_unread_witness:
  "\<exists>vs c'. cache_evict sum_list 10 retained_cache = (Inr vs, c') \<and> length (pc_entries retained_cache) = 1 \<and> pc_entries c' = []"
proof -
  obtain vs c' where e: "cache_evict sum_list 10 retained_cache = (Inr vs, c')"
    and post: "total_bytes sum_list c' \<le> min 10 (cs_max_cache_bytes (pc_spec retained_cache))
       \<or> (\<forall>(eid, e) \<in> set (pc_entries c'). ce_readers e \<noteq> [] \<or> ce_pinned e)"
    using evict_reclaims_unread [OF retained_reachable, of sum_list 10] by blast
  have "pc_entries (snd (cache_evict sum_list 10 retained_cache)) = []" "length (pc_entries retained_cache) = 1" by code_simp+
  with e show ?thesis by auto
qed

section \<open>Lookup\<close>

lemma whole_blocks:
  fixes x b :: int
  assumes "0 < b" "0 \<le> x"
  shows "0 \<le> x div b * b \<and> x div b * b \<le> x"
proof -
  have e: "x = x div b * b + x mod b" by simp
  have "0 \<le> x mod b" using assms(1) by (rule pos_mod_sign)
  then have "x div b * b \<le> x" using e by linarith
  then show ?thesis using assms by (simp add: pos_imp_zdiv_nonneg_iff)
qed

text \<open>An accepted match: the same identity, a live reader, whole blocks inside both token lists, and under
  the default policy equal tokens.\<close>

lemma match_accepted:
  assumes "mt_accepted (match_entry sha256 sp e key q)" "0 < cs_block_size sp" "0 \<le> q"
    and "0 \<le> ce_token_count e"
  shows "identity_matches (ce_key e) key" "ce_refcount e > 0" "cs_block_size sp dvd mt_length (match_entry sha256 sp e key q)"
    "0 \<le> mt_length (match_entry sha256 sp e key q)"
    "mt_length (match_entry sha256 sp e key q) \<le> ce_token_count e" "mt_length (match_entry sha256 sp e key q) \<le> q"
    "cs_collision_policy sp = ''digest_plus_token_equality'' \<Longrightarrow>
       take (nat (mt_length (match_entry sha256 sp e key q))) (ky_tokens (ce_key e))
         = take (nat (mt_length (match_entry sha256 sp e key q))) (ky_tokens key)"
proof -
  let ?m = "min (ce_token_count e) q" and ?bs = "cs_block_size sp"
  have acc: "identity_matches (ce_key e) key \<and> ce_refcount e > 0 \<and> mt_length (match_entry sha256 sp e key q) = ?m - ?m mod ?bs
      \<and> (cs_collision_policy sp = ''digest_plus_token_equality''
           \<longrightarrow> py_slice 0 (?m - ?m mod ?bs) (ky_tokens key) = py_slice 0 (?m - ?m mod ?bs) (ky_tokens (ce_key e)))"
    using assms(1) by (auto simp: match_entry_def no_match_def Let_def split: if_splits)
  have len: "?m - ?m mod ?bs = ?bs * (?m div ?bs)" by (simp add: minus_mod_eq_mult_div)
  have ge: "0 \<le> ?m - ?m mod ?bs" unfolding len using assms(2-4) by (simp add: pos_imp_zdiv_nonneg_iff)
  have "0 \<le> ?m mod ?bs" using assms(2) by (rule pos_mod_sign)
  then have le: "?m - ?m mod ?bs \<le> ?m" by linarith
  show "identity_matches (ce_key e) key" "ce_refcount e > 0" using acc by auto
  show "?bs dvd mt_length (match_entry sha256 sp e key q)" using acc len by simp
  show "0 \<le> mt_length (match_entry sha256 sp e key q)" using acc ge by simp
  show "mt_length (match_entry sha256 sp e key q) \<le> ce_token_count e" "mt_length (match_entry sha256 sp e key q) \<le> q"
    using acc le by simp_all
  assume "cs_collision_policy sp = ''digest_plus_token_equality''"
  then show "take (nat (mt_length (match_entry sha256 sp e key q))) (ky_tokens (ce_key e))
         = take (nat (mt_length (match_entry sha256 sp e key q))) (ky_tokens key)"
    using acc ge by (simp add: py_slice_def Let_def)
qed

text \<open>The length recorded for a group comes from an accepted entry of that group.\<close>

definition served_by ::
  "(string \<Rightarrow> string) \<Rightarrow> cache_spec \<Rightarrow> prefix_key \<Rightarrow> int \<Rightarrow> (string \<times> cache_entry) list \<Rightarrow> scan \<Rightarrow> bool" where
  "served_by sha256 sp key q es s \<longleftrightarrow> (\<forall>g n. map_of (sn_per_group s) g = Some n \<longrightarrow> n = 0 \<or>
     (\<exists>(eid, e) \<in> set es. ce_block_group e = g \<and> mt_accepted (match_entry sha256 sp e key q) \<and> mt_length (match_entry sha256 sp e key q) = n))"

lemma scan_entry_served:
  assumes "served_by sha256 sp key q es s" "x \<in> set es"
  shows "served_by sha256 sp key q es (scan_entry sha256 sp key q groups s x)"
proof -
  obtain eid e where x: "x = (eid, e)" by fastforce
  let ?d = "match_entry sha256 sp e key q" and ?s = "scan_entry sha256 sp key q groups s x"
  show ?thesis
  proof (cases "ce_block_group e \<in> set groups \<and> mt_accepted ?d")
    case False
    then have "sn_per_group ?s = sn_per_group s" by (auto simp: scan_entry_def x Let_def)
    then show ?thesis using assms(1) by (simp add: served_by_def)
  next
    case True
    then have p: "sn_per_group ?s = AList.update (ce_block_group e)
        (max (case map_of (sn_per_group s) (ce_block_group e) of None \<Rightarrow> 0 | Some n \<Rightarrow> n) (mt_length ?d)) (sn_per_group s)"
      by (auto simp: scan_entry_def x Let_def)
    show ?thesis unfolding served_by_def
    proof (intro allI impI)
      fix g n
      assume "map_of (sn_per_group ?s) g = Some n"
      then consider "map_of (sn_per_group s) g = Some n" | "g = ce_block_group e" "n = mt_length ?d" | "n = 0"
        by (auto simp: p map_of_update max_def split: if_splits option.splits)
      then show "n = 0 \<or> (\<exists>(eid, e) \<in> set es. ce_block_group e = g \<and> mt_accepted (match_entry sha256 sp e key q)
          \<and> mt_length (match_entry sha256 sp e key q) = n)"
      proof cases
        case 1
        then show ?thesis using assms(1) by (auto simp: served_by_def)
      next
        case 2
        then show ?thesis using True assms(2) x by blast
      qed simp
    qed
  qed
qed

lemma scan_served: "served_by sha256 sp key q es (scan_entries sha256 sp key q groups es)"
proof -
  have "served_by sha256 sp key q es (foldl (scan_entry sha256 sp key q groups) s xs)"
    if "set xs \<subseteq> set es" "served_by sha256 sp key q es s" for xs s
    using that by (induction xs arbitrary: s) (auto simp: scan_entry_served)
  note run = this
  show ?thesis unfolding scan_entries_def by (rule run) (auto simp: served_by_def)
qed

lemma group_length_served:
  assumes "group_length (scan_entries sha256 sp key q groups es) g \<noteq> 0"
  obtains eid e where "(eid, e) \<in> set es" "ce_block_group e = g" "mt_accepted (match_entry sha256 sp e key q)"
    "mt_length (match_entry sha256 sp e key q) = group_length (scan_entries sha256 sp key q groups es) g"
  using assms scan_served [of sha256 sp key q es groups]
  by (fastforce simp: group_length_def served_by_def split: option.splits)

lemma lookup_cached:
  assumes "cache_lookup sha256 key q groups rid c = (Inr r, c')"
  shows "0 < q" "q \<le> ky_length key" "lr_query_tokens r = q" "lr_computed_tokens r = q - lr_cached_tokens r"
    "lr_cached_tokens r = (if groups = [] then 0
       else Min (group_length (scan_entries sha256 (pc_spec c) key q groups (pc_entries c)) ` set groups))
         div cs_block_size (pc_spec c) * cs_block_size (pc_spec c)"
  using assms by (auto simp: cache_lookup_def Let_def lookup_result_check_def split: if_splits sum.splits)

text \<open>C19: a lookup serves only what the query really contains: in every reachable cache with a positive block
  size and the default collision policy, the number of cached tokens is a whole number of blocks
  within the query, every query token is either cached or computed, and when any token is served then
  for every requested KV group there is a live entry with the query's identity whose first tokens are
  exactly the query's tokens, that many, whatever the hash function does.\<close>

theorem lookup_serves_equal_tokens:
  assumes "cache_step\<^sup>*\<^sup>* (new_cache sp) c" and "pc_spec c = sp" and "cache_spec_check sp = Inr ()"
    and "cs_collision_policy sp = ''digest_plus_token_equality''"
    and "cache_lookup sha256 key query_tokens block_groups request_id c = (Inr r, c')"
  shows "0 \<le> lr_cached_tokens r \<and> lr_cached_tokens r + lr_computed_tokens r = query_tokens \<and> lr_cached_tokens r \<le> query_tokens
    \<and> cs_block_size sp dvd lr_cached_tokens r
    \<and> (lr_cached_tokens r > 0 \<longrightarrow> block_groups \<noteq> [] \<and> (\<forall>g \<in> set block_groups. \<exists>(eid, e) \<in> set (pc_entries c).
         ce_block_group e = g \<and> identity_matches (ce_key e) key \<and> ce_readers e \<noteq> []
         \<and> take (nat (lr_cached_tokens r)) (ky_tokens (ce_key e)) = take (nat (lr_cached_tokens r)) (ky_tokens key)
         \<and> lr_cached_tokens r \<le> ky_length (ce_key e)))"
proof -
  let ?s = "scan_entries sha256 sp key query_tokens block_groups (pc_entries c)" and ?n = "lr_cached_tokens r"
  have wf: "cache_wf c" using assms(1) by (rule reachable_wf)
  have bs: "0 < cs_block_size sp" using assms(3) by (auto simp: cache_spec_check_def split: if_splits)
  note l = lookup_cached [OF assms(5), unfolded assms(2)]
  have tc: "0 \<le> ce_token_count e" "ce_token_count e = ky_length (ce_key e)" if "(eid, e) \<in> set (pc_entries c)" for eid e
    using wf that by (auto simp: cache_wf_def entry_ok_def ky_length_def)
  have g: "0 \<le> group_length ?s g \<and> group_length ?s g \<le> query_tokens" for g
  proof (cases "group_length ?s g = 0")
    case False
    then obtain eid e where "(eid, e) \<in> set (pc_entries c)" "mt_accepted (match_entry sha256 sp e key query_tokens)"
      "mt_length (match_entry sha256 sp e key query_tokens) = group_length ?s g" by (rule group_length_served)
    then show ?thesis using match_accepted [of sha256 sp e key query_tokens] bs l(1) tc by force
  qed (use l(1) in simp)
  have best: "0 \<le> (if block_groups = [] then 0 else Min (group_length ?s ` set block_groups))
      \<and> (if block_groups = [] then 0 else Min (group_length ?s ` set block_groups)) \<le> query_tokens"
    using g l(1) by (auto simp: Min_le_iff) (metis hd_in_set)
  have n: "0 \<le> ?n" "?n \<le> (if block_groups = [] then 0 else Min (group_length ?s ` set block_groups))"
    unfolding l(5) using whole_blocks [OF bs] best by blast+
  have "\<exists>(eid, e) \<in> set (pc_entries c). ce_block_group e = g \<and> identity_matches (ce_key e) key \<and> ce_readers e \<noteq> []
         \<and> take (nat ?n) (ky_tokens (ce_key e)) = take (nat ?n) (ky_tokens key) \<and> ?n \<le> ky_length (ce_key e)"
    if pos: "?n > 0" and gm: "g \<in> set block_groups" for g
  proof -
    have le: "?n \<le> group_length ?s g" using n(2) gm by (auto split: if_splits)
    then have "group_length ?s g \<noteq> 0" using pos by simp
    then obtain eid e where e: "(eid, e) \<in> set (pc_entries c)" "ce_block_group e = g"
      "mt_accepted (match_entry sha256 sp e key query_tokens)"
      "mt_length (match_entry sha256 sp e key query_tokens) = group_length ?s g" by (rule group_length_served)
    note a = match_accepted [OF e(3) bs _ tc(1) [OF e(1)]]
    have "take (nat (group_length ?s g)) (ky_tokens (ce_key e)) = take (nat (group_length ?s g)) (ky_tokens key)"
      using a(7) l(1) assms(4) e(4) by simp
    then have "take (nat ?n) (ky_tokens (ce_key e)) = take (nat ?n) (ky_tokens key)"
      using le by (metis min.absorb1 nat_mono take_take)
    moreover have "ce_readers e \<noteq> []" using a(2) l(1) wf e(1) by (auto simp: cache_wf_def entry_ok_def)
    moreover have "?n \<le> ky_length (ce_key e)" using a(5) l(1) le e(4) tc(2) [OF e(1)] by simp
    ultimately show ?thesis using a(1) l(1) e(1,2) by (intro bexI [of _ "(eid, e)"]) auto
  qed
  moreover have "block_groups \<noteq> []" if "?n > 0" using that n(2) by (auto split: if_splits)
  moreover have "cs_block_size sp dvd ?n" unfolding l(5) by simp
  ultimately show ?thesis using n best l(4) by auto
qed

theorem lookup_serves_equal_tokens_witness:
  "\<exists>r c'. cache_lookup id (demo_key [1, 2, 9]) 3 [''x''] ''r4'' demo_cache = (Inr r, c') \<and> lr_cached_tokens r = 2
    \<and> cs_block_size demo_spec dvd lr_cached_tokens r"
proof -
  obtain r c' where l: "cache_lookup id (demo_key [1, 2, 9]) 3 [''x''] ''r4'' demo_cache = (Inr r, c')"
    and "lr_cached_tokens r = 2"
  proof -
    have "(case fst (cache_lookup id (demo_key [1, 2, 9]) 3 [''x''] ''r4'' demo_cache) of Inl e \<Rightarrow> False | Inr r \<Rightarrow> lr_cached_tokens r = 2)"
      by code_simp
    then show thesis using that
      by (cases "cache_lookup id (demo_key [1, 2, 9]) 3 [''x''] ''r4'' demo_cache") (auto split: sum.splits)
  qed
  moreover have "pc_spec demo_cache = demo_spec" "cache_spec_check demo_spec = Inr ()" by code_simp+
  moreover have "cs_collision_policy demo_spec = ''digest_plus_token_equality''" by (simp add: demo_spec_def)
  ultimately show ?thesis using lookup_serves_equal_tokens [OF demo_reachable _ _ _ l] by auto
qed

section \<open>What the cache cannot do\<close>

lemma block_group_identity: "identity_matches k k' \<Longrightarrow> ky_field k ''block_group'' = ky_field k' ''block_group''"
  by (simp add: identity_matches_def CACHE_KEY_FIELDS_def)

lemma accepted_basic:
  "mt_accepted (match_entry sha256 sp e key q) \<Longrightarrow> identity_matches (ce_key e) key \<and> ce_refcount e > 0"
  by (auto simp: match_entry_def no_match_def Let_def split: if_splits)

text \<open>A lookup is empty as soon as one requested group has no acceptable entry.\<close>

lemma lookup_empty:
  assumes "cache_lookup sha256 key q groups rid c = (Inr r, c')" "g \<in> set groups"
    and "\<And>eid e. (eid, e) \<in> set (pc_entries c) \<Longrightarrow> ce_block_group e = g \<Longrightarrow> \<not> mt_accepted (match_entry sha256 (pc_spec c) e key q)"
    and "\<And>h. 0 \<le> group_length (scan_entries sha256 (pc_spec c) key q groups (pc_entries c)) h"
  shows "lr_cached_tokens r = 0"
proof -
  let ?s = "scan_entries sha256 (pc_spec c) key q groups (pc_entries c)"
  have z: "group_length ?s g = 0" using group_length_served [of sha256 "pc_spec c" key q groups "pc_entries c" g] assms(3) by metis
  have "Min (group_length ?s ` set groups) = 0"
  proof (rule antisym)
    show "Min (group_length ?s ` set groups) \<le> 0" using assms(2) z by (intro Min_le) (auto simp: image_iff intro!: bexI [of _ g])
    show "0 \<le> Min (group_length ?s ` set groups)" using assms(2,4) by (subst Min_ge_iff) auto
  qed
  then show ?thesis using lookup_cached(5) [OF assms(1)] by simp
qed

lemma group_length_nonneg:
  assumes "cache_wf c" "0 < cs_block_size (pc_spec c)" "0 \<le> q"
  shows "0 \<le> group_length (scan_entries sha256 (pc_spec c) key q groups (pc_entries c)) g"
proof (cases "group_length (scan_entries sha256 (pc_spec c) key q groups (pc_entries c)) g = 0")
  case False
  then obtain eid e where e: "(eid, e) \<in> set (pc_entries c)" "mt_accepted (match_entry sha256 (pc_spec c) e key q)"
    "mt_length (match_entry sha256 (pc_spec c) e key q) = group_length (scan_entries sha256 (pc_spec c) key q groups (pc_entries c)) g"
    by (rule group_length_served)
  have "0 \<le> ce_token_count e" using assms(1) e(1) by (auto simp: cache_wf_def entry_ok_def ky_length_def)
  from match_accepted(4) [OF e(2) assms(2,3) this] show ?thesis using e(3) by simp
qed simp

text \<open>Two kinds of lookup never hit, whatever was inserted: one that asks for a KV group other than the
  query key's own, since the group is part of the identity every entry must match, so no prefix is
  reusable across several groups; and one in a cache that nobody reads at the moment, since an
  entry without readers is rejected, so what a released request retained is never served.\<close>

theorem lookup_never_hits:
  assumes "cache_step\<^sup>*\<^sup>* (new_cache sp) c" and "pc_spec c = sp" and "0 < cs_block_size sp"
    and "cache_lookup sha256 key query_tokens block_groups request_id c = (Inr r, c')"
    and "(\<exists>g \<in> set block_groups. g \<noteq> ky_field key ''block_group'') \<or> (\<forall>(eid, e) \<in> set (pc_entries c). ce_readers e = [])"
  shows "lr_cached_tokens r = 0"
proof (cases "block_groups = []")
  case True
  then show ?thesis using lookup_cached(5) [OF assms(4)] by simp
next
  case False
  have wf: "cache_wf c" using assms(1) by (rule reachable_wf)
  have q: "0 \<le> query_tokens" using lookup_cached(1) [OF assms(4)] by simp
  note nn = group_length_nonneg [OF wf _ q, unfolded assms(2), OF assms(3)]
  have ref: "ce_refcount e = int (length (ce_readers e))" if "(eid, e) \<in> set (pc_entries c)" for eid e
    using wf that by (auto simp: cache_wf_def entry_ok_def)
  consider (group) g where "g \<in> set block_groups" "g \<noteq> ky_field key ''block_group''"
    | (unread) "\<forall>(eid, e) \<in> set (pc_entries c). ce_readers e = []" using assms(5) by blast
  then show ?thesis
  proof cases
    case (group g)
    show ?thesis
      by (rule lookup_empty [OF assms(4) group(1)])
         (use group(2) accepted_basic block_group_identity nn assms(2) in \<open>auto simp: ce_block_group_def\<close>)
  next
    case unread
    obtain g where g: "g \<in> set block_groups" using False by (cases block_groups) auto
    have "\<not> mt_accepted (match_entry sha256 (pc_spec c) e key query_tokens)" if "(eid, e) \<in> set (pc_entries c)" for eid e
      using unread ref [OF that] that accepted_basic [of sha256 "pc_spec c" e key query_tokens] by auto
    then show ?thesis using nn assms(2) by (intro lookup_empty [OF assms(4) g]) auto
  qed
qed

theorem lookup_never_hits_witness:
  "\<exists>r c'. cache_lookup id (demo_key [1, 2]) 2 [''x''] ''r2'' retained_cache = (Inr r, c')
     \<and> length (pc_entries retained_cache) = 1 \<and> lr_cached_tokens r = 0"
proof -
  obtain r c' where l: "cache_lookup id (demo_key [1, 2]) 2 [''x''] ''r2'' retained_cache = (Inr r, c')"
  proof -
    have "is_ok (fst (cache_lookup id (demo_key [1, 2]) 2 [''x''] ''r2'' retained_cache))" by code_simp
    then show thesis using that by (cases "cache_lookup id (demo_key [1, 2]) 2 [''x''] ''r2'' retained_cache") (auto simp: is_ok_iff)
  qed
  have "pc_spec retained_cache = demo_spec" "0 < cs_block_size demo_spec"
    "\<forall>(eid, e) \<in> set (pc_entries retained_cache). ce_readers e = []" "length (pc_entries retained_cache) = 1" by code_simp+
  with lookup_never_hits [OF retained_reachable _ _ l] l show ?thesis by blast
qed

text \<open>An insertion can destroy an entry that a request is reading: ids are made from the number of entries,
  so after any entry has been dropped the next insertion reuses the id of a live one and replaces it.
  Here the request \<open>r2\<close> never released its entry, and after the insertion by \<open>r3\<close> no entry has \<open>r2\<close> as
  its reader.\<close>

theorem insert_replaces_live_entry:
  "\<exists>c c'. cache_step\<^sup>*\<^sup>* (new_cache demo_spec) c \<and> readers_of_entry c ''entry-0001'' = [''r2'']
     \<and> snd (cache_insert (demo_key [3, 4]) [9] 10 ''r3'' c) = c' \<and> is_ok (fst (cache_insert (demo_key [3, 4]) [9] 10 ''r3'' c))
     \<and> list_all (\<lambda>(eid, e). ''r2'' \<notin> set (ce_readers e)) (pc_entries c')"
proof -
  let ?c1 = "snd (cache_insert (demo_key [5, 6]) [8] 60 ''r2'' (snd (cache_insert (demo_key [1, 2]) [7] 50 ''r1'' (new_cache demo_spec))))"
  let ?c = "snd (cache_release ''r1'' False ?c1)"
  note more = rtranclp.rtrancl_into_rtrancl [where r = cache_step]
  have "cache_step\<^sup>*\<^sup>* (new_cache demo_spec) ?c"
    by (rule more [OF more [OF more [OF rtranclp.rtrancl_refl cache_step.Insert] cache_step.Insert] cache_step.Release])
  moreover have "readers_of_entry ?c ''entry-0001'' = [''r2'']" by code_simp
  moreover have "is_ok (fst (cache_insert (demo_key [3, 4]) [9] 10 ''r3'' ?c))" by code_simp
  moreover have "list_all (\<lambda>(eid, e). ''r2'' \<notin> set (ce_readers e)) (pc_entries (snd (cache_insert (demo_key [3, 4]) [9] 10 ''r3'' ?c)))"
    by code_simp
  ultimately show ?thesis by blast
qed

text \<open>A lookup in a cache with one entry of the only group asked for is decided by its match.\<close>

lemma lookup_single:
  assumes "pc_entries c = [(eid, e)]" "ce_block_group e = g" "0 < q" "q \<le> ky_length key"
    and "match_entry sha256 (pc_spec c) e key q = d" "0 \<le> mt_length d" "mt_length d mod cs_block_size (pc_spec c) = 0"
    and "\<not> mt_accepted d \<Longrightarrow> mt_length d = 0"
  shows "\<exists>r. fst (cache_lookup sha256 key q [g] rid c) = Inr r \<and> lr_cached_tokens r = mt_length d \<and> lr_collision_detected r = mt_collision d"
proof -
  let ?s = "scan_entries sha256 (pc_spec c) key q [g] (pc_entries c)"
  have "group_length ?s g = mt_length d" "(sn_collisions ?s \<noteq> 0) = mt_collision d"
    using assms by (auto simp: scan_entries_def scan_entry_def group_length_def Let_def)
  moreover have "mt_length d div cs_block_size (pc_spec c) * cs_block_size (pc_spec c) = mt_length d"
    using assms(7) by (simp add: minus_mod_eq_div_mult [symmetric])
  ultimately show ?thesis using assms(3,4) by (simp add: cache_lookup_def Let_def lookup_result_check_def)
qed

lemma collision_match:
  assumes "identity_matches (ce_key e) query" "ce_refcount e = 1" "ce_token_count e = 32" "cs_block_size sp = 16"
    and "ky_digest (ce_key e) = effective_digest sha256 query" "ky_digest (ce_key e) \<noteq> ''''"
    and "length (ky_tokens query) = 32" "length (ky_tokens (ce_key e)) = 32" "ky_tokens query \<noteq> ky_tokens (ce_key e)"
  shows "match_entry sha256 sp e query 32 = (if cs_collision_policy sp = ''digest_plus_token_equality'' then no_match True Forced_collision
    else \<lparr>mt_length = 32, mt_accepted = True, mt_collision = False, mt_reason = Match_ok\<rparr>)"
  using assms by (simp add: match_entry_def Let_def py_slice_def)

definition demo_spec16 :: cache_spec where
  "demo_spec16 = demo_spec\<lparr>cs_block_size := 16, cs_collision_policy := ''digest_plus_token_equality''\<rparr>"

text \<open>The forced-collision fixture behaves as declared for every hash function: the default policy serves
  nothing and reports the collision, while the digest-only policy serves the forged record's blocks.\<close>

theorem forced_collision_policies:
  assumes "cs_block_size sp = 16" and "length prompt \<ge> 32"
    and "\<And>s. sha256 s \<noteq> ''''"
  shows "\<exists>r. collision_is_detected sha256 sp identity prompt = Inr r
    \<and> (cs_collision_policy sp = ''digest_plus_token_equality'' \<longrightarrow> cl_served_tokens r = 0 \<and> cl_collision_detected r \<and> cl_correct r)
    \<and> (cs_collision_policy sp = ''strong_digest'' \<longrightarrow> cl_served_tokens r = 32 \<and> \<not> cl_collision_detected r \<and> \<not> cl_correct r)"
proof -
  obtain base where base: "build_prefix_key sha256 identity prompt (0, 32) default_key_options = Inr base"
    and tokens: "ky_tokens base = take 32 prompt" "ky_digest base = ''''" "ky_field base ''block_group'' = ''full_attention''"
    and ok: "list_all (\<lambda>name. map_of (ky_fields base) name \<noteq> None) ALL_KEY_FIELDS"
    using assms(2)
    by (auto simp: build_prefix_key_def Let_def default_key_options_def key_check_def ky_field_def py_slice_def ALL_KEY_FIELDS_def
        CACHE_KEY_FIELDS_def SPAN_KEY_FIELDS_def)
  let ?f = "forged_key sha256 prompt base"
  have fk: "key_check ?f = Inr ?f" using ok by (simp add: key_check_def forged_key_def)
  have ft: "ky_tokens ?f = (prompt ! 0 + 7) # drop 1 (take 32 prompt)" by (simp add: forged_key_def py_slice_def)
  have len: "ky_length ?f = 32" "ky_length base = 32" using assms(2) tokens(1) ft by (auto simp: ky_length_def)
  obtain p ps where prompt: "take 32 prompt = p # ps" "prompt ! 0 = p" using assms(2) by (cases prompt) auto
  have "length (p # ps) = 32" unfolding prompt(1) [symmetric] using assms(2) by simp
  then have lps: "length ps = 31" by simp
  have ident: "identity_matches ?f base" by (simp add: identity_matches_def forged_key_def ky_field_def list_all_iff)
  have dig: "ky_digest ?f = effective_digest sha256 base" "effective_digest sha256 base \<noteq> ''''"
    using assms(3) tokens(2) by (auto simp: forged_key_def effective_digest_def compute_digest_def)
  have bg: "ky_field ?f ''block_group'' = ''full_attention''" using tokens(3) by (simp add: forged_key_def ky_field_def)
  let ?e = "\<lparr>ce_entry_id = entry_name 0, ce_key = ?f, ce_token_count = 32, ce_block_ids = map int [0..<2], ce_bytes_value = 1024,
    ce_refcount = 1, ce_reuse_count = 0, ce_last_use_iteration = 1, ce_readers = [''r0''], ce_pinned = False\<rparr>"
  let ?c = "(new_cache sp)\<lparr>pc_entries := [(entry_name 0, ?e)], pc_clock := 1\<rparr>"
  have ins: "cache_insert ?f (map int [0..<nat (32 div cs_block_size sp)]) 1024 ''r0'' (new_cache sp) = (Inr ?e, ?c)"
    using assms(1) len by (simp add: cache_insert_def new_cache_def Let_def)
  let ?d = "match_entry sha256 sp ?e base 32"
  have d: "?d = (if cs_collision_policy sp = ''digest_plus_token_equality'' then no_match True Forced_collision
      else \<lparr>mt_length = 32, mt_accepted = True, mt_collision = False, mt_reason = Match_ok\<rparr>)"
    using ident dig assms(1,2) tokens prompt ft lps by (intro collision_match) simp_all
  have fits: "0 \<le> mt_length ?d" "mt_length ?d mod 16 = 0" "\<not> mt_accepted ?d \<Longrightarrow> mt_length ?d = 0"
    unfolding d by (auto simp: no_match_def split: if_splits)
  have "\<exists>r. fst (cache_lookup sha256 base 32 [''full_attention''] ''r1'' ?c) = Inr r
      \<and> lr_cached_tokens r = mt_length ?d \<and> lr_collision_detected r = mt_collision ?d"
    by (rule lookup_single [of ?c "entry_name 0" ?e]) (use fits len bg assms(1) in \<open>simp_all add: new_cache_def ce_block_group_def\<close>)
  then obtain r where r: "fst (cache_lookup sha256 base 32 [''full_attention''] ''r1'' ?c) = Inr r"
      "lr_cached_tokens r = mt_length ?d" "lr_collision_detected r = mt_collision ?d" by blast
  show ?thesis using base fk ins r(1) by (simp add: collision_is_detected_def r(2,3) d no_match_def)
qed

theorem forced_collision_policies_witness:
  "\<exists>r. collision_is_detected (\<lambda>s. ''d'') demo_spec16 [] (map int [0..<64]) = Inr r \<and> cl_served_tokens r = 0 \<and> cl_collision_detected r"
  using forced_collision_policies [of demo_spec16 "map int [0..<64]" "\<lambda>s. ''d''" "[]"] by (auto simp: demo_spec16_def demo_spec_def)

end
