(* ===== verification/Spec_Decode.thy ===== *)
theory Spec_Decode
  imports Float64 Errors
begin

text \<open>
  Speculative decoding (\<open>hqsb/runtime/spec_decode.py\<close>): compatibility of a draft and a target model, the
  acceptance rule and the residual distribution of strict speculative sampling, the cycle records
  with their benefit model, and the gates a claim has to pass. Python's \<open>Fraction\<close> is exact, so the
  sampling part is rational arithmetic without rounding; times are floats. The sum of a list of
  floats, whose rounding depends on the interpreter, is an argument.
\<close>

section \<open>Draft and target\<close>

definition SPEC_ALGORITHMS :: "string list" where
  "SPEC_ALGORITHMS = [''greedy'', ''strict_sampling'', ''mtp'']"

record draft_target_identity =
  dt_target_model_id :: string
  dt_target_revision :: string
  dt_target_tokenizer_id :: string
  dt_target_vocab_size :: int
  dt_target_precision :: string
  dt_draft_model_id :: string
  dt_draft_revision :: string
  dt_draft_tokenizer_id :: string
  dt_draft_vocab_size :: int
  dt_token_mapping_verified :: bool
  dt_kv_layout :: string
  dt_max_context :: int
  dt_gamma :: int

definition identity_check :: "draft_target_identity \<Rightarrow> unit res" where
  "identity_check d =
     (if dt_target_model_id d = '''' \<or> dt_target_revision d = '''' then Inl (ConfigError ''target artifact'')
      else if dt_gamma d < 1 then Inl (ConfigError ''gamma'')
      else if dt_draft_model_id d \<noteq> '''' \<and> dt_draft_vocab_size d \<le> 0 then Inl (ConfigError ''draft_vocab_size'')
      else Inr ())"

definition uses_draft_model :: "draft_target_identity \<Rightarrow> bool" where
  "uses_draft_model d \<longleftrightarrow> dt_draft_model_id d \<noteq> ''''"

datatype pair_problem = Vocabulary_differs int int | Tokenizer_differs

definition compatibility :: "draft_target_identity \<Rightarrow> pair_problem list" where
  "compatibility d =
     (if uses_draft_model d
      then (if dt_draft_vocab_size d \<noteq> dt_target_vocab_size d \<and> \<not> dt_token_mapping_verified d
            then [Vocabulary_differs (dt_draft_vocab_size d) (dt_target_vocab_size d)] else [])
         @ (if dt_draft_tokenizer_id d \<noteq> '''' \<and> dt_draft_tokenizer_id d \<noteq> dt_target_tokenizer_id d \<and> \<not> dt_token_mapping_verified d
            then [Tokenizer_differs] else [])
      else [])"

definition require_compatible :: "draft_target_identity \<Rightarrow> unit res" where
  "require_compatible d = (if compatibility d \<noteq> [] then Inl (SchemaError ''draft/target pair'') else Inr ())"

section \<open>Acceptance and residual\<close>

definition acceptance_probability :: "rat \<Rightarrow> rat \<Rightarrow> rat res" where
  "acceptance_probability target_p draft_q =
     (if draft_q = 0 then Inl (ConfigError ''draft_q'')
      else if \<not> (0 \<le> target_p \<and> target_p \<le> 1) \<or> \<not> (0 \<le> draft_q \<and> draft_q \<le> 1) then Inl (ConfigError ''probabilities'')
      else Inr (min 1 (target_p / draft_q)))"

definition residual_distribution :: "rat list \<Rightarrow> rat list \<Rightarrow> rat list res" where
  "residual_distribution target_p draft_q =
     (if length target_p \<noteq> length draft_q then Inl (ConfigError ''distribution'')
      else if target_p = [] then Inl (ConfigError ''empty distribution'')
      else let raw = map (\<lambda>(p, q). max 0 (p - q)) (zip target_p draft_q); total = sum_list raw in
        if total = 0 then Inl (ConfigError ''degenerate distribution'')
        else Inr (map (\<lambda>value. value / total) raw))"

definition residual_is_normalized :: "rat list \<Rightarrow> bool" where
  "residual_is_normalized residual \<longleftrightarrow> residual \<noteq> [] \<and> sum_list residual = 1"

record acceptance_report =
  ar_proposed_token :: int
  ar_acceptance_probability :: rat
  ar_accepted :: bool
  ar_residual_normalized :: bool
  ar_residual :: "rat list"

definition verify_acceptance :: "rat list \<Rightarrow> rat list \<Rightarrow> int \<Rightarrow> rat \<Rightarrow> acceptance_report res" where
  "verify_acceptance target_p draft_q proposed_token uniform_draw =
     (if \<not> (0 \<le> proposed_token \<and> proposed_token < int (length target_p)) then Inl (ConfigError ''proposed token'')
      else if \<not> (0 \<le> uniform_draw \<and> uniform_draw \<le> 1) then Inl (ConfigError ''uniform draw'')
      else if \<not> proposed_token < int (length draft_q) then Inl IndexError
      else bindE (acceptance_probability (target_p ! nat proposed_token) (draft_q ! nat proposed_token)) (\<lambda>probability.
           bindE (residual_distribution target_p draft_q) (\<lambda>residual.
           Inr \<lparr>ar_proposed_token = proposed_token, ar_acceptance_probability = probability,
                ar_accepted = (uniform_draw \<le> probability), ar_residual_normalized = residual_is_normalized residual,
                ar_residual = residual\<rparr>)))"

record acceptance_audit =
  aa_case :: string
  aa_target_p :: "rat list"
  aa_draft_q :: "rat list"
  aa_sampled_uniform :: rat
  aa_expected_accepted :: bool
  aa_expected_next_token :: "int option"

definition golden_acceptance_cases :: "acceptance_audit list" where
  "golden_acceptance_cases =
     (let p = [1 / 2, 3 / 10, 1 / 5]; q = [1 / 2, 1 / 2, 0] in
      [\<lparr>aa_case = ''all_accept'', aa_target_p = p, aa_draft_q = q, aa_sampled_uniform = 1 / 10,
        aa_expected_accepted = True, aa_expected_next_token = Some 0\<rparr>,
       \<lparr>aa_case = ''first_reject'', aa_target_p = p, aa_draft_q = q, aa_sampled_uniform = 9 / 10,
        aa_expected_accepted = False, aa_expected_next_token = Some 1\<rparr>,
       \<lparr>aa_case = ''draft_zero_probability'', aa_target_p = p, aa_draft_q = q, aa_sampled_uniform = 1 / 2,
        aa_expected_accepted = True, aa_expected_next_token = Some 2\<rparr>])"

section \<open>Cycles\<close>

record cycle_record =
  cy_cycle_index :: int
  cy_proposed :: int
  cy_accepted :: int
  cy_rejected_index :: int
  cy_correction_token_committed :: bool
  cy_advanced_tokens :: int
  cy_target_calls :: int
  cy_draft_ms :: rat
  cy_verify_ms :: rat
  cy_accept_ms :: rat
  cy_rollback_ms :: rat
  cy_scheduler_ms :: rat
  cy_draft_kv_blocks :: int
  cy_target_kv_blocks :: int
  cy_eos_reached :: bool

definition cycle_check :: "cycle_record \<Rightarrow> unit res" where
  "cycle_check c =
     (if cy_proposed c < 0 \<or> cy_accepted c < 0 then Inl (ConfigError ''proposed'')
      else if cy_accepted c > cy_proposed c then Inl (ConfigError ''accepted'')
      else if cy_advanced_tokens c \<noteq> cy_accepted c + (if cy_correction_token_committed c then 1 else 0)
        then Inl (ConfigError ''advanced_tokens'')
      else Inr ())"

definition cycle_time_ms :: "cycle_record \<Rightarrow> rat" where
  "cycle_time_ms c = fl (fl (fl (fl (cy_draft_ms c + cy_verify_ms c) + cy_accept_ms c) + cy_rollback_ms c) + cy_scheduler_ms c)"

definition acceptance_rate :: "cycle_record \<Rightarrow> rat" where
  "acceptance_rate c = (if cy_proposed c = 0 then 0 else int_truediv (cy_accepted c) (cy_proposed c))"

record greedy_report =
  gr_ok :: bool
  gr_first_mismatch_index :: int
  gr_compared_tokens :: int
  gr_truncated :: bool

text \<open>The loop over \<open>range(limit)\<close> that stops at the first difference.\<close>

definition first_mismatch_below :: "nat \<Rightarrow> int list \<Rightarrow> int list \<Rightarrow> int" where
  "first_mismatch_below limit vanilla speculative =
     (case filter (\<lambda>i. vanilla ! i \<noteq> speculative ! i) [0..<limit] of [] \<Rightarrow> - 1 | i # _ \<Rightarrow> int i)"

definition verify_greedy_exactness :: "int list \<Rightarrow> int list \<Rightarrow> int \<Rightarrow> greedy_report" where
  "verify_greedy_exactness vanilla_tokens speculative_tokens max_new_tokens =
     (let limit = min (min (int (length vanilla_tokens)) (int (length speculative_tokens))) max_new_tokens;
          first_mismatch = first_mismatch_below (nat limit) vanilla_tokens speculative_tokens;
          truncated = int (length speculative_tokens) < min (int (length vanilla_tokens)) max_new_tokens
      in \<lparr>gr_ok = (first_mismatch < 0 \<and> \<not> truncated), gr_first_mismatch_index = first_mismatch,
          gr_compared_tokens = limit, gr_truncated = truncated\<rparr>)"

datatype gate_verdict = PASS | FAIL | INCONCLUSIVE

definition distribution_gate :: "(rat list \<Rightarrow> rat) \<Rightarrow> rat list \<Rightarrow> rat list \<Rightarrow> rat \<Rightarrow> int \<Rightarrow> gate_verdict res" where
  "distribution_gate fsum left_samples right_samples pre_registered_bound min_seeds =
     (if pre_registered_bound \<le> 0 then Inl (ConfigError ''bound'')
      else if int (length left_samples) < min_seeds \<or> int (length right_samples) < min_seeds then Inr INCONCLUSIVE
      else if left_samples = [] \<or> right_samples = [] then Inl ZeroDivisionError
      else let left = fl (fsum left_samples / fl (of_nat (length left_samples)));
               right = fl (fsum right_samples / fl (of_nat (length right_samples)));
               delta = fl (left - right)
           in Inr (if \<bar>delta\<bar> \<le> pre_registered_bound then PASS else FAIL))"

datatype rollback_problem = Accepted_exceeds_proposed | Committed_differs | Rolled_back_differs | Stale_token

definition kv_commit_rollback_audit :: "int \<Rightarrow> int \<Rightarrow> int \<Rightarrow> int \<Rightarrow> bool \<Rightarrow> rollback_problem list" where
  "kv_commit_rollback_audit proposed accepted committed rolled_back stale =
     (if accepted > proposed then [Accepted_exceeds_proposed] else [])
     @ (if committed \<notin> {accepted, accepted + 1} then [Committed_differs] else [])
     @ (if rolled_back \<noteq> proposed - accepted then [Rolled_back_differs] else [])
     @ (if stale then [Stale_token] else [])"

section \<open>Benefit model\<close>

record benefit_model =
  bm_cycles :: "cycle_record list"
  bm_vanilla_tpot_ms :: rat

definition benefit_check :: "benefit_model \<Rightarrow> unit res" where
  "benefit_check b = (if bm_cycles b = [] then Inl (ConfigError ''cycles'')
     else if bm_vanilla_tpot_ms b \<le> 0 then Inl (ConfigError ''vanilla_tpot_ms'') else Inr ())"

definition total_cycle_time_ms :: "(rat list \<Rightarrow> rat) \<Rightarrow> benefit_model \<Rightarrow> rat" where
  "total_cycle_time_ms fsum b = fsum (map cycle_time_ms (bm_cycles b))"

definition total_advanced :: "benefit_model \<Rightarrow> int" where
  "total_advanced b = sum_list (map cy_advanced_tokens (bm_cycles b))"

definition effective_tpot_ms :: "(rat list \<Rightarrow> rat) \<Rightarrow> benefit_model \<Rightarrow> rat res" where
  "effective_tpot_ms fsum b = (if total_advanced b = 0 then Inl (ConfigError ''no token was advanced'')
     else Inr (fl (total_cycle_time_ms fsum b / fl (of_int (total_advanced b)))))"

text \<open>\<open>None\<close> stands for the float infinity.\<close>

definition target_calls_per_output_token :: "benefit_model \<Rightarrow> rat option" where
  "target_calls_per_output_token b =
     (let calls = sum_list (map cy_target_calls (bm_cycles b)) in
      if total_advanced b = 0 then None else Some (int_truediv calls (total_advanced b)))"

definition accepted_over_proposed :: "benefit_model \<Rightarrow> rat" where
  "accepted_over_proposed b =
     (let proposed = sum_list (map cy_proposed (bm_cycles b)); accepted = sum_list (map cy_accepted (bm_cycles b)) in
      if proposed \<noteq> 0 then int_truediv accepted proposed else 0)"

definition speedup :: "(rat list \<Rightarrow> rat) \<Rightarrow> benefit_model \<Rightarrow> rat res" where
  "speedup fsum b = bindE (effective_tpot_ms fsum b) (\<lambda>t.
     if t = 0 then Inl ZeroDivisionError else Inr (fl (bm_vanilla_tpot_ms b / t)))"

definition gamma_sweep :: "int list \<Rightarrow> int list res" where
  "gamma_sweep gammas =
     (if gammas = [] \<or> list_ex (\<lambda>gamma. gamma < 1) gammas then Inl (ConfigError ''gamma candidates'')
      else if 1 \<notin> set gammas then Inl (ConfigError ''gammas'')
      else Inr (sorted_list_of_set (set gammas)))"

section \<open>Contracts and claims\<close>

record mtp_contract =
  mc_heads :: int
  mc_quality_contract :: string
  mc_borrows_strict_sampling_guarantee :: bool
  mc_target_distribution_preserved :: bool

definition mtp_check :: "mtp_contract \<Rightarrow> unit res" where
  "mtp_check c = (if mc_heads c < 1 then Inl (ConfigError ''heads'')
     else if mc_quality_contract c = '''' then Inl (ConfigError ''quality_contract'') else Inr ())"

definition assert_mtp_does_not_borrow :: "mtp_contract \<Rightarrow> unit res" where
  "assert_mtp_does_not_borrow c =
     (if mc_borrows_strict_sampling_guarantee c \<and> \<not> mc_target_distribution_preserved c
      then Inl (SchemaError ''borrows_strict_sampling_guarantee'') else Inr ())"

record speculative_evidence =
  se_algorithm_frozen :: bool
  se_identity_verified :: bool
  se_vanilla_oracle_compared :: bool
  se_acceptance_verified :: bool
  se_kv_rollback_audited :: bool
  se_cycle_cost_decomposed :: bool
  se_workload_slices_measured :: bool
  se_actual_path_recorded :: bool

definition evidence_complete :: "speculative_evidence \<Rightarrow> bool" where
  "evidence_complete e \<longleftrightarrow> se_algorithm_frozen e \<and> se_identity_verified e \<and> se_vanilla_oracle_compared e \<and> se_acceptance_verified e
     \<and> se_kv_rollback_audited e \<and> se_cycle_cost_decomposed e \<and> se_workload_slices_measured e \<and> se_actual_path_recorded e"

definition evidence_missing :: "speculative_evidence \<Rightarrow> string list" where
  "evidence_missing e = map fst (filter (\<lambda>(name, present). \<not> present)
     [(''algorithm_frozen'', se_algorithm_frozen e), (''identity_verified'', se_identity_verified e),
      (''vanilla_oracle_compared'', se_vanilla_oracle_compared e), (''acceptance_verified'', se_acceptance_verified e),
      (''kv_rollback_audited'', se_kv_rollback_audited e), (''cycle_cost_decomposed'', se_cycle_cost_decomposed e),
      (''workload_slices_measured'', se_workload_slices_measured e), (''actual_path_recorded'', se_actual_path_recorded e)])"

datatype claim = NOT_RUN | NOT_CLAIMED "string list" | CLAIMED

definition claim_status :: "speculative_evidence \<Rightarrow> bool \<Rightarrow> string \<Rightarrow> claim res" where
  "claim_status e executed algorithm =
     (if algorithm \<notin> set SPEC_ALGORITHMS then Inl (ConfigError ''algorithm'')
      else if \<not> executed then Inr NOT_RUN
      else if \<not> evidence_complete e then Inr (NOT_CLAIMED (evidence_missing e))
      else Inr CLAIMED)"

end
