(* ===== verification/Spec_Decode_Props.thy ===== *)
theory Spec_Decode_Props
  imports Spec_Decode
begin

text \<open>
  Correctness of strict speculative sampling as the module implements it: with the acceptance rule and
  the residual distribution of the code, a cycle emits every token with exactly its target
  probability. Then the exactness check for greedy decoding and the bounds of the benefit model.
\<close>

section \<open>Strict speculative sampling\<close>

definition is_distribution :: "rat list \<Rightarrow> bool" where
  "is_distribution ps \<longleftrightarrow> list_all (\<lambda>p. 0 \<le> p \<and> p \<le> 1) ps \<and> sum_list ps = 1"

text \<open>The probability that token \<open>i\<close> is drafted and accepted, that the draft is rejected, and that a cycle
  emits token \<open>i\<close> when rejections sample from the distribution \<open>r\<close>.\<close>

definition accepted_mass :: "rat list \<Rightarrow> rat list \<Rightarrow> nat \<Rightarrow> rat" where
  "accepted_mass p q i = (case acceptance_probability (p ! i) (q ! i) of Inl _ \<Rightarrow> 0 | Inr a \<Rightarrow> q ! i * a)"

definition rejected_mass :: "rat list \<Rightarrow> rat list \<Rightarrow> rat" where
  "rejected_mass p q = 1 - sum_list (map (accepted_mass p q) [0..<length p])"

definition emitted_mass :: "rat list \<Rightarrow> rat list \<Rightarrow> rat list \<Rightarrow> nat \<Rightarrow> rat" where
  "emitted_mass p q r i = accepted_mass p q i + rejected_mass p q * r ! i"

lemma distribution_nth: "is_distribution p \<Longrightarrow> i < length p \<Longrightarrow> 0 \<le> p ! i \<and> p ! i \<le> 1"
  by (simp add: is_distribution_def list_all_length)

lemma acceptance_scaled:
  assumes "0 \<le> p" "p \<le> 1" "0 \<le> q" "q \<le> 1"
  shows "(case acceptance_probability p q of Inl _ \<Rightarrow> 0 | Inr a \<Rightarrow> q * a) = min p q"
proof (cases "q = 0")
  case False
  then have "q * min 1 (p / q) = min p q" using assms by (auto simp: min_def field_simps)
  then show ?thesis using False assms by (simp add: acceptance_probability_def)
qed (use assms in \<open>simp add: acceptance_probability_def\<close>)

lemma accepted_mass_min:
  assumes "is_distribution p" "is_distribution q" "length p = length q" "i < length p"
  shows "accepted_mass p q i = min (p ! i) (q ! i)"
  unfolding accepted_mass_def using assms distribution_nth by (intro acceptance_scaled) auto

abbreviation surplus :: "rat list \<Rightarrow> rat list \<Rightarrow> rat list" where
  "surplus p q \<equiv> map (\<lambda>(p, q). max 0 (p - q)) (zip p q)"

lemma surplus_sum:
  "length p = length q \<Longrightarrow> sum_list (surplus p q) = sum_list p - sum_list (map (\<lambda>(p, q). min p q) (zip p q))"
  by (induction p q rule: list_induct2) (auto simp: max_def min_def)

lemma rejected_mass_surplus:
  assumes "is_distribution p" "is_distribution q" "length p = length q"
  shows "rejected_mass p q = sum_list (surplus p q)"
proof -
  have "map (accepted_mass p q) [0..<length p] = map (\<lambda>(p, q). min p q) (zip p q)"
    using assms by (intro nth_equalityI) (simp_all add: accepted_mass_min)
  then show ?thesis using assms(1) surplus_sum [OF assms(3)] by (simp add: rejected_mass_def is_distribution_def)
qed

lemma dominated_sum:
  "length p = length q \<Longrightarrow> list_all2 (\<le>) p (q :: rat list) \<Longrightarrow> sum_list p \<le> sum_list q \<and> (sum_list p = sum_list q \<longrightarrow> p = q)"
  by (induction p q rule: list_induct2) auto

lemma surplus_zero:
  assumes "is_distribution p" "is_distribution q" "length p = length q"
  shows "sum_list (surplus p q) = 0 \<longleftrightarrow> p = q"
proof
  assume "sum_list (surplus p q) = 0"
  then have "\<forall>x \<in> set (surplus p q). x = 0" by (subst (asm) sum_list_nonneg_eq_0_iff) auto
  then have "\<forall>(a, b) \<in> set (zip p q). a \<le> b" by auto
  then have "list_all2 (\<le>) p q" using assms(3) by (auto simp: list_all2_iff)
  then show "p = q" using dominated_sum [OF assms(3)] assms(1,2) by (simp add: is_distribution_def)
next
  assume "p = q"
  then have "\<forall>x \<in> set (surplus p q). x = 0" by (auto simp: set_zip)
  then show "sum_list (surplus p q) = 0" by (subst sum_list_nonneg_eq_0_iff) auto
qed

lemma sum_list_div: "sum_list (map (\<lambda>x. x / (c :: rat)) xs) = sum_list xs / c"
  by (induction xs) (simp_all add: add_divide_distrib)

lemma residual_value:
  assumes "is_distribution p" "is_distribution q" "length p = length q"
  shows "residual_distribution p q = (if p = q then Inl (ConfigError ''degenerate distribution'')
    else Inr (map (\<lambda>x. x / rejected_mass p q) (surplus p q)))"
proof -
  have "p \<noteq> []" using assms(1) by (auto simp: is_distribution_def)
  then show ?thesis using assms(3) surplus_zero [OF assms]
    by (simp only: residual_distribution_def Let_def rejected_mass_surplus [OF assms] if_False if_True simp_thms split: if_split)
qed

lemma residual_normalized:
  assumes "is_distribution p" "is_distribution q" "length p = length q" "residual_distribution p q = Inr r"
  shows "residual_is_normalized r"
proof -
  have ne: "p \<noteq> q" "r = map (\<lambda>x. x / rejected_mass p q) (surplus p q)"
    using assms(4) residual_value [OF assms(1-3)] by (auto split: if_splits)
  have "p \<noteq> []" using assms(1) by (auto simp: is_distribution_def)
  then have "r \<noteq> []" using ne(2) assms(3) by auto
  moreover have "sum_list r = 1"
    unfolding ne(2) sum_list_div using ne(1) surplus_zero [OF assms(1-3)] by (simp add: rejected_mass_surplus [OF assms(1-3)])
  ultimately show ?thesis by (simp add: residual_is_normalized_def)
qed

text \<open>C20: strict speculative sampling with the acceptance probability and the residual of the code emits every
  token with exactly its target probability: for any two different distributions over one vocabulary
  the residual exists, is a distribution, and the drafted-and-accepted mass of a token plus its share
  of the rejected mass is its target probability. The draw for a proposed token is accepted iff it
  times the draft probability is at most the target probability. When draft and target are equal, no
  draft can be rejected, and yet the code refuses to verify any acceptance.\<close>

theorem speculative_sampling_preserves_target:
  assumes "is_distribution p" and "is_distribution q" and "length p = length q"
  shows "(p \<noteq> q \<longrightarrow> (\<exists>r. residual_distribution p q = Inr r \<and> residual_is_normalized r \<and> length r = length p
       \<and> (\<forall>i < length p. 0 \<le> r ! i \<and> emitted_mass p q r i = p ! i)
       \<and> (\<forall>i < length p. \<forall>u. 0 \<le> u \<and> u \<le> 1 \<and> 0 < q ! i \<longrightarrow>
            (\<exists>a. verify_acceptance p q (int i) u = Inr a \<and> ar_residual a = r \<and> (ar_accepted a \<longleftrightarrow> u * q ! i \<le> p ! i)))))
    \<and> (p = q \<longrightarrow> rejected_mass p q = 0 \<and> (\<forall>i u. \<not> is_ok (verify_acceptance p q i u)))"
proof (cases "p = q")
  case True
  have "rejected_mass p q = 0" using surplus_zero [OF assms] rejected_mass_surplus [OF assms] True by simp
  moreover have "\<not> is_ok (verify_acceptance p q i u)" for i u
    using residual_value [OF assms] True by (auto simp: verify_acceptance_def is_ok_iff bindE_eq_Inr)
  ultimately show ?thesis using True by simp
next
  case False
  let ?t = "rejected_mass p q" and ?r = "map (\<lambda>x. x / rejected_mass p q) (surplus p q)"
  have res: "residual_distribution p q = Inr ?r" using residual_value [OF assms] False by simp
  have "0 \<le> ?t" unfolding rejected_mass_surplus [OF assms] by (rule sum_list_nonneg) auto
  then have t: "0 < ?t" using surplus_zero [OF assms] rejected_mass_surplus [OF assms] False by simp
  have "0 \<le> ?r ! i \<and> emitted_mass p q ?r i = p ! i" if "i < length p" for i
    using that t assms(3) by (simp add: emitted_mass_def accepted_mass_min [OF assms that])
  moreover have "\<exists>a. verify_acceptance p q (int i) u = Inr a \<and> ar_residual a = ?r \<and> (ar_accepted a \<longleftrightarrow> u * q ! i \<le> p ! i)"
    if "i < length p" "0 \<le> u" "u \<le> 1" "0 < q ! i" for i u
  proof -
    have "0 \<le> p ! i \<and> p ! i \<le> 1" "0 \<le> q ! i \<and> q ! i \<le> 1" using distribution_nth assms that by auto
    moreover have "u \<le> min 1 (p ! i / q ! i) \<longleftrightarrow> u * q ! i \<le> p ! i" using that by (simp add: pos_le_divide_eq)
    ultimately show ?thesis using that res assms(3) by (simp add: verify_acceptance_def acceptance_probability_def)
  qed
  moreover have "length ?r = length p" using assms(3) by simp
  ultimately show ?thesis using False res residual_normalized [OF assms res] by blast
qed

theorem speculative_sampling_preserves_target_witness:
  "\<exists>r. residual_distribution [1/2, 3/10, 1/5] [1/2, 1/2, 0] = Inr r
     \<and> emitted_mass [1/2, 3/10, 1/5] [1/2, 1/2, 0] r 2 = 1/5"
proof -
  have "is_distribution [1/2, 3/10, 1/5]" "is_distribution [1/2, 1/2, 0]" by code_simp+
  with speculative_sampling_preserves_target [of "[1/2, 3/10, 1/5]" "[1/2, 1/2, 0]"] show ?thesis by fastforce
qed

section \<open>Greedy decoding\<close>

lemma filter_head: "filter P xs = y # ys \<Longrightarrow> y \<in> set xs \<and> P y"
  by (metis filter_eq_ConsD in_set_conv_decomp)

lemma first_mismatch_none: "first_mismatch_below n v s = - 1 \<longleftrightarrow> (\<forall>i < n. v ! i = s ! i)"
  by (auto simp: first_mismatch_below_def filter_empty_conv split: list.splits dest!: filter_head)

lemma first_mismatch_some:
  "first_mismatch_below n v s = int k \<longleftrightarrow> k < n \<and> v ! k \<noteq> s ! k \<and> (\<forall>i < k. v ! i = s ! i)"
proof (induction n)
  case 0
  then show ?case by (simp add: first_mismatch_below_def)
next
  case (Suc n)
  show ?case
  proof (cases "filter (\<lambda>i. v ! i \<noteq> s ! i) [0..<n]")
    case Nil
    then have "\<forall>i < n. v ! i = s ! i" by (simp add: filter_empty_conv)
    then show ?thesis using Nil by (auto simp: first_mismatch_below_def less_Suc_eq)
  next
    case (Cons j js)
    then have "first_mismatch_below (Suc n) v s = first_mismatch_below n v s" by (simp add: first_mismatch_below_def)
    moreover have "j < n \<and> v ! j \<noteq> s ! j" using filter_head [OF Cons] by simp
    ultimately show ?thesis using Suc by (metis less_Suc_eq linorder_neqE_nat not_less_iff_gr_or_eq)
  qed
qed

text \<open>The exactness check for greedy decoding accepts a speculative output iff it begins with the vanilla
  output cut to the token limit, and otherwise reports the first position where the compared parts
  differ. Tokens that follow the vanilla output are not looked at: a speculative output that runs on
  after the vanilla one has stopped is accepted.\<close>

theorem greedy_exactness_prefix:
  fixes v s :: "int list" and m :: int
  defines "n \<equiv> nat (min (int (length v)) m)"
  shows "(gr_ok (verify_greedy_exactness v s m) \<longleftrightarrow> take n s = take n v)
    \<and> (gr_first_mismatch_index (verify_greedy_exactness v s m) = int k \<longleftrightarrow>
        k < min n (length s) \<and> v ! k \<noteq> s ! k \<and> take k v = take k s)
    \<and> gr_ok (verify_greedy_exactness v (v @ extra) m)"
proof -
  have n: "n \<le> length v" by (simp add: n_def)
  have lim: "nat (min (min (int (length v)) (int (length s))) m) = min n (length s)" for s :: "int list"
    by (simp add: n_def)
  have eq: "(\<forall>i < j. v ! i = s ! i) \<longleftrightarrow> take j v = take j s" if "j \<le> length v" "j \<le> length s" for j s
    using that by (auto simp: list_eq_iff_nth_eq)
  have neg: "first_mismatch_below j v s < 0 \<longleftrightarrow> first_mismatch_below j v s = - 1" for j s
    by (auto simp: first_mismatch_below_def split: list.splits)
  have ok: "gr_ok (verify_greedy_exactness v s m) \<longleftrightarrow> take n s = take n v" for s
  proof (cases "n \<le> length s")
    case True
    then have "\<not> int (length s) < min (int (length v)) m" by (auto simp: n_def)
    then show ?thesis using True eq [OF n True]
      by (auto simp: verify_greedy_exactness_def Let_def lim neg first_mismatch_none)
  next
    case False
    then have "int (length s) < min (int (length v)) m" "take n s \<noteq> take n v"
      using n by (auto simp: n_def dest: arg_cong [where f = length])
    then show ?thesis by (simp add: verify_greedy_exactness_def Let_def)
  qed
  have "gr_first_mismatch_index (verify_greedy_exactness v s m) = int k \<longleftrightarrow>
        k < min n (length s) \<and> v ! k \<noteq> s ! k \<and> take k v = take k s"
    using n eq [of k s] by (auto simp: verify_greedy_exactness_def Let_def lim first_mismatch_some)
  then show ?thesis using ok n by simp
qed

section \<open>Cycles and benefit\<close>

lemma cycle_check_ok:
  "cycle_check c = Inr () \<longleftrightarrow> 0 \<le> cy_accepted c \<and> cy_accepted c \<le> cy_proposed c
     \<and> cy_advanced_tokens c = cy_accepted c + (if cy_correction_token_committed c then 1 else 0)"
  by (auto simp: cycle_check_def)

lemma cycles_sums:
  assumes "\<forall>c \<in> set cs. cycle_check c = Inr ()"
  shows "0 \<le> sum_list (map cy_accepted cs)" "sum_list (map cy_accepted cs) \<le> sum_list (map cy_proposed cs)"
    "sum_list (map cy_accepted cs) \<le> sum_list (map cy_advanced_tokens cs)"
    "sum_list (map cy_advanced_tokens cs) \<le> sum_list (map cy_accepted cs) + int (length cs)"
  using assms by (induction cs) (auto simp: cycle_check_ok)

text \<open>For cycles that passed their check the benefit model cannot inflate the gain: the advanced tokens
  lie between the accepted ones and one more per cycle, the acceptance ratio is a number in \<open>[0, 1]\<close>
  also after rounding, an effective time per token exists iff some token was advanced, and committing
  the advanced and rolling back the other positions of each cycle passes the KV audit.\<close>

theorem benefit_model_bounds:
  assumes "\<forall>c \<in> set (bm_cycles b). cycle_check c = Inr ()"
  shows "sum_list (map cy_accepted (bm_cycles b)) \<le> total_advanced b
    \<and> total_advanced b \<le> sum_list (map cy_accepted (bm_cycles b)) + int (length (bm_cycles b))
    \<and> 0 \<le> accepted_over_proposed b \<and> accepted_over_proposed b \<le> 1
    \<and> (is_ok (effective_tpot_ms fsum b) \<longleftrightarrow> (\<exists>c \<in> set (bm_cycles b). 0 < cy_advanced_tokens c))
    \<and> (\<forall>c \<in> set (bm_cycles b).
         kv_commit_rollback_audit (cy_proposed c) (cy_accepted c) (cy_advanced_tokens c) (cy_proposed c - cy_accepted c) False = [])"
proof -
  note s = cycles_sums [OF assms]
  let ?a = "sum_list (map cy_accepted (bm_cycles b))" and ?p = "sum_list (map cy_proposed (bm_cycles b))"
  have ratio: "0 \<le> accepted_over_proposed b \<and> accepted_over_proposed b \<le> 1"
  proof (cases "?p = 0")
    case False
    then have p: "0 < ?p" using s(1,2) by simp
    have "(of_int ?a :: rat) \<le> of_int ?p" using s(2) by (rule of_int_le_iff [THEN iffD2])
    then have "0 \<le> (of_int ?a / of_int ?p :: rat)" "of_int ?a / of_int ?p \<le> (of_int 1 :: rat)" using s(1) p by simp_all
    then show ?thesis using False fl_le_int [of 1 "of_int ?a / of_int ?p"] fl_nonneg [of "of_int ?a / of_int ?p"]
      by (simp add: accepted_over_proposed_def int_truediv_def)
  qed (simp add: accepted_over_proposed_def)
  have nn: "\<forall>x \<in> set (map cy_advanced_tokens (bm_cycles b)). 0 \<le> x" using assms by (auto simp: cycle_check_ok)
  have "total_advanced b = 0 \<longleftrightarrow> (\<forall>x \<in> set (map cy_advanced_tokens (bm_cycles b)). x = 0)"
    unfolding total_advanced_def using nn by (intro sum_list_nonneg_eq_0_iff) auto
  then have "is_ok (effective_tpot_ms fsum b) \<longleftrightarrow> (\<exists>c \<in> set (bm_cycles b). 0 < cy_advanced_tokens c)"
    using nn by (auto simp: effective_tpot_ms_def order.strict_iff_order)
  moreover have "\<forall>c \<in> set (bm_cycles b).
         kv_commit_rollback_audit (cy_proposed c) (cy_accepted c) (cy_advanced_tokens c) (cy_proposed c - cy_accepted c) False = []"
    using assms by (auto simp: kv_commit_rollback_audit_def cycle_check_ok)
  ultimately show ?thesis using ratio s(3,4) by (simp add: total_advanced_def)
qed

definition demo_cycle :: cycle_record where
  "demo_cycle = \<lparr>cy_cycle_index = 0, cy_proposed = 3, cy_accepted = 2, cy_rejected_index = 2, cy_correction_token_committed = True,
     cy_advanced_tokens = 3, cy_target_calls = 1, cy_draft_ms = 1, cy_verify_ms = 4, cy_accept_ms = 0, cy_rollback_ms = 0,
     cy_scheduler_ms = 0, cy_draft_kv_blocks = 1, cy_target_kv_blocks = 1, cy_eos_reached = False\<rparr>"

theorem benefit_model_bounds_witness:
  "accepted_over_proposed \<lparr>bm_cycles = [demo_cycle, demo_cycle], bm_vanilla_tpot_ms = 2\<rparr> \<le> 1
    \<and> total_advanced \<lparr>bm_cycles = [demo_cycle, demo_cycle], bm_vanilla_tpot_ms = 2\<rparr> = 6"
  using benefit_model_bounds [of "\<lparr>bm_cycles = [demo_cycle, demo_cycle], bm_vanilla_tpot_ms = 2\<rparr>"]
  by (simp add: demo_cycle_def cycle_check_def total_advanced_def)

lemma evidence_complete_iff: "evidence_complete e \<longleftrightarrow> evidence_missing e = []"
  by (auto simp: evidence_complete_def evidence_missing_def)

end
