(* ===== verification/Binary64.thy ===== *)
theory Binary64
  imports Quant_Scheme
begin

text \<open>
  Rounding to binary64 with its exponent range, for the arithmetic of the quantizer: below
  \<open>2 powi (- 1022)\<close> the spacing of the floats stays at \<open>2 powi (- 1074)\<close> (gradual underflow, down to zero),
  and a result of magnitude \<open>2 powi 1024\<close> or more is an infinity, a \<open>Non_finite\<close> value. In between the
  rounding is \<open>fl\<close>.
\<close>

definition ulp64 :: "rat \<Rightarrow> rat" where
  "ulp64 x = 2 powi (max (ilog2 \<bar>x\<bar>) (- 1022) - 52)"

definition round64 :: "rat \<Rightarrow> rat" where
  "round64 x = (if x = 0 then 0 else of_int (round_half_even (x / ulp64 x)) * ulp64 x)"

definition fl64 :: "rat \<Rightarrow> fval" where
  "fl64 x = (let r = round64 x in if r \<noteq> 0 \<and> 1024 \<le> ilog2 \<bar>r\<bar> then Non_finite else Finite r)"

section \<open>Rounding with an unbounded exponent\<close>

lemma fl_idem_pos: "0 < x \<Longrightarrow> fl (fl x) = fl x"
proof -
  assume x: "0 < x"
  let ?e = "ilog2 x"
  have pos: "0 < fl x" using x by (rule fl_pos)
  have up: "fl x \<le> 2 powi (?e + 1)" using fl_pos_bounds(2) [OF x] .
  show "fl (fl x) = fl x"
  proof (cases "fl x = 2 powi (?e + 1)")
    case True
    then show ?thesis by (simp only: fl_powi)
  next
    case False
    have "fl x = of_int (round_half_even (x / ulp x)) * 2 powi (?e - 52)" using x by (simp add: fl_def ulp_def)
    moreover have "\<bar>fl x\<bar> < 2 powi (?e - 52 + 53)" using False up pos by (simp add: add.commute)
    ultimately show ?thesis by (rule fl_multiple)
  qed
qed

lemma is_float_fl: "is_float (fl x)"
proof -
  consider "0 < x" | "x = 0" | "0 < - x" by linarith
  then have "fl (fl x) = fl x"
  proof cases
    case 3
    then have "fl (fl (- x)) = fl (- x)" by (rule fl_idem_pos)
    then show ?thesis by (simp add: fl_minus)
  qed (auto simp: fl_idem_pos)
  then show ?thesis by (simp add: is_float_def)
qed

text \<open>The relative error of rounding.\<close>

lemma fl_relative: "\<bar>fl x - x\<bar> \<le> \<bar>x\<bar> / 2 ^ 53"
proof (cases "x = 0")
  case False
  have "\<bar>fl x - x\<bar> \<le> ulp x / 2" by (rule fl_error)
  also have "\<dots> \<le> \<bar>x\<bar> * 2 powi (- 52) / 2" using ulp_le [OF False] by simp
  finally show ?thesis by (simp add: power_int_minus divide_simps)
qed simp

section \<open>Normal and subnormal results\<close>

lemma round64_zero [simp]: "round64 0 = 0"
  by (simp add: round64_def)

lemma fl64_zero [simp]: "fl64 0 = Finite 0"
  by (simp add: fl64_def)

lemma ilog2_ge: "2 powi k \<le> x \<Longrightarrow> k \<le> ilog2 x"
proof (rule ccontr)
  assume h: "2 powi k \<le> x" "\<not> k \<le> ilog2 x"
  have "0 < x" using h(1) powi_two_pos [of k] by linarith
  then have "x < 2 powi (ilog2 x + 1)" by (rule ilog2_bounds)
  also have "\<dots> \<le> 2 powi k" using h(2) by (intro powi_two_mono) simp
  finally show False using h(1) by simp
qed

lemma ilog2_less: "0 < x \<Longrightarrow> x < 2 powi k \<Longrightarrow> ilog2 x < k"
proof (rule ccontr)
  assume h: "0 < x" "x < 2 powi k" "\<not> ilog2 x < k"
  have "(2 :: rat) powi k \<le> 2 powi ilog2 x" using h(3) by (intro powi_two_mono) simp
  also have "\<dots> \<le> x" using h(1) by (rule ilog2_bounds)
  finally show False using h(2) by simp
qed

lemma round64_normal: "2 powi (- 1022) \<le> \<bar>x\<bar> \<Longrightarrow> round64 x = fl x"
  using ilog2_ge [of "- 1022" "\<bar>x\<bar>"] by (simp add: round64_def fl_def ulp64_def ulp_def max_def)

text \<open>The smallest positive float.\<close>

definition min_subnormal :: rat where
  "min_subnormal = 2 powi (- 1074)"

lemma min_subnormal_pos: "0 < min_subnormal"
  unfolding min_subnormal_def by (rule powi_two_pos)

lemma round64_subnormal:
  assumes "\<bar>x\<bar> < 2 powi (- 1022)"
  shows "round64 x = of_int (round_half_even (x / min_subnormal)) * min_subnormal"
proof (cases "x = 0")
  case True
  then show ?thesis using round_half_even_of_int [of 0] by simp
next
  case False
  then have "ilog2 \<bar>x\<bar> < - 1022" using assms by (intro ilog2_less) simp_all
  then have "ulp64 x = min_subnormal" by (simp add: ulp64_def min_subnormal_def max_def del: power_int_minus power_int_numeral)
  then show ?thesis using False by (simp only: round64_def if_False)
qed

lemma subnormal_error:
  assumes "\<bar>x\<bar> < 2 powi (- 1022)"
  shows "\<bar>round64 x - x\<bar> \<le> min_subnormal / 2"
proof -
  let ?r = "of_int (round_half_even (x / min_subnormal)) :: rat"
  have "round64 x - x = (?r - x / min_subnormal) * min_subnormal"
    unfolding round64_subnormal [OF assms] using min_subnormal_pos by (simp add: left_diff_distrib)
  then have "\<bar>round64 x - x\<bar> = \<bar>?r - x / min_subnormal\<bar> * min_subnormal"
    using min_subnormal_pos by (simp add: abs_mult)
  also have "\<dots> \<le> 1 / 2 * min_subnormal"
    using min_subnormal_pos by (intro mult_right_mono round_half_even_error) simp
  finally show ?thesis by simp
qed

text \<open>The absolute error for every argument, and the relative one for a normal result.\<close>

lemma round64_error: "\<bar>round64 x - x\<bar> \<le> \<bar>x\<bar> / 2 ^ 53 + min_subnormal / 2"
proof (cases "\<bar>x\<bar> < 2 powi (- 1022)")
  case True
  have "0 \<le> \<bar>x\<bar> / 2 ^ 53" by simp
  then show ?thesis using subnormal_error [OF True] by linarith
next
  case False
  then have "round64 x = fl x" by (intro round64_normal) simp
  moreover have "\<bar>fl x - x\<bar> \<le> \<bar>x\<bar> / 2 ^ 53" by (rule fl_relative)
  ultimately show ?thesis using min_subnormal_pos by simp
qed

lemma is_float_round64: "is_float (round64 x)"
proof (cases "\<bar>x\<bar> < 2 powi (- 1022)")
  case False
  then have "round64 x = fl x" by (intro round64_normal) simp
  then show ?thesis using is_float_fl by simp
next
  case True
  let ?n = "round_half_even (x / min_subnormal)"
  have "\<bar>round64 x - x\<bar> \<le> min_subnormal / 2" by (rule subnormal_error [OF True])
  moreover have "min_subnormal < 2 powi (- 1022)" "(2 :: rat) powi (- 1022) * 2 = 2 powi (- 1021)"
    unfolding min_subnormal_def by (rule power_int_strict_increasing; simp) (simp flip: powi_two_Suc)
  moreover have "(2 :: rat) powi (- 1021) = 2 powi (- 1074 + 53)" by simp
  ultimately have "\<bar>round64 x\<bar> < 2 powi (- 1074 + 53)" using True by linarith
  then have "fl (round64 x) = round64 x"
    using round64_subnormal [OF True] unfolding min_subnormal_def by (intro fl_multiple)
  then show ?thesis by (simp add: is_float_def)
qed

text \<open>Results of a magnitude that is clearly finite.\<close>

lemma fl64_finite:
  assumes "\<bar>round64 x\<bar> < 2 powi 1024"
  shows "fl64 x = Finite (round64 x)"
  using ilog2_less [OF _ assms] by (cases "round64 x = 0") (simp_all add: fl64_def Let_def linorder_not_le)

end
