(* ===== verification/Rtn.thy ===== *)
theory Rtn
  imports Binary64
begin

text \<open>
  Round-to-nearest quantization (\<open>hqsb/quant/rtn.py\<close>): the production reference on float64 values. A
  tensor is a flat list in row-major order with a shape; the quantization units along an axis are
  found by \<open>unit_of_index\<close>, every unit gets a scale (and a zero point), and every value a code. The
  float operations round with \<open>fl64\<close>: a scale or a quotient may underflow to a subnormal number or to
  zero and a difference may overflow. The signal-to-noise report needs a logarithm and the metrics module and is not modelled.
\<close>

record unit_stats =
  us_amax :: fval
  us_scale :: fval
  us_zero :: int
  us_clamp_count :: int
  us_zero_group :: bool
  us_constant_group :: bool
  us_unit_index :: int

record quant_stats =
  st_num_values :: int
  st_num_units :: int
  st_clamp_count :: int
  st_saturated_fraction :: rat
  st_zero_group_count :: int
  st_constant_group_count :: int
  st_nonfinite_count :: int
  st_invalid_scale_units :: "int list"
  st_max_scale :: rat
  st_min_positive_scale :: rat

record quantized_tensor =
  qt_scheme :: quant_scheme
  qt_shape :: "int list"
  qt_axis :: int
  qt_q :: "int list"
  qt_scales :: "fval list"
  qt_zeros :: "int list"
  qt_values_dequant :: "fval list"
  qt_units_per_row :: int
  qt_group_size :: "int option"
  qt_tail :: int
  qt_stats :: quant_stats
  qt_unit_stats :: "unit_stats list"

section \<open>Units\<close>

definition normalize_axis :: "int \<Rightarrow> nat \<Rightarrow> int res" where
  "normalize_axis axis rank =
     (if rank = 0 then Inl (ConfigError ''rank'')
      else let normalized = (if axis < 0 then axis + int rank else axis) in
        if \<not> (0 \<le> normalized \<and> normalized < int rank) then Inl (ConfigError ''axis'') else Inr normalized)"

definition row_count :: "int list \<Rightarrow> int \<Rightarrow> int" where
  "row_count shape axis = prod_list (map snd (filter (\<lambda>(dim_index, dim). int dim_index \<noteq> axis) (enumerate 0 shape)))"

definition unit_of_index :: "int \<Rightarrow> int list \<Rightarrow> int \<Rightarrow> int \<Rightarrow> int option \<Rightarrow> int res" where
  "unit_of_index index shape axis units_per_row group_size =
     (let rank = int (length shape); normalized = (if axis < 0 then axis + rank else axis) in
      if \<not> (0 \<le> normalized \<and> normalized < rank) then Inl (ConfigError ''axis'')
      else let stride_axis = prod_list (drop (nat normalized + 1) shape); axis_dim = shape ! nat normalized in
        if stride_axis \<le> 0 \<or> axis_dim \<le> 0 then Inl (ConfigError ''shape'')
        else let outer = index div (stride_axis * axis_dim);
                 rest = index mod stride_axis;
                 row = outer * stride_axis + rest;
                 coordinate = (index div stride_axis) mod axis_dim
             in case group_size of
                  None \<Rightarrow> Inr (row * units_per_row)
                | Some g \<Rightarrow> if g = 0 then Inl ZeroDivisionError else Inr (row * units_per_row + coordinate div g))"

definition qt_unit_of :: "quantized_tensor \<Rightarrow> int \<Rightarrow> int res" where
  "qt_unit_of t index =
     (if \<not> (0 \<le> index \<and> index < int (length (qt_q t))) then Inl IndexError
      else if qs_granularity (qt_scheme t) = ''per_tensor'' then Inr 0
      else unit_of_index index (qt_shape t) (qt_axis t) (qt_units_per_row t) (qt_group_size t))"

section \<open>Codes of one unit\<close>

fun finite_values :: "fval list \<Rightarrow> rat list" where
  "finite_values [] = []"
| "finite_values (Finite v # vs) = v # finite_values vs"
| "finite_values (Non_finite # vs) = finite_values vs"

definition check_finite :: "fval list \<Rightarrow> quant_scheme \<Rightarrow> int res" where
  "check_finite values scheme =
     (let nonfinite = int (length values - length (finite_values values)) in
      if nonfinite \<noteq> 0 \<and> qs_nan_policy scheme = ''reject'' then Inl (ConfigError ''nonfinite_input'') else Inr nonfinite)"

definition zero_group_scale :: "quant_scheme \<Rightarrow> rat res" where
  "zero_group_scale scheme =
     (if qs_zero_group_policy scheme = ''zero_group_scale_one'' then Inr 1
      else if qs_zero_group_policy scheme = ''zero_group_scale_min_positive''
        then Inr (if qs_scale_dtype scheme = ''float16'' then 2 powi (- 14)
                  else if qs_scale_dtype scheme = ''float32'' then 2 powi (- 126) else 2 powi (- 1074))
      else Inl (ConfigError ''zero-group policy''))"

text \<open>A code and whether it was clamped.\<close>

definition code_value :: "(fval \<Rightarrow> rat res) \<Rightarrow> int \<Rightarrow> int \<Rightarrow> fval \<Rightarrow> int \<Rightarrow> fval \<Rightarrow> (int \<times> bool) res" where
  "code_value round_fn qmin qmax scale zero value =
     (case value of
        Non_finite \<Rightarrow> Inr (0, False)
      | Finite v \<Rightarrow> (case scale of
          Non_finite \<Rightarrow> Inr (0, False)
        | Finite s \<Rightarrow>
            if s \<le> 0 then Inr (0, False)
            else bindE (round_fn (fl64 (v / s))) (\<lambda>rounded.
                 bindE (coerce_round_value (Finite rounded)) (\<lambda>code.
                 let raw = code + zero in
                 Inr (if raw > qmax then (qmax, True) else if raw < qmin then (qmin, True) else (raw, False))))))"

record unit_result =
  ur_scale :: fval
  ur_zero :: int
  ur_codes :: "(int \<times> bool) list"
  ur_zero_counted :: bool
  ur_constant :: bool

definition symmetric_unit :: "(fval \<Rightarrow> rat res) \<Rightarrow> int \<Rightarrow> int \<Rightarrow> quant_scheme \<Rightarrow> fval list \<Rightarrow> unit_result res" where
  "symmetric_unit round_fn qmin qmax scheme chunk =
     (let finite_chunk = finite_values chunk; amax = Max (set (map abs finite_chunk)) in
      if finite_chunk \<noteq> [] \<and> amax = 0
      then bindE (zero_group_scale scheme) (\<lambda>scale.
           Inr \<lparr>ur_scale = Finite scale, ur_zero = 0, ur_codes = map (\<lambda>_. (0, False)) chunk, ur_zero_counted = True, ur_constant = False\<rparr>)
      else bindE (if finite_chunk = [] then Inr Non_finite
                  else if qmax_positive scheme = 0 then Inl ZeroDivisionError
                  else Inr (fl64 (amax / fl (of_int (qmax_positive scheme))))) (\<lambda>scale.
           bindE (all_res (map (code_value round_fn qmin qmax scale 0) chunk)) (\<lambda>codes.
           Inr \<lparr>ur_scale = scale, ur_zero = 0, ur_codes = codes, ur_zero_counted = False, ur_constant = False\<rparr>)))"

text \<open>
  \<open>span / float(qmax - qmin)\<close> and \<open>qmin - xmin / scale\<close>. An overflowing span is an infinity and so is its
  scale; dividing by it gives a zero. A scale that underflows to zero is a \<open>ZeroDivisionError\<close>.
\<close>

definition span_scale :: "rat \<Rightarrow> rat \<Rightarrow> int \<Rightarrow> fval" where
  "span_scale xmin xmax steps =
     (case fl64 (xmax - xmin) of Non_finite \<Rightarrow> Non_finite | Finite spread \<Rightarrow> fl64 (spread / fl (of_int steps)))"

definition zero_offset :: "int \<Rightarrow> rat \<Rightarrow> fval \<Rightarrow> fval res" where
  "zero_offset qmin xmin scale =
     (case scale of
        Non_finite \<Rightarrow> Inr (Finite (fl (of_int qmin)))
      | Finite s \<Rightarrow>
          if s = 0 then Inl ZeroDivisionError
          else case fl64 (xmin / s) of Non_finite \<Rightarrow> Inr Non_finite | Finite q \<Rightarrow> Inr (fl64 (fl (of_int qmin) - q)))"

definition asymmetric_unit :: "(fval \<Rightarrow> rat res) \<Rightarrow> int \<Rightarrow> int \<Rightarrow> quant_scheme \<Rightarrow> fval list \<Rightarrow> unit_result res" where
  "asymmetric_unit round_fn qmin qmax scheme chunk =
     (let finite_chunk = finite_values chunk; xmin = Min (set finite_chunk); xmax = Max (set finite_chunk) in
      if finite_chunk = []
      then Inr \<lparr>ur_scale = Non_finite, ur_zero = 0, ur_codes = map (\<lambda>_. (0, False)) chunk, ur_zero_counted = False, ur_constant = False\<rparr>
      else if xmax = xmin
      then if qs_constant_group_policy scheme = ''constant_group_reject'' then Inl (ConfigError ''constant group'')
           else bindE (zero_group_scale scheme) (\<lambda>scale.
             Inr \<lparr>ur_scale = Finite scale, ur_zero = 0, ur_codes = map (\<lambda>_. (0, False)) chunk, ur_zero_counted = False, ur_constant = True\<rparr>)
      else if qmax - qmin = 0 then Inl ZeroDivisionError
      else let scale = span_scale xmin xmax (qmax - qmin) in
           bindE (zero_offset qmin xmin scale) (\<lambda>offset.
           bindE (round_fn offset) (\<lambda>raw_zero.
           bindE (coerce_round_value (Finite raw_zero)) (\<lambda>z.
           let unit_zero = max qmin (min qmax z) in
           bindE (all_res (map (code_value round_fn qmin qmax scale unit_zero) chunk)) (\<lambda>codes.
           Inr \<lparr>ur_scale = scale, ur_zero = unit_zero, ur_codes = codes, ur_zero_counted = False, ur_constant = False\<rparr>)))))"

definition quantize_unit :: "(fval \<Rightarrow> rat res) \<Rightarrow> int \<Rightarrow> int \<Rightarrow> quant_scheme \<Rightarrow> fval list \<Rightarrow> unit_result res" where
  "quantize_unit round_fn qmin qmax scheme chunk =
     (if qs_symmetric scheme then symmetric_unit round_fn qmin qmax scheme chunk else asymmetric_unit round_fn qmin qmax scheme chunk)"

definition valid_scale :: "fval \<Rightarrow> bool" where
  "valid_scale s = (case s of Non_finite \<Rightarrow> False | Finite v \<Rightarrow> v > 0)"

definition clamps_of :: "unit_result \<Rightarrow> int" where
  "clamps_of r = int (length (filter snd (ur_codes r)))"

definition unit_stats_of :: "int \<Rightarrow> fval list \<Rightarrow> unit_result \<Rightarrow> unit_stats" where
  "unit_stats_of unit_index chunk r =
     \<lparr>us_amax = (if length (finite_values chunk) = length chunk
                 then Finite (if chunk = [] then 0 else Max (set (map abs (finite_values chunk)))) else Non_finite),
      us_scale = ur_scale r, us_zero = ur_zero r, us_clamp_count = clamps_of r,
      us_zero_group = (ur_scale r = Finite 1 \<and> list_all (\<lambda>(code, _). code = 0) (ur_codes r)),
      us_constant_group = ur_constant r, us_unit_index = unit_index\<rparr>"

section \<open>Dequantization\<close>

definition scale_times :: "fval \<Rightarrow> int \<Rightarrow> fval" where
  "scale_times scale d = (case scale of Non_finite \<Rightarrow> Non_finite | Finite s \<Rightarrow> fl64 (s * fl (of_int d)))"

definition dequantize_flat ::
  "int list \<Rightarrow> fval list \<Rightarrow> int list \<Rightarrow> int list \<Rightarrow> int \<Rightarrow> quant_scheme \<Rightarrow> int option \<Rightarrow> int option \<Rightarrow> fval list res" where
  "dequantize_flat q scales zeros shape units_per_row scheme group_size axis =
     (let per_tensor = (qs_granularity scheme = ''per_tensor'');
          resolved_axis = (case axis of None \<Rightarrow> qs_axis scheme | Some a \<Rightarrow> a);
          resolved_group = (case group_size of None \<Rightarrow> qs_group_size scheme | Some g \<Rightarrow> Some g);
          unit_scales = (if per_tensor then take 1 scales else scales);
          unit_zeros = (if per_tensor then [if zeros = [] then 0 else zeros ! 0]
                        else if zeros = [] then replicate (length scales) 0 else zeros)
      in if per_tensor \<and> scales = [] then Inl IndexError
         else all_res (map (\<lambda>(index, code).
           bindE (if per_tensor then Inr 0 else unit_of_index (int index) shape resolved_axis units_per_row resolved_group) (\<lambda>unit.
           if \<not> (0 \<le> unit \<and> unit < int (length unit_scales)) then Inl (ConfigError ''unit'')
           else if qs_symmetric scheme then Inr (scale_times (unit_scales ! nat unit) code)
           else if \<not> unit < int (length unit_zeros) then Inl IndexError
           else Inr (scale_times (unit_scales ! nat unit) (code - unit_zeros ! nat unit)))) (enumerate 0 q)))"

definition dequantize :: "quantized_tensor \<Rightarrow> fval list res" where
  "dequantize t = dequantize_flat (qt_q t) (qt_scales t) (qt_zeros t) (qt_shape t) (qt_units_per_row t) (qt_scheme t)
     (qt_group_size t) (Some (qt_axis t))"

section \<open>Quantization\<close>

text \<open>The dictionary of indices by unit: the units that occur, sorted, and the indices of one of them.\<close>

definition units_of :: "int list \<Rightarrow> int list" where
  "units_of us = sorted_list_of_set (set us)"

definition indices_of :: "int list \<Rightarrow> int \<Rightarrow> nat list" where
  "indices_of us unit = filter (\<lambda>i. us ! i = unit) [0..<length us]"

definition scatter :: "nat list \<Rightarrow> int list \<Rightarrow> int list \<Rightarrow> int list" where
  "scatter indices codes q = foldl (\<lambda>q (i, c). q[i := c]) q (zip indices codes)"

definition shape_of :: "fval list \<Rightarrow> int list option \<Rightarrow> int list res" where
  "shape_of flat shape = (case shape of None \<Rightarrow> Inr [int (length flat)]
     | Some dims \<Rightarrow> if prod_list dims \<noteq> int (length flat) then Inl (ConfigError ''shape'') else Inr dims)"

definition quant_stats_of :: "fval list \<Rightarrow> int \<Rightarrow> (int \<times> unit_result) list \<Rightarrow> quant_stats" where
  "quant_stats_of flat nonfinite results =
     (let clamp_count = sum_list (map (clamps_of \<circ> snd) results);
          good = [s. Finite s \<leftarrow> map (ur_scale \<circ> snd) (filter (valid_scale \<circ> ur_scale \<circ> snd) results)]
      in \<lparr>st_num_values = int (length flat), st_num_units = int (length results), st_clamp_count = clamp_count,
          st_saturated_fraction = (if flat = [] then 0 else int_truediv clamp_count (int (length flat))),
          st_zero_group_count = int (length (filter (ur_zero_counted \<circ> snd) results)),
          st_constant_group_count = int (length (filter (ur_constant \<circ> snd) results)),
          st_nonfinite_count = nonfinite,
          st_invalid_scale_units = map fst (filter (\<lambda>(u, r). \<not> valid_scale (ur_scale r)) results),
          st_max_scale = foldl max 0 good,
          st_min_positive_scale = (if good = [] then 0 else Min (set good))\<rparr>)"

definition quantize :: "fval list \<Rightarrow> quant_scheme \<Rightarrow> int list option \<Rightarrow> int option \<Rightarrow> quantized_tensor res" where
  "quantize flat scheme shape axis =
     bindE (shape_of flat shape) (\<lambda>shape_tuple.
     bindE (normalize_axis (case axis of None \<Rightarrow> qs_axis scheme | Some a \<Rightarrow> a) (length shape_tuple)) (\<lambda>quant_axis.
     bindE (check_finite flat scheme) (\<lambda>nonfinite.
     bindE (get_rounder (qs_round_mode scheme) False) (\<lambda>round_fn.
     let per_tensor = (qs_granularity scheme = ''per_tensor''); k = shape_tuple ! nat quant_axis in
     bindE (if per_tensor then Inr 1 else groups_per_row k (qs_group_size scheme)) (\<lambda>units_per_row.
     let group_size = (if per_tensor then None else qs_group_size scheme) in
     bindE (case group_size of None \<Rightarrow> Inr k | Some g \<Rightarrow> tail_length k (Some g)) (\<lambda>tail.
     bindE (scheme_range scheme) (\<lambda>(qmin, qmax).
     bindE (if per_tensor then Inr (map (\<lambda>_. 0) flat)
            else all_res (map (\<lambda>i. unit_of_index (int i) shape_tuple quant_axis units_per_row group_size) [0..<length flat])) (\<lambda>us.
     let units = units_of us; chunk_of = (\<lambda>u. map (\<lambda>i. flat ! i) (indices_of us u)) in
     bindE (all_res (map (\<lambda>u. quantize_unit round_fn qmin qmax scheme (chunk_of u)) units)) (\<lambda>rs.
     let q = foldl (\<lambda>q (u, r). scatter (indices_of us u) (map fst (ur_codes r)) q) (map (\<lambda>_. 0) flat) (zip units rs);
         scales = map ur_scale rs;
         zeros = (if qs_symmetric scheme then [] else map ur_zero rs)
     in bindE (dequantize_flat q scales zeros shape_tuple units_per_row scheme group_size (Some quant_axis)) (\<lambda>values_dequant.
     Inr \<lparr>qt_scheme = scheme, qt_shape = shape_tuple, qt_axis = quant_axis, qt_q = q, qt_scales = scales, qt_zeros = zeros,
          qt_values_dequant = values_dequant, qt_units_per_row = units_per_row, qt_group_size = group_size, qt_tail = tail,
          qt_stats = quant_stats_of flat nonfinite (zip units rs),
          qt_unit_stats = map (\<lambda>(u, r). unit_stats_of u (chunk_of u) r) (zip units rs)\<rparr>))))))))))"

definition clamp_free_error_bound :: "quantized_tensor \<Rightarrow> fval" where
  "clamp_free_error_bound t =
     (let finite = finite_values (qt_scales t) in
      if qt_scales t = [] then Finite 0 else if finite = [] then Non_finite else fl64 (Max (set finite) / 2))"

definition requantize_idempotence_check :: "quantized_tensor \<Rightarrow> bool res" where
  "requantize_idempotence_check t =
     (if st_clamp_count (qt_stats t) \<noteq> 0 then Inr False
      else bindE (quantize (qt_values_dequant t) (qt_scheme t) (Some (qt_shape t)) (Some (qt_axis t))) (\<lambda>again.
           Inr (qt_q again = qt_q t)))"

end
