(* ===== verification/Rtn_Props.thy ===== *)
theory Rtn_Props
  imports Rtn
begin

text \<open>
  Correctness of the round-to-nearest reference: its units follow the axis, its codes stay in range,
  symmetric quantization of values in a moderate range never clamps and reconstructs every value within
  half a step up to the rounding of the floats, and what happens below that range.
\<close>

section \<open>Float arithmetic\<close>

text \<open>A value of a symmetric unit, scaled: within the positive range up to a quarter.\<close>

lemma scaled_in_range:
  assumes "0 < A" "\<bar>x\<bar> \<le> A" "1 \<le> Q" "Q \<le> 127" and s: "s = fl (A / of_int Q)"
  shows "0 < s" "\<bar>x / s\<bar> \<le> of_int Q + 1 / 4"
proof -
  let ?Q = "of_int Q :: rat" and ?t = "A / of_int Q"
  have Q: "1 \<le> ?Q" "?Q \<le> 127" using assms(3,4) by simp_all
  then have t: "0 < ?t" using assms(1) by simp
  show s0: "0 < s" unfolding s using t by (rule fl_pos)
  have "?t - ?t / 2 ^ 53 \<le> s" using fl_relative [of ?t] t unfolding s by linarith
  then have "?t * (1 - 1 / 2 ^ 53) * (?Q + 1 / 4) \<le> s * (?Q + 1 / 4)" using Q by (intro mult_right_mono) (simp_all add: algebra_simps)
  moreover have "A \<le> ?t * (1 - 1 / 2 ^ 53) * (?Q + 1 / 4)"
  proof -
    have "?Q \<le> (1 - 1 / 2 ^ 53) * (?Q + 1 / 4)" using Q by (simp add: algebra_simps)
    then have "?t * ?Q \<le> ?t * ((1 - 1 / 2 ^ 53) * (?Q + 1 / 4))" using t by (intro mult_left_mono) simp_all
    moreover have "?t * ?Q = A" using Q by simp
    ultimately show ?thesis by (simp only: mult.assoc)
  qed
  ultimately have "\<bar>x\<bar> \<le> (?Q + 1 / 4) * s" using assms(2) by (simp add: mult.commute)
  then show "\<bar>x / s\<bar> \<le> ?Q + 1 / 4" using s0 by (simp add: pos_divide_le_eq)
qed

text \<open>The magnitudes for which no operation of the symmetric path leaves the normal range of the floats, a
  quotient far below one apart. Every \<open>float32\<close> and \<open>bfloat16\<close> value is of this kind.\<close>

definition moderate :: "rat \<Rightarrow> bool" where
  "moderate x \<longleftrightarrow> x = 0 \<or> 2 powi (- 1000) \<le> \<bar>x\<bar> \<and> \<bar>x\<bar> \<le> 2 powi 1000"

definition moderate_scale :: "rat \<Rightarrow> bool" where
  "moderate_scale s \<longleftrightarrow> 2 powi (- 1007) \<le> s \<and> s \<le> 2 powi 1000"

lemma powi_two_split: "(2 :: rat) powi i * 2 powi j = 2 powi (i + j)"
  by (simp add: power_int_add)

lemma powi_two_le: "j \<le> k \<Longrightarrow> x \<le> 2 powi j \<Longrightarrow> x \<le> (2 :: rat) powi k"
  using powi_two_mono by (rule order_trans [rotated])

lemma moderate_unit_scale:
  assumes "0 < A" "moderate A" "1 \<le> Q" "Q \<le> 127"
  shows "fl64 (A / of_int Q) = Finite (fl (A / of_int Q))" "moderate_scale (fl (A / of_int Q))"
proof -
  let ?Q = "of_int Q :: rat" and ?t = "A / of_int Q"
  have A: "2 powi (- 1000) \<le> A" "A \<le> 2 powi 1000" using assms(1,2) unfolding moderate_def by linarith+
  have Q: "1 \<le> ?Q" "?Q \<le> 2 powi 7" "0 < ?Q" using assms(3,4) by simp_all
  have "2 powi (- 1007) * ?Q \<le> 2 powi (- 1007) * 2 powi 7"
    by (rule mult_left_mono [OF Q(2) less_imp_le [OF powi_two_pos]])
  also have "\<dots> = 2 powi (- 1007 + 7)" by (rule powi_two_split)
  also have "- 1007 + 7 = (- 1000 :: int)" by simp
  finally have "2 powi (- 1007) * ?Q \<le> A" using A(1) by (rule order_trans)
  then have lo: "2 powi (- 1007) \<le> ?t" by (rule pos_le_divide_eq [OF Q(3), THEN iffD2])
  have "A \<le> A * ?Q" using mult_left_mono [OF Q(1), of A] assms(1) by simp
  then have "?t \<le> A" using Q(3) by (simp only: pos_divide_le_eq)
  then have hi: "?t \<le> 2 powi 1000" using A(2) by (rule order_trans)
  have f: "2 powi (- 1007) \<le> fl ?t" "fl ?t \<le> 2 powi 1000"
    using fl_mono [OF lo] fl_mono [OF hi] unfolding fl_powi .
  then show "moderate_scale (fl ?t)" unfolding moderate_scale_def by blast
  have "0 < ?t" using assms(1) Q(3) by (rule divide_pos_pos)
  then have "\<bar>?t\<bar> = ?t" "\<bar>fl ?t\<bar> = fl ?t" using fl_pos [of ?t] by (simp_all only: abs_of_pos)
  moreover have "(2 :: rat) powi (- 1022) \<le> 2 powi (- 1007)" by (rule powi_two_mono) simp
  then have "2 powi (- 1022) \<le> ?t" using lo by (rule order_trans)
  ultimately have r: "round64 ?t = fl ?t" using round64_normal [of ?t] by simp
  have "fl ?t < 2 powi 1024" using f(2) by (rule le_less_trans) (rule power_int_strict_increasing; simp)
  then show "fl64 ?t = Finite (fl ?t)" using fl64_finite [of ?t] \<open>\<bar>fl ?t\<bar> = fl ?t\<close> unfolding r by simp
qed

text \<open>The quotient of such a unit: its error, and that it does not overflow.\<close>

lemma min_subnormal_le: "min_subnormal \<le> 1 / 2 ^ 60"
proof -
  have "min_subnormal \<le> 2 powi (- 60)" unfolding min_subnormal_def by (rule powi_two_mono) simp
  then show ?thesis by (simp add: power_int_minus)
qed

lemma quotient64:
  assumes "\<bar>v\<bar> \<le> 127 + 1 / 4"
  shows "\<bar>round64 v - v\<bar> \<le> 1 / 2 ^ 46" "fl64 v = Finite (round64 v)"
proof -
  have "\<bar>v\<bar> / 2 ^ 53 \<le> (127 + 1 / 4) / 2 ^ 53" using assms by (intro divide_right_mono) simp_all
  moreover have "(127 + 1 / 4) / 2 ^ 53 + 1 / 2 ^ 60 \<le> (1 / 2 ^ 46 :: rat)" by simp
  ultimately show e: "\<bar>round64 v - v\<bar> \<le> 1 / 2 ^ 46"
    using round64_error [of v] min_subnormal_le min_subnormal_pos by linarith
  have "(1 :: rat) / 2 ^ 46 \<le> 1" by simp
  then have "\<bar>round64 v\<bar> < 256" using e assms by linarith
  then have "\<bar>round64 v\<bar> < 2 powi 8" by simp
  also have "(2 :: rat) powi 8 < 2 powi 1024" by (rule power_int_strict_increasing; simp)
  finally show "fl64 v = Finite (round64 v)" by (rule fl64_finite)
qed

context nearest_rounder
begin

text \<open>The code of such a value is in range without clamping, and its error is half a step up to the
  rounding of the quotient.\<close>

lemma symmetric_code:
  assumes "0 < A" "\<bar>x\<bar> \<le> A" "1 \<le> Q" "Q \<le> 127" and s: "s = fl (A / of_int Q)"
  shows "\<bar>rnd (round64 (x / s))\<bar> \<le> Q" "\<bar>x - s * of_int (rnd (round64 (x / s)))\<bar> \<le> s * (1 / 2 + 1 / 2 ^ 46)"
    "fl64 (x / s) = Finite (round64 (x / s))"
proof -
  note r = scaled_in_range [OF assms]
  let ?v = "round64 (x / s)" and ?c = "of_int (rnd (round64 (x / s))) :: rat"
  have "(of_int Q :: rat) \<le> 127" using assms(4) by simp
  then have "\<bar>x / s\<bar> \<le> 127 + 1 / 4" using r(2) by linarith
  note v = quotient64 [OF this]
  show "fl64 (x / s) = Finite ?v" by (rule v(2))
  have n: "\<bar>?c - ?v\<bar> \<le> 1 / 2" by (rule nearest)
  have "(1 :: rat) / 2 ^ 46 < 1 / 4" by simp
  then have "\<bar>?c\<bar> < of_int Q + 1" using v(1) n r(2) by linarith
  then have "(of_int \<bar>rnd ?v\<bar> :: rat) < of_int (Q + 1)" by simp
  then have "\<bar>rnd ?v\<bar> < Q + 1" by (simp only: of_int_less_iff)
  then show "\<bar>rnd ?v\<bar> \<le> Q" by simp
  have "\<bar>x / s - ?c\<bar> \<le> 1 / 2 + 1 / 2 ^ 46" using v(1) n by linarith
  then have "s * \<bar>x / s - ?c\<bar> \<le> s * (1 / 2 + 1 / 2 ^ 46)" using r(1) by (intro mult_left_mono) simp_all
  moreover have "s * \<bar>x / s - ?c\<bar> = \<bar>x - s * ?c\<bar>" using r(1) by (simp add: abs_mult_pos' right_diff_distrib)
  ultimately show "\<bar>x - s * ?c\<bar> \<le> s * (1 / 2 + 1 / 2 ^ 46)" by simp
qed

end

text \<open>Reconstruction rounds once more: it is exact for a zero code, and a normal float for another one.\<close>

lemma reconstruction_error:
  assumes "0 < s" "\<bar>c\<bar> \<le> 127" "\<bar>x - s * of_int c\<bar> \<le> s * (1 / 2 + 1 / 2 ^ 46)" and m: "c = 0 \<or> moderate_scale s"
  shows "fl64 (s * fl (of_int c)) = Finite (round64 (s * of_int c))" "\<bar>x - round64 (s * of_int c)\<bar> \<le> s * (1 / 2 + 1 / 2 ^ 45)"
proof -
  let ?p = "s * of_int c"
  have c: "fl (of_int c) = of_int c" using assms(2) by (intro fl_of_int) simp
  have "(of_int \<bar>c\<bar> :: rat) \<le> 127" using assms(2) by simp
  then have "s * \<bar>of_int c\<bar> \<le> s * 128" using assms(1) by (intro mult_left_mono) simp_all
  then have p: "\<bar>?p\<bar> \<le> s * 128" using assms(1) by (simp only: abs_mult abs_of_pos)
  have e: "\<bar>round64 ?p - ?p\<bar> \<le> s * 128 / 2 ^ 53 \<and> \<bar>round64 ?p\<bar> < 2 powi 1024"
  proof (cases "c = 0")
    case True
    then show ?thesis using assms(1) powi_two_pos [of 1024] by (simp only: of_int_0 mult_zero_right round64_zero) simp
  next
    case False
    then have s: "2 powi (- 1007) \<le> s" "s \<le> 2 powi 1000" using m by (simp_all only: moderate_scale_def simp_thms)
    have "1 \<le> \<bar>c\<bar>" using False by simp
    then have "(1 :: rat) \<le> of_int \<bar>c\<bar>" by (simp only: of_int_1_le_iff)
    then have "s * 1 \<le> s * \<bar>of_int c\<bar>" using assms(1) by (intro mult_left_mono) simp_all
    then have "s \<le> \<bar>?p\<bar>" using assms(1) by (simp only: abs_mult abs_of_pos mult_1_right)
    moreover have "(2 :: rat) powi (- 1022) \<le> 2 powi (- 1007)" by (rule powi_two_mono) simp
    ultimately have "2 powi (- 1022) \<le> \<bar>?p\<bar>" using s(1) by linarith
    then have "round64 ?p = fl ?p" by (rule round64_normal)
    then have f: "\<bar>round64 ?p - ?p\<bar> \<le> \<bar>?p\<bar> / 2 ^ 53" using fl_relative [of ?p] by (simp only:)
    have "\<bar>?p\<bar> / 2 ^ 53 \<le> s * 128 / 2 ^ 53" using p by (intro divide_right_mono) simp_all
    then have d: "\<bar>round64 ?p - ?p\<bar> \<le> s * 128 / 2 ^ 53" using f by linarith
    also have "\<dots> \<le> s * 128" using assms(1) by simp
    finally have "\<bar>round64 ?p\<bar> \<le> s * 2 powi 8" using p by simp
    also have "\<dots> \<le> 2 powi 1000 * 2 powi 8" by (rule mult_right_mono [OF s(2)]) simp
    also have "\<dots> = 2 powi (1000 + 8)" by (rule powi_two_split)
    also have "\<dots> < 2 powi 1024" by (rule power_int_strict_increasing; simp)
    finally show ?thesis using d by blast
  qed
  then show "fl64 (s * fl (of_int c)) = Finite (round64 ?p)" unfolding c by (intro fl64_finite) blast
  have "s * 128 / 2 ^ 53 = s * (1 / 2 ^ 46)" by simp
  then have "\<bar>x - round64 ?p\<bar> \<le> s * (1 / 2 + 1 / 2 ^ 46) + s * (1 / 2 ^ 46)" using assms(3) e by linarith
  also have "\<dots> = s * (1 / 2 + 1 / 2 ^ 45)" by (simp flip: distrib_left)
  finally show "\<bar>x - round64 ?p\<bar> \<le> s * (1 / 2 + 1 / 2 ^ 45)" .
qed

section \<open>Units\<close>

lemma prod_list_pos: "list_all (\<lambda>d. 0 < d) (xs :: int list) \<Longrightarrow> 0 < prod_list xs"
  by (induction xs) simp_all

lemma prod_list_split: "a < length xs \<Longrightarrow> prod_list xs = prod_list (take a xs) * xs ! a * prod_list (drop (Suc a) (xs :: int list))"
  by (subst id_take_nth_drop [of a xs]) (simp_all add: mult.assoc)

lemma stride_parts:
  assumes "0 < stride" "0 < width" "0 \<le> coord" "coord < width" "0 \<le> rest" "rest < (stride :: int)"
  shows "((outer * width + coord) * stride + rest) div (stride * width) = outer"
    "((outer * width + coord) * stride + rest) mod stride = rest"
    "(((outer * width + coord) * stride + rest) div stride) mod width = coord"
proof -
  have d: "((outer * width + coord) * stride + rest) div stride = outer * width + coord" using assms by simp
  then show "((outer * width + coord) * stride + rest) div (stride * width) = outer"
    using assms by (simp add: zdiv_zmult2_eq)
  show "((outer * width + coord) * stride + rest) mod stride = rest" using assms by simp
  show "(((outer * width + coord) * stride + rest) div stride) mod width = coord" using d assms by simp
qed

definition unit_group :: "int option \<Rightarrow> int \<Rightarrow> int" where
  "unit_group group_size coord = (case group_size of None \<Rightarrow> 0 | Some g \<Rightarrow> coord div g)"

text \<open>The flat addressing of units is the multi-dimensional one, for any axis: the element at coordinate
  \<open>coord\<close> of the quantized axis, with outer index \<open>outer\<close> before it and inner index \<open>rest\<close> after it, is in the
  row numbered by the other coordinates and in the group \<open>coord div group_size\<close> of that row; an axis
  counted from the end is the same axis.\<close>

theorem units_follow_axis:
  assumes "list_all (\<lambda>d. 0 < d) shape" and "a < length shape" and "group_size \<noteq> Some 0"
    and "0 \<le> coord" and "coord < shape ! a" and "0 \<le> rest" and "rest < prod_list (drop (Suc a) shape)"
  shows "unit_of_index ((outer * (shape ! a) + coord) * prod_list (drop (Suc a) shape) + rest) shape (int a) units_per_row group_size
      = Inr ((outer * prod_list (drop (Suc a) shape) + rest) * units_per_row + unit_group group_size coord)
    \<and> unit_of_index index shape (int a - int (length shape)) units_per_row group_size = unit_of_index index shape (int a) units_per_row group_size"
proof -
  have "0 < prod_list (drop (Suc a) shape)" using assms(1) by (intro prod_list_pos) (auto simp: list_all_iff dest: in_set_dropD)
  moreover have "0 < shape ! a" using assms(1,2) by (simp add: list_all_length)
  ultimately show ?thesis using assms(2-7) stride_parts [of "prod_list (drop (Suc a) shape)" "shape ! a" coord rest outer]
    by (auto simp: unit_of_index_def Let_def unit_group_def split: option.splits)
qed

theorem units_follow_axis_witness:
  "unit_of_index 10 [2, 3, 2] 1 2 (Some 2) = Inr 5 \<and> unit_of_index 10 [2, 3, 2] (- 2) 2 (Some 2) = Inr 5"
  using units_follow_axis [of "[2, 3, 2]" 1 "Some 2" 2 0 1 2 10] by (simp add: unit_group_def)

text \<open>Every unit number below the number of rows times the groups of a row occurs, and no other.\<close>

lemma digit_bound: "0 \<le> x \<Longrightarrow> x < a \<Longrightarrow> 0 \<le> y \<Longrightarrow> y < b \<Longrightarrow> 0 \<le> x * b + y \<and> x * b + y < a * (b :: int)"
proof -
  assume h: "0 \<le> x" "x < a" "0 \<le> y" "y < b"
  have "x * b + y < (x + 1) * b" using h by (simp add: distrib_right)
  also have "\<dots> \<le> a * b" using h by (intro mult_right_mono) simp_all
  finally show ?thesis using h by simp
qed

lemma int_div_less: "0 < b \<Longrightarrow> x < a * b \<Longrightarrow> x div b < (a :: int)"
proof (rule ccontr)
  assume h: "0 < b" "x < a * b" "\<not> x div b < a"
  then have "a * b \<le> x div b * b" by (intro mult_right_mono) simp_all
  also have "\<dots> \<le> x" using div_mult_mod_eq [of x b] pos_mod_sign [OF h(1), of x] by linarith
  finally show False using h(2) by simp
qed

lemma group_range:
  assumes "groups_per_row width group_size = Inr n" "0 < width" "0 \<le> coord" "coord < width"
  shows "0 \<le> unit_group group_size coord \<and> unit_group group_size coord < n \<and> group_size \<noteq> Some 0"
proof (cases group_size)
  case (Some g)
  then have g: "0 < g" "n = (width + g - 1) div g" using assms(1,2) by (auto simp: groups_per_row_def split: if_splits)
  have "coord div g \<le> (width - 1) div g" using assms(4) g(1) by (intro zdiv_mono1) simp_all
  moreover have "(width - 1 + g) div g = (width - 1) div g + 1" using g(1) by simp
  then have "(width + g - 1) div g = (width - 1) div g + 1" by (simp add: algebra_simps)
  ultimately show ?thesis using Some g assms(3) by (simp add: unit_group_def pos_imp_zdiv_nonneg_iff)
qed (use assms in \<open>auto simp: unit_group_def groups_per_row_def\<close>)

lemma group_start:
  assumes "groups_per_row width group_size = Inr n" "0 < width" "0 \<le> j" "j < n"
  shows "\<exists>coord. 0 \<le> coord \<and> coord < width \<and> unit_group group_size coord = j"
proof (cases group_size)
  case (Some g)
  then have g: "0 < g" "n = (width + g - 1) div g" using assms(1,2) by (auto simp: groups_per_row_def split: if_splits)
  have "j * g \<le> (n - 1) * g" using assms(4) g(1) by (intro mult_right_mono) simp_all
  also have "\<dots> < width" using groups_tile(2,4) [OF g(1) assms(2)] unfolding g(2) [symmetric] by linarith
  finally show ?thesis using Some g(1) assms(3) by (intro exI [of _ "j * g"]) (simp add: unit_group_def)
qed (use assms in \<open>auto simp: unit_group_def groups_per_row_def intro: exI [of _ 0]\<close>)

definition unit_number :: "int list \<Rightarrow> nat \<Rightarrow> int \<Rightarrow> int option \<Rightarrow> int \<Rightarrow> int" where
  "unit_number shape a units_per_row group_size i =
     (let s = prod_list (drop (Suc a) shape); w = shape ! a in
      (i div (s * w) * s + i mod s) * units_per_row + unit_group group_size (i div s mod w))"

lemma unit_of_index_number:
  assumes "list_all (\<lambda>d. 0 < d) shape" "a < length shape" "group_size \<noteq> Some 0"
  shows "unit_of_index i shape (int a) units_per_row group_size = Inr (unit_number shape a units_per_row group_size i)"
proof -
  have "0 < prod_list (drop (Suc a) shape)" using assms(1) by (intro prod_list_pos) (auto simp: list_all_iff dest: in_set_dropD)
  moreover have "0 < shape ! a" using assms(1,2) by (simp add: list_all_length)
  ultimately show ?thesis using assms(2,3) by (auto simp: unit_of_index_def unit_number_def Let_def unit_group_def split: option.splits)
qed

lemma unit_numbers:
  assumes "list_all (\<lambda>d. 0 < d) shape" "a < length shape" "groups_per_row (shape ! a) group_size = Inr n"
  shows "unit_number shape a n group_size ` {0..<prod_list shape} = {0..<prod_list (take a shape) * prod_list (drop (Suc a) shape) * n}"
proof -
  let ?o = "prod_list (take a shape)" and ?s = "prod_list (drop (Suc a) shape)" and ?w = "shape ! a"
  have pos: "0 < ?s" "0 < ?o" "0 < ?w"
    using assms(1,2) by (auto intro!: prod_list_pos simp: list_all_iff list_all_length dest!: in_set_dropD in_set_takeD)
  have total: "prod_list shape = ?o * (?s * ?w)" using prod_list_split [OF assms(2)] by (simp add: algebra_simps)
  have "unit_number shape a n group_size i \<in> {0..<?o * ?s * n}" if "i \<in> {0..<prod_list shape}" for i
  proof -
    have "i div (?s * ?w) < ?o" using that pos total by (intro int_div_less) simp_all
    moreover have "0 \<le> i div (?s * ?w)" using that pos by (simp add: pos_imp_zdiv_nonneg_iff)
    ultimately have "0 \<le> i div (?s * ?w) * ?s + i mod ?s \<and> i div (?s * ?w) * ?s + i mod ?s < ?o * ?s"
      using pos by (intro digit_bound) simp_all
    moreover have "0 \<le> unit_group group_size (i div ?s mod ?w) \<and> unit_group group_size (i div ?s mod ?w) < n"
      using group_range [OF assms(3)] pos by simp
    ultimately show ?thesis using digit_bound [of "i div (?s * ?w) * ?s + i mod ?s" "?o * ?s"] by (simp add: unit_number_def Let_def)
  qed
  moreover have "\<exists>i \<in> {0..<prod_list shape}. unit_number shape a n group_size i = u" if u: "u \<in> {0..<?o * ?s * n}" for u
  proof -
    have n: "0 < n" using group_range [OF assms(3) pos(3), of 0] pos(3) by simp
    obtain coord where c: "0 \<le> coord" "coord < ?w" "unit_group group_size coord = u mod n"
      using group_start [OF assms(3), of "u mod n"] n pos by auto
    let ?row = "u div n" and ?i = "(u div n div ?s * ?w + coord) * ?s + u div n mod ?s"
    have row: "0 \<le> ?row" "?row < ?o * ?s" using u n by (simp_all add: pos_imp_zdiv_nonneg_iff int_div_less)
    then have o: "0 \<le> ?row div ?s" "?row div ?s < ?o" using pos by (simp_all add: pos_imp_zdiv_nonneg_iff int_div_less)
    have "0 \<le> ?row div ?s * ?w + coord \<and> ?row div ?s * ?w + coord < ?o * ?w" using o c by (intro digit_bound)
    then have "0 \<le> ?i \<and> ?i < ?o * ?w * ?s" using pos by (intro digit_bound) simp_all
    moreover have "unit_number shape a n group_size ?i = u"
      using stride_parts [of ?s ?w coord "?row mod ?s" "?row div ?s"] pos c by (simp add: unit_number_def Let_def)
    ultimately show ?thesis using total by (intro bexI [of _ ?i]) (simp_all add: algebra_simps)
  qed
  ultimately show ?thesis by (auto simp del: atLeastLessThan_iff)
qed

section \<open>Codes by unit\<close>

lemma length_scatter [simp]: "length (scatter is cs q) = length q"
  unfolding scatter_def by (induction "is" cs arbitrary: q rule: list_induct2') auto

lemma scatter_Nil [simp]: "scatter [] cs q = q"
  by (simp add: scatter_def)

lemma scatter_Cons [simp]: "scatter (i # is) (c # cs) q = scatter is cs (q[i := c])"
  by (simp add: scatter_def)

lemma scatter_map:
  "j < length q \<Longrightarrow> scatter is (map h is) q ! j = (if j \<in> set is then h j else q ! j)"
  by (induction "is" arbitrary: q) (auto simp: nth_list_update)

lemma mem_indices_of: "j \<in> set (indices_of us u) \<longleftrightarrow> j < length us \<and> us ! j = u"
  by (auto simp: indices_of_def)

lemma scatter_units:
  assumes "\<And>u. u \<in> set units \<Longrightarrow> map fst (ur_codes (f u)) = map (h u) (indices_of us u)"
    and "length q = length us" "j < length us"
  shows "foldl (\<lambda>q (u, r). scatter (indices_of us u) (map fst (ur_codes r)) q) q (zip units (map f units)) ! j
      = (if us ! j \<in> set units then h (us ! j) j else q ! j)
    \<and> length (foldl (\<lambda>q (u, r). scatter (indices_of us u) (map fst (ur_codes r)) q) q (zip units (map f units))) = length us"
  using assms
proof (induction units arbitrary: q)
  case (Cons u units)
  let ?q = "scatter (indices_of us u) (map fst (ur_codes (f u))) q"
  have "?q ! j = (if us ! j = u then h u j else q ! j)"
    using Cons.prems(1) [of u] Cons.prems(2,3) by (simp add: scatter_map mem_indices_of)
  moreover have "length ?q = length us" using Cons.prems(2) by simp
  ultimately show ?case using Cons.IH [of ?q] Cons.prems(1,3) by auto
qed simp

lemma units_of_full: "set us = {0..<n} \<Longrightarrow> units_of us = [0..n - 1]"
proof -
  assume "set us = {0..<n}"
  moreover have "{0..<n} = {0..n - 1}" by auto
  ultimately have e: "set us = set [0..n - 1]" by (simp only: set_upto)
  show ?thesis unfolding units_of_def e by (rule sorted_list_of_set.idem_if_sorted_distinct [OF sorted_upto distinct_upto])
qed

section \<open>The code of a unit\<close>

lemma qmax_positive_range: "2 \<le> qs_bits s \<Longrightarrow> qs_bits s \<le> 8 \<Longrightarrow> 1 \<le> qmax_positive s \<and> qmax_positive s \<le> 127"
proof -
  assume b: "2 \<le> qs_bits s" "qs_bits s \<le> 8"
  have "(2 :: int) ^ 1 \<le> 2 ^ nat (qs_bits s - 1)" using b by (intro power_increasing) simp_all
  moreover have "(2 :: int) ^ nat (qs_bits s - 1) \<le> 2 ^ 7" using b by (intro power_increasing) simp_all
  ultimately show ?thesis by (simp add: qmax_positive_def push_bit_eq_mult)
qed

text \<open>The rounding function of an accepted mode.\<close>

definition mode_rounding :: "string \<Rightarrow> rat \<Rightarrow> int" where
  "mode_rounding mode = (if mode = ROUND_NEAREST_EVEN then round_half_even else round_half_away)"

interpretation mode: nearest_rounder "mode_rounding m" for m
  using even.nearest away.nearest by unfold_locales (auto simp only: mode_rounding_def split: if_split)

lemma get_rounder_accepted: "is_rtn m \<Longrightarrow> \<exists>rnd. get_rounder m False = Inr rnd"
  by (auto simp: is_rtn_def RTN_MODES_def get_rounder_def ROUNDERS_def DIAGNOSTIC_MODES_def ROUND_NEAREST_EVEN_def ROUND_HALF_AWAY_FROM_ZERO_def
      ROUND_TRUNC_def ROUND_FLOOR_def)

lemma rounder_value:
  assumes "get_rounder m False = Inr rnd" "is_float v"
  shows "rnd (Finite v) = Inr (of_int (mode_rounding m v))"
proof -
  have "rnd = (if m = ROUND_NEAREST_EVEN then round_nearest_even else round_half_away_from_zero)"
    using assms(1) by (auto simp: get_rounder_def ROUNDERS_def DIAGNOSTIC_MODES_def ROUND_NEAREST_EVEN_def ROUND_HALF_AWAY_FROM_ZERO_def
        ROUND_TRUNC_def ROUND_FLOOR_def split: option.splits if_splits)
  then show ?thesis using assms(2) by (simp add: mode_rounding_def round_nearest_even_exact round_half_away_exact)
qed

lemma code_value_finite:
  assumes "get_rounder m False = Inr rnd" "0 < s" "fl64 (v / s) = Finite (round64 (v / s))"
  shows "code_value rnd qmin qmax (Finite s) zero (Finite v) =
    (let raw = mode_rounding m (round64 (v / s)) + zero in
     Inr (if raw > qmax then (qmax, True) else if raw < qmin then (qmin, True) else (raw, False)))"
proof -
  have "coerce_round_value (Finite (of_int n)) = Inr n" for n by (simp add: coerce_round_value_def trunc_rat_def)
  then show ?thesis using assms(2,3) rounder_value [OF assms(1) is_float_round64] by (simp add: code_value_def)
qed

lemma finite_values_map [simp]: "finite_values (map Finite xs) = xs"
  by (induction xs) auto

lemma zero_group_scale_pos: "scheme_validate s = Inr () \<Longrightarrow> \<exists>v. zero_group_scale s = Inr v \<and> 0 < v"
  by (auto simp: scheme_validate_def result_simps zero_group_scale_def)

lemma symmetric_scheme:
  assumes "scheme_validate s = Inr ()" "qs_symmetric s" "scheme_range s = Inr (qmin, qmax)"
  shows "qmin = - qmax_positive s" "qmax = qmax_positive s" "qs_bits s \<le> 8"
  using assms by (auto simp: scheme_validate_def result_simps scheme_range_def integer_range_def qmax_positive_def SYMMETRIC_def
      TWOS_COMPLEMENT_def split: if_splits)

text \<open>What quantization promises of a unit with the values \<open>xs\<close>: a positive scale and unclamped codes in
  range, each within half a step (up to the rounding of the quotient).\<close>

definition unit_good :: "quant_scheme \<Rightarrow> rat list \<Rightarrow> unit_result \<Rightarrow> rat \<Rightarrow> (rat \<Rightarrow> int) \<Rightarrow> bool" where
  "unit_good s xs r sc h \<longleftrightarrow> ur_scale r = Finite sc \<and> 0 < sc \<and> ur_codes r = map (\<lambda>x. (h x, False)) xs
     \<and> (moderate_scale sc \<or> (\<forall>x. h x = 0)) \<and> list_all (\<lambda>x. \<bar>h x\<bar> \<le> qmax_positive s \<and> \<bar>x - sc * of_int (h x)\<bar> \<le> sc * (1 / 2 + 1 / 2 ^ 46)) xs"

lemma symmetric_unit_good:
  assumes "get_rounder m False = Inr rnd" "scheme_validate s = Inr ()" "qs_symmetric s" "2 \<le> qs_bits s"
    "scheme_range s = Inr (qmin, qmax)" "xs \<noteq> []" "list_all moderate xs"
  shows "\<exists>r sc h. quantize_unit rnd qmin qmax s (map Finite xs) = Inr r \<and> unit_good s xs r sc h"
proof -
  note range = symmetric_scheme [OF assms(2,3,5)]
  have Q: "1 \<le> qmax_positive s" "qmax_positive s \<le> 127" using qmax_positive_range [OF assms(4) range(3)] by simp_all
  let ?A = "Max (set (map abs xs))"
  have A: "\<bar>x\<bar> \<le> ?A" if "x \<in> set xs" for x using that by (intro Max_ge) auto
  show ?thesis
  proof (cases "?A = 0")
    case True
    then have z: "x = 0" if "x \<in> set xs" for x using A [OF that] by simp
    obtain v where v: "zero_group_scale s = Inr v" "0 < v" using zero_group_scale_pos [OF assms(2)] by blast
    let ?r = "\<lparr>ur_scale = Finite v, ur_zero = 0, ur_codes = map (\<lambda>_. (0, False)) (map Finite xs), ur_zero_counted = True, ur_constant = False\<rparr>"
    have "quantize_unit rnd qmin qmax s (map Finite xs) = Inr ?r"
      using True v assms(3,6) by (simp add: quantize_unit_def symmetric_unit_def Let_def)
    moreover have "unit_good s xs ?r v (\<lambda>_. 0)" using v Q by (auto simp: unit_good_def list_all_iff dest!: z)
    ultimately show ?thesis by blast
  next
    case False
    have "0 \<le> ?A" using A assms(6) by (meson abs_ge_zero last_in_set order_trans)
    with False have pos: "0 < ?A" by simp
    have flQ: "fl (of_int (qmax_positive s)) = of_int (qmax_positive s)" using Q by (intro fl_of_int) simp
    have "?A \<in> set (map abs xs)" using assms(6) by (intro Max_in) auto
    then have "moderate ?A" using assms(7) by (auto simp: moderate_def list_all_iff simp del: power_int_minus power_int_numeral)
    note scale = moderate_unit_scale [OF pos this Q]
    define sc where "sc = fl (?A / of_int (qmax_positive s))"
    define h where "h x = mode_rounding m (round64 (x / sc))" for x
    note code = mode.symmetric_code [OF pos A Q sc_def]
    have sc: "0 < sc" using scaled_in_range(1) [OF pos A Q sc_def] assms(6) by (meson last_in_set)
    have "code_value rnd qmin qmax (Finite sc) 0 (Finite x) = Inr (h x, False)" if "x \<in> set xs" for x
      using code(1) [OF that, of m] range(1,2) by (simp add: code_value_finite [OF assms(1) sc code(3) [OF that]] Let_def h_def abs_le_iff)
    then have "all_res (map (\<lambda>x. code_value rnd qmin qmax (Finite sc) 0 (Finite x)) xs) = Inr (map (\<lambda>x. (h x, False)) xs)"
      by (rule all_res_map_total)
    moreover have "fl64 (Max (abs ` set xs) / fl (of_int (qmax_positive s))) = Finite sc" using scale(1) by (simp add: flQ sc_def)
    ultimately have "quantize_unit rnd qmin qmax s (map Finite xs) =
        Inr \<lparr>ur_scale = Finite sc, ur_zero = 0, ur_codes = map (\<lambda>x. (h x, False)) xs, ur_zero_counted = False, ur_constant = False\<rparr>"
      using False assms(3,6) Q by (simp add: quantize_unit_def symmetric_unit_def Let_def comp_def)
    moreover have "unit_good s xs \<lparr>ur_scale = Finite sc, ur_zero = 0, ur_codes = map (\<lambda>x. (h x, False)) xs, ur_zero_counted = False, ur_constant = False\<rparr> sc h"
      using code sc scale(2) by (simp add: unit_good_def list_all_iff h_def sc_def)
    ultimately show ?thesis by blast
  qed
qed

section \<open>Quantization of a tensor\<close>

lemma quantize_eq:
  assumes "shape_of flat shape = Inr dims" "normalize_axis (case axis of None \<Rightarrow> qs_axis s | Some a \<Rightarrow> a) (length dims) = Inr (int a)"
    "check_finite flat s = Inr nonfinite" "get_rounder (qs_round_mode s) False = Inr rnd"
    "(if qs_granularity s = ''per_tensor'' then Inr 1 else groups_per_row (dims ! a) (qs_group_size s)) = Inr upr"
    "grp = (if qs_granularity s = ''per_tensor'' then None else qs_group_size s)"
    "(case grp of None \<Rightarrow> Inr (dims ! a) | Some g \<Rightarrow> tail_length (dims ! a) (Some g)) = Inr tail"
    "scheme_range s = Inr (qmin, qmax)"
    "(if qs_granularity s = ''per_tensor'' then Inr (map (\<lambda>_. 0) flat)
      else all_res (map (\<lambda>i. unit_of_index (int i) dims (int a) upr grp) [0..<length flat])) = Inr us"
    "\<And>u. u \<in> set (units_of us) \<Longrightarrow> quantize_unit rnd qmin qmax s (map (\<lambda>i. flat ! i) (indices_of us u)) = Inr (f u)"
    "q = foldl (\<lambda>q (u, r). scatter (indices_of us u) (map fst (ur_codes r)) q) (map (\<lambda>_. 0) flat) (zip (units_of us) (map f (units_of us)))"
    "dequantize_flat q (map (ur_scale \<circ> f) (units_of us)) (if qs_symmetric s then [] else map (ur_zero \<circ> f) (units_of us)) dims upr s grp (Some (int a))
      = Inr values"
  shows "quantize flat s shape axis = Inr \<lparr>qt_scheme = s, qt_shape = dims, qt_axis = int a, qt_q = q, qt_scales = map (ur_scale \<circ> f) (units_of us),
      qt_zeros = (if qs_symmetric s then [] else map (ur_zero \<circ> f) (units_of us)), qt_values_dequant = values, qt_units_per_row = upr,
      qt_group_size = grp, qt_tail = tail, qt_stats = quant_stats_of flat nonfinite (zip (units_of us) (map f (units_of us))),
      qt_unit_stats = map (\<lambda>(u, r). unit_stats_of u (map (\<lambda>i. flat ! i) (indices_of us u)) r) (zip (units_of us) (map f (units_of us)))\<rparr>"
proof -
  have rs: "all_res (map (\<lambda>u. quantize_unit rnd qmin qmax s (map (\<lambda>i. flat ! i) (indices_of us u))) (units_of us)) = Inr (map f (units_of us))"
    using assms(10) by (rule all_res_map_total)
  show ?thesis
    unfolding quantize_def assms(1) bindE.simps assms(2,3,4) Let_def nat_int assms(5) assms(6) [symmetric] assms(7,8) case_prod_conv assms(9) rs map_map
      assms(11) [symmetric] assms(12) ..
qed

definition scheme_group :: "quant_scheme \<Rightarrow> int option" where
  "scheme_group s = (if qs_granularity s = ''per_tensor'' then None else qs_group_size s)"

text \<open>How the elements of a tensor are laid out in units: \<open>us\<close> gives the unit of each element, the units are
  numbered from zero without gaps, and they are those of \<open>unit_of_index\<close>.\<close>

definition unit_layout :: "quant_scheme \<Rightarrow> int list \<Rightarrow> nat \<Rightarrow> fval list \<Rightarrow> int \<Rightarrow> int \<Rightarrow> int list \<Rightarrow> int \<Rightarrow> bool" where
  "unit_layout s dims a flat upr tail us N \<longleftrightarrow>
      (if qs_granularity s = ''per_tensor'' then Inr 1 else groups_per_row (dims ! a) (qs_group_size s)) = Inr upr
    \<and> (case scheme_group s of None \<Rightarrow> Inr (dims ! a) | Some g \<Rightarrow> tail_length (dims ! a) (Some g)) = Inr tail
    \<and> (if qs_granularity s = ''per_tensor'' then Inr (map (\<lambda>_. 0) flat)
       else all_res (map (\<lambda>i. unit_of_index (int i) dims (int a) upr (scheme_group s)) [0..<length flat])) = Inr us
    \<and> length us = length flat \<and> set us = {0..<N} \<and> (qs_granularity s = ''per_tensor'' \<longrightarrow> N = 1)
    \<and> (\<forall>i < length flat. (if qs_granularity s = ''per_tensor'' then Inr 0 else unit_of_index (int i) dims (int a) upr (scheme_group s)) = Inr (us ! i))"

lemma units_setup:
  assumes "scheme_validate s = Inr ()" "list_all (\<lambda>d. 0 < d) dims" "a < length dims" "prod_list dims = int (length flat)"
  shows "\<exists>upr tail us N. unit_layout s dims a flat upr tail us N"
proof -
  have w: "0 < dims ! a" using assms(2,3) by (simp add: list_all_length)
  have g: "0 < g" if "qs_group_size s = Some g" for g
    using assms(1) that by (auto simp: scheme_validate_def result_simps split: if_splits)
  have tail: "\<exists>t. (case scheme_group s of None \<Rightarrow> Inr (dims ! a) | Some g \<Rightarrow> tail_length (dims ! a) (Some g)) = Inr t"
    using w g by (auto simp: scheme_group_def tail_length_def split: option.splits)
  have n: "0 < length flat" using prod_list_pos [OF assms(2)] assms(4) by simp
  show ?thesis
  proof (cases "qs_granularity s = ''per_tensor''")
    case True
    obtain t where t: "(case scheme_group s of None \<Rightarrow> Inr (dims ! a) | Some g \<Rightarrow> tail_length (dims ! a) (Some g)) = Inr t"
      using tail by blast
    have "set (map (\<lambda>_. 0 :: int) flat) = {0}" using n by (cases flat) auto
    also have "\<dots> = {0..<1}" by auto
    finally show ?thesis using True t unfolding unit_layout_def
      by (intro exI [of _ 1] exI [of _ t] exI [of _ "map (\<lambda>_. 0) flat"]) auto
  next
    case False
    obtain upr where upr: "groups_per_row (dims ! a) (qs_group_size s) = Inr upr"
      using w by (cases "qs_group_size s") (auto simp: groups_per_row_def dest: g)
    have grp: "scheme_group s = qs_group_size s" "qs_group_size s \<noteq> Some 0" using False g by (auto simp: scheme_group_def)
    note num = unit_of_index_number [OF assms(2,3) grp(2)]
    let ?us = "map (\<lambda>i. unit_number dims a upr (qs_group_size s) (int i)) [0..<length flat]"
    have "all_res (map (\<lambda>i. unit_of_index (int i) dims (int a) upr (scheme_group s)) [0..<length flat]) = Inr ?us"
      by (rule all_res_map_total) (simp add: grp num)
    moreover have "set ?us = unit_number dims a upr (qs_group_size s) ` (int ` {0..<length flat})" by (simp add: image_image)
    then have "set ?us = {0..<prod_list (take a dims) * prod_list (drop (Suc a) dims) * upr}"
      unfolding image_int_atLeastLessThan assms(4) [symmetric] of_nat_0 unit_numbers [OF assms(2,3) upr] .
    moreover obtain t where "(case scheme_group s of None \<Rightarrow> Inr (dims ! a) | Some g \<Rightarrow> tail_length (dims ! a) (Some g)) = Inr t"
      using tail by blast
    moreover have "\<forall>i < length flat. unit_of_index (int i) dims (int a) upr (scheme_group s) = Inr (?us ! i)"
      by (simp add: num grp(1))
    ultimately show ?thesis using False upr unfolding unit_layout_def if_not_P [OF False]
      by (intro exI [of _ upr] exI [of _ t] exI [of _ ?us] exI conjI) (assumption | simp only: length_map length_upt diff_zero simp_thms)+
  qed
qed

text \<open>Dequantization reads the scale of each element's unit.\<close>

lemma dequantize_symmetric:
  assumes "qs_symmetric s" "length q = length us" "length scales = nat N" "set us \<subseteq> {0..<N}" "qs_granularity s = ''per_tensor'' \<Longrightarrow> N = 1"
    and "\<And>i. i < length us \<Longrightarrow>
      (if qs_granularity s = ''per_tensor'' then Inr 0 else unit_of_index (int i) dims a upr (scheme_group s)) = Inr (us ! i)"
  shows "dequantize_flat q scales [] dims upr s (scheme_group s) (Some a) = Inr (map (\<lambda>i. scale_times (scales ! nat (us ! i)) (q ! i)) [0..<length us])"
proof -
  have e: "enumerate 0 q = map (\<lambda>i. (i, q ! i)) [0..<length us]" using assms(2) by (intro nth_equalityI) (simp_all add: nth_enumerate_eq)
  have ne: "\<not> (qs_granularity s = ''per_tensor'' \<and> scales = [])" using assms(3,5) by auto
  let ?us = "if qs_granularity s = ''per_tensor'' then take 1 scales else scales"
  have sc: "?us = scales" using assms(3,5) by simp
  have grp: "qs_granularity s \<noteq> ''per_tensor'' \<Longrightarrow> (case scheme_group s of None \<Rightarrow> qs_group_size s | Some g \<Rightarrow> Some g) = scheme_group s"
    by (simp add: scheme_group_def split: option.split)
  have "(bindE (if qs_granularity s = ''per_tensor'' then Inr 0 else unit_of_index (int i) dims a upr
            (case scheme_group s of None \<Rightarrow> qs_group_size s | Some g \<Rightarrow> Some g)) (\<lambda>unit.
           if \<not> (0 \<le> unit \<and> unit < int (length ?us)) then Inl (ConfigError ''unit'')
           else if qs_symmetric s then Inr (scale_times (?us ! nat unit) (q ! i))
           else if \<not> unit < int (length zs) then Inl IndexError
           else Inr (scale_times (?us ! nat unit) (q ! i - zs ! nat unit))))
      = Inr (scale_times (scales ! nat (us ! i)) (q ! i))" if "i \<in> set [0..<length us]" for i zs
  proof -
    have i: "i < length us" using that by simp
    then have "us ! i \<in> {0..<N}" using assms(4) by (auto dest: nth_mem)
    then have "0 \<le> us ! i \<and> us ! i < int (length scales)" using assms(3) by simp
    then show ?thesis unfolding sc using assms(6) [OF i] assms(1) grp by (auto split: if_splits)
  qed
  then show ?thesis unfolding dequantize_flat_def Let_def option.case if_not_P [OF ne] e map_map comp_def case_prod_conv
    by (rule all_res_map_total)
qed

lemma symmetric_units:
  assumes "scheme_validate s = Inr ()" "qs_symmetric s" "2 \<le> qs_bits s"
    "get_rounder (qs_round_mode s) False = Inr rnd" "scheme_range s = Inr (qmin, qmax)" "length us = length xs" "list_all moderate xs"
  shows "\<exists>f sc h. \<forall>u \<in> set us. quantize_unit rnd qmin qmax s (map (\<lambda>i. map Finite xs ! i) (indices_of us u)) = Inr (f u)
      \<and> unit_good s (map (\<lambda>i. xs ! i) (indices_of us u)) (f u) (sc u) (h u)"
proof -
  have chunk: "map (\<lambda>i. map Finite xs ! i) (indices_of us u) = map Finite (map (\<lambda>i. xs ! i) (indices_of us u))" for u
    unfolding map_map by (rule map_cong) (simp_all add: mem_indices_of assms(6))
  have "\<exists>r sc h. quantize_unit rnd qmin qmax s (map (\<lambda>i. map Finite xs ! i) (indices_of us u)) = Inr r
      \<and> unit_good s (map (\<lambda>i. xs ! i) (indices_of us u)) r sc h" if "u \<in> set us" for u
    unfolding chunk
  proof (rule symmetric_unit_good [OF assms(4,1,2,3,5)])
    obtain j where "j < length us" "us ! j = u" using \<open>u \<in> set us\<close> by (auto simp: in_set_conv_nth)
    then have "j \<in> set (indices_of us u)" by (simp add: mem_indices_of)
    then show "map (\<lambda>i. xs ! i) (indices_of us u) \<noteq> []" by auto
    show "list_all moderate (map (\<lambda>i. xs ! i) (indices_of us u))"
      using assms(6,7) by (auto simp: list_all_iff mem_indices_of)
  qed
  then show ?thesis by metis
qed

lemma unit_good_element:
  assumes "unit_good s xs r sc h" "x \<in> set xs" "scheme_validate s = Inr ()" "qs_symmetric s" "2 \<le> qs_bits s"
  shows "0 < sc" "\<bar>h x\<bar> \<le> qmax_positive s"
    "\<exists>y. scale_times (Finite sc) (h x) = Finite y \<and> \<bar>x - y\<bar> \<le> sc * (1 / 2 + 1 / 2 ^ 45)"
proof -
  have g: "0 < sc" "\<bar>h x\<bar> \<le> qmax_positive s" "\<bar>x - sc * of_int (h x)\<bar> \<le> sc * (1 / 2 + 1 / 2 ^ 46)" "h x = 0 \<or> moderate_scale sc"
    using assms(1,2) by (auto simp: unit_good_def list_all_iff)
  obtain qmin qmax where "scheme_range s = Inr (qmin, qmax)"
    using assms(3) by (auto simp: scheme_validate_def scheme_range_def result_simps)
  then have "qmax_positive s \<le> 127" using qmax_positive_range [OF assms(5)] symmetric_scheme(3) [OF assms(3,4)] by blast
  then have "\<bar>h x\<bar> \<le> 127" using g(2) by simp
  note e = reconstruction_error [OF g(1) this g(3,4)]
  show "\<exists>y. scale_times (Finite sc) (h x) = Finite y \<and> \<bar>x - y\<bar> \<le> sc * (1 / 2 + 1 / 2 ^ 45)"
    using e by (simp only: scale_times_def fval.case fval.inject) blast
qed (use assms in \<open>auto simp: unit_good_def list_all_iff\<close>)

lemma length_foldl_scatter:
  "length (foldl (\<lambda>q (u, r). scatter (indices_of us u) (map fst (ur_codes r)) q) q zs) = length q"
  by (induction zs arbitrary: q) auto

lemma unit_good_stats:
  assumes "unit_good s xs r sc h"
  shows "clamps_of r = 0" "valid_scale (ur_scale r)"
  using assms by (auto simp: unit_good_def clamps_of_def valid_scale_def filter_empty_conv)

lemma good_stats:
  assumes "\<forall>u \<in> set units. \<exists>ys sc h. unit_good s ys (f u) sc h"
  shows "st_clamp_count (quant_stats_of flat k (zip units (map f units))) = 0
    \<and> st_invalid_scale_units (quant_stats_of flat k (zip units (map f units))) = []"
proof -
  have z: "zip units (map f units) = map (\<lambda>u. (u, f u)) units" by (simp add: zip_map2 zip_same_conv_map)
  have "\<forall>u \<in> set units. clamps_of (f u) = 0 \<and> valid_scale (ur_scale (f u))" using assms unit_good_stats by blast
  then have "map (clamps_of \<circ> snd) (map (\<lambda>u. (u, f u)) units) = map (\<lambda>_. 0) units"
      "filter (\<lambda>(u, r). \<not> valid_scale (ur_scale r)) (map (\<lambda>u. (u, f u)) units) = []"
    by (simp_all add: filter_empty_conv)
  then show ?thesis unfolding z by (simp add: quant_stats_of_def Let_def del: map_map filter_map)
qed

text \<open>C21: symmetric quantization with at least two bits is accurate on every tensor whose values are zero or of
  a magnitude between \<open>2 powi (- 1000)\<close> and \<open>2 powi 1000\<close> (all \<open>float32\<close> and \<open>bfloat16\<close> values are): for every
  validated scheme, every positive shape and every axis, \<open>quantize\<close> returns; nothing is
  clamped and every scale is positive; every element's code lies in the symmetric range and its
  reconstruction is within half a step of its own unit's scale, up to \<open>2\<^sup>-\<^sup>4\<^sup>5\<close> of the scale that the
  roundings of the three float operations cost; and \<open>dequantize\<close> recomputes exactly the stored values. The
  floats are those of binary64, with gradual underflow and overflow; below the range the statement
  fails (\<open>subnormal_units\<close>).\<close>

theorem symmetric_rtn_half_step:
  assumes "scheme_validate s = Inr ()" and "qs_symmetric s" and "2 \<le> qs_bits s"
    and "list_all (\<lambda>d. 0 < d) dims" and "prod_list dims = int (length xs)" and "normalize_axis axis (length dims) = Inr na"
    and "\<forall>x \<in> set xs. x = 0 \<or> 2 powi (- 1000) \<le> \<bar>x\<bar> \<and> \<bar>x\<bar> \<le> 2 powi 1000"
  shows "\<exists>t. quantize (map Finite xs) s (Some dims) (Some axis) = Inr t
    \<and> length (qt_q t) = length xs \<and> st_clamp_count (qt_stats t) = 0 \<and> st_invalid_scale_units (qt_stats t) = []
    \<and> dequantize t = Inr (qt_values_dequant t)
    \<and> (\<forall>i < length xs. \<exists>u sc y. qt_unit_of t (int i) = Inr u \<and> qt_scales t ! nat u = Finite sc \<and> 0 < sc
         \<and> \<bar>qt_q t ! i\<bar> \<le> qmax_positive s \<and> qt_values_dequant t ! i = Finite y \<and> \<bar>xs ! i - y\<bar> \<le> sc * (1 / 2 + 1 / 2 ^ 45))"
proof -
  let ?flat = "map Finite xs"
  obtain a where a: "na = int a" "a < length dims"
    using assms(6) by (auto simp: normalize_axis_def Let_def split: if_splits intro: that [of "nat na"])
  obtain qmin qmax where r: "scheme_range s = Inr (qmin, qmax)"
    using assms(1) by (auto simp: scheme_validate_def scheme_range_def result_simps)
  obtain rnd where rnd: "get_rounder (qs_round_mode s) False = Inr rnd"
    using assms(1) get_rounder_accepted by (auto simp: scheme_validate_def result_simps is_rtn_def)
  obtain upr tail us N where "unit_layout s dims a ?flat upr tail us N" using units_setup [OF assms(1,4) a(2), of ?flat] assms(5) by auto
  note L = this [unfolded unit_layout_def]
  have len: "length us = length xs" and full: "set us = {0..<N}" and one: "qs_granularity s = ''per_tensor'' \<Longrightarrow> N = 1"
    using L by simp_all
  have unit: "(if qs_granularity s = ''per_tensor'' then Inr 0 else unit_of_index (int i) dims (int a) upr (scheme_group s)) = Inr (us ! i)"
    if "i < length us" for i using L that unfolding len length_map by blast
  have moderate: "list_all moderate xs" using assms(7) unfolding list_all_iff moderate_def .
  obtain f sc h where f: "\<And>u. u \<in> set us \<Longrightarrow> quantize_unit rnd qmin qmax s (map (\<lambda>i. ?flat ! i) (indices_of us u)) = Inr (f u)"
    and good: "\<And>u. u \<in> set us \<Longrightarrow> unit_good s (map (\<lambda>i. xs ! i) (indices_of us u)) (f u) (sc u) (h u)"
    using symmetric_units [OF assms(1-3) rnd r len moderate] by blast
  have units: "units_of us = [0..N - 1]" using full by (rule units_of_full)
  have in_units: "u \<in> set (units_of us) \<longleftrightarrow> u \<in> set us" for u unfolding units full by auto
  let ?rs = "zip (units_of us) (map f (units_of us))"
  let ?q = "foldl (\<lambda>q (u, r). scatter (indices_of us u) (map fst (ur_codes r)) q) (map (\<lambda>_. 0) ?flat) ?rs"
  have codes: "map fst (ur_codes (f u)) = map (\<lambda>i. h u (xs ! i)) (indices_of us u)" if "u \<in> set (units_of us)" for u
    using good that by (simp add: in_units unit_good_def)
  have q: "?q ! j = h (us ! j) (xs ! j)" if "j < length us" for j
    using scatter_units [OF codes, of "units_of us" "map (\<lambda>_. 0) ?flat" j] that by (simp add: in_units len)
  have lq: "length ?q = length us" by (simp only: length_foldl_scatter length_map len)
  let ?scales = "map (ur_scale \<circ> f) (units_of us)"
  have scale: "?scales ! nat u = Finite (sc u)" if "u \<in> set us" for u
    using good [OF that] that unfolding units full by (simp add: unit_good_def)
  let ?y = "map (\<lambda>i. scale_times (?scales ! nat (us ! i)) (?q ! i)) [0..<length us]"
  have deq: "dequantize_flat ?q ?scales [] dims upr s (scheme_group s) (Some (int a)) = Inr ?y"
    by (rule dequantize_symmetric [OF assms(2) lq _ _ one unit]) (simp_all add: units full)
  obtain t where t: "quantize ?flat s (Some dims) (Some axis) = Inr t"
      "qt_q t = ?q" "qt_scales t = ?scales" "qt_zeros t = []" "qt_values_dequant t = ?y" "qt_scheme t = s" "qt_shape t = dims"
      "qt_axis t = int a" "qt_units_per_row t = upr" "qt_group_size t = scheme_group s" "qt_stats t = quant_stats_of ?flat 0 ?rs"
    using quantize_eq [of ?flat "Some dims" dims s "Some axis" a 0 rnd upr "scheme_group s" tail qmin qmax us f ?q ?y]
      assms(2,5,6) a r rnd L f deq
    by (simp add: shape_of_def check_finite_def scheme_group_def in_units)
  have "\<forall>u \<in> set (units_of us). \<exists>ys sc h. unit_good s ys (f u) sc h" using good in_units by blast
  note stats = good_stats [OF this, of ?flat 0]
  have "qt_unit_of t (int i) = Inr (us ! i) \<and> qt_scales t ! nat (us ! i) = Finite (sc (us ! i)) \<and> 0 < sc (us ! i)
         \<and> \<bar>qt_q t ! i\<bar> \<le> qmax_positive s \<and> (\<exists>y. qt_values_dequant t ! i = Finite y \<and> \<bar>xs ! i - y\<bar> \<le> sc (us ! i) * (1 / 2 + 1 / 2 ^ 45))"
    if i: "i < length xs" for i
  proof -
    have u: "us ! i \<in> set us" using i len by simp
    have "xs ! i \<in> set (map (\<lambda>i. xs ! i) (indices_of us (us ! i)))" using i len by (auto simp: mem_indices_of)
    note e = unit_good_element [OF good [OF u] this assms(1-3)]
    have "qt_unit_of t (int i) = Inr (us ! i)"
      using unit [of i] i lq len by (simp add: qt_unit_of_def t(2,6-10) split: if_splits)
    moreover have "?q ! i = h (us ! i) (xs ! i)" using q [of i] i len by simp
    moreover have "qt_values_dequant t ! i = scale_times (Finite (sc (us ! i))) (?q ! i)"
      using i len scale [OF u] by (simp add: t(5))
    ultimately show ?thesis using e scale [OF u] by (simp only: t(2,3) simp_thms)
  qed
  moreover have "dequantize t = Inr (qt_values_dequant t)" using deq by (simp add: dequantize_def t(2-10))
  moreover have "length (qt_q t) = length xs" using lq len by (simp only: t(2))
  ultimately show ?thesis using t(1) stats [folded t(11)] by blast
qed

theorem symmetric_rtn_half_step_witness:
  "\<exists>t y. quantize (map Finite [5/2, 5/4, - 2, 0]) MAIN_W4 (Some [2, 2]) (Some 0) = Inr t \<and> st_clamp_count (qt_stats t) = 0
    \<and> qt_values_dequant t ! 3 = Finite y"
proof -
  have v: "scheme_validate MAIN_W4 = Inr ()" by code_simp
  have s: "qs_symmetric MAIN_W4" "2 \<le> qs_bits MAIN_W4" by (simp_all add: MAIN_W4_def default_scheme_def)
  have d: "list_all (\<lambda>d. 0 < d) [2, 2 :: int]" "prod_list [2, 2] = int (length [5/2, 5/4, - 2, 0 :: rat])" by simp_all
  have a: "normalize_axis 0 (length [2, 2 :: int]) = Inr 0" by (simp add: normalize_axis_def)
  have "3 < length [5/2, 5/4, - 2, 0 :: rat]" by simp
  moreover have "(2 :: rat) powi (- 1000) \<le> 2 powi 0" "(2 :: rat) powi 2 \<le> 2 powi 1000" by (rule powi_two_mono, simp)+
  then have b: "(2 :: rat) powi (- 1000) \<le> 1" "4 \<le> (2 :: rat) powi 1000"
    by (simp_all only: power_int_0_right power2_eq_square power_int_numeral)
  have "\<forall>x \<in> set [5/2, 5/4, - 2, 0 :: rat]. x = 0 \<or> 1 \<le> \<bar>x\<bar> \<and> \<bar>x\<bar> \<le> 4" by simp
  then have "\<forall>x \<in> set [5/2, 5/4, - 2, 0 :: rat]. x = 0 \<or> 2 powi (- 1000) \<le> \<bar>x\<bar> \<and> \<bar>x\<bar> \<le> 2 powi 1000"
    using b by (meson order_trans)
  ultimately show ?thesis using symmetric_rtn_half_step [OF v s d a] by blast
qed

section \<open>Subnormal scales\<close>

text \<open>Below the normal range the symmetric path behaves differently, which is why the bound asks for
  moderate values: the scale of the smallest float underflows to zero, so that its unit is marked invalid
  and its value lost; the scale of ten times that float is rounded so coarsely that the code is clamped;
  and an asymmetric unit of zero and the smallest float ends in a \<open>ZeroDivisionError\<close>.\<close>

lemma round64_tiny:
  assumes "\<bar>c\<bar> < 2 ^ 50"
  shows "round64 (c * min_subnormal) = of_int (round_half_even c) * min_subnormal"
    "fl64 (c * min_subnormal) = Finite (of_int (round_half_even c) * min_subnormal)"
proof -
  have p: "(2 :: rat) ^ 50 = 2 powi 50" by simp
  have "\<bar>c * min_subnormal\<bar> = \<bar>c\<bar> * min_subnormal" using min_subnormal_pos by (simp only: abs_mult abs_of_pos)
  also have "\<dots> \<le> 2 powi 50 * 2 powi (- 1074)"
    unfolding min_subnormal_def using assms p by (intro mult_right_mono less_imp_le [OF powi_two_pos]) simp
  also have "\<dots> = 2 powi (50 + - 1074)" by (rule powi_two_split)
  also have "50 + - 1074 = (- 1024 :: int)" by simp
  finally have le: "\<bar>c * min_subnormal\<bar> \<le> 2 powi (- 1024)" .
  have s: "(2 :: rat) powi (- 1024) < 2 powi (- 1022)" "(2 :: rat) powi (- 1024) < 2 powi 0" by (rule power_int_strict_increasing; simp)+
  have lt: "\<bar>c * min_subnormal\<bar> < 2 powi (- 1022)" using le s(1) by (rule le_less_trans)
  show r: "round64 (c * min_subnormal) = of_int (round_half_even c) * min_subnormal"
    using round64_subnormal [OF lt] min_subnormal_pos by simp
  have "\<bar>round64 (c * min_subnormal) - c * min_subnormal\<bar> \<le> min_subnormal / 2" by (rule subnormal_error [OF lt])
  moreover have "\<bar>c * min_subnormal\<bar> < 1" using le s(2) by (simp only: power_int_0_right) 
  moreover have "(1 :: rat) / 2 ^ 60 \<le> 1" by simp
  ultimately have "\<bar>round64 (c * min_subnormal)\<bar> < 2" using min_subnormal_le min_subnormal_pos by linarith
  also have "(2 :: rat) = 2 powi 1" by simp
  also have "(2 :: rat) powi 1 < 2 powi 1024" by (rule power_int_strict_increasing; simp)
  finally show "fl64 (c * min_subnormal) = Finite (of_int (round_half_even c) * min_subnormal)"
    unfolding r by (intro fl64_finite [of "c * min_subnormal", unfolded r]) 
qed

lemma subnormal_units:
  "quantize_unit round_nearest_even (- 7) 7 MAIN_W4 [Finite min_subnormal]
     = Inr \<lparr>ur_scale = Finite 0, ur_zero = 0, ur_codes = [(0, False)], ur_zero_counted = False, ur_constant = False\<rparr>
   \<and> quantize_unit round_nearest_even (- 7) 7 MAIN_W4 [Finite (10 * min_subnormal)]
     = Inr \<lparr>ur_scale = Finite min_subnormal, ur_zero = 0, ur_codes = [(7, True)], ur_zero_counted = False, ur_constant = False\<rparr>
   \<and> quantize_unit round_nearest_even (- 8) 7 (MAIN_W4\<lparr>qs_symmetric := False\<rparr>) [Finite 0, Finite min_subnormal] = Inl ZeroDivisionError"
proof -
  have sym: "qs_symmetric MAIN_W4" "qmax_positive MAIN_W4 = 7" by (simp_all add: MAIN_W4_def default_scheme_def qmax_positive_def)
  have m: "0 < min_subnormal" "min_subnormal \<noteq> 0" using min_subnormal_pos by simp_all
  have fl: "fl 7 = 7" "fl 15 = 15" "fl 10 = 10" using fl_of_int [of 7] fl_of_int [of 15] fl_of_int [of 10] by simp_all
  have r: "round_half_even (1 / 7) = 0" "round_half_even (10 / 7) = 1" "round_half_even (1 / 15) = 0" "round_half_even 1 = 1" by code_simp+
  have s: "fl64 (min_subnormal / 7) = Finite 0" "fl64 (10 * min_subnormal / 7) = Finite min_subnormal"
      "fl64 (min_subnormal / 15) = Finite 0" "fl64 min_subnormal = Finite min_subnormal"
    using round64_tiny(2) [of "1 / 7"] round64_tiny(2) [of "10 / 7"] round64_tiny(2) [of "1 / 15"] round64_tiny(2) [of 1] by (simp_all add: r)
  have "round64 10 = 10" "fl64 10 = Finite (round64 10)" by (code_simp, rule quotient64, simp)
  then have q: "fl64 10 = Finite 10" by simp
  have n: "bindE (round_nearest_even (Finite 10)) (\<lambda>rounded. coerce_round_value (Finite rounded)) = Inr 10" by code_simp
  then have n: "bindE (round_nearest_even (Finite 10)) (\<lambda>rounded. bindE (coerce_round_value (Finite rounded)) f) = f 10" for f
    by (auto simp: bindE_eq_Inr)
  show ?thesis using m
    by (simp add: quantize_unit_def symmetric_unit_def asymmetric_unit_def sym Let_def fl s code_value_def q n span_scale_def zero_offset_def all_res.simps)
qed

section \<open>Range of the codes and the limits of the bound\<close>

lemma code_value_range: "code_value rnd qmin qmax scale zero value = Inr (c, b) \<Longrightarrow> qmin \<le> 0 \<Longrightarrow> 0 \<le> qmax \<Longrightarrow> qmin \<le> c \<and> c \<le> qmax"
  by (auto simp: code_value_def result_simps Let_def split: fval.splits if_splits)

lemma codes_range:
  assumes "all_res (map (code_value rnd qmin qmax scale zero) chunk) = Inr cs" "qmin \<le> 0" "0 \<le> qmax"
  shows "\<forall>(c, b) \<in> set cs. qmin \<le> c \<and> c \<le> qmax"
proof -
  have "map (code_value rnd qmin qmax scale zero) chunk = map Inr cs" using assms(1) by (simp add: all_res_Inr)
  then have "\<exists>v. code_value rnd qmin qmax scale zero v = Inr (c, b)" if "(c, b) \<in> set cs" for c b
    using that by (metis (no_types, lifting) image_iff list.set_map)
  then show ?thesis using code_value_range [OF _ assms(2,3)] by blast
qed

lemma unit_codes_range:
  assumes "quantize_unit rnd qmin qmax s chunk = Inr r" "qmin \<le> 0" "0 \<le> qmax"
  shows "\<forall>(c, b) \<in> set (ur_codes r). qmin \<le> c \<and> c \<le> qmax"
  using assms
  by (auto simp: quantize_unit_def symmetric_unit_def asymmetric_unit_def Let_def result_simps dest!: codes_range split: if_splits)

lemma set_scatter: "set (scatter is cs q) \<subseteq> set cs \<union> set q"
proof (induction "is" cs arbitrary: q rule: list_induct2')
  case (4 i "is" c cs)
  have "set (q[i := c]) \<subseteq> insert c (set q)" by (rule set_update_subset_insert)
  then show ?case using 4 [of "q[i := c]"] by auto
qed (auto simp: scatter_def)

lemma set_foldl_scatter:
  "set q \<subseteq> A \<Longrightarrow> (\<And>u r. (u, r) \<in> set zs \<Longrightarrow> fst ` set (ur_codes r) \<subseteq> A)
   \<Longrightarrow> set (foldl (\<lambda>q (u, r). scatter (indices_of us u) (map fst (ur_codes r)) q) q zs) \<subseteq> A"
proof (induction zs arbitrary: q)
  case (Cons z zs)
  obtain u r where z: "z = (u, r)" by (cases z)
  have "set (scatter (indices_of us u) (map fst (ur_codes r)) q) \<subseteq> A"
    using set_scatter [of "indices_of us u" "map fst (ur_codes r)" q] Cons.prems(1) Cons.prems(2) [of u r] z by auto
  then have "set (foldl (\<lambda>q (u, r). scatter (indices_of us u) (map fst (ur_codes r)) q) (scatter (indices_of us u) (map fst (ur_codes r)) q) zs) \<subseteq> A"
    by (rule Cons.IH) (use Cons.prems(2) in auto)
  then show ?case by (simp add: z)
qed simp

text \<open>C22: whatever it is given, quantization that returns has one code per value, and every code lies in the
  integer range of the scheme: also for asymmetric schemes, for values that are clamped, and for
  tensors with non-finite values in the diagnostic mode.\<close>

theorem quantize_codes_in_range:
  assumes "quantize flat s shape axis = Inr t" and "scheme_range s = Inr (qmin, qmax)"
  shows "length (qt_q t) = length flat \<and> (\<forall>c \<in> set (qt_q t). qmin \<le> c \<and> c \<le> qmax)"
proof -
  have z: "qmin \<le> 0" "0 \<le> qmax" using assms(2) integer_range_bounds(3,4) by (auto simp: scheme_range_def)
  obtain rnd us rs where rs: "all_res (map (\<lambda>u. quantize_unit rnd qmin qmax s (map (\<lambda>i. flat ! i) (indices_of us u))) (units_of us)) = Inr rs"
    and q: "qt_q t = foldl (\<lambda>q (u, r). scatter (indices_of us u) (map fst (ur_codes r)) q) (map (\<lambda>_. 0) flat) (zip (units_of us) rs)"
    using assms by (auto simp: quantize_def Let_def bindE_eq_Inr)
  have "map (\<lambda>u. quantize_unit rnd qmin qmax s (map (\<lambda>i. flat ! i) (indices_of us u))) (units_of us) = map Inr rs"
    using rs by (simp only: all_res_Inr)
  then have "\<exists>chunk. quantize_unit rnd qmin qmax s chunk = Inr r" if "r \<in> set rs" for r
    using that by (metis (no_types, lifting) image_iff list.set_map)
  then have "fst ` set (ur_codes r) \<subseteq> {qmin..qmax}" if "r \<in> set rs" for r
    using unit_codes_range [OF _ z] that by fastforce
  then have "set (qt_q t) \<subseteq> {qmin..qmax}"
    unfolding q using z by (intro set_foldl_scatter) (auto dest: set_zip_rightD)
  then show ?thesis by (auto simp: q length_foldl_scatter)
qed

theorem quantize_codes_in_range_witness:
  "\<exists>t. quantize [Finite 15, Non_finite, Finite 0] (MAIN_W4\<lparr>qs_symmetric := False, qs_range_policy := TWOS_COMPLEMENT, qs_nan_policy := ''propagate''\<rparr>) None None = Inr t
    \<and> (\<forall>c \<in> set (qt_q t). - 8 \<le> c \<and> c \<le> 7)"
proof -
  let ?s = "MAIN_W4\<lparr>qs_symmetric := False, qs_range_policy := TWOS_COMPLEMENT, qs_nan_policy := ''propagate''\<rparr>"
  have "is_ok (quantize [Finite 15, Non_finite, Finite 0] ?s None None)" by code_simp
  then obtain t where t: "quantize [Finite 15, Non_finite, Finite 0] ?s None None = Inr t" by (auto simp: is_ok_iff)
  have "scheme_range ?s = Inr (- 8, 7)" by code_simp
  with quantize_codes_in_range [OF t] t show ?thesis by blast
qed

text \<open>The bound that \<open>clamp_free_error_bound\<close> reports is not an upper bound of the observed error, even
  when nothing was clamped. With symmetric 4-bit codes the value 1.25 next to 2.5 is reconstructed
  with an error above half the scale, because the rounded quotient falls on a tie; and a constant group
  of an asymmetric scheme is encoded as zeros with scale one, so that its whole value is lost while
  the bound says one half.\<close>

theorem half_step_bound_exceeded:
  "(\<exists>t y s. quantize [Finite (5/2), Finite (5/4)] MAIN_W4 None None = Inr t \<and> st_clamp_count (qt_stats t) = 0
       \<and> qt_values_dequant t ! 1 = Finite y \<and> clamp_free_error_bound t = Finite s \<and> \<bar>5/4 - y\<bar> > s)
   \<and> (\<exists>t. quantize [Finite 10, Finite 10] (MAIN_W4\<lparr>qs_symmetric := False, qs_range_policy := TWOS_COMPLEMENT\<rparr>) None None = Inr t
       \<and> st_clamp_count (qt_stats t) = 0 \<and> qt_values_dequant t = [Finite 0, Finite 0] \<and> clamp_free_error_bound t = Finite (1/2))"
proof
  let ?r = "quantize [Finite (5/2), Finite (5/4)] MAIN_W4 None None"
  have "case ?r of Inl _ \<Rightarrow> False | Inr t \<Rightarrow> st_clamp_count (qt_stats t) = 0
     \<and> (case (qt_values_dequant t ! 1, clamp_free_error_bound t) of (Finite y, Finite s) \<Rightarrow> \<bar>5/4 - y\<bar> > s | _ \<Rightarrow> False)"
    by code_simp
  then show "\<exists>t y s. ?r = Inr t \<and> st_clamp_count (qt_stats t) = 0
       \<and> qt_values_dequant t ! 1 = Finite y \<and> clamp_free_error_bound t = Finite s \<and> \<bar>5/4 - y\<bar> > s"
    by (auto split: sum.splits fval.splits prod.splits)
  let ?r = "quantize [Finite 10, Finite 10] (MAIN_W4\<lparr>qs_symmetric := False, qs_range_policy := TWOS_COMPLEMENT\<rparr>) None None"
  have "case ?r of Inl _ \<Rightarrow> False | Inr t \<Rightarrow> st_clamp_count (qt_stats t) = 0 \<and> qt_values_dequant t = [Finite 0, Finite 0]
     \<and> clamp_free_error_bound t = Finite (1/2)"
    by code_simp
  then show "\<exists>t. ?r = Inr t \<and> st_clamp_count (qt_stats t) = 0 \<and> qt_values_dequant t = [Finite 0, Finite 0] \<and> clamp_free_error_bound t = Finite (1/2)"
    by (auto split: sum.splits)
qed

text \<open>Some inputs the module accepts end in a Python error rather than in a \<open>ConfigError\<close>: an empty
  tensor under a per-tensor scheme, and any non-zero tensor under the symmetric one-bit scheme, whose
  positive range is empty; both schemes pass validation.\<close>

theorem quantize_unexpected_errors:
  "scheme_validate (MAIN_W4\<lparr>qs_granularity := ''per_tensor''\<rparr>) = Inr ()
   \<and> quantize [] (MAIN_W4\<lparr>qs_granularity := ''per_tensor''\<rparr>) None None = Inl IndexError
   \<and> scheme_validate (MAIN_W4\<lparr>qs_bits := 1\<rparr>) = Inr ()
   \<and> quantize [Finite 1] (MAIN_W4\<lparr>qs_bits := 1\<rparr>) None None = Inl ZeroDivisionError"
proof (intro conjI)
  show "scheme_validate (MAIN_W4\<lparr>qs_granularity := ''per_tensor''\<rparr>) = Inr ()" by code_simp
  show "quantize [] (MAIN_W4\<lparr>qs_granularity := ''per_tensor''\<rparr>) None None = Inl IndexError" by code_simp
  show "scheme_validate (MAIN_W4\<lparr>qs_bits := 1\<rparr>) = Inr ()" by code_simp
  show "quantize [Finite 1] (MAIN_W4\<lparr>qs_bits := 1\<rparr>) None None = Inl ZeroDivisionError" by code_simp
qed

end
