(* ===== verification/Router.thy ===== *)
theory Router
  imports Circuit "HOL-Library.Sublist"
begin

text \<open>
  \<open>hqsb/serving/router.py\<close>: the backend registry with its generations, the ordered hard filters, the
  scoring of the feasible backends and the routing decision. A registered backend is a mutable object
  with a mutable circuit breaker, so filtering returns the registry it leaves: asking a breaker whether
  it admits a request changes it. Every backend owns its breaker. Sums of floats, whose rounding depends
  on the interpreter, are an argument. The values of the identity mapping are strings.
\<close>

definition HARD_FILTER_ORDER :: "string list" where
  "HARD_FILTER_ORDER =
     [''model_alias_resolve'', ''artifact_revision_tokenizer_template'', ''precision_quality_tenant_policy'',
      ''context_input_output_feasibility'', ''protocol_feature_capability'', ''device_parallel_constraints'',
      ''readiness_model_epoch'', ''circuit_health'', ''deadline_slo_envelope'']"

definition FALLBACK_LADDER :: "string list" where
  "FALLBACK_LADDER =
     [''same_instance_retry'', ''same_artifact_same_quality_other_instance'', ''approved_alternate_precision'',
      ''alternate_model_degraded_quality'', ''fail_closed_reject'']"

section \<open>Backends\<close>

record telemetry =
  tm_monotonic_ns :: int
  tm_queue_depth :: rat
  tm_inflight_requests :: rat
  tm_inflight_tokens :: rat
  tm_kv_bytes :: rat
  tm_cache_saved_prefill_ms :: rat
  tm_error_rate :: rat

definition ns_to_ms :: "int \<Rightarrow> rat" where
  "ns_to_ms d = fl (fl (of_int d) / 1000000)"

definition age_ms :: "telemetry \<Rightarrow> int \<Rightarrow> rat" where
  "age_ms t now_ns = max 0 (ns_to_ms (now_ns - tm_monotonic_ns t))"

record backend_record =
  br_instance_id :: string
  br_adapter_version :: string
  br_runtime_commit :: string
  br_hardware :: string
  br_device :: string
  br_parallel_degree :: int
  br_model_identity :: "(string \<times> string) list"
  br_precision :: string
  br_quality_class :: string
  br_model_aliases :: "string list"
  br_quant_artifact_hash :: string
  br_adapter_hash :: string
  br_tokenizer_id :: string
  br_chat_template_hash :: string
  br_capability :: "(string \<times> string) list"
  br_features :: "(string \<times> bool) list"
  br_max_context_tokens :: int
  br_model_epoch :: string
  br_config_generation :: int
  br_ready :: bool
  br_healthy :: bool
  br_health :: "health_state option"
  br_capacity_envelope_ms :: "(string \<times> rat) list"
  br_cost_units :: rat
  br_energy_units :: rat
  br_telemetry :: "telemetry option"
  br_breaker :: "circuit_breaker option"
  br_route_epoch :: string

text \<open>\<open>mapping.get(name, default)\<close>\<close>

definition get_default :: "(string \<times> 'a) list \<Rightarrow> string \<Rightarrow> 'a \<Rightarrow> 'a" where
  "get_default m name d = (case map_of m name of None \<Rightarrow> d | Some v \<Rightarrow> v)"

definition model_id :: "backend_record \<Rightarrow> string" where
  "model_id r = get_default (br_model_identity r) ''model_id'' ''''"

definition revision :: "backend_record \<Rightarrow> string" where
  "revision r = get_default (br_model_identity r) ''revision'' ''''"

definition effective_health :: "backend_record \<Rightarrow> health_state" where
  "effective_health r = (case br_health r of
     Some h \<Rightarrow> h
   | None \<Rightarrow> \<lparr>process_alive = True, adapter_ready = br_ready r, model_epoch_warm = br_ready r,
       capability_probe_fresh = (br_telemetry r \<noteq> None), transient_overload = (\<not> br_healthy r),
       hs_circuit_state = (case br_breaker r of None \<Rightarrow> CLOSED | Some b \<Rightarrow> cb_state b),
       hs_quarantined = (case br_breaker r of None \<Rightarrow> False | Some b \<Rightarrow> cb_quarantined b),
       hs_quarantine_reason = '''', hs_model_epoch = br_model_epoch r\<rparr>)"

section \<open>The registry\<close>

record registry =
  rg_generation :: int
  rg_records :: "(string \<times> backend_record) list"

type_synonym snapshot = registry

definition new_registry :: registry where
  "new_registry = \<lparr>rg_generation = 0, rg_records = []\<rparr>"

definition snapshot_ids :: "snapshot \<Rightarrow> string list" where
  "snapshot_ids s = sort (map fst (rg_records s))"

definition snapshot_get :: "snapshot \<Rightarrow> string \<Rightarrow> backend_record res" where
  "snapshot_get s instance_id = (case map_of (rg_records s) instance_id of
     None \<Rightarrow> Inl (ConfigError ''instance id'') | Some r \<Rightarrow> Inr r)"

definition registry_get :: "registry \<Rightarrow> string \<Rightarrow> backend_record res" where
  "registry_get g instance_id = (case map_of (rg_records g) instance_id of
     None \<Rightarrow> Inl (ConfigError ''instance id'') | Some r \<Rightarrow> Inr r)"

text \<open>A snapshot copies the dictionary of the same generation.\<close>

definition registry_snapshot :: "registry \<Rightarrow> snapshot" where
  "registry_snapshot g = \<lparr>rg_generation = rg_generation g, rg_records = rg_records g\<rparr>"

definition register :: "backend_record \<Rightarrow> (registry, snapshot) op" where
  "register r g =
     (if map_of (rg_records g) (br_instance_id r) \<noteq> None then (Inl (ConfigError ''duplicate instance id''), g)
      else if br_model_epoch r = '''' then (Inl (ConfigError ''model epoch''), g)
      else let r' = (if \<not> br_ready r then r\<lparr>br_health := Some (effective_health r)\<rparr> else r);
               g' = g\<lparr>rg_records := AList.update (br_instance_id r) r' (rg_records g), rg_generation := rg_generation g + 1\<rparr>
           in (Inr (registry_snapshot g'), g'))"

fun collect_generation :: "int \<Rightarrow> backend_record list \<Rightarrow> (string \<times> backend_record) list \<Rightarrow> (string \<times> backend_record) list res" where
  "collect_generation generation [] seen = Inr seen"
| "collect_generation generation (r # rs) seen =
     (if br_config_generation r \<notin> {generation, 0} then Inl (ConfigError ''record generation'')
      else if map_of seen (br_instance_id r) \<noteq> None then Inl (ConfigError ''duplicate instance id'')
      else collect_generation generation rs (AList.update (br_instance_id r) r seen))"

definition replace_generation :: "backend_record list \<Rightarrow> int \<Rightarrow> (registry, snapshot) op" where
  "replace_generation records generation g =
     (if generation \<le> rg_generation g then (Inl (ConfigError ''generation''), g)
      else case collect_generation generation records [] of
        Inl e \<Rightarrow> (Inl e, g)
      | Inr seen \<Rightarrow> let g' = \<lparr>rg_generation = generation, rg_records = seen\<rparr> in (Inr (registry_snapshot g'), g'))"

section \<open>Hard filters\<close>

record route_request =
  rq_request_id :: string
  rq_model_alias :: string
  rq_model_identity :: "(string \<times> string) list"
  rq_precision :: string
  rq_quality_class :: string
  rq_prompt_tokens :: int
  rq_reserved_output_tokens :: int
  rq_stream :: bool
  rq_cancel :: bool
  rq_logprobs :: bool
  rq_prefix_cache :: bool
  rq_tenant :: string
  rq_allow_alternate_precision :: bool
  rq_allow_alternate_model :: bool
  rq_deadline_ns :: "int option"

datatype filter_reason = Failed_stage string | No_cache_telemetry

record filter_outcome =
  fo_candidate_id :: string
  fo_feasible :: bool
  fo_reasons :: "filter_reason list"
  fo_failed_stage :: string

text \<open>The static checks by stage; the circuit check asks the breaker.\<close>

definition static_check :: "backend_record \<Rightarrow> route_request \<Rightarrow> string \<Rightarrow> bool" where
  "static_check r q name =
     (if name = ''model_alias_resolve'' then rq_model_alias q \<in> set (br_model_aliases r)
      else if name = ''artifact_revision_tokenizer_template'' then
        get_default (br_model_identity r) ''model_manifest_sha256'' '''' = get_default (rq_model_identity q) ''model_manifest_sha256'' ''''
      else if name = ''precision_quality_tenant_policy'' then br_precision r = rq_precision q \<and> br_quality_class r = rq_quality_class q
      else if name = ''context_input_output_feasibility'' then
        rq_prompt_tokens q + rq_reserved_output_tokens q \<le> br_max_context_tokens r
      else if name = ''protocol_feature_capability'' then
        (\<not> rq_stream q \<or> get_default (br_features r) ''stream'' True) \<and> (\<not> rq_cancel q \<or> get_default (br_features r) ''cancel'' True)
        \<and> (\<not> rq_logprobs q \<or> get_default (br_features r) ''logprobs'' False)
        \<and> (\<not> rq_prefix_cache q \<or> get_default (br_features r) ''prefix'' False)
      else if name = ''device_parallel_constraints'' then br_parallel_degree r \<ge> 1
      else if name = ''readiness_model_epoch'' then routable (effective_health r) \<and> br_model_epoch r \<noteq> ''''
      else True)"

definition ask_breaker :: "int \<Rightarrow> backend_record \<Rightarrow> bool \<times> backend_record" where
  "ask_breaker now_ns r = (case br_breaker r of
     None \<Rightarrow> (True, r)
   | Some b \<Rightarrow> (case allow_request now_ns b of ((allowed, _), b') \<Rightarrow> (allowed, r\<lparr>br_breaker := Some b'\<rparr>)))"

definition str_bool :: "bool \<Rightarrow> string" where
  "str_bool b = (if b then ''True'' else ''False'')"

definition check_record :: "backend_record \<Rightarrow> route_request \<Rightarrow> int \<Rightarrow> string list \<Rightarrow> filter_outcome \<times> backend_record" where
  "check_record r q now_ns order =
     (let (circuit_ok, r') = ask_breaker now_ns r;
          failed = filter (\<lambda>name. name \<noteq> ''deadline_slo_envelope''
                     \<and> \<not> (if name = ''circuit_health'' then circuit_ok else static_check r q name)) order;
          reasons = map Failed_stage failed
            @ (if br_telemetry r = None \<and> sublist ''prefix'' (str_bool (rq_prefix_cache q)) then [No_cache_telemetry] else [])
      in (\<lparr>fo_candidate_id = br_instance_id r, fo_feasible = (reasons = []), fo_reasons = reasons,
           fo_failed_stage = (if failed = [] then '''' else last failed)\<rparr>, r'))"

text \<open>The loop over the candidate ids; the records stay in their dictionary, updated in place.\<close>

fun filter_loop :: "route_request \<Rightarrow> int \<Rightarrow> string list \<Rightarrow> string list \<Rightarrow> (string \<times> backend_record) list
    \<Rightarrow> (string list \<times> filter_outcome list) \<times> (string \<times> backend_record) list" where
  "filter_loop q now_ns order [] recs = (([], []), recs)"
| "filter_loop q now_ns order (iid # ids) recs =
     (case map_of recs iid of
        None \<Rightarrow> filter_loop q now_ns order ids recs
      | Some r \<Rightarrow>
          let (outcome, r') = check_record r q now_ns order;
              ((feasible, rejected), recs') = filter_loop q now_ns order ids (AList.update iid r' recs)
          in (if fo_feasible outcome then (iid # feasible, rejected) else (feasible, outcome # rejected), recs'))"

text \<open>The feasible backends are the objects after filtering.\<close>

definition hard_filter :: "route_request \<Rightarrow> snapshot \<Rightarrow> int \<Rightarrow> string list \<Rightarrow> (backend_record list \<times> filter_outcome list) \<times> snapshot" where
  "hard_filter q s now_ns order =
     (case filter_loop q now_ns order (snapshot_ids s) (rg_records s) of
        ((feasible, rejected), recs) \<Rightarrow> ((map (\<lambda>iid. the (map_of recs iid)) feasible, rejected), s\<lparr>rg_records := recs\<rparr>))"

section \<open>Scoring\<close>

record score_feature =
  sf_name :: string
  sf_unit :: string
  sf_normalization :: string
  sf_weight :: rat
  sf_missing_policy :: string

record score_spec =
  sp_features :: "score_feature list"
  sp_tie_break :: string
  sp_telemetry_ttl_ms :: rat
  sp_max_telemetry_age_ms :: rat
  sp_missing_telemetry_never_zero :: bool
  sp_score_sense :: string
  sp_slo_feasibility_terms :: "string list"

record scored_candidate =
  sc_instance_id :: string
  sc_raw :: "(string \<times> rat option) list"
  sc_normalized :: "(string \<times> rat) list"
  sc_missing :: "string list"
  sc_components :: "(string \<times> rat) list"
  sc_score :: rat
  sc_telemetry_age_ms :: "rat option"
  sc_stale :: bool
  sc_slo_feasible :: "bool option"

definition feature_value :: "backend_record \<Rightarrow> string \<Rightarrow> rat option" where
  "feature_value r name =
     (if name = ''predicted_queue_ms'' then map_option (\<lambda>t. fl (tm_queue_depth t * 10)) (br_telemetry r)
      else if name = ''predicted_ttft_ms'' then
        map_option (\<lambda>t. fl (get_default (br_capacity_envelope_ms r) ''ttft_ms'' 0 + fl (tm_inflight_requests t * 5))) (br_telemetry r)
      else if name = ''cache_saved_prefill_ms'' then map_option tm_cache_saved_prefill_ms (br_telemetry r)
      else if name = ''monetary_cost_units'' then Some (br_cost_units r)
      else if name = ''routing_skew_ratio'' then map_option tm_inflight_requests (br_telemetry r)
      else None)"

text \<open>The values of one feature that are known among the feasible backends.\<close>

definition observed_values :: "backend_record list \<Rightarrow> string \<Rightarrow> rat list" where
  "observed_values feasible name = List.map_filter (\<lambda>r. feature_value r name) feasible"

definition normalize_feature :: "rat list \<Rightarrow> rat option \<Rightarrow> rat" where
  "normalize_feature observed value = (case value of
     None \<Rightarrow> fl ((if observed \<noteq> [] then Max (set observed) else 1) * (5 / 4))
   | Some v \<Rightarrow> if observed = [] \<or> Max (set observed) = Min (set observed) then 0
       else fl (fl (v - Min (set observed)) / fl (Max (set observed) - Min (set observed))))"

text \<open>A dictionary comprehension over the features: a repeated name keeps its last value.\<close>

definition feature_dict :: "(score_feature \<Rightarrow> 'a) \<Rightarrow> score_feature list \<Rightarrow> (string \<times> 'a) list" where
  "feature_dict f features = foldl (\<lambda>d feature. AList.update (sf_name feature) (f feature) d) [] features"

definition slo_prediction :: "(rat list \<Rightarrow> rat) \<Rightarrow> score_spec \<Rightarrow> backend_record \<Rightarrow> rat option" where
  "slo_prediction fsum spec r =
     (let terms = map (map_of (br_capacity_envelope_ms r)) (sp_slo_feasibility_terms spec) in
      if list_all (\<lambda>t. t \<noteq> None) terms then Some (fsum (map the terms)) else None)"

definition score_candidate ::
  "(rat list \<Rightarrow> rat) \<Rightarrow> score_spec \<Rightarrow> route_request \<Rightarrow> int \<Rightarrow> backend_record list \<Rightarrow> backend_record \<Rightarrow> scored_candidate" where
  "score_candidate fsum spec q now_ns feasible r =
     (let norm = (\<lambda>feature. normalize_feature (observed_values feasible (sf_name feature)) (feature_value r (sf_name feature)));
          normalized = feature_dict norm (sp_features spec);
          components = feature_dict (\<lambda>feature. fl (get_default normalized (sf_name feature) 0 * sf_weight feature)) (sp_features spec);
          age = map_option (\<lambda>t. age_ms t now_ns) (br_telemetry r);
          slo = (case rq_deadline_ns q of None \<Rightarrow> None
             | Some deadline \<Rightarrow> map_option (\<lambda>predicted. predicted \<le> ns_to_ms (deadline - now_ns)) (slo_prediction fsum spec r))
      in \<lparr>sc_instance_id = br_instance_id r,
          sc_raw = feature_dict (\<lambda>feature. feature_value r (sf_name feature)) (sp_features spec),
          sc_normalized = normalized,
          sc_missing = map sf_name (filter (\<lambda>feature. feature_value r (sf_name feature) = None) (sp_features spec))
            @ (if rq_deadline_ns q \<noteq> None \<and> slo_prediction fsum spec r = None then [''slo_feasibility_envelope''] else []),
          sc_components = components, sc_score = fsum (map snd components), sc_telemetry_age_ms = age,
          sc_stale = (case age of None \<Rightarrow> True | Some a \<Rightarrow> a > sp_telemetry_ttl_ms spec), sc_slo_feasible = slo\<rparr>)"

definition score_candidates ::
  "(rat list \<Rightarrow> rat) \<Rightarrow> score_spec \<Rightarrow> route_request \<Rightarrow> int \<Rightarrow> backend_record list \<Rightarrow> scored_candidate list" where
  "score_candidates fsum spec q now_ns feasible =
     sort_key (\<lambda>c. (sc_score c, sc_instance_id c)) (map (score_candidate fsum spec q now_ns feasible) feasible)"

section \<open>The decision\<close>

datatype route_reason = No_candidate_passed | All_infeasible_for_deadline | Lowest_score rat nat

record route_decision =
  rd_request_id :: string
  rd_policy_version :: string
  rd_candidate_ids :: "string list"
  rd_feasible_ids :: "string list"
  rd_rejected :: "filter_outcome list"
  rd_scored :: "scored_candidate list"
  rd_tie_break :: string
  rd_selected_instance_id :: string
  rd_selected_model_epoch :: string
  rd_selected_route_epoch :: string
  rd_reason :: route_reason
  rd_fallback_level :: string
  rd_no_feasible :: bool

definition route :: "(rat list \<Rightarrow> rat) \<Rightarrow> route_request \<Rightarrow> score_spec \<Rightarrow> int \<Rightarrow> string \<Rightarrow> (registry, route_decision) op" where
  "route fsum q spec now_ns policy_version g =
     (let s = registry_snapshot g;
          ((feasible, rejected), s') = hard_filter q s now_ns HARD_FILTER_ORDER;
          g' = g\<lparr>rg_records := rg_records s'\<rparr>;
          d = \<lparr>rd_request_id = rq_request_id q, rd_policy_version = policy_version, rd_candidate_ids = snapshot_ids s,
               rd_feasible_ids = map br_instance_id feasible, rd_rejected = rejected, rd_scored = [],
               rd_tie_break = sp_tie_break spec, rd_selected_instance_id = '''', rd_selected_model_epoch = '''',
               rd_selected_route_epoch = '''', rd_reason = No_candidate_passed, rd_fallback_level = ''fail_closed_reject'',
               rd_no_feasible = True\<rparr>
      in if feasible = [] then (Inr d, g')
         else let scored = score_candidates fsum spec q now_ns feasible;
                  eligible = filter (\<lambda>c. sc_slo_feasible c \<noteq> Some False) scored
              in (case eligible of
                    [] \<Rightarrow> (Inr (d\<lparr>rd_scored := scored, rd_reason := All_infeasible_for_deadline\<rparr>), g')
                  | chosen # _ \<Rightarrow>
                      (case snapshot_get s' (sc_instance_id chosen) of
                         Inl e \<Rightarrow> (Inl e, g')
                       | Inr r \<Rightarrow> (Inr (d\<lparr>rd_scored := eligible, rd_selected_instance_id := sc_instance_id chosen,
                           rd_selected_model_epoch := br_model_epoch r, rd_selected_route_epoch := br_route_epoch r,
                           rd_reason := Lowest_score (sc_score chosen) (length eligible),
                           rd_fallback_level := ''same_instance_retry'', rd_no_feasible := False\<rparr>), g'))))"

section \<open>Audits\<close>

datatype actual_problem = No_actual string | Other_instance string | Other_epoch string

definition actual_problems :: "(string \<times> (string \<times> string)) list \<Rightarrow> route_decision \<Rightarrow> actual_problem list" where
  "actual_problems actuals d =
     (if rd_no_feasible d then []
      else case map_of actuals (rd_request_id d) of
        None \<Rightarrow> [No_actual (rd_request_id d)]
      | Some (inst, epoch) \<Rightarrow>
          (if inst \<noteq> rd_selected_instance_id d then [Other_instance (rd_request_id d)] else [])
          @ (if epoch \<noteq> rd_selected_model_epoch d then [Other_epoch (rd_request_id d)] else []))"

definition route_vs_actual :: "route_decision list \<Rightarrow> (string \<times> (string \<times> string)) list \<Rightarrow> actual_problem list \<times> int" where
  "route_vs_actual decisions actuals =
     (concat (map (actual_problems actuals) decisions),
      int (length (filter (\<lambda>d. \<not> rd_no_feasible d \<and> map_of actuals (rd_request_id d) \<noteq> None) decisions)))"

record fallback =
  fb_level :: string
  fb_permitted :: bool
  fb_must_revalidate_identity :: bool

definition fallback_plan :: "route_request \<Rightarrow> string \<Rightarrow> fallback res" where
  "fallback_plan q level =
     (if level \<notin> set FALLBACK_LADDER then Inl (ConfigError ''fallback level'')
      else Inr \<lparr>fb_level = level,
        fb_permitted = (\<not> (level = ''approved_alternate_precision'' \<and> \<not> rq_allow_alternate_precision q)
                      \<and> \<not> (level = ''alternate_model_degraded_quality'' \<and> \<not> rq_allow_alternate_model q)),
        fb_must_revalidate_identity = True\<rparr>)"

record freshness_row =
  fr_instance_id :: string
  fr_age_ms :: "rat option"
  fr_stale :: bool

definition telemetry_freshness_report :: "snapshot \<Rightarrow> int \<Rightarrow> score_spec \<Rightarrow> freshness_row list \<times> int" where
  "telemetry_freshness_report s now_ns spec =
     (let rows = map (\<lambda>iid. let age = map_option (\<lambda>t. age_ms t now_ns) (br_telemetry (the (map_of (rg_records s) iid))) in
            \<lparr>fr_instance_id = iid, fr_age_ms = age, fr_stale = (case age of None \<Rightarrow> True | Some a \<Rightarrow> a > sp_telemetry_ttl_ms spec)\<rparr>)
          (snapshot_ids s)
      in (rows, int (length (filter fr_stale rows))))"

end
