(* ===== verification/Router_Props.thy ===== *)
theory Router_Props
  imports Router
begin

text \<open>
  Correctness of routing: filtering partitions the candidates and only ever changes breakers, a selected
  backend passed every hard filter and has the least score, the registry never mixes generations; and
  what the scores and the half-open probes do when backends are compared or asked in vain.
\<close>

section \<open>Filtering\<close>

definition feasible_for :: "route_request \<Rightarrow> int \<Rightarrow> string list \<Rightarrow> backend_record \<Rightarrow> bool" where
  "feasible_for q now_ns order r \<longleftrightarrow> fo_feasible (fst (check_record r q now_ns order))"

definition asked :: "int \<Rightarrow> backend_record \<Rightarrow> backend_record" where
  "asked now_ns r = snd (ask_breaker now_ns r)"

lemma check_record_asked [simp]: "snd (check_record r q now_ns order) = asked now_ns r"
  by (simp add: check_record_def asked_def Let_def case_prod_beta)

lemma check_record_id [simp]: "fo_candidate_id (fst (check_record r q now_ns order)) = br_instance_id r"
  by (simp add: check_record_def Let_def case_prod_beta)

lemma asked_eq:
  "asked now_ns r = (case br_breaker r of None \<Rightarrow> r | Some b \<Rightarrow> r\<lparr>br_breaker := Some (snd (allow_request now_ns b))\<rparr>)"
  by (simp add: asked_def ask_breaker_def case_prod_beta split: option.split)

lemma asked_fields [simp]:
  "br_instance_id (asked now_ns r) = br_instance_id r" "br_model_epoch (asked now_ns r) = br_model_epoch r"
  "br_route_epoch (asked now_ns r) = br_route_epoch r" "br_telemetry (asked now_ns r) = br_telemetry r"
  "br_config_generation (asked now_ns r) = br_config_generation r" "br_model_aliases (asked now_ns r) = br_model_aliases r"
  by (cases "br_breaker r"; simp add: asked_eq)+

text \<open>The prefix test of the filter never fires: neither spelling of a boolean contains the word.\<close>

lemma prefix_test_dead: "\<not> sublist ''prefix'' (str_bool b)"
proof -
  have "\<not> sublist ''prefix'' ''True''" "\<not> sublist ''prefix'' ''False''" by code_simp+
  then show ?thesis by (simp add: str_bool_def)
qed

lemma feasible_iff:
  "feasible_for q now_ns order r \<longleftrightarrow>
     (\<forall>name \<in> set order. name = ''deadline_slo_envelope''
        \<or> (if name = ''circuit_health'' then fst (ask_breaker now_ns r) else static_check r q name))"
  by (auto simp: feasible_for_def check_record_def Let_def prefix_test_dead filter_empty_conv case_prod_beta)

lemma filter_loop_spec:
  assumes "filter_loop q now_ns order ids recs = ((feas, rej), recs')" "distinct ids" "set ids \<subseteq> fst ` set recs"
  shows "feas = filter (\<lambda>i. feasible_for q now_ns order (the (map_of recs i))) ids
    \<and> rej = map (\<lambda>i. fst (check_record (the (map_of recs i)) q now_ns order)) (filter (\<lambda>i. \<not> feasible_for q now_ns order (the (map_of recs i))) ids)
    \<and> (\<forall>i. map_of recs' i = (if i \<in> set ids then map_option (asked now_ns) (map_of recs i) else map_of recs i))
    \<and> map fst recs' = map fst recs"
  using assms
proof (induction ids arbitrary: feas rej recs recs')
  case (Cons i ids)
  from Cons.prems(3) obtain r where r: "map_of recs i = Some r"
    by (metis insert_subset list.simps(15) map_of_eq_None_iff not_None_eq)
  let ?recs1 = "AList.update i (asked now_ns r) recs"
  obtain feas1 rej1 recs1 where l: "filter_loop q now_ns order ids ?recs1 = ((feas1, rej1), recs1)" by (metis surj_pair)
  have other: "map_of ?recs1 j = map_of recs j" if "j \<in> set ids" for j
    using that Cons.prems(2) by (auto simp: map_of_update)
  have keys: "map fst ?recs1 = map fst recs" using map_of_SomeD [OF r] by (force simp: update_keys)
  have "set ids \<subseteq> fst ` set ?recs1" using Cons.prems(3) keys by (metis insert_subset list.simps(15) list.set_map)
  moreover have "distinct ids" using Cons.prems(2) by simp
  ultimately have IH: "feas1 = filter (\<lambda>i. feasible_for q now_ns order (the (map_of ?recs1 i))) ids
    \<and> rej1 = map (\<lambda>i. fst (check_record (the (map_of ?recs1 i)) q now_ns order)) (filter (\<lambda>i. \<not> feasible_for q now_ns order (the (map_of ?recs1 i))) ids)
    \<and> (\<forall>i. map_of recs1 i = (if i \<in> set ids then map_option (asked now_ns) (map_of ?recs1 i) else map_of ?recs1 i))
    \<and> map fst recs1 = map fst ?recs1"
    using Cons.IH [OF l] by blast
  let ?F = "\<lambda>i. feasible_for q now_ns order (the (map_of recs i))"
    and ?G = "\<lambda>i. fst (check_record (the (map_of recs i)) q now_ns order)"
  have "feas1 = filter (\<lambda>i. feasible_for q now_ns order (the (map_of ?recs1 i))) ids" using IH by blast
  also have "\<dots> = filter ?F ids" using other by (intro filter_cong) simp_all
  finally have feas1: "feas1 = filter ?F ids" .
  have "rej1 = map (\<lambda>i. fst (check_record (the (map_of ?recs1 i)) q now_ns order)) (filter (\<lambda>i. \<not> feasible_for q now_ns order (the (map_of ?recs1 i))) ids)"
    using IH by blast
  also have "filter (\<lambda>i. \<not> feasible_for q now_ns order (the (map_of ?recs1 i))) ids = filter (\<lambda>i. \<not> ?F i) ids"
    using other by (intro filter_cong) simp_all
  also have "map (\<lambda>i. fst (check_record (the (map_of ?recs1 i)) q now_ns order)) (filter (\<lambda>i. \<not> ?F i) ids) = map ?G (filter (\<lambda>i. \<not> ?F i) ids)"
    using other by (intro map_cong) simp_all
  finally have rej1: "rej1 = map ?G (filter (\<lambda>i. \<not> ?F i) ids)" .
  have out: "recs' = recs1" "feas = (if ?F i then i # feas1 else feas1)" "rej = (if ?F i then rej1 else ?G i # rej1)"
    using Cons.prems(1) r l by (auto simp: Let_def case_prod_beta feasible_for_def split: if_splits)
  have "map_of recs1 j = (if j \<in> set (i # ids) then map_option (asked now_ns) (map_of recs j) else map_of recs j)" for j
    using IH other r Cons.prems(2) by (auto simp: map_of_update)
  then show ?case using out feas1 rej1 IH keys by simp
qed auto

section \<open>The registry\<close>

definition registry_wf :: "registry \<Rightarrow> bool" where
  "registry_wf g \<longleftrightarrow> distinct (map fst (rg_records g)) \<and> (\<forall>(iid, r) \<in> set (rg_records g). br_instance_id r = iid)"

text \<open>What happens to a registry: registrations, generation updates, routing, and owners that change a
  registered object (its readiness, telemetry, breaker) without renaming it.\<close>

inductive registry_step :: "registry \<Rightarrow> registry \<Rightarrow> bool" where
  Register: "registry_step g (snd (register r g))"
| Replace: "registry_step g (snd (replace_generation rs n g))"
| Route: "registry_step g (snd (route fsum q spec now_ns v g))"
| Mutate: "map_of (rg_records g) iid = Some r \<Longrightarrow> br_instance_id r' = iid
    \<Longrightarrow> registry_step g (g\<lparr>rg_records := AList.update iid r' (rg_records g)\<rparr>)"

lemma update_wf:
  assumes "distinct (map fst recs)" "\<forall>(iid, r) \<in> set recs. br_instance_id r = iid" "br_instance_id r' = iid"
  shows "distinct (map fst (AList.update iid r' recs)) \<and> (\<forall>(iid, r) \<in> set (AList.update iid r' recs). br_instance_id r = iid)"
proof -
  have d: "distinct (map fst (AList.update iid r' recs))" using assms(1) by (rule distinct_update)
  have "br_instance_id r = j" if "(j, r) \<in> set (AList.update iid r' recs)" for j r
    using map_of_is_SomeI [OF d that] assms by (auto simp: map_of_update split: if_splits dest: map_of_SomeD)
  with d show ?thesis by blast
qed

lemma update_fresh: "k \<notin> fst ` set xs \<Longrightarrow> AList.update k v xs = xs @ [(k, v)]"
  by (induction xs) auto

lemma collect_generation_spec:
  "collect_generation n rs seen = Inr out \<Longrightarrow> distinct (map fst seen)
   \<Longrightarrow> out = seen @ map (\<lambda>r. (br_instance_id r, r)) rs \<and> distinct (map fst out) \<and> (\<forall>r \<in> set rs. br_config_generation r \<in> {n, 0})"
proof (induction rs arbitrary: seen)
  case (Cons r rs)
  then have new: "br_instance_id r \<notin> fst ` set seen" "br_config_generation r \<in> {n, 0}"
    by (auto simp: map_of_eq_None_iff split: if_splits)
  then have "collect_generation n rs (seen @ [(br_instance_id r, r)]) = Inr out"
    using Cons.prems(1) by (simp add: update_fresh split: if_splits)
  moreover have "distinct (map fst (seen @ [(br_instance_id r, r)]))" using Cons.prems(2) new(1) by simp
  ultimately have IH: "out = (seen @ [(br_instance_id r, r)]) @ map (\<lambda>r. (br_instance_id r, r)) rs \<and> distinct (map fst out)
      \<and> (\<forall>r \<in> set rs. br_config_generation r \<in> {n, 0})"
    by (rule Cons.IH)
  then have "out = seen @ map (\<lambda>r. (br_instance_id r, r)) (r # rs)" by (simp only: append.assoc append.simps list.map)
  moreover have "\<forall>x \<in> set (r # rs). br_config_generation x \<in> {n, 0}" using IH new(2) by simp
  ultimately show ?case using IH by blast
qed simp

lemma filter_loop_all:
  assumes "registry_wf g" "filter_loop q now_ns order (snapshot_ids (registry_snapshot g)) (rg_records g) = ((feas, rej), recs')"
  shows "feas = filter (\<lambda>i. feasible_for q now_ns order (the (map_of (rg_records g) i))) (sort (map fst (rg_records g)))"
    "rej = map (\<lambda>i. fst (check_record (the (map_of (rg_records g) i)) q now_ns order))
       (filter (\<lambda>i. \<not> feasible_for q now_ns order (the (map_of (rg_records g) i))) (sort (map fst (rg_records g))))"
    "map_of recs' i = map_option (asked now_ns) (map_of (rg_records g) i)" "map fst recs' = map fst (rg_records g)"
proof -
  have "distinct (snapshot_ids (registry_snapshot g))" "set (snapshot_ids (registry_snapshot g)) \<subseteq> fst ` set (rg_records g)"
    using assms(1) by (simp_all add: snapshot_ids_def registry_snapshot_def registry_wf_def)
  note s = filter_loop_spec [OF assms(2) this]
  show "feas = filter (\<lambda>i. feasible_for q now_ns order (the (map_of (rg_records g) i))) (sort (map fst (rg_records g)))"
    "rej = map (\<lambda>i. fst (check_record (the (map_of (rg_records g) i)) q now_ns order))
       (filter (\<lambda>i. \<not> feasible_for q now_ns order (the (map_of (rg_records g) i))) (sort (map fst (rg_records g))))"
    "map fst recs' = map fst (rg_records g)"
    using s by (simp_all add: snapshot_ids_def registry_snapshot_def)
  show "map_of recs' i = map_option (asked now_ns) (map_of (rg_records g) i)"
  proof (cases "i \<in> fst ` set (rg_records g)")
    case True
    then show ?thesis using s by (simp add: snapshot_ids_def registry_snapshot_def)
  next
    case False
    then have "map_of (rg_records g) i = None" by (simp add: map_of_eq_None_iff)
    then show ?thesis using s False by (simp add: snapshot_ids_def registry_snapshot_def)
  qed
qed

lemma filtered_wf:
  assumes "registry_wf g" "map fst recs' = map fst (rg_records g)" "\<And>i. map_of recs' i = map_option (asked now_ns) (map_of (rg_records g) i)"
  shows "registry_wf (g\<lparr>rg_records := recs'\<rparr>)"
proof -
  have d: "distinct (map fst recs')" using assms(1,2) by (simp add: registry_wf_def)
  have "br_instance_id r = i" if "(i, r) \<in> set recs'" for i r
    using map_of_is_SomeI [OF d that] assms(1,3) by (auto simp: registry_wf_def dest: map_of_SomeD)
  with d show ?thesis by (auto simp: registry_wf_def)
qed

text \<open>What routing leaves behind: the records with their breakers asked.\<close>

lemma route_registry:
  "snd (route fsum q spec now_ns v g) = g\<lparr>rg_records := snd (filter_loop q now_ns HARD_FILTER_ORDER (snapshot_ids (registry_snapshot g)) (rg_records g))\<rparr>"
  by (simp add: route_def hard_filter_def registry_snapshot_def Let_def case_prod_beta split: list.split sum.split)

lemma route_wf: "registry_wf g \<Longrightarrow> registry_wf (snd (route fsum q spec now_ns v g))"
proof -
  assume wf: "registry_wf g"
  obtain feas rej recs' where l: "filter_loop q now_ns HARD_FILTER_ORDER (snapshot_ids (registry_snapshot g)) (rg_records g) = ((feas, rej), recs')"
    by (metis surj_pair)
  show ?thesis unfolding route_registry l snd_conv using filtered_wf [OF wf filter_loop_all(4,3) [OF wf l]] .
qed

lemma register_Inl: "register r g = (Inl e, g') \<Longrightarrow> g' = g"
  by (simp add: register_def Let_def split: if_splits)

lemma replace_Inl: "replace_generation rs n g = (Inl e, g') \<Longrightarrow> g' = g"
  by (simp add: replace_generation_def Let_def split: if_splits sum.splits)

lemma register_Inr:
  assumes "register r g = (Inr s, g')"
  shows "s = g'" "rg_generation g' = rg_generation g + 1" "br_instance_id r \<notin> fst ` set (rg_records g)"
    "\<exists>r'. br_instance_id r' = br_instance_id r \<and> rg_records g' = rg_records g @ [(br_instance_id r, r')]"
proof -
  have "map_of (rg_records g) (br_instance_id r) = None" using assms by (simp add: register_def split: if_splits)
  then show new: "br_instance_id r \<notin> fst ` set (rg_records g)" by (simp add: map_of_eq_None_iff)
  show "s = g'" "rg_generation g' = rg_generation g + 1"
    "\<exists>r'. br_instance_id r' = br_instance_id r \<and> rg_records g' = rg_records g @ [(br_instance_id r, r')]"
    using assms new by (auto simp: register_def Let_def registry_snapshot_def update_fresh split: if_splits)
qed

lemma replace_Inr:
  assumes "replace_generation rs n g = (Inr s, g')"
  shows "s = g'" "rg_generation g < rg_generation g'" "rg_records g' = map (\<lambda>r. (br_instance_id r, r)) rs"
    "distinct (map br_instance_id rs)" "\<forall>r \<in> set rs. br_config_generation r \<in> {n, 0}" "rg_generation g' = n"
proof -
  have n: "rg_generation g < n" using assms by (simp add: replace_generation_def split: if_splits)
  have eq: "replace_generation rs n g = (case collect_generation n rs [] of Inl e \<Rightarrow> (Inl e, g)
      | Inr seen \<Rightarrow> (Inr \<lparr>rg_generation = n, rg_records = seen\<rparr>, \<lparr>rg_generation = n, rg_records = seen\<rparr>))"
    using n by (simp add: replace_generation_def registry_snapshot_def Let_def split: sum.split)
  obtain seen where c: "collect_generation n rs [] = Inr seen" using assms unfolding eq by (cases "collect_generation n rs []") auto
  from assms have g: "s = \<lparr>rg_generation = n, rg_records = seen\<rparr>" "g' = \<lparr>rg_generation = n, rg_records = seen\<rparr>"
    unfolding eq c by auto
  note k = collect_generation_spec [OF c, simplified]
  show "s = g'" "rg_generation g < rg_generation g'" "rg_records g' = map (\<lambda>r. (br_instance_id r, r)) rs"
    "\<forall>r \<in> set rs. br_config_generation r \<in> {n, 0}" "rg_generation g' = n" using n k unfolding g by simp_all
  have "map fst seen = map br_instance_id rs" using k by (simp add: comp_def)
  with k show "distinct (map br_instance_id rs)" by metis
qed

lemma registry_step_wf: "registry_step g g' \<Longrightarrow> registry_wf g \<Longrightarrow> registry_wf g'"
proof (induction rule: registry_step.induct)
  case (Register g r)
  obtain x g' where x: "register r g = (x, g')" by (metis surj_pair)
  show ?case
  proof (cases x)
    case (Inl e)
    then have "g' = g" using x register_Inl by blast
    then show ?thesis using x Register by simp
  next
    case (Inr s)
    obtain r' where r': "br_instance_id r' = br_instance_id r" "rg_records g' = rg_records g @ [(br_instance_id r, r')]"
      using register_Inr(4) [OF x [unfolded Inr]] by blast
    then show ?thesis using x register_Inr(3) [OF x [unfolded Inr]] Register by (auto simp: registry_wf_def)
  qed
next
  case (Replace g rs n)
  obtain x g' where x: "replace_generation rs n g = (x, g')" by (metis surj_pair)
  show ?case
  proof (cases x)
    case (Inl e)
    then have "g' = g" using x replace_Inl by blast
    then show ?thesis using x Replace by simp
  next
    case (Inr s)
    then show ?thesis using x replace_Inr(3,4) [OF x [unfolded Inr]] by (auto simp: registry_wf_def comp_def)
  qed
next
  case (Route g fsum q spec now_ns v)
  then show ?case by (rule route_wf)
next
  case (Mutate g iid r r')
  then show ?case using update_wf [of "rg_records g" r' iid] by (simp add: registry_wf_def)
qed

lemma new_registry_wf: "registry_wf new_registry"
  by (simp add: new_registry_def registry_wf_def)

lemma reachable_registry_wf: "registry_step\<^sup>*\<^sup>* new_registry g \<Longrightarrow> registry_wf g"
  by (induction rule: rtranclp_induct) (blast intro: new_registry_wf registry_step_wf)+

text \<open>Updates of the registry are atomic in every reachable registry: ids are unique and every object is
  filed under its own id; a refused registration or update changes nothing; a registration appends
  exactly one backend under the next generation; and an update of the generation replaces all backends by
  exactly the given ones, whose generation is the new one or unspecified, under a larger number. The
  snapshot returned is the registry after the call.\<close>

theorem registry_updates_atomic:
  assumes "registry_step\<^sup>*\<^sup>* new_registry g"
  shows "distinct (map fst (rg_records g)) \<and> (\<forall>(iid, r) \<in> set (rg_records g). br_instance_id r = iid)
    \<and> (case register r g of
         (Inl e, g') \<Rightarrow> g' = g
       | (Inr s, g') \<Rightarrow> s = g' \<and> rg_generation g' = rg_generation g + 1
           \<and> map fst (rg_records g') = map fst (rg_records g) @ [br_instance_id r] \<and> take (length (rg_records g)) (rg_records g') = rg_records g)
    \<and> (case replace_generation rs n g of
         (Inl e, g') \<Rightarrow> g' = g
       | (Inr s, g') \<Rightarrow> s = g' \<and> rg_generation g < rg_generation g' \<and> map snd (rg_records g') = rs
           \<and> (\<forall>r \<in> set rs. br_config_generation r \<in> {n, 0}))"
proof -
  have wf: "registry_wf g" using assms by (rule reachable_registry_wf)
  have "case register r g of (Inl e, g') \<Rightarrow> g' = g | (Inr s, g') \<Rightarrow> s = g' \<and> rg_generation g' = rg_generation g + 1
           \<and> map fst (rg_records g') = map fst (rg_records g) @ [br_instance_id r] \<and> take (length (rg_records g)) (rg_records g') = rg_records g"
  proof (cases "register r g")
    case (Pair x g')
    show ?thesis
    proof (cases x)
      case (Inl e)
      then show ?thesis using Pair register_Inl [of r g e g'] by simp
    next
      case (Inr s)
      note k = register_Inr [OF Pair [unfolded Inr]]
      from k(4) have "map fst (rg_records g') = map fst (rg_records g) @ [br_instance_id r] \<and> take (length (rg_records g)) (rg_records g') = rg_records g"
        by force
      then show ?thesis using Pair Inr k(1,2) by simp
    qed
  qed
  moreover have "case replace_generation rs n g of (Inl e, g') \<Rightarrow> g' = g
       | (Inr s, g') \<Rightarrow> s = g' \<and> rg_generation g < rg_generation g' \<and> map snd (rg_records g') = rs
           \<and> (\<forall>r \<in> set rs. br_config_generation r \<in> {n, 0})"
  proof (cases "replace_generation rs n g")
    case (Pair x g')
    show ?thesis
    proof (cases x)
      case (Inl e)
      then show ?thesis using Pair replace_Inl [of rs n g e g'] by simp
    next
      case (Inr s)
      note k = replace_Inr [OF Pair [unfolded Inr]]
      then show ?thesis using Pair Inr by (simp add: comp_def)
    qed
  qed
  ultimately show ?thesis using wf by (simp add: registry_wf_def)
qed

lemma registry_snapshot_id [simp]: "registry_snapshot g = g"
  by (simp add: registry_snapshot_def)

lemma wf_lookup_id: "registry_wf g \<Longrightarrow> map_of (rg_records g) i = Some r \<Longrightarrow> br_instance_id r = i"
  by (auto simp: registry_wf_def dest: map_of_SomeD)

text \<open>The ids that hard filtering keeps and refuses.\<close>

definition passing :: "route_request \<Rightarrow> int \<Rightarrow> registry \<Rightarrow> string \<Rightarrow> bool" where
  "passing q now_ns g i = feasible_for q now_ns HARD_FILTER_ORDER (the (map_of (rg_records g) i))"

lemma hard_filter_spec:
  assumes "registry_wf g" "hard_filter q g now_ns HARD_FILTER_ORDER = ((feas, rej), s')"
  shows "map br_instance_id feas = filter (passing q now_ns g) (snapshot_ids g)"
    "map fo_candidate_id rej = filter (\<lambda>i. \<not> passing q now_ns g i) (snapshot_ids g)"
    "map_of (rg_records s') i = map_option (asked now_ns) (map_of (rg_records g) i)"
proof -
  obtain ids rejs recs where l: "filter_loop q now_ns HARD_FILTER_ORDER (snapshot_ids (registry_snapshot g)) (rg_records g) = ((ids, rejs), recs)"
    by (metis surj_pair)
  note s = filter_loop_all [OF assms(1) l]
  have h: "feas = map (\<lambda>i. the (map_of recs i)) ids" "rej = rejs" "rg_records s' = recs"
    using assms(2) l by (auto simp: hard_filter_def)
  have known: "\<exists>r. map_of (rg_records g) i = Some r \<and> br_instance_id r = i" if i: "i \<in> set (snapshot_ids g)" for i
  proof -
    obtain r where "map_of (rg_records g) i = Some r"
      using i by (metis list.set_map map_of_eq_None_iff not_None_eq set_sort snapshot_ids_def)
    then show ?thesis using wf_lookup_id [OF assms(1)] by blast
  qed
  have "set ids \<subseteq> set (snapshot_ids g)" using s(1) by (auto simp: snapshot_ids_def)
  then have id: "\<exists>r. map_of (rg_records g) i = Some r \<and> br_instance_id r = i" if "i \<in> set ids" for i
    using known that by blast
  have "br_instance_id (the (map_of recs i)) = i" if i: "i \<in> set ids" for i
    using id [OF i] s(3) [of i] by auto
  then have "map br_instance_id feas = ids" unfolding h(1) map_map by (intro map_idI) simp
  then show "map br_instance_id feas = filter (passing q now_ns g) (snapshot_ids g)"
    using s(1) unfolding passing_def snapshot_ids_def by blast
  show "map fo_candidate_id rej = filter (\<lambda>i. \<not> passing q now_ns g i) (snapshot_ids g)"
    unfolding h(2) s(2) passing_def snapshot_ids_def [symmetric] map_map
    using known by (intro map_idI) fastforce
  show "map_of (rg_records s') i = map_option (asked now_ns) (map_of (rg_records g) i)" using s(3) h(3) by simp
qed

section \<open>The decision\<close>

lemma sorted_head_min:
  assumes "x # xs = filter P (sort_key f ys)" "y \<in> set ys" "P y"
  shows "f x \<le> f y"
proof -
  have "sorted (map f (x # xs))" unfolding assms(1) by (intro sorted_filter) simp
  moreover have "y \<in> set (x # xs)" unfolding assms(1) using assms(2,3) by simp
  ultimately show ?thesis by auto
qed

text \<open>The outcome of routing, by cases of the filtered backends.\<close>

lemma route_cases:
  assumes "hard_filter q g now_ns HARD_FILTER_ORDER = ((feas, rej), s')" "route fsum q spec now_ns v g = (x, g')"
  obtains (none) d where "feas = []" "x = Inr d" "rd_no_feasible d" "rd_scored d = []"
      "rd_feasible_ids d = map br_instance_id feas" "rd_rejected d = rej" "rd_candidate_ids d = snapshot_ids g" "rd_selected_instance_id d = ''''"
  | (late) d where "x = Inr d" "rd_no_feasible d" "rd_scored d = score_candidates fsum spec q now_ns feas"
      "\<forall>c \<in> set (rd_scored d). sc_slo_feasible c = Some False"
      "rd_feasible_ids d = map br_instance_id feas" "rd_rejected d = rej" "rd_candidate_ids d = snapshot_ids g" "rd_selected_instance_id d = ''''"
  | (chosen) c rest where "filter (\<lambda>c. sc_slo_feasible c \<noteq> Some False) (score_candidates fsum spec q now_ns feas) = c # rest"
      "map_of (rg_records s') (sc_instance_id c) = None \<longrightarrow> (\<exists>e. x = Inl e)"
      "\<And>r. map_of (rg_records s') (sc_instance_id c) = Some r \<Longrightarrow> \<exists>d. x = Inr d \<and> \<not> rd_no_feasible d \<and> rd_scored d = c # rest
         \<and> rd_selected_instance_id d = sc_instance_id c \<and> rd_selected_model_epoch d = br_model_epoch r \<and> rd_selected_route_epoch d = br_route_epoch r
         \<and> rd_feasible_ids d = map br_instance_id feas \<and> rd_rejected d = rej \<and> rd_candidate_ids d = snapshot_ids g"
proof (cases "feas = []")
  case True
  then show ?thesis using assms by (intro none [of "projr x"]) (auto simp: route_def)
next
  case False
  show ?thesis
  proof (cases "filter (\<lambda>c. sc_slo_feasible c \<noteq> Some False) (score_candidates fsum spec q now_ns feas)")
    case Nil
    then have "\<forall>c \<in> set (score_candidates fsum spec q now_ns feas). sc_slo_feasible c = Some False" by (simp add: filter_empty_conv)
    then show ?thesis using False Nil assms by (intro late [of "projr x"]) (auto simp: route_def Let_def)
  next
    case (Cons c rest)
    show ?thesis
      by (rule chosen [OF Cons]) (use False Cons assms in \<open>auto simp: route_def Let_def snapshot_get_def\<close>)
  qed
qed

lemma scored_ids: "c \<in> set (score_candidates fsum spec q now_ns feas) \<Longrightarrow> sc_instance_id c \<in> set (map br_instance_id feas)"
  by (auto simp: score_candidates_def score_candidate_def Let_def)

definition compatible :: "route_request \<Rightarrow> int \<Rightarrow> backend_record \<Rightarrow> bool" where
  "compatible q now_ns r \<longleftrightarrow> rq_model_alias q \<in> set (br_model_aliases r)
     \<and> get_default (br_model_identity r) ''model_manifest_sha256'' '''' = get_default (rq_model_identity q) ''model_manifest_sha256'' ''''
     \<and> br_precision r = rq_precision q \<and> br_quality_class r = rq_quality_class q
     \<and> rq_prompt_tokens q + rq_reserved_output_tokens q \<le> br_max_context_tokens r
     \<and> (rq_stream q \<longrightarrow> get_default (br_features r) ''stream'' True) \<and> (rq_cancel q \<longrightarrow> get_default (br_features r) ''cancel'' True)
     \<and> (rq_logprobs q \<longrightarrow> get_default (br_features r) ''logprobs'' False)
     \<and> (rq_prefix_cache q \<longrightarrow> get_default (br_features r) ''prefix'' False)
     \<and> br_parallel_degree r \<ge> 1 \<and> routable (effective_health r) \<and> br_model_epoch r \<noteq> ''''
     \<and> (case br_breaker r of None \<Rightarrow> True | Some b \<Rightarrow> fst (fst (allow_request now_ns b)))"

lemma no_deadline_slo: "rq_deadline_ns q = None \<Longrightarrow> sc_slo_feasible (score_candidate fsum spec q now_ns feas r) = None"
  by (simp add: score_candidate_def Let_def)

lemma feasible_compatible: "feasible_for q now_ns HARD_FILTER_ORDER r \<longleftrightarrow> compatible q now_ns r"
proof -
  have "fst (ask_breaker now_ns r) = (case br_breaker r of None \<Rightarrow> True | Some b \<Rightarrow> fst (fst (allow_request now_ns b)))"
    by (simp add: ask_breaker_def case_prod_beta split: option.split)
  then show ?thesis unfolding feasible_iff compatible_def HARD_FILTER_ORDER_def by (simp add: static_check_def)
qed

lemma passing_compatible: "map_of (rg_records g) i = Some r \<Longrightarrow> passing q now_ns g i \<longleftrightarrow> compatible q now_ns r"
  by (simp add: passing_def feasible_compatible)

text \<open>C23: routing in every reachable registry answers with a decision and never raises: the candidates are
  split into feasible and rejected ids by compatibility with the request (alias, manifest, precision and
  quality, context, features, parallel degree, health, epoch, breaker). A selected backend is
  compatible, is not predicted to miss the deadline, is reported with its own model and route epoch and
  has the least (score, id) of the scored candidates, which are all feasible ones when the request has no
  deadline. Without a selection no candidate was compatible,
  or every compatible one is predicted to miss the deadline.\<close>

theorem route_selects_compatible_minimum:
  assumes "registry_step\<^sup>*\<^sup>* new_registry g"
  shows "\<exists>d. fst (route fsum q spec now_ns v g) = Inr d
    \<and> rd_candidate_ids d = sort (map fst (rg_records g))
    \<and> rd_feasible_ids d = filter (\<lambda>i. compatible q now_ns (the (map_of (rg_records g) i))) (rd_candidate_ids d)
    \<and> map fo_candidate_id (rd_rejected d) = filter (\<lambda>i. \<not> compatible q now_ns (the (map_of (rg_records g) i))) (rd_candidate_ids d)
    \<and> (if rd_no_feasible d then rd_selected_instance_id d = '''' \<and> (\<forall>c \<in> set (rd_scored d). sc_slo_feasible c = Some False)
         \<and> set (map sc_instance_id (rd_scored d)) = set (rd_feasible_ids d)
       else \<exists>r. map_of (rg_records g) (rd_selected_instance_id d) = Some r \<and> compatible q now_ns r
         \<and> rd_selected_model_epoch d = br_model_epoch r \<and> rd_selected_route_epoch d = br_route_epoch r
         \<and> (\<exists>c \<in> set (rd_scored d). sc_instance_id c = rd_selected_instance_id d
              \<and> (\<forall>c' \<in> set (rd_scored d). (sc_score c, sc_instance_id c) \<le> (sc_score c', sc_instance_id c')))
         \<and> (\<forall>c \<in> set (rd_scored d). sc_slo_feasible c \<noteq> Some False)
         \<and> (rq_deadline_ns q = None \<longrightarrow> set (map sc_instance_id (rd_scored d)) = set (rd_feasible_ids d)))"
proof -
  have wf: "registry_wf g" using assms by (rule reachable_registry_wf)
  obtain feas rej s' where h: "hard_filter q g now_ns HARD_FILTER_ORDER = ((feas, rej), s')" by (metis surj_pair)
  obtain x g' where rt: "route fsum q spec now_ns v g = (x, g')" by (metis surj_pair)
  note hs = hard_filter_spec [OF wf h]
  let ?P = "\<lambda>i. compatible q now_ns (the (map_of (rg_records g) i))"
  have P: "passing q now_ns g = ?P" by (simp add: fun_eq_iff passing_def feasible_compatible)
  have ids: "snapshot_ids g = sort (map fst (rg_records g))" by (simp add: snapshot_ids_def)
  have scored: "set (map sc_instance_id (score_candidates fsum spec q now_ns feas)) = set (map br_instance_id feas)"
    by (force simp: score_candidates_def score_candidate_def Let_def)
  from h rt show ?thesis
  proof (cases rule: route_cases)
    case (none d)
    then show ?thesis using rt hs P ids by simp
  next
    case (late d)
    then show ?thesis using rt hs P ids scored by simp
  next
    case (chosen c rest)
    have c: "c \<in> set (filter (\<lambda>c. sc_slo_feasible c \<noteq> Some False) (score_candidates fsum spec q now_ns feas))" using chosen(1) by simp
    then have "sc_instance_id c \<in> set (map br_instance_id feas)" using scored_ids by (metis filter_is_subset subsetD)
    then have pass: "sc_instance_id c \<in> set (snapshot_ids g)" "?P (sc_instance_id c)" using hs(1) P by simp_all
    then obtain r where r: "map_of (rg_records g) (sc_instance_id c) = Some r"
      by (metis ids list.set_map map_of_eq_None_iff not_None_eq set_sort)
    then have "map_of (rg_records s') (sc_instance_id c) = Some (asked now_ns r)" using hs(3) by simp
    then obtain d where d: "x = Inr d" "\<not> rd_no_feasible d" "rd_scored d = c # rest" "rd_selected_instance_id d = sc_instance_id c"
      "rd_selected_model_epoch d = br_model_epoch r" "rd_selected_route_epoch d = br_route_epoch r"
      "rd_feasible_ids d = map br_instance_id feas" "rd_rejected d = rej" "rd_candidate_ids d = snapshot_ids g"
      using chosen(3) by fastforce
    have slo: "\<forall>c' \<in> set (c # rest). sc_slo_feasible c' \<noteq> Some False" using chosen(1) [symmetric] by simp
    have all: "score_candidates fsum spec q now_ns feas = c # rest" if no: "rq_deadline_ns q = None"
    proof -
      have "\<forall>c' \<in> set (score_candidates fsum spec q now_ns feas). sc_slo_feasible c' \<noteq> Some False"
        using no_deadline_slo [OF no] by (auto simp: score_candidates_def)
      then show ?thesis using chosen(1) by (simp only: filter_True)
    qed
    note eq = chosen(1) [symmetric, unfolded score_candidates_def]
    have "(sc_score c, sc_instance_id c) \<le> (sc_score c', sc_instance_id c')" if "c' \<in> set (c # rest)" for c'
    proof (rule sorted_head_min [OF eq])
      have in': "c' \<in> set (filter (\<lambda>c. sc_slo_feasible c \<noteq> Some False) (sort_key (\<lambda>c. (sc_score c, sc_instance_id c))
          (map (score_candidate fsum spec q now_ns feas) feas)))" using that unfolding eq .
      then show "c' \<in> set (map (score_candidate fsum spec q now_ns feas) feas)" by (simp only: set_filter set_sort mem_Collect_eq)
      from in' show "sc_slo_feasible c' \<noteq> Some False" by simp
    qed
    then have min: "\<exists>c \<in> set (rd_scored d). sc_instance_id c = rd_selected_instance_id d
        \<and> (\<forall>c' \<in> set (rd_scored d). (sc_score c, sc_instance_id c) \<le> (sc_score c', sc_instance_id c'))"
      unfolding d(3,4) by (intro bexI [of _ c]) simp_all
    have "rq_deadline_ns q = None \<longrightarrow> set (map sc_instance_id (rd_scored d)) = set (rd_feasible_ids d)"
      using all scored unfolding d(3,7) by metis
    moreover have comp: "compatible q now_ns r" using pass(2) r by simp
    ultimately show ?thesis using min slo unfolding d(3)
      by (intro exI [of _ d]) (simp add: rt d r comp hs(1,2) P ids)
  qed
qed

text \<open>Two backends that serve the same model, one of them with a breaker that is half open.\<close>

definition demo_telemetry :: telemetry where
  "demo_telemetry = \<lparr>tm_monotonic_ns = 0, tm_queue_depth = 0, tm_inflight_requests = 0, tm_inflight_tokens = 0, tm_kv_bytes = 0,
     tm_cache_saved_prefill_ms = 0, tm_error_rate = 0\<rparr>"

definition demo_backend :: "string \<Rightarrow> string \<Rightarrow> telemetry option \<Rightarrow> circuit_breaker option \<Rightarrow> backend_record" where
  "demo_backend iid alias t b = \<lparr>br_instance_id = iid, br_adapter_version = '''', br_runtime_commit = '''', br_hardware = '''', br_device = '''',
     br_parallel_degree = 1, br_model_identity = [], br_precision = ''fp16'', br_quality_class = ''q'', br_model_aliases = [alias],
     br_quant_artifact_hash = '''', br_adapter_hash = '''', br_tokenizer_id = '''', br_chat_template_hash = '''', br_capability = [],
     br_features = [], br_max_context_tokens = 32768, br_model_epoch = ''e'', br_config_generation = 0, br_ready = True,
     br_healthy = True, br_health = None, br_capacity_envelope_ms = [], br_cost_units = 0, br_energy_units = 0,
     br_telemetry = t, br_breaker = b, br_route_epoch = ''r''\<rparr>"

definition demo_request :: "string \<Rightarrow> route_request" where
  "demo_request alias = \<lparr>rq_request_id = ''x'', rq_model_alias = alias, rq_model_identity = [], rq_precision = ''fp16'', rq_quality_class = ''q'',
     rq_prompt_tokens = 10, rq_reserved_output_tokens = 10, rq_stream = True, rq_cancel = True, rq_logprobs = False,
     rq_prefix_cache = False, rq_tenant = ''default'', rq_allow_alternate_precision = False, rq_allow_alternate_model = False,
     rq_deadline_ns = None\<rparr>"

definition demo_score_spec :: score_spec where
  "demo_score_spec = \<lparr>sp_features =
       [\<lparr>sf_name = ''predicted_queue_ms'', sf_unit = ''ms'', sf_normalization = ''m'', sf_weight = 1 / 2, sf_missing_policy = ''p''\<rparr>,
        \<lparr>sf_name = ''cache_saved_prefill_ms'', sf_unit = ''ms'', sf_normalization = ''m'', sf_weight = 1 / 4, sf_missing_policy = ''p''\<rparr>],
     sp_tie_break = ''stable_instance_id_order'', sp_telemetry_ttl_ms = 2000, sp_max_telemetry_age_ms = 5000,
     sp_missing_telemetry_never_zero = True, sp_score_sense = ''lower_is_better'', sp_slo_feasibility_terms = []\<rparr>"

definition demo_registry :: registry where
  "demo_registry = snd (register (demo_backend ''b'' ''m'' (Some demo_telemetry) None)
     (snd (register (demo_backend ''a'' ''m'' (Some demo_telemetry) None) new_registry)))"

lemma demo_registry_reachable: "registry_step\<^sup>*\<^sup>* new_registry demo_registry"
  unfolding demo_registry_def
proof (rule rtranclp.rtrancl_into_rtrancl)
  show "registry_step\<^sup>*\<^sup>* new_registry (snd (register (demo_backend ''a'' ''m'' (Some demo_telemetry) None) new_registry))"
    by (rule r_into_rtranclp) (rule registry_step.Register)
qed (rule registry_step.Register)

lemma route_selects_compatible_minimum_witness:
  "\<exists>d. fst (route (\<lambda>xs. foldl (\<lambda>a x. fl (a + x)) 0 xs) (demo_request ''m'') demo_score_spec 0 ''v'' demo_registry) = Inr d
     \<and> rd_selected_instance_id d = ''a'' \<and> rd_feasible_ids d = [''a'', ''b'']"
proof -
  let ?out = "fst (route (\<lambda>xs. foldl (\<lambda>a x. fl (a + x)) 0 xs) (demo_request ''m'') demo_score_spec 0 ''v'' demo_registry)"
  obtain d where d: "?out = Inr d"
    using route_selects_compatible_minimum [OF demo_registry_reachable, of "\<lambda>xs. foldl (\<lambda>a x. fl (a + x)) 0 xs" "demo_request ''m''" demo_score_spec 0 "''v''"]
    by blast
  have "case ?out of Inl _ \<Rightarrow> False | Inr d \<Rightarrow> rd_selected_instance_id d = ''a'' \<and> rd_feasible_ids d = [''a'', ''b'']" by code_simp
  then show ?thesis using d by simp
qed

lemma registry_updates_atomic_witness:
  "distinct (map fst (rg_records demo_registry)) \<and> rg_generation demo_registry = 2
   \<and> (\<exists>e. register (demo_backend ''a'' ''m2'' None None) demo_registry = (Inl e, demo_registry))"
proof -
  note t = registry_updates_atomic [OF demo_registry_reachable, of "demo_backend ''a'' ''m2'' None None" "[]" 0]
  have "rg_generation demo_registry = 2" "isl (fst (register (demo_backend ''a'' ''m2'' None None) demo_registry))" by code_simp+
  then show ?thesis using t by (cases "register (demo_backend ''a'' ''m2'' None None) demo_registry") (auto split: sum.splits)
qed

section \<open>Scores\<close>

lemma foldl_update_fresh:
  "distinct (map k xs) \<Longrightarrow> k ` set xs \<inter> fst ` set d = {} \<Longrightarrow> foldl (\<lambda>d x. AList.update (k x) (f x) d) d xs = d @ map (\<lambda>x. (k x, f x)) xs"
proof (induction xs arbitrary: d)
  case (Cons x xs)
  then have "foldl (\<lambda>d x. AList.update (k x) (f x) d) (d @ [(k x, f x)]) xs = (d @ [(k x, f x)]) @ map (\<lambda>x. (k x, f x)) xs"
    by (intro Cons.IH) auto
  then show ?case using Cons.prems by (simp add: update_fresh)
qed simp

lemma feature_dict_distinct: "distinct (map sf_name fs) \<Longrightarrow> feature_dict f fs = map (\<lambda>x. (sf_name x, f x)) fs"
  by (simp add: feature_dict_def foldl_update_fresh)

lemma fl_1 [simp]: "fl 1 = 1"
  using fl_powi [of 0] by simp

lemma normalize_known_bounds:
  assumes "v \<in> set observed"
  shows "0 \<le> normalize_feature observed (Some v)" "normalize_feature observed (Some v) \<le> 1"
proof -
  let ?lo = "Min (set observed)" and ?hi = "Max (set observed)"
  have b: "?lo \<le> v" "v \<le> ?hi" using assms by simp_all
  then have num: "0 \<le> fl (v - ?lo)" "fl (v - ?lo) \<le> fl (?hi - ?lo)" by (simp_all add: fl_nonneg fl_mono)
  then have "0 \<le> fl (v - ?lo) / fl (?hi - ?lo)" "fl (v - ?lo) / fl (?hi - ?lo) \<le> 1" by (auto simp: divide_le_eq_1)
  then have "0 \<le> fl (fl (v - ?lo) / fl (?hi - ?lo))" "fl (fl (v - ?lo) / fl (?hi - ?lo)) \<le> 1"
    using fl_mono [of "fl (v - ?lo) / fl (?hi - ?lo)" 1] by (simp_all add: fl_nonneg)
  then show "0 \<le> normalize_feature observed (Some v)" "normalize_feature observed (Some v) \<le> 1"
    by (simp_all add: normalize_feature_def)
qed

lemma normalize_mono:
  assumes "x \<le> y" "x \<in> set observed" "y \<in> set observed"
  shows "normalize_feature observed (Some x) \<le> normalize_feature observed (Some y)"
proof -
  let ?lo = "Min (set observed)" and ?hi = "Max (set observed)"
  have "?lo \<le> ?hi" using assms(2) by (meson List.finite_set Max.coboundedI Min.coboundedI order_trans)
  then have "fl (x - ?lo) / fl (?hi - ?lo) \<le> fl (y - ?lo) / fl (?hi - ?lo)"
    using assms(1) by (intro divide_right_mono) (simp_all add: fl_mono fl_nonneg)
  then show ?thesis by (simp add: normalize_feature_def fl_mono)
qed

lemma normalize_extremes:
  assumes "observed \<noteq> []" "Min (set observed) \<noteq> Max (set observed)"
  shows "normalize_feature observed (Some (Min (set observed))) = 0" "normalize_feature observed (Some (Max (set observed))) = 1"
proof -
  have "Min (set observed) \<le> Max (set observed)" using assms(1) by simp
  then have "0 < fl (Max (set observed) - Min (set observed))" using assms(2) by (intro fl_pos) simp
  then show "normalize_feature observed (Some (Min (set observed))) = 0" "normalize_feature observed (Some (Max (set observed))) = 1"
    using assms by (simp_all add: normalize_feature_def)
qed

lemma observed_iff: "v \<in> set (observed_values feas name) \<longleftrightarrow> (\<exists>r \<in> set feas. feature_value r name = Some v)"
  by (force simp: observed_values_def List.map_filter_def)

lemma normalized_lookup:
  assumes "distinct (map sf_name (sp_features spec))" "ft \<in> set (sp_features spec)"
  shows "get_default (sc_normalized (score_candidate fsum spec q now_ns feas r)) (sf_name ft) 0
    = normalize_feature (observed_values feas (sf_name ft)) (feature_value r (sf_name ft))"
proof -
  have "map_of (map (\<lambda>x. (sf_name x, f x)) (sp_features spec)) (sf_name ft) = Some (f ft)" for f :: "score_feature \<Rightarrow> rat"
    using assms by (intro map_of_is_SomeI) (auto simp: comp_def)
  then show ?thesis using assms(1) by (simp add: score_candidate_def Let_def get_default_def feature_dict_distinct)
qed

text \<open>The scale of the scores. A known value is normalized into the unit interval over the feasible
  backends, the smallest to 0 and the largest to 1 when they differ. An unknown value is listed as missing
  and becomes 5/4 of the largest observed value in the raw unit of the feature: on another scale than the known
  ones, and 0, the best rank, when nothing above 0 was observed.\<close>

theorem normalization_scale:
  assumes "distinct (map sf_name (sp_features spec))" "ft \<in> set (sp_features spec)" "r \<in> set feas"
  shows "let obs = observed_values feas (sf_name ft); c = score_candidate fsum spec q now_ns feas r;
           n = get_default (sc_normalized c) (sf_name ft) 0
    in case feature_value r (sf_name ft) of
       Some v \<Rightarrow> 0 \<le> n \<and> n \<le> 1 \<and> (v = Min (set obs) \<longrightarrow> n = 0) \<and> (v = Max (set obs) \<and> v \<noteq> Min (set obs) \<longrightarrow> n = 1)
     | None \<Rightarrow> sf_name ft \<in> set (sc_missing c) \<and> n = fl (5 / 4 * (if obs = [] then 1 else Max (set obs)))
         \<and> (obs \<noteq> [] \<and> (\<forall>v \<in> set obs. v \<le> 0) \<longrightarrow> n \<le> 0)"
proof (cases "feature_value r (sf_name ft)")
  case None
  have "sf_name ft \<in> set (sc_missing (score_candidate fsum spec q now_ns feas r))"
    using assms(2) None by (auto simp: score_candidate_def Let_def)
  moreover have "fl (5 / 4 * Max (set obs)) \<le> 0" if "obs \<noteq> []" "\<forall>v \<in> set obs. v \<le> 0" for obs :: "rat list"
    using fl_mono [of "5 / 4 * Max (set obs)" 0] that Max_in [of "set obs"] by fastforce
  moreover have "normalize_feature obs None = fl (5 / 4 * (if obs = [] then 1 else Max (set obs)))" for obs
    by (simp add: normalize_feature_def mult.commute)
  ultimately show ?thesis using None unfolding Let_def normalized_lookup [OF assms(1,2)] by (simp only: option.case if_False simp_thms) metis
next
  case (Some v)
  then have v: "v \<in> set (observed_values feas (sf_name ft))" using assms(3) observed_iff by blast
  then show ?thesis
    using Some normalize_known_bounds [OF v] normalize_extremes [of "observed_values feas (sf_name ft)"]
    by (auto simp: Let_def normalized_lookup [OF assms(1,2)] normalize_feature_def)
qed

lemma fl_sum_mono:
  "list_all2 (\<le>) xs ys \<Longrightarrow> a \<le> b \<Longrightarrow> foldl (\<lambda>a x. fl (a + x)) a xs \<le> foldl (\<lambda>a x. fl (a + x)) b ys"
  by (induction xs ys arbitrary: a b rule: list_all2_induct) (simp_all add: fl_mono add_mono)

text \<open>With nonnegative weights and a sum from left to right, a backend whose features are all known and all at most
  those of another one never scores worse than it, whatever the features mean: for \<open>cache_saved_prefill_ms\<close>,
  a saving, the lower value wins too.\<close>

theorem lower_values_never_lose:
  assumes "distinct (map sf_name (sp_features spec))" "\<forall>ft \<in> set (sp_features spec). 0 \<le> sf_weight ft" "r \<in> set feas" "r' \<in> set feas"
    "\<forall>ft \<in> set (sp_features spec). \<exists>x y. feature_value r (sf_name ft) = Some x \<and> feature_value r' (sf_name ft) = Some y \<and> x \<le> y"
  shows "sc_score (score_candidate (\<lambda>xs. foldl (\<lambda>a x. fl (a + x)) 0 xs) spec q now_ns feas r)
    \<le> sc_score (score_candidate (\<lambda>xs. foldl (\<lambda>a x. fl (a + x)) 0 xs) spec q now_ns feas r')"
proof -
  let ?n = "\<lambda>r ft. normalize_feature (observed_values feas (sf_name ft)) (feature_value r (sf_name ft))"
  have sum: "sc_score (score_candidate (\<lambda>xs. foldl (\<lambda>a x. fl (a + x)) 0 xs) spec q now_ns feas r)
      = foldl (\<lambda>a x. fl (a + x)) 0 (map (\<lambda>ft. fl (?n r ft * sf_weight ft)) (sp_features spec))" for r
  proof -
    let ?s = "score_candidate (\<lambda>xs. foldl (\<lambda>a x. fl (a + x)) 0 xs) spec q now_ns feas r"
    have "sc_score ?s = foldl (\<lambda>a x. fl (a + x)) 0 (map (\<lambda>ft. fl (get_default (sc_normalized ?s) (sf_name ft) 0 * sf_weight ft)) (sp_features spec))"
      using assms(1) by (simp add: score_candidate_def Let_def feature_dict_distinct comp_def)
    also have "map (\<lambda>ft. fl (get_default (sc_normalized ?s) (sf_name ft) 0 * sf_weight ft)) (sp_features spec)
        = map (\<lambda>ft. fl (?n r ft * sf_weight ft)) (sp_features spec)"
      using normalized_lookup [OF assms(1)] by (intro map_cong) simp_all
    finally show ?thesis .
  qed
  have "?n r ft \<le> ?n r' ft" if ft: "ft \<in> set (sp_features spec)" for ft
  proof -
    obtain x y where v: "feature_value r (sf_name ft) = Some x" "feature_value r' (sf_name ft) = Some y" "x \<le> y" using assms(5) ft by blast
    then have "x \<in> set (observed_values feas (sf_name ft))" "y \<in> set (observed_values feas (sf_name ft))"
      using assms(3,4) observed_iff by blast+
    then show ?thesis using v normalize_mono by simp
  qed
  then have "list_all2 (\<le>) (map (\<lambda>ft. fl (?n r ft * sf_weight ft)) (sp_features spec)) (map (\<lambda>ft. fl (?n r' ft * sf_weight ft)) (sp_features spec))"
    using assms(2) by (auto simp: list_all2_map1 list_all2_map2 intro!: list.rel_refl_strong fl_mono mult_right_mono)
  then show ?thesis unfolding sum by (rule fl_sum_mono) simp
qed

text \<open>Two otherwise equal backends, one of which saves 300 ms of prefill by its cache.\<close>

definition demo_saving :: "rat \<Rightarrow> string \<Rightarrow> backend_record" where
  "demo_saving ms iid = demo_backend iid ''m'' (Some (demo_telemetry\<lparr>tm_cache_saved_prefill_ms := ms\<rparr>)) None"

lemma normalization_scale_witness:
  "get_default (sc_normalized (score_candidate sum_list demo_score_spec (demo_request ''m'') 0 [demo_saving 0 ''a'', demo_backend ''b'' ''m'' None None]
     (demo_backend ''b'' ''m'' None None))) ''cache_saved_prefill_ms'' 0 \<le> 0"
proof -
  let ?feas = "[demo_saving 0 ''a'', demo_backend ''b'' ''m'' None None]"
  have o: "observed_values ?feas ''cache_saved_prefill_ms'' = [0]" "feature_value (demo_backend ''b'' ''m'' None None) ''cache_saved_prefill_ms'' = None"
    by code_simp+
  have "distinct (map sf_name (sp_features demo_score_spec))" by code_simp
  moreover have "sp_features demo_score_spec ! 1 \<in> set (sp_features demo_score_spec)" "sf_name (sp_features demo_score_spec ! 1) = ''cache_saved_prefill_ms''"
    by (simp_all add: demo_score_spec_def)
  ultimately show ?thesis
    using normalization_scale [of demo_score_spec "sp_features demo_score_spec ! 1" "demo_backend ''b'' ''m'' None None" ?feas sum_list "demo_request ''m''" 0]
    by (simp add: Let_def o)
qed

lemma lower_values_never_lose_witness:
  "sc_score (score_candidate (\<lambda>xs. foldl (\<lambda>a x. fl (a + x)) 0 xs) demo_score_spec (demo_request ''m'') 0 [demo_saving 0 ''b'', demo_saving 300 ''a''] (demo_saving 0 ''b''))
   \<le> sc_score (score_candidate (\<lambda>xs. foldl (\<lambda>a x. fl (a + x)) 0 xs) demo_score_spec (demo_request ''m'') 0 [demo_saving 0 ''b'', demo_saving 300 ''a''] (demo_saving 300 ''a''))"
  by (rule lower_values_never_lose) (auto simp: demo_score_spec_def demo_saving_def demo_backend_def demo_telemetry_def feature_value_def)

section \<open>Probes\<close>

text \<open>Routing a sequence of requests, each at its time.\<close>

definition route_all :: "(rat list \<Rightarrow> rat) \<Rightarrow> score_spec \<Rightarrow> string \<Rightarrow> (route_request \<times> int) list \<Rightarrow> registry \<Rightarrow> registry" where
  "route_all fsum spec v qs g = foldl (\<lambda>g (q, now_ns). snd (route fsum q spec now_ns v g)) g qs"

lemma route_record:
  assumes "registry_wf g"
  shows "map_of (rg_records (snd (route fsum q spec now_ns v g))) i = map_option (asked now_ns) (map_of (rg_records g) i)"
proof -
  obtain feas rej recs where l: "filter_loop q now_ns HARD_FILTER_ORDER (snapshot_ids (registry_snapshot g)) (rg_records g) = ((feas, rej), recs)"
    by (metis surj_pair)
  show ?thesis unfolding route_registry l by (simp add: filter_loop_all(3) [OF assms l])
qed

lemma route_all_record:
  "registry_wf g \<Longrightarrow> map_of (rg_records (route_all fsum spec v qs g)) i = map_option (\<lambda>r. foldl (\<lambda>r (q, t). asked t r) r qs) (map_of (rg_records g) i)"
proof (induction qs arbitrary: g)
  case (Cons a qs)
  then show ?case using Cons.IH [OF route_wf [OF Cons.prems]]
    by (cases a) (simp add: route_all_def route_record option.map_comp comp_def)
qed (simp add: route_all_def option.map_ident)

text \<open>A half-open breaker with at most \<open>n\<close> probes left.\<close>

definition probes_left :: "nat \<Rightarrow> backend_record \<Rightarrow> bool" where
  "probes_left n r \<longleftrightarrow> (\<exists>b. br_breaker r = Some b \<and> cb_state b = HALF_OPEN \<and> \<not> cb_quarantined b
     \<and> half_open_probe_concurrency (cb_spec b) \<le> cb_half_open_probes b + int n)"

lemma probes_left_asked: "probes_left n r \<Longrightarrow> probes_left (n - 1) (asked t r)"
  by (cases n) (auto simp: probes_left_def asked_eq allow_request_def)

lemma probes_left_all: "probes_left n r \<Longrightarrow> probes_left (n - length qs) (foldl (\<lambda>r (q, t). asked t r) r qs)"
proof (induction qs arbitrary: n r)
  case (Cons a qs)
  then show ?case using Cons.IH [OF probes_left_asked [OF Cons.prems]] by (cases a) simp
qed simp

lemma no_probes_refused: "probes_left 0 r \<Longrightarrow> \<not> compatible q t r"
  by (auto simp: probes_left_def compatible_def allow_request_def)

text \<open>C24: requests that a half-open backend cannot serve use up its probes. Every routing asks the breaker of every
  registered backend, so after as many requests for a model the backend does not serve as it has probes left,
  none of which it is compatible with, the breaker is full without one request sent: the backend is still half open
  and refused for every request at every time, and stays so however many requests are routed.\<close>

theorem incompatible_requests_use_up_probes:
  assumes "registry_step\<^sup>*\<^sup>* new_registry g" "map_of (rg_records g) i = Some r" "br_breaker r = Some b"
    "cb_state b = HALF_OPEN" "\<not> cb_quarantined b"
    "half_open_probe_concurrency (cb_spec b) - cb_half_open_probes b \<le> int (length qs)"
    "\<forall>(q, t) \<in> set qs. rq_model_alias q \<notin> set (br_model_aliases r)"
  shows "(\<forall>(q, t) \<in> set qs. \<not> compatible q t r)
    \<and> (\<exists>r' b'. map_of (rg_records (route_all fsum spec v (qs @ later) g)) i = Some r' \<and> br_breaker r' = Some b' \<and> cb_state b' = HALF_OPEN
         \<and> (\<forall>q t. \<not> compatible q t r'))"
proof -
  have wf: "registry_wf g" using assms(1) by (rule reachable_registry_wf)
  have "probes_left (length qs) r" using assms(3-6) by (auto simp: probes_left_def)
  then have "probes_left 0 (foldl (\<lambda>r (q, t). asked t r) r (qs @ later))" using probes_left_all by (metis diff_is_0_eq length_append le_add1)
  moreover from this have "\<not> compatible q t (foldl (\<lambda>r (q, t). asked t r) r (qs @ later))" for q t by (rule no_probes_refused)
  moreover have "map_of (rg_records (route_all fsum spec v (qs @ later) g)) i = Some (foldl (\<lambda>r (q, t). asked t r) r (qs @ later))"
    using route_all_record [OF wf] assms(2) by simp
  moreover have "\<forall>(q, t) \<in> set qs. \<not> compatible q t r" using assms(7) by (auto simp: compatible_def)
  ultimately show ?thesis unfolding probes_left_def by blast
qed

definition demo_half_open :: circuit_breaker where
  "demo_half_open = (new_breaker \<lparr>window_samples = 20, min_samples = 10, failure_rate_threshold = 1 / 2, consecutive_failure_threshold = 5,
      open_duration_ms = 1000, max_open_duration_ms = 60000, half_open_probes_required = 2, half_open_probe_concurrency = 1,
      telemetry_freshness_ms = 2000\<rparr> ''a'')\<lparr>cb_state := HALF_OPEN\<rparr>"

definition half_open_registry :: registry where
  "half_open_registry = snd (register (demo_backend ''a'' ''m'' (Some demo_telemetry) (Some demo_half_open)) new_registry)"

lemma incompatible_requests_use_up_probes_witness:
  "compatible (demo_request ''m'') 0 (demo_backend ''a'' ''m'' (Some demo_telemetry) (Some demo_half_open))
   \<and> (\<exists>r'. map_of (rg_records (route_all sum_list demo_score_spec ''v'' ([(demo_request ''other'', 0)] @ []) half_open_registry)) ''a'' = Some r'
        \<and> \<not> compatible (demo_request ''m'') 1 r')"
proof -
  let ?r = "demo_backend ''a'' ''m'' (Some demo_telemetry) (Some demo_half_open)"
  have "registry_step\<^sup>*\<^sup>* new_registry half_open_registry" unfolding half_open_registry_def by (rule r_into_rtranclp) (rule registry_step.Register)
  moreover have "map_of (rg_records half_open_registry) ''a'' = Some ?r"
    by (simp add: half_open_registry_def register_def new_registry_def demo_backend_def Let_def)
  moreover have "half_open_probe_concurrency (cb_spec demo_half_open) - cb_half_open_probes demo_half_open \<le> int (length [(demo_request ''other'', 0 :: int)])"
    "cb_state demo_half_open = HALF_OPEN" "\<not> cb_quarantined demo_half_open" by (simp_all add: demo_half_open_def new_breaker_def)
  moreover have "br_breaker ?r = Some demo_half_open" "\<forall>(q, t) \<in> set [(demo_request ''other'', 0 :: int)]. rq_model_alias q \<notin> set (br_model_aliases ?r)"
    by (simp_all add: demo_backend_def demo_request_def)
  ultimately have "\<exists>r' b'. map_of (rg_records (route_all sum_list demo_score_spec ''v'' ([(demo_request ''other'', 0)] @ []) half_open_registry)) ''a'' = Some r'
      \<and> br_breaker r' = Some b' \<and> cb_state b' = HALF_OPEN \<and> (\<forall>q t. \<not> compatible q t r')"
    using incompatible_requests_use_up_probes [of half_open_registry "''a''" ?r demo_half_open "[(demo_request ''other'', 0)]"] by blast
  moreover have "compatible (demo_request ''m'') 0 ?r" by code_simp
  ultimately show ?thesis by blast
qed

end
