(* ===== verification/Utf8.thy ===== *)
theory Utf8
  imports Prelude Errors "HOL-Library.Word"
begin

text \<open>
  Text and bytes as Python has them: a string is a list of code points, \<open>str.encode("utf-8")\<close> refuses
  surrogates, and \<open>bytes.decode("utf-8", errors="replace")\<close> is total: every maximal ill-formed prefix
  becomes one U+FFFD. Also the string operations the stream codec uses.
\<close>

type_synonym octets = "8 word list"
type_synonym utext = "nat list"

text \<open>A literal of ASCII characters.\<close>

definition ascii :: "string \<Rightarrow> utext" where
  "ascii s = map of_char s"

section \<open>Encoding\<close>

definition encodable :: "nat \<Rightarrow> bool" where
  "encodable c \<longleftrightarrow> c < 0x110000 \<and> \<not> (0xD800 \<le> c \<and> c < 0xE000)"

definition utf8_char :: "nat \<Rightarrow> octets" where
  "utf8_char c =
     (if c < 0x80 then [of_nat c]
      else if c < 0x800 then [of_nat (0xC0 + c div 64), of_nat (0x80 + c mod 64)]
      else if c < 0x10000 then [of_nat (0xE0 + c div 4096), of_nat (0x80 + c div 64 mod 64), of_nat (0x80 + c mod 64)]
      else [of_nat (0xF0 + c div 262144), of_nat (0x80 + c div 4096 mod 64), of_nat (0x80 + c div 64 mod 64), of_nat (0x80 + c mod 64)])"

definition utf8_bytes :: "utext \<Rightarrow> octets" where
  "utf8_bytes s = concat (map utf8_char s)"

definition utf8_encode :: "utext \<Rightarrow> octets res" where
  "utf8_encode s = (if list_all encodable s then Inr (utf8_bytes s) else Inl (ValueError ''surrogates not allowed''))"

section \<open>Decoding\<close>

text \<open>The continuation bytes of a character; the first one may be restricted.\<close>

fun continuation :: "nat \<Rightarrow> nat \<Rightarrow> nat \<Rightarrow> nat \<Rightarrow> octets \<Rightarrow> nat \<times> octets" where
  "continuation 0 lo hi acc bs = (acc, bs)"
| "continuation (Suc n) lo hi acc [] = (0xFFFD, [])"
| "continuation (Suc n) lo hi acc (b # bs) =
     (if lo \<le> unat b \<and> unat b \<le> hi then continuation n 0x80 0xBF (acc * 64 + unat b mod 64) bs else (0xFFFD, b # bs))"

definition utf8_first :: "nat \<Rightarrow> octets \<Rightarrow> nat \<times> octets" where
  "utf8_first b bs =
     (if b < 0x80 then (b, bs)
      else if 0xC2 \<le> b \<and> b \<le> 0xDF then continuation 1 0x80 0xBF (b - 0xC0) bs
      else if 0xE0 \<le> b \<and> b \<le> 0xEF then
        continuation 2 (if b = 0xE0 then 0xA0 else 0x80) (if b = 0xED then 0x9F else 0xBF) (b - 0xE0) bs
      else if 0xF0 \<le> b \<and> b \<le> 0xF4 then
        continuation 3 (if b = 0xF0 then 0x90 else 0x80) (if b = 0xF4 then 0x8F else 0xBF) (b - 0xF0) bs
      else (0xFFFD, bs))"

lemma continuation_length: "length (snd (continuation n lo hi acc bs)) \<le> length bs"
  by (induction n lo hi acc bs rule: continuation.induct) auto

lemma utf8_first_length: "length (snd (utf8_first b bs)) \<le> length bs"
  by (simp add: utf8_first_def continuation_length)

function utf8_decode :: "octets \<Rightarrow> utext" where
  "utf8_decode [] = []"
| "utf8_decode (b # bs) = (case utf8_first (unat b) bs of (c, rest) \<Rightarrow> c # utf8_decode rest)"
  by pat_completeness auto
termination
proof (relation "measure length", goal_cases)
  case (2 b bs c rest)
  have "length rest \<le> length bs" using utf8_first_length [of "unat b" bs] by (simp flip: 2)
  then show ?case by simp
qed simp

lemma unat_octet: "x < 256 \<Longrightarrow> unat (of_nat x :: 8 word) = x"
  by (simp add: unat_of_nat take_bit_nat_eq_self)

lemma mod_64_add: "(128 + x) mod 64 = x mod (64 :: nat)"
  using mod_mult_self2 [of x 64 2] by (simp add: add.commute)

lemma continuation_octet:
  assumes "d < 64" "lo \<le> 128 + d" "128 + d \<le> hi"
  shows "continuation (Suc n) lo hi acc (of_nat (128 + d) # bs) = continuation n 128 191 (acc * 64 + d) bs"
  using assms by (simp only: continuation.simps unat_octet mod_64_add mod_less) simp

lemma base_64: "\<exists>d < 64. \<exists>a. c = a * 64 + (d :: nat) \<and> c div 64 = a \<and> c mod 64 = d"
  by (metis div_mult_mod_eq mod_less_divisor zero_less_numeral)

lemma utf8_first_char:
  assumes "encodable c" "utf8_char c = b # bs"
  shows "utf8_first (unat b) (bs @ rest) = (c, rest)"
proof -
  obtain d a where d: "d < 64" "c = a * 64 + d" "c div 64 = a" "c mod 64 = d" using base_64 [of c] by blast
  obtain e a' where e: "e < 64" "a = a' * 64 + e" "a div 64 = a'" "a mod 64 = e" using base_64 [of a] by blast
  obtain f a'' where f: "f < 64" "a' = a'' * 64 + f" "a' div 64 = a''" "a' mod 64 = f" using base_64 [of a'] by blast
  have q: "c div 4096 = a'" "c div 262144 = a''" using d(3) e(3) f(3) by (simp_all flip: div_mult2_eq)
  consider "c < 0x80" | "0x80 \<le> c" "c < 0x800" | "0x800 \<le> c" "c < 0x10000" | "0x10000 \<le> c" by linarith
  then show ?thesis
  proof cases
    case 1
    then show ?thesis using assms by (auto simp: utf8_char_def utf8_first_def unat_octet)
  next
    case 2
    then have a: "2 \<le> a" "a < 32" using d by linarith+
    have "unat b = 0xC0 + a" "bs = [of_nat (128 + d)]" using assms(2) 2 a d by (auto simp: utf8_char_def unat_octet simp del: of_nat_add)
    then show ?thesis using a d by (simp add: utf8_first_def continuation_octet One_nat_def del: of_nat_add continuation.simps(3))
  next
    case 3
    then have a: "a' < 16" using d e by linarith
    have r: "a' = 0 \<Longrightarrow> 32 \<le> e" "a' = 13 \<Longrightarrow> e < 32" using 3 d e assms(1) by (auto simp: encodable_def)
    have "unat b = 0xE0 + a'" "bs = [of_nat (128 + e), of_nat (128 + d)]" using assms(2) 3 a d e q by (auto simp: utf8_char_def unat_octet simp del: of_nat_add)
    then show ?thesis using a d(1,2) e(1,2) r
      by (auto simp: utf8_first_def continuation_octet numeral_2_eq_2 simp del: of_nat_add continuation.simps(3))
  next
    case 4
    then have a: "a'' < 5" using d e f assms(1) by (auto simp: encodable_def)
    have r: "a'' = 0 \<Longrightarrow> 16 \<le> f" "a'' = 4 \<Longrightarrow> f < 16" using 4 d e f assms(1) by (auto simp: encodable_def)
    have "unat b = 0xF0 + a''" "bs = [of_nat (128 + f), of_nat (128 + e), of_nat (128 + d)]"
      using assms(2) 4 a d e f q by (auto simp: utf8_char_def unat_octet simp del: of_nat_add)
    then show ?thesis using a d(1,2) e(1,2) f(1,2) r
      by (auto simp: utf8_first_def continuation_octet numeral_3_eq_3 simp del: of_nat_add continuation.simps(3))
  qed
qed

lemma utf8_char_decode: "encodable c \<Longrightarrow> utf8_decode (utf8_char c @ bs) = c # utf8_decode bs"
  by (cases "utf8_char c") (auto simp: utf8_first_char, auto simp: utf8_char_def split: if_splits)

lemma utf8_roundtrip: "list_all encodable s \<Longrightarrow> utf8_decode (utf8_bytes s) = s"
  by (induction s) (simp_all add: utf8_bytes_def utf8_char_decode)

lemma utf8_bytes_append [simp]: "utf8_bytes (s @ t) = utf8_bytes s @ utf8_bytes t"
  by (simp add: utf8_bytes_def)

lemma octet_neq: "x < 256 \<Longrightarrow> y < 256 \<Longrightarrow> x \<noteq> y \<Longrightarrow> (of_nat x :: 8 word) \<noteq> of_nat y"
  by (metis unat_octet)

text \<open>Every byte of a multi-byte character is at least 0x80, so ASCII bytes stand for themselves.\<close>

lemma utf8_char_octets:
  assumes "encodable c" "b \<in> set (utf8_char c)" "c \<ge> 0x80"
  shows "unat b \<ge> 0x80"
proof -
  have c: "c < 0x110000" using assms(1) by (simp add: encodable_def)
  have "c div 64 < 0x20" if "c < 0x800" using that by simp
  moreover have "c div 4096 < 0x10" if "c < 0x10000" using that by simp
  moreover have "c div 262144 < 5" using c by simp
  moreover have "x mod 64 < 64" for x :: nat by simp
  ultimately show ?thesis using assms(2,3)
    by (auto simp: utf8_char_def unat_octet trans_less_add1 simp del: of_nat_add split: if_splits)
qed

lemma newline_octet: "encodable c \<Longrightarrow> 10 \<in> set (utf8_char c) \<longleftrightarrow> c = 10"
  using utf8_char_octets [of c 10] octet_neq [of c 10] by (cases "c < 0x80") (auto simp: utf8_char_def)

lemma newline_octets: "list_all encodable s \<Longrightarrow> 10 \<in> set (utf8_bytes s) \<longleftrightarrow> 10 \<in> set s"
  by (induction s) (auto simp: utf8_bytes_def newline_octet)

lemma ascii_encodable [simp]: "list_all encodable (ascii s)"
proof -
  have "encodable (of_char c)" for c :: char unfolding encodable_def using nat_of_char_less_256 [of c] by linarith
  then show ?thesis by (simp add: ascii_def list_all_iff)
qed

lemma ascii_append: "ascii (s @ t) = ascii s @ ascii t"
  by (simp add: ascii_def)

end
