(* ===== verification/Sse.thy ===== *)
theory Sse
  imports Complex_Main Utf8 "HOL-Library.Sublist"
begin

text \<open>
  \<open>hqsb/serving/sse.py\<close>: the writer of server-sent events, the incremental reader, the framing oracle,
  the reconstruction of an answer from its frames and the self-checks of the parser. The JSON codec, the
  value of \<open>int\<close> on a string and \<open>str\<close> of a value that is no string are arguments, in one record.
\<close>

section \<open>JSON values\<close>

datatype json =
    JNull | JBool bool | JInt int | JFloat rat | JInf bool | JNaN
  | JStr utext | JList "json list" | JObj "(utext \<times> json) list"

type_synonym jobject = "(utext \<times> json) list"

datatype loads_result = Loaded json | Decode_error utext | Loads_raises exc

record json_lib =
  jl_loads :: "utext \<Rightarrow> loads_result"
  jl_dumps :: "json \<Rightarrow> utext"
  jl_int :: "utext \<Rightarrow> int option"
  jl_str :: "json \<Rightarrow> utext"

fun truthy :: "json \<Rightarrow> bool" where
  "truthy JNull = False"
| "truthy (JBool b) = b"
| "truthy (JInt n) = (n \<noteq> 0)"
| "truthy (JFloat x) = (x \<noteq> 0)"
| "truthy (JInf _) = True"
| "truthy JNaN = True"
| "truthy (JStr s) = (s \<noteq> [])"
| "truthy (JList xs) = (xs \<noteq> [])"
| "truthy (JObj m) = (m \<noteq> [])"

text \<open>\<open>value.get(key)\<close>, where the value need not be a dictionary, and iteration over a value.\<close>

fun jget :: "json \<Rightarrow> string \<Rightarrow> json res" where
  "jget (JObj m) key = Inr (case map_of m (ascii key) of None \<Rightarrow> JNull | Some v \<Rightarrow> v)"
| "jget _ key = Inl AttributeError"

fun jiter :: "json \<Rightarrow> json list res" where
  "jiter (JList xs) = Inr xs"
| "jiter (JStr s) = Inr (map (\<lambda>c. JStr [c]) s)"
| "jiter (JObj m) = Inr (map (JStr \<circ> fst) m)"
| "jiter _ = Inl (TypeError ''not iterable'')"

fun jint :: "json_lib \<Rightarrow> json \<Rightarrow> int res" where
  "jint L (JInt n) = Inr n"
| "jint L (JBool b) = Inr (of_bool b)"
| "jint L (JFloat x) = Inr (if x < 0 then \<lceil>x\<rceil> else \<lfloor>x\<rfloor>)"
| "jint L (JStr s) = (case jl_int L s of None \<Rightarrow> Inl (ValueError ''int'') | Some n \<Rightarrow> Inr n)"
| "jint L (JInf _) = Inl OverflowError"
| "jint L JNaN = Inl (ValueError ''int'')"
| "jint L _ = Inl (TypeError ''int'')"

definition jstr :: "json_lib \<Rightarrow> json \<Rightarrow> utext" where
  "jstr L v = (case v of JStr s \<Rightarrow> s | _ \<Rightarrow> jl_str L v)"

text \<open>\<open>==\<close>: numbers of all types compare by value, dictionaries as maps.\<close>

fun jnum :: "json \<Rightarrow> rat option" where
  "jnum (JInt n) = Some (of_int n)"
| "jnum (JBool b) = Some (of_bool b)"
| "jnum (JFloat x) = Some x"
| "jnum _ = None"

function json_eq :: "json \<Rightarrow> json \<Rightarrow> bool" where
  "json_eq JNull w = (w = JNull)"
| "json_eq (JInf s) w = (w = JInf s)"
| "json_eq JNaN w = False"
| "json_eq (JStr s) w = (w = JStr s)"
| "json_eq (JList xs) w = (case w of JList ys \<Rightarrow> length xs = length ys \<and> list_all (\<lambda>(x, y). json_eq x y) (zip xs ys) | _ \<Rightarrow> False)"
| "json_eq (JObj m) w = (case w of
     JObj m' \<Rightarrow> set (map fst m) = set (map fst m')
       \<and> list_all (\<lambda>(k, v). case map_of m' k of None \<Rightarrow> False | Some v' \<Rightarrow> json_eq v v') m
   | _ \<Rightarrow> False)"
| "json_eq (JInt n) w = (jnum w = Some (of_int n))"
| "json_eq (JBool b) w = (jnum w = Some (of_bool b))"
| "json_eq (JFloat x) w = (jnum w = Some x)"
  by pat_completeness auto
termination
proof (relation "measure (size \<circ> fst)", goal_cases)
  case (2 xs w ys z x y)
  then have "x \<in> set xs" by (auto dest: set_zip_leftD)
  then show ?case using size_list_estimation' [of x xs "size x" size] by simp
next
  case (3 m w m' kv k v v')
  then have "size v < size_list (size_prod (\<lambda>x. 0) size) m" by (intro size_list_estimation [of kv]) auto
  then show ?case by simp
qed simp

section \<open>Frames\<close>

definition DEFAULT_TERMINAL_MARKER :: utext where
  "DEFAULT_TERMINAL_MARKER = ascii ''[DONE]''"

datatype parse_problem = Not_an_object | Invalid_json utext

record sse_frame =
  ev_index :: int
  ev_raw :: octets
  ev_data :: utext
  ev_terminal :: bool
  ev_heartbeat :: bool
  ev_payload :: "jobject option"
  ev_parse_error :: "parse_problem option"

text \<open>\<open>payload.get("choices") or []\<close>, iterated.\<close>

definition payload_choices :: "jobject \<Rightarrow> json list res" where
  "payload_choices m = (case map_of m (ascii ''choices'') of
     None \<Rightarrow> Inr [] | Some v \<Rightarrow> if truthy v then jiter v else Inr [])"

definition segment_tokens :: "json_lib \<Rightarrow> json \<Rightarrow> string \<Rightarrow> int list res" where
  "segment_tokens L choice key = bindE (jget choice key) (\<lambda>segment. case segment of
     JObj m \<Rightarrow> (case map_of m (ascii ''token_ids'') of
        None \<Rightarrow> Inr []
      | Some v \<Rightarrow> bindE (jiter v) (\<lambda>items. all_res (map (jint L) items)))
   | _ \<Rightarrow> Inr [])"

definition token_ids :: "json_lib \<Rightarrow> sse_frame \<Rightarrow> int list res" where
  "token_ids L f = (case ev_payload f of
     None \<Rightarrow> Inr []
   | Some m \<Rightarrow> if ev_terminal f then Inr []
       else bindE (payload_choices m) (\<lambda>choices.
         bindE (all_res (map (\<lambda>choice. bindE (segment_tokens L choice ''delta'') (\<lambda>d.
                  bindE (segment_tokens L choice ''text'') (\<lambda>t. Inr (d @ t)))) choices)) (Inr \<circ> concat)))"

definition choice_text :: "json \<Rightarrow> utext res" where
  "choice_text choice = bindE (jget choice ''delta'') (\<lambda>delta.
     case delta of
       JObj m \<Rightarrow> (case map_of m (ascii ''content'') of
          Some (JStr s) \<Rightarrow> Inr s
        | _ \<Rightarrow> bindE (jget choice ''text'') (\<lambda>t. Inr (case t of JStr s \<Rightarrow> s | _ \<Rightarrow> [])))
     | _ \<Rightarrow> bindE (jget choice ''text'') (\<lambda>t. Inr (case t of JStr s \<Rightarrow> s | _ \<Rightarrow> [])))"

definition frame_text :: "sse_frame \<Rightarrow> utext res" where
  "frame_text f = (case ev_payload f of
     None \<Rightarrow> Inr []
   | Some m \<Rightarrow> if ev_terminal f then Inr []
       else bindE (payload_choices m) (\<lambda>choices. bindE (all_res (map choice_text choices)) (Inr \<circ> concat)))"

fun first_reason :: "json_lib \<Rightarrow> json list \<Rightarrow> utext res" where
  "first_reason L [] = Inr []"
| "first_reason L (choice # choices) = bindE (jget choice ''finish_reason'') (\<lambda>reason.
     if truthy reason then Inr (jstr L reason) else first_reason L choices)"

definition finish_reason :: "json_lib \<Rightarrow> sse_frame \<Rightarrow> utext res" where
  "finish_reason L f = (case ev_payload f of
     None \<Rightarrow> Inr [] | Some m \<Rightarrow> bindE (payload_choices m) (first_reason L))"

definition usage :: "sse_frame \<Rightarrow> jobject option" where
  "usage f = (case ev_payload f of
     None \<Rightarrow> None
   | Some m \<Rightarrow> (case map_of m (ascii ''usage'') of Some (JObj u) \<Rightarrow> Some u | _ \<Rightarrow> None))"

section \<open>The writer\<close>

definition newlines :: utext where
  "newlines = [10, 10]"

definition encode_data_frame :: "json_lib \<Rightarrow> utext \<Rightarrow> jobject \<Rightarrow> octets res" where
  "encode_data_frame L data_prefix payload = utf8_encode (data_prefix @ jl_dumps L (JObj payload) @ newlines)"

definition encode_terminal :: "utext \<Rightarrow> utext \<Rightarrow> octets res" where
  "encode_terminal data_prefix marker = utf8_encode (data_prefix @ marker @ newlines)"

definition encode_heartbeat :: "utext \<Rightarrow> octets res" where
  "encode_heartbeat comment = utf8_encode (ascii '': '' @ comment @ newlines)"

definition encode_usage_frame :: "json_lib \<Rightarrow> utext \<Rightarrow> utext \<Rightarrow> utext \<Rightarrow> jobject \<Rightarrow> octets res" where
  "encode_usage_frame L data_prefix model frame_id u = encode_data_frame L data_prefix
     [(ascii ''id'', JStr frame_id), (ascii ''object'', JStr (ascii ''chat.completion.chunk'')), (ascii ''model'', JStr model),
      (ascii ''choices'', JList []), (ascii ''usage'', JObj u)]"

section \<open>The reader\<close>

datatype stream_error = Unknown_field utext | Truncated_frame octets

record reassembler =
  ra_buffer :: octets
  ra_index :: int
  ra_data_prefix :: utext
  ra_terminal_marker :: utext
  ra_frames :: "sse_frame list"
  ra_errors :: "stream_error list"

definition new_reassembler :: "utext \<Rightarrow> utext \<Rightarrow> reassembler" where
  "new_reassembler data_prefix marker = \<lparr>ra_buffer = [], ra_index = 0, ra_data_prefix = data_prefix,
     ra_terminal_marker = marker, ra_frames = [], ra_errors = []\<rparr>"

text \<open>\<open>text.split("\n")\<close>, \<open>"\n".join\<close> and \<open>strip\<close>, on text and on bytes.\<close>

fun split_lines :: "utext \<Rightarrow> utext list" where
  "split_lines [] = [[]]"
| "split_lines (c # s) = (if c = 10 then [] # split_lines s else (case split_lines s of [] \<Rightarrow> [[c]] | l # ls \<Rightarrow> (c # l) # ls))"

fun join_lines :: "utext list \<Rightarrow> utext" where
  "join_lines [] = []"
| "join_lines [l] = l"
| "join_lines (l # ls) = l @ 10 # join_lines ls"

definition text_space :: "nat \<Rightarrow> bool" where
  "text_space c \<longleftrightarrow> 9 \<le> c \<and> c \<le> 13 \<or> 28 \<le> c \<and> c \<le> 32
     \<or> c \<in> {0x85, 0xA0, 0x1680, 0x2028, 0x2029, 0x202F, 0x205F, 0x3000} \<or> 0x2000 \<le> c \<and> c \<le> 0x200A"

definition text_strip :: "utext \<Rightarrow> utext" where
  "text_strip s = rev (dropWhile text_space (rev (dropWhile text_space s)))"

text \<open>\<open>not raw.strip()\<close>\<close>

definition blank_octets :: "octets \<Rightarrow> bool" where
  "blank_octets raw = list_all (\<lambda>b. 9 \<le> unat b \<and> unat b \<le> 13 \<or> unat b = 32) raw"

text \<open>One line of an event: the data lines, the comment flag and the errors so far.\<close>

definition parse_line :: "utext \<Rightarrow> utext list \<times> bool \<times> stream_error list \<Rightarrow> utext list \<times> bool \<times> stream_error list" where
  "parse_line line st = (case st of (data_lines, comment, errors) \<Rightarrow>
     if line = [] then (data_lines, comment, errors)
     else if prefix (ascii '':'') line then (data_lines, True, errors)
     else if prefix (ascii ''data:'') line then
       let value = drop 5 line
       in (data_lines @ [if prefix (ascii '' '') value then drop 1 value else value], comment, errors)
     else if prefix (ascii ''event:'') line \<or> prefix (ascii ''id:'') line \<or> prefix (ascii ''retry:'') line
       then (data_lines, comment, errors)
     else (data_lines, comment, errors @ [Unknown_field (take 16 line)]))"

definition decode_payload :: "json_lib \<Rightarrow> utext \<Rightarrow> (jobject option \<times> parse_problem option) res" where
  "decode_payload L data = (case jl_loads L data of
     Loaded (JObj m) \<Rightarrow> Inr (Some m, None)
   | Loaded _ \<Rightarrow> Inr (None, Some Not_an_object)
   | Decode_error msg \<Rightarrow> Inr (None, Some (Invalid_json msg))
   | Loads_raises e \<Rightarrow> Inl e)"

definition parse_event :: "json_lib \<Rightarrow> octets \<Rightarrow> (reassembler, sse_frame) op" where
  "parse_event L raw r =
     (let (data_lines, comment, errors) = fold parse_line (split_lines (utf8_decode raw)) ([], False, ra_errors r);
          data = join_lines data_lines;
          terminal = (text_strip data = ra_terminal_marker r);
          r1 = r\<lparr>ra_errors := errors\<rparr>
      in case (if data \<noteq> [] \<and> \<not> terminal then decode_payload L data else Inr (None, None)) of
           Inl e \<Rightarrow> (Inl e, r1)
         | Inr (payload, problem) \<Rightarrow>
             (Inr \<lparr>ev_index = ra_index r, ev_raw = raw, ev_data = data, ev_terminal = terminal,
                ev_heartbeat = (comment \<and> data_lines = []), ev_payload = payload, ev_parse_error = problem\<rparr>,
              r1\<lparr>ra_index := ra_index r + 1\<rparr>))"

lemma parse_event_buffer [simp]: "ra_buffer (snd (parse_event L raw r)) = ra_buffer r"
  by (simp add: parse_event_def Let_def case_prod_beta split: sum.split)

lemma parse_event_snd: "(x, r') = parse_event L raw r \<Longrightarrow> ra_buffer r' = ra_buffer r"
  by (metis parse_event_buffer snd_conv)

text \<open>\<open>buffer.find(b"\n\n")\<close>\<close>

fun find_sep :: "octets \<Rightarrow> nat option" where
  "find_sep (a # b # bs) = (if a = 10 \<and> b = 10 then Some 0 else map_option Suc (find_sep (b # bs)))"
| "find_sep _ = None"

lemma find_sep_length: "find_sep bs = Some i \<Longrightarrow> i + 2 \<le> length bs"
  by (induction bs arbitrary: i rule: find_sep.induct) (auto split: if_splits)

text \<open>The loop of \<open>feed\<close>; the frames produced so far are an argument.\<close>

function feed_loop :: "json_lib \<Rightarrow> sse_frame list \<Rightarrow> (reassembler, sse_frame list) op" where
  "feed_loop L produced r = (case find_sep (ra_buffer r) of
     None \<Rightarrow> (Inr produced, r)
   | Some i \<Rightarrow>
       let raw = take i (ra_buffer r); r1 = r\<lparr>ra_buffer := drop (i + 2) (ra_buffer r)\<rparr>
       in if blank_octets raw then feed_loop L produced r1
          else (case parse_event L raw r1 of
             (Inl e, r2) \<Rightarrow> (Inl e, r2)
           | (Inr f, r2) \<Rightarrow> feed_loop L (produced @ [f]) (r2\<lparr>ra_frames := ra_frames r2 @ [f]\<rparr>)))"
  by pat_completeness auto
termination
  by (relation "measure (\<lambda>(L, produced, r). length (ra_buffer r))")
    (auto dest: find_sep_length dest!: parse_event_snd)

declare feed_loop.simps [simp del]

definition feed :: "json_lib \<Rightarrow> octets \<Rightarrow> (reassembler, sse_frame list) op" where
  "feed L chunk r = feed_loop L [] (r\<lparr>ra_buffer := ra_buffer r @ chunk\<rparr>)"

record stream_summary =
  ss_frames :: nat
  ss_errors :: "stream_error list"
  ss_trailing_bytes :: nat
  ss_complete :: bool

definition finish :: "reassembler \<Rightarrow> stream_summary \<times> reassembler" where
  "finish r =
     (let trailing = ra_buffer r;
          errors = ra_errors r @ (if blank_octets trailing then [] else [Truncated_frame (take 32 trailing)])
      in (\<lparr>ss_frames = length (ra_frames r), ss_errors = errors, ss_trailing_bytes = length trailing, ss_complete = (errors = [])\<rparr>,
          r\<lparr>ra_errors := errors, ra_buffer := []\<rparr>))"

text \<open>The report of a whole stream carries the frames as well.\<close>

definition parse_stream :: "json_lib \<Rightarrow> utext \<Rightarrow> utext \<Rightarrow> octets \<Rightarrow> (stream_summary \<times> sse_frame list) res" where
  "parse_stream L data_prefix marker raw =
     (case feed L raw (new_reassembler data_prefix marker) of
        (Inl e, _) \<Rightarrow> Inl e
      | (Inr _, r) \<Rightarrow> (case finish r of (summary, r') \<Rightarrow> Inr (summary, ra_frames r')))"

section \<open>The framing oracle\<close>

datatype stream_problem =
    Terminal_count nat | Terminal_not_last | Unexpected_terminal | Terminal_with_payload
  | Not_monotonic int int | Frame_problem int parse_problem | Terminal_and_heartbeat int | Empty_frame int
  | Wrong_marker utext | No_payload int | Missing_key int string

record stream_report =
  sr_problems :: "stream_problem list"
  sr_frames :: nat
  sr_normal_frames :: nat
  sr_heartbeats :: int

definition frame_problems :: "int \<Rightarrow> sse_frame \<Rightarrow> stream_problem list" where
  "frame_problems expected f =
     (if ev_index f \<noteq> expected then [Not_monotonic expected (ev_index f)] else [])
     @ (case ev_parse_error f of None \<Rightarrow> [] | Some p \<Rightarrow> [Frame_problem (ev_index f) p])
     @ (if ev_terminal f \<and> ev_heartbeat f then [Terminal_and_heartbeat (ev_index f)] else [])
     @ (if ev_raw f \<noteq> [] \<and> blank_octets (ev_raw f) then [Empty_frame (ev_index f)] else [])"

fun sequence_problems :: "int \<Rightarrow> sse_frame list \<Rightarrow> stream_problem list" where
  "sequence_problems expected [] = []"
| "sequence_problems expected (f # fs) = frame_problems expected f @ sequence_problems (ev_index f + 1) fs"

definition key_problems :: "sse_frame \<Rightarrow> stream_problem list" where
  "key_problems f = (case ev_payload f of
     None \<Rightarrow> [No_payload (ev_index f)]
   | Some m \<Rightarrow> map (Missing_key (ev_index f))
       (filter (\<lambda>name. map_of m (ascii name) = None) [''id'', ''object'', ''model'', ''choices'']))"

text \<open>Frames are distinct objects, so the last frame is the only terminal one iff it is terminal itself.\<close>

definition validate_stream :: "utext \<Rightarrow> bool \<Rightarrow> sse_frame list \<Rightarrow> stream_report" where
  "validate_stream terminal_marker expect_terminal frames =
     (let normal = filter (\<lambda>f. \<not> ev_terminal f \<and> \<not> ev_heartbeat f) frames;
          terminals = filter ev_terminal frames
      in \<lparr>sr_problems =
            (if expect_terminal then
               if length terminals \<noteq> 1 then [Terminal_count (length terminals)]
               else if frames \<noteq> [] \<and> \<not> ev_terminal (last frames) then [Terminal_not_last] else []
             else if terminals \<noteq> [] then [Unexpected_terminal] else [])
            @ concat (map (\<lambda>f. if ev_terminal f \<and> ev_parse_error f \<noteq> None then [Terminal_with_payload] else []) frames)
            @ sequence_problems 0 frames
            @ (if terminal_marker \<noteq> DEFAULT_TERMINAL_MARKER
               then concat (map (\<lambda>f. if text_strip (ev_data f) \<noteq> terminal_marker then [Wrong_marker (ev_data f)] else []) terminals)
               else [])
            @ concat (map key_problems normal),
          sr_frames = length frames, sr_normal_frames = length normal,
          sr_heartbeats = int (length frames) - int (length normal) - int (length terminals)\<rparr>)"

section \<open>Reconstruction\<close>

record rebuilt =
  rb_text :: utext
  rb_token_ids :: "int list"
  rb_finish_reason :: utext
  rb_usage :: "jobject option"

definition rebuild_frame :: "json_lib \<Rightarrow> sse_frame \<Rightarrow> rebuilt \<Rightarrow> rebuilt res" where
  "rebuild_frame L f b =
     (if ev_heartbeat f \<or> ev_terminal f then Inr b
      else bindE (frame_text f) (\<lambda>txt. bindE (token_ids L f) (\<lambda>tokens. bindE (finish_reason L f) (\<lambda>reason.
        Inr \<lparr>rb_text = rb_text b @ txt, rb_token_ids = rb_token_ids b @ tokens,
             rb_finish_reason = (if reason = [] then rb_finish_reason b else reason),
             rb_usage = (case usage f of Some (kv # m) \<Rightarrow> Some (kv # m) | _ \<Rightarrow> rb_usage b)\<rparr>))))"

definition reconstruct :: "json_lib \<Rightarrow> sse_frame list \<Rightarrow> rebuilt res" where
  "reconstruct L frames = forE (rebuild_frame L) frames \<lparr>rb_text = [], rb_token_ids = [], rb_finish_reason = [], rb_usage = None\<rparr>"

datatype pair_problem = Text_differs | Tokens_differ | Finish_reason_differs | Usage_differs string

text \<open>\<open>(body.get("choices") or [{}])[0]\<close>\<close>

definition first_choice :: "jobject \<Rightarrow> json res" where
  "first_choice body = (case map_of body (ascii ''choices'') of
     None \<Rightarrow> Inr (JObj [])
   | Some v \<Rightarrow> if \<not> truthy v then Inr (JObj [])
       else (case v of JList xs \<Rightarrow> Inr (hd xs) | JStr s \<Rightarrow> Inr (JStr [hd s]) | JObj m \<Rightarrow> Inl KeyError | _ \<Rightarrow> Inl (TypeError ''not subscriptable'')))"

definition final_text :: "json \<Rightarrow> json res" where
  "final_text choice = bindE (jget choice ''text'') (\<lambda>txt.
     if txt \<noteq> JNull then Inr txt
     else bindE (jget choice ''message'') (\<lambda>message.
       case (if truthy message then message else JObj []) of
         JObj m \<Rightarrow> Inr (case map_of m (ascii ''content'') of None \<Rightarrow> JStr [] | Some v \<Rightarrow> v)
       | _ \<Rightarrow> Inl AttributeError))"

definition tokens_equal :: "json list \<Rightarrow> int list \<Rightarrow> bool" where
  "tokens_equal items tokens \<longleftrightarrow> length items = length tokens \<and> list_all (\<lambda>(v, n). json_eq v (JInt n)) (zip items tokens)"

text \<open>The usage of the body need not be a dictionary; it is asked only for a count the stream has.\<close>

definition usage_problem :: "jobject \<Rightarrow> json \<Rightarrow> string \<Rightarrow> pair_problem list res" where
  "usage_problem streamed body_usage name = (case map_of streamed (ascii name) of
     None \<Rightarrow> Inr []
   | Some v \<Rightarrow> if v = JNull then Inr []
       else bindE (jget body_usage name) (\<lambda>w. Inr (if json_eq v w then [] else [Usage_differs name])))"

definition stream_vs_nonstream :: "json_lib \<Rightarrow> sse_frame list \<Rightarrow> jobject \<Rightarrow> (pair_problem list \<times> rebuilt \<times> json) res" where
  "stream_vs_nonstream L frames body =
     bindE (reconstruct L frames) (\<lambda>b.
     bindE (first_choice body) (\<lambda>choice.
     bindE (final_text choice) (\<lambda>txt.
     bindE (jget choice ''token_ids'') (\<lambda>final_tokens.
     bindE (if final_tokens = JNull then Inr True else bindE (jiter final_tokens) (\<lambda>items. Inr (tokens_equal items (rb_token_ids b)))) (\<lambda>tokens_ok.
     bindE (jget choice ''finish_reason'') (\<lambda>reason.
     let u = (case map_of body (ascii ''usage'') of None \<Rightarrow> JNull | Some v \<Rightarrow> v) in
     bindE (case rb_usage b of
              None \<Rightarrow> Inr []
            | Some streamed \<Rightarrow> if truthy u then bindE (all_res (map (usage_problem streamed u)
                 [''prompt_tokens'', ''completion_tokens'', ''total_tokens''])) (Inr \<circ> concat) else Inr []) (\<lambda>usage_problems.
       Inr ((if txt = JStr (rb_text b) then [] else [Text_differs])
            @ (if tokens_ok then [] else [Tokens_differ])
            @ (if reason = JStr (rb_finish_reason b) then [] else [Finish_reason_differs])
            @ usage_problems, b, txt))))))))"

definition require_no_silent_drop :: "json_lib \<Rightarrow> sse_frame list \<Rightarrow> int \<Rightarrow> unit res" where
  "require_no_silent_drop L frames expected_tokens =
     bindE (all_res (map (token_ids L) frames)) (\<lambda>tokens.
       if int (sum_list (map length tokens)) \<noteq> expected_tokens then Inl (ConfigError ''silently dropped tokens'') else Inr ())"

section \<open>Self-checks of the parser\<close>

definition data_field :: utext where
  "data_field = ascii ''data: ''"

definition default_reassembler :: reassembler where
  "default_reassembler = new_reassembler data_field DEFAULT_TERMINAL_MARKER"

definition default_parse :: "json_lib \<Rightarrow> octets \<Rightarrow> (stream_summary \<times> sse_frame list) res" where
  "default_parse L raw = parse_stream L data_field DEFAULT_TERMINAL_MARKER raw"

text \<open>Feeding several reads in a row; an exception leaves the rest unread.\<close>

fun feed_all :: "json_lib \<Rightarrow> octets list \<Rightarrow> (reassembler, sse_frame list) op" where
  "feed_all L [] r = (Inr [], r)"
| "feed_all L (chunk # chunks) r = (case feed L chunk r of
     (Inl e, r1) \<Rightarrow> (Inl e, r1)
   | (Inr fs, r1) \<Rightarrow> (case feed_all L chunks r1 of
       (Inl e, r2) \<Rightarrow> (Inl e, r2) | (Inr gs, r2) \<Rightarrow> (Inr (fs @ gs), r2)))"

definition parse_chunks :: "json_lib \<Rightarrow> octets list \<Rightarrow> (stream_summary \<times> sse_frame list) res" where
  "parse_chunks L chunks = (case feed_all L chunks default_reassembler of
     (Inl e, _) \<Rightarrow> Inl e | (Inr _, r) \<Rightarrow> (case finish r of (summary, r') \<Rightarrow> Inr (summary, ra_frames r')))"

definition fragmentation_cases :: "json_lib \<Rightarrow> octets \<Rightarrow> nat list \<Rightarrow> (nat \<times> stream_summary \<times> sse_frame list) list res" where
  "fragmentation_cases L raw splits =
     all_res (map (\<lambda>split. bindE (parse_chunks L [take split raw, drop split raw]) (\<lambda>(summary, frames). Inr (split, summary, frames)))
       (filter (\<lambda>split. 0 < split \<and> split < length raw) splits))"

text \<open>\<open>raw.replace(b"\n\n", b"\n\n\n\n", 1)\<close>\<close>

definition double_first_blank :: "octets \<Rightarrow> octets" where
  "double_first_blank raw = (case find_sep raw of None \<Rightarrow> raw | Some i \<Rightarrow> take i raw @ [10, 10, 10, 10] @ drop (i + 2) raw)"

record oracle_report =
  or_baseline_frames :: nat
  or_baseline_ok :: bool
  or_fragmented_all_ok :: bool
  or_fragmented_counts :: "nat list"
  or_sticky_detected :: bool
  or_truncated_reported :: bool
  or_unknown_field_reported :: bool
  or_doubled_blank_tolerated :: bool

definition parser_oracle_cases :: "json_lib \<Rightarrow> octets \<Rightarrow> oracle_report res" where
  "parser_oracle_cases L raw =
     bindE (default_parse L raw) (\<lambda>(full, parsed).
     bindE (fragmentation_cases L raw [1, 3, 7]) (\<lambda>fragmented.
     bindE (default_parse L (raw @ raw)) (\<lambda>(sticky, _).
     bindE (default_parse L (if length raw > 2 then take (length raw - 2) raw else [])) (\<lambda>(truncated, _).
     bindE (default_parse L (utf8_bytes (ascii ''event: message'' @ [10] @ ascii ''foo: bar'' @ newlines) @ raw)) (\<lambda>(invalid_prefix, _).
     bindE (default_parse L (double_first_blank raw)) (\<lambda>(doubled, _).
       Inr \<lparr>or_baseline_frames = length parsed, or_baseline_ok = ss_complete full,
            or_fragmented_all_ok = list_all (\<lambda>(_, summary, _). ss_complete summary) fragmented,
            or_fragmented_counts = map (\<lambda>(_, _, frames). length frames) fragmented,
            or_sticky_detected = ss_frames sticky > length parsed,
            or_truncated_reported = (\<not> ss_complete truncated),
            or_unknown_field_reported = (ss_errors invalid_prefix \<noteq> []),
            or_doubled_blank_tolerated = ss_complete doubled\<rparr>))))))"

text \<open>\<open>frame.find(prefix)\<close> for at most one byte; -1 when it does not occur.\<close>

definition find_octet :: "octets \<Rightarrow> octets \<Rightarrow> int" where
  "find_octet frame needle = (case needle of
     [] \<Rightarrow> 0
   | b # _ \<Rightarrow> let n = length (takeWhile (\<lambda>c. c \<noteq> b) frame) in if n < length frame then int n else - 1)"

definition boundary_payload :: "utext \<Rightarrow> jobject" where
  "boundary_payload txt =
     [(ascii ''id'', JStr (ascii ''cmpl-1'')), (ascii ''object'', JStr (ascii ''chat.completion.chunk'')),
      (ascii ''model'', JStr (ascii ''m'')),
      (ascii ''choices'', JList [JObj [(ascii ''index'', JInt 0), (ascii ''delta'', JObj [(ascii ''content'', JStr txt)]),
        (ascii ''finish_reason'', JNull)]])]"

record boundary_case =
  bc_text :: utext
  bc_complete :: bool
  bc_reconstructed :: utext
  bc_ok :: bool

definition boundary_result :: "json_lib \<Rightarrow> utext \<Rightarrow> boundary_case res" where
  "boundary_result L txt =
     bindE (encode_data_frame L data_field (boundary_payload txt)) (\<lambda>frame.
     bindE (utf8_encode txt) (\<lambda>bytes.
     let cut = nat (find_octet frame (take 1 bytes) + 1) in
     bindE (parse_chunks L [take cut frame, drop cut frame]) (\<lambda>(summary, frames).
     bindE (reconstruct L frames) (\<lambda>b.
       Inr \<lparr>bc_text = txt, bc_complete = ss_complete summary, bc_reconstructed = rb_text b,
            bc_ok = (ss_complete summary \<and> rb_text b = txt)\<rparr>))))"

definition utf8_boundary_cases :: "json_lib \<Rightarrow> utext list \<Rightarrow> boundary_case list res" where
  "utf8_boundary_cases L payload_texts = all_res (map (boundary_result L) payload_texts)"

definition frames_from_payloads :: "json_lib \<Rightarrow> jobject list \<Rightarrow> sse_frame list res" where
  "frames_from_payloads L payloads =
     bindE (all_res (map (encode_data_frame L data_field) payloads)) (\<lambda>encoded.
     bindE (encode_terminal data_field DEFAULT_TERMINAL_MARKER) (\<lambda>terminal.
     bindE (default_parse L (concat encoded @ terminal)) (\<lambda>(_, frames). Inr frames)))"

end
