(* ===== verification/Sse_Props.thy ===== *)
theory Sse_Props
  imports Sse
begin

text \<open>
  Correctness of the stream codec: how a captured stream is cut into reads does not matter, the reader
  conserves the bytes, a written stream is read back, and the checks of the oracle and of the
  parser's self-verification on the streams the writer produces.
\<close>

section \<open>Scanners that work on a buffer\<close>

text \<open>A scanner takes complete events off the front of a buffer. The law says that what it leaves can be
  continued: more input changes neither the events found nor the rest they leave.\<close>

definition scan_chunks :: "('b list \<Rightarrow> 'e list \<times> 'b list) \<Rightarrow> 'b list \<Rightarrow> 'b list list \<Rightarrow> 'e list \<times> 'b list" where
  "scan_chunks scan buffer chunks =
     foldl (\<lambda>(events, buffer) chunk. case scan (buffer @ chunk) of (new, rest) \<Rightarrow> (events @ new, rest)) ([], buffer) chunks"

locale chunk_scanner =
  fixes scan :: "'b list \<Rightarrow> 'e list \<times> 'b list"
  assumes scan_append: "scan (xs @ ys) = (case scan xs of (es, rest) \<Rightarrow> case scan (rest @ ys) of (fs, rest') \<Rightarrow> (es @ fs, rest'))"
begin

lemma scan_rest: "scan xs = (es, rest) \<Longrightarrow> scan rest = ([], rest)"
  using scan_append [of xs "[]"] by (cases "scan rest") simp

lemma scan_foldl:
  "scan buffer = ([], buffer) \<Longrightarrow>
   foldl (\<lambda>(events, buffer) chunk. case scan (buffer @ chunk) of (new, rest) \<Rightarrow> (events @ new, rest)) (acc, buffer) chunks
   = (case scan (buffer @ concat chunks) of (es, rest) \<Rightarrow> (acc @ es, rest))"
proof (induction chunks arbitrary: acc buffer)
  case (Cons chunk chunks)
  obtain es rest where s: "scan (buffer @ chunk) = (es, rest)" by (cases "scan (buffer @ chunk)")
  obtain fs rest' where t: "scan (rest @ concat chunks) = (fs, rest')" by (cases "scan (rest @ concat chunks)")
  have "scan (buffer @ concat (chunk # chunks)) = (es @ fs, rest')"
    using scan_append [of "buffer @ chunk" "concat chunks"] s t by simp
  then show ?case using Cons.IH [OF scan_rest [OF s], of "acc @ es"] s t by simp
qed simp

lemma scan_chunks_concat: "scan buffer = ([], buffer) \<Longrightarrow> scan_chunks scan buffer chunks = scan (buffer @ concat chunks)"
  unfolding scan_chunks_def by (simp add: scan_foldl split: prod.split)

end

section \<open>Events of a byte stream\<close>

function split_events :: "octets \<Rightarrow> octets list \<times> octets" where
  "split_events bs = (case find_sep bs of
     None \<Rightarrow> ([], bs)
   | Some i \<Rightarrow> (case split_events (drop (i + 2) bs) of (es, rest) \<Rightarrow> (take i bs # es, rest)))"
  by pat_completeness auto
termination
  by (relation "measure length") (auto dest: find_sep_length)

declare split_events.simps [simp del]

lemma find_sep_append: "find_sep xs = Some i \<Longrightarrow> find_sep (xs @ ys) = Some i"
  by (induction xs arbitrary: i rule: find_sep.induct) (auto split: if_splits)

lemma find_sep_plain: "10 \<notin> set xs \<Longrightarrow> find_sep (xs @ 10 # 10 # ys) = Some (length xs)"
proof (induction xs)
  case (Cons a xs)
  then show ?case by (cases xs) auto
qed simp

lemma find_sep_none: "10 \<notin> set xs \<Longrightarrow> find_sep xs = None"
  by (induction xs rule: find_sep.induct) auto

lemma split_events_append:
  "split_events (xs @ ys) = (case split_events xs of (es, rest) \<Rightarrow> case split_events (rest @ ys) of (fs, rest') \<Rightarrow> (es @ fs, rest'))"
proof (induction xs rule: split_events.induct)
  case (1 xs)
  show ?case
  proof (cases "find_sep xs")
    case None
    then show ?thesis by (simp add: split_events.simps [of xs])
  next
    case (Some i)
    then have "drop (i + 2) (xs @ ys) = drop (i + 2) xs @ ys" "take i (xs @ ys) = take i xs" using find_sep_length [OF Some] by auto
    then have "split_events (xs @ ys) = (case split_events (drop (i + 2) xs @ ys) of (es, rest) \<Rightarrow> (take i xs # es, rest))"
      using find_sep_append [OF Some, of ys] by (simp only: split_events.simps [of "xs @ ys"] option.case)
    also have "\<dots> = (case split_events xs of (es, rest) \<Rightarrow> case split_events (rest @ ys) of (fs, rest') \<Rightarrow> (es @ fs, rest'))"
      unfolding 1 [OF Some] using Some by (simp add: split_events.simps [of xs] case_prod_beta)
    finally show ?thesis .
  qed
qed

interpretation events: chunk_scanner split_events
  by unfold_locales (rule split_events_append)

lemma split_events_Nil [simp]: "split_events [] = ([], [])"
  by (simp add: split_events.simps)

lemma find_sep_split: "find_sep bs = Some i \<Longrightarrow> bs = take i bs @ [10, 10] @ drop (i + 2) bs"
  by (induction bs arbitrary: i rule: find_sep.induct) (auto split: if_splits)

lemma split_events_join: "split_events bs = (es, rest) \<Longrightarrow> bs = concat (map (\<lambda>e. e @ [10, 10]) es) @ rest \<and> find_sep rest = None"
proof (induction bs arbitrary: es rule: split_events.induct)
  case (1 bs)
  show ?case
  proof (cases "find_sep bs")
    case None
    then show ?thesis using 1(2) by (simp add: split_events.simps [of bs])
  next
    case (Some i)
    obtain es' where e: "split_events (drop (i + 2) bs) = (es', rest)" "es = take i bs # es'"
      using 1(2) Some by (auto simp: split_events.simps [of bs] split: prod.splits)
    have "drop (i + 2) bs = concat (map (\<lambda>e. e @ [10, 10]) es') @ rest" "find_sep rest = None" using 1(1) [OF Some e(1)] by simp_all
    then show ?thesis using find_sep_split [OF Some] e(2) by simp
  qed
qed

section \<open>Processing events\<close>

text \<open>What the reader does with its events, apart from the buffer.\<close>

definition read_event :: "json_lib \<Rightarrow> octets \<Rightarrow> (reassembler, sse_frame list) op" where
  "read_event L raw r = (if blank_octets raw then (Inr [], r)
     else case parse_event L raw r of (Inl e, r1) \<Rightarrow> (Inl e, r1) | (Inr f, r1) \<Rightarrow> (Inr [f], r1\<lparr>ra_frames := ra_frames r1 @ [f]\<rparr>))"

fun read_events :: "json_lib \<Rightarrow> octets list \<Rightarrow> (reassembler, sse_frame list) op" where
  "read_events L [] r = (Inr [], r)"
| "read_events L (raw # raws) r = (case read_event L raw r of
     (Inl e, r1) \<Rightarrow> (Inl e, r1)
   | (Inr fs, r1) \<Rightarrow> (case read_events L raws r1 of (Inl e, r2) \<Rightarrow> (Inl e, r2) | (Inr gs, r2) \<Rightarrow> (Inr (fs @ gs), r2)))"

lemma parse_event_set_buffer:
  "parse_event L raw (r\<lparr>ra_buffer := b\<rparr>) = (case parse_event L raw r of (x, r') \<Rightarrow> (x, r'\<lparr>ra_buffer := b\<rparr>))"
  by (simp add: parse_event_def Let_def case_prod_beta split: sum.split)

lemma read_event_set_buffer:
  "read_event L raw (r\<lparr>ra_buffer := b\<rparr>) = (case read_event L raw r of (x, r') \<Rightarrow> (x, r'\<lparr>ra_buffer := b\<rparr>))"
  by (simp add: read_event_def parse_event_set_buffer case_prod_beta split: sum.split)

lemma read_events_set_buffer:
  "read_events L raws (r\<lparr>ra_buffer := b\<rparr>) = (case read_events L raws r of (x, r') \<Rightarrow> (x, r'\<lparr>ra_buffer := b\<rparr>))"
  by (induction raws arbitrary: r) (simp_all add: read_event_set_buffer case_prod_beta split: sum.split)

lemma read_events_append:
  "read_events L (xs @ ys) r = (case read_events L xs r of
     (Inl e, r1) \<Rightarrow> (Inl e, r1)
   | (Inr fs, r1) \<Rightarrow> (case read_events L ys r1 of (Inl e, r2) \<Rightarrow> (Inl e, r2) | (Inr gs, r2) \<Rightarrow> (Inr (fs @ gs), r2)))"
  by (induction xs arbitrary: r) (auto simp: case_prod_beta prod_eq_iff split: sum.split)

lemma feed_loop_events:
  assumes "split_events (ra_buffer r) = (es, rest)"
  shows "case read_events L es r of
      (Inr fs, r') \<Rightarrow> feed_loop L acc r = (Inr (acc @ fs), r'\<lparr>ra_buffer := rest\<rparr>)
    | (Inl e, r') \<Rightarrow> \<exists>b. feed_loop L acc r = (Inl e, r'\<lparr>ra_buffer := b\<rparr>)"
  using assms
proof (induction L acc r arbitrary: es rule: feed_loop.induct)
  case (1 L acc r)
  show ?case
  proof (cases "find_sep (ra_buffer r)")
    case None
    then show ?thesis using 1(3) by (auto simp: feed_loop.simps [of L acc r] split_events.simps [of "ra_buffer r"])
  next
    case (Some i)
    let ?raw = "take i (ra_buffer r)" and ?b = "drop (i + 2) (ra_buffer r)"
    obtain es' where es: "split_events ?b = (es', rest)" "es = ?raw # es'"
      using 1(3) Some by (auto simp: split_events.simps [of "ra_buffer r"] split: prod.splits)
    show ?thesis
    proof (cases "blank_octets ?raw")
      case True
      then have "feed_loop L acc r = feed_loop L acc (r\<lparr>ra_buffer := ?b\<rparr>)" using Some by (simp add: feed_loop.simps [of L acc r])
      then show ?thesis using 1(1) [OF Some refl refl True, of es'] es True
        by (simp add: read_event_def read_events_set_buffer case_prod_beta split: sum.splits)
    next
      case False
      obtain x r1 where p: "parse_event L ?raw r = (x, r1)" by (cases "parse_event L ?raw r")
      then have p': "parse_event L ?raw (r\<lparr>ra_buffer := ?b\<rparr>) = (x, r1\<lparr>ra_buffer := ?b\<rparr>)" by (simp add: parse_event_set_buffer)
      show ?thesis
      proof (cases x)
        case (Inl e)
        then have "feed_loop L acc r = (Inl e, r1\<lparr>ra_buffer := ?b\<rparr>)" using Some False p' by (simp add: feed_loop.simps [of L acc r])
        then show ?thesis using es(2) False p Inl by (auto simp: read_event_def)
      next
        case (Inr f)
        let ?r1 = "r1\<lparr>ra_frames := ra_frames r1 @ [f]\<rparr>"
        have eq: "r1\<lparr>ra_buffer := ?b, ra_frames := ra_frames (r1\<lparr>ra_buffer := ?b\<rparr>) @ [f]\<rparr> = ?r1\<lparr>ra_buffer := ?b\<rparr>" by simp
        have loop: "feed_loop L acc r = feed_loop L (acc @ [f]) (?r1\<lparr>ra_buffer := ?b\<rparr>)"
          unfolding eq [symmetric] using Some False p' Inr by (simp add: feed_loop.simps [of L acc r])
        obtain y r2 where y: "read_events L es' ?r1 = (y, r2)" by (cases "read_events L es' ?r1")
        then have "read_events L es' (?r1\<lparr>ra_buffer := ?b\<rparr>) = (y, r2\<lparr>ra_buffer := ?b\<rparr>)" by (simp only: read_events_set_buffer prod.case)
        then have IH: "case (y, r2\<lparr>ra_buffer := ?b\<rparr>) of
            (Inr fs, r') \<Rightarrow> feed_loop L (acc @ [f]) (?r1\<lparr>ra_buffer := ?b\<rparr>) = (Inr ((acc @ [f]) @ fs), r'\<lparr>ra_buffer := rest\<rparr>)
          | (Inl e, r') \<Rightarrow> \<exists>b. feed_loop L (acc @ [f]) (?r1\<lparr>ra_buffer := ?b\<rparr>) = (Inl e, r'\<lparr>ra_buffer := b\<rparr>)"
          using 1(2) [OF Some refl refl False p' [symmetric] Inr, of es'] es(1) unfolding eq by simp
        have "read_events L es r = (case y of Inl e \<Rightarrow> (Inl e, r2) | Inr gs \<Rightarrow> (Inr (f # gs), r2))"
          using es(2) False p Inr y by (simp add: read_event_def split: sum.split)
        then show ?thesis using IH loop by (cases y) simp_all
      qed
    qed
  qed
qed

lemma feed_events:
  assumes "split_events (ra_buffer r @ chunk) = (es, rest)"
  shows "case read_events L es r of
      (Inr fs, r') \<Rightarrow> feed L chunk r = (Inr fs, r'\<lparr>ra_buffer := rest\<rparr>)
    | (Inl e, r') \<Rightarrow> \<exists>b. feed L chunk r = (Inl e, r'\<lparr>ra_buffer := b\<rparr>)"
proof -
  let ?b = "ra_buffer r @ chunk"
  obtain x r' where x: "read_events L es r = (x, r')" by (cases "read_events L es r")
  then have "read_events L es (r\<lparr>ra_buffer := ?b\<rparr>) = (x, r'\<lparr>ra_buffer := ?b\<rparr>)" by (simp only: read_events_set_buffer prod.case)
  moreover have "split_events (ra_buffer (r\<lparr>ra_buffer := ?b\<rparr>)) = (es, rest)" using assms by simp
  ultimately show ?thesis using feed_loop_events [of "r\<lparr>ra_buffer := ?b\<rparr>" es rest L "[]"] x
    by (cases x) (simp_all add: feed_def)
qed

lemma feed_all_events:
  assumes "find_sep (ra_buffer r) = None" "split_events (ra_buffer r @ concat chunks) = (es, rest)"
  shows "case read_events L es r of
      (Inr fs, r') \<Rightarrow> feed_all L chunks r = (Inr fs, r'\<lparr>ra_buffer := rest\<rparr>)
    | (Inl e, r') \<Rightarrow> \<exists>b. feed_all L chunks r = (Inl e, r'\<lparr>ra_buffer := b\<rparr>)"
  using assms
proof (induction chunks arbitrary: r es)
  case Nil
  then have "es = []" "rest = ra_buffer r" by (simp_all add: split_events.simps)
  then show ?case by simp
next
  case (Cons chunk chunks)
  obtain es1 rest1 where s1: "split_events (ra_buffer r @ chunk) = (es1, rest1)" by (cases "split_events (ra_buffer r @ chunk)")
  obtain es2 where s2: "split_events (rest1 @ concat chunks) = (es2, rest)" "es = es1 @ es2"
    using Cons.prems(2) split_events_append [of "ra_buffer r @ chunk" "concat chunks"] s1 by (auto split: prod.splits)
  obtain x r1 where x: "read_events L es1 r = (x, r1)" by (cases "read_events L es1 r")
  note f = feed_events [OF s1, of L, unfolded x]
  show ?case
  proof (cases x)
    case (Inl e)
    then show ?thesis using f x s2(2) by (auto simp: read_events_append)
  next
    case (Inr fs)
    let ?r1 = "r1\<lparr>ra_buffer := rest1\<rparr>"
    obtain y r2 where y: "read_events L es2 r1 = (y, r2)" by (cases "read_events L es2 r1")
    then have y': "read_events L es2 ?r1 = (y, r2\<lparr>ra_buffer := rest1\<rparr>)" by (simp only: read_events_set_buffer prod.case)
    have "find_sep (ra_buffer ?r1) = None" using split_events_join [OF s1] by simp
    from Cons.IH [OF this, of es2] s2(1)
    have IH: "case (y, r2\<lparr>ra_buffer := rest1\<rparr>) of
        (Inr fs, r') \<Rightarrow> feed_all L chunks ?r1 = (Inr fs, r'\<lparr>ra_buffer := rest\<rparr>)
      | (Inl e, r') \<Rightarrow> \<exists>b. feed_all L chunks ?r1 = (Inl e, r'\<lparr>ra_buffer := b\<rparr>)" unfolding y' by simp
    have "read_events L es r = (case y of Inl e \<Rightarrow> (Inl e, r2) | Inr gs \<Rightarrow> (Inr (fs @ gs), r2))"
      using s2(2) x y Inr by (simp add: read_events_append)
    then show ?thesis using IH f Inr by (cases y) auto
  qed
qed

lemma feed_fragments:
  fixes p m :: utext
  defines "r \<equiv> new_reassembler p m"
  shows "case feed L (concat chunks) r of
      (Inr fs, r') \<Rightarrow> feed_all L chunks r = (Inr fs, r')
    | (Inl e, r') \<Rightarrow> \<exists>b. feed_all L chunks r = (Inl e, r'\<lparr>ra_buffer := b\<rparr>)"
proof -
  have b: "find_sep (ra_buffer r) = None" by (simp add: r_def new_reassembler_def)
  obtain es rest where s: "split_events (ra_buffer r @ concat chunks) = (es, rest)" by (cases "split_events (ra_buffer r @ concat chunks)")
  obtain x r' where x: "read_events L es r = (x, r')" by (cases "read_events L es r")
  show ?thesis using feed_events [OF s, of L, unfolded x] feed_all_events [OF b s, of L, unfolded x] by (cases x) (auto, metis)
qed

lemma parse_chunks_default: "parse_chunks L chunks = default_parse L (concat chunks)"
proof (cases "feed L (concat chunks) default_reassembler")
  case (Pair x r)
  then show ?thesis using feed_fragments [of L chunks data_field DEFAULT_TERMINAL_MARKER]
    by (cases x) (auto simp: parse_chunks_def default_parse_def parse_stream_def default_reassembler_def)
qed

text \<open>C25: how a byte stream is cut into reads does not matter, not even inside a character, a field or a
  separator: feeding the reads one by one gives the same frames, errors and rest as feeding the whole stream at
  once, and raises the same exception after the same frames when the JSON decoder raises.\<close>

theorem fragmentation_invariant:
  "(case feed L (concat chunks) (new_reassembler p m) of
      (Inr fs, r) \<Rightarrow> feed_all L chunks (new_reassembler p m) = (Inr fs, r)
    | (Inl e, r) \<Rightarrow> \<exists>b. feed_all L chunks (new_reassembler p m) = (Inl e, r\<lparr>ra_buffer := b\<rparr>))
   \<and> parse_chunks L chunks = default_parse L (concat chunks)"
  by (rule conjI [OF feed_fragments parse_chunks_default])

section \<open>Invariants of the reader\<close>

inductive reader_step :: "json_lib \<Rightarrow> reassembler \<Rightarrow> reassembler \<Rightarrow> bool" for L where
  Feed: "reader_step L r (snd (feed L chunk r))"
| Finish: "reader_step L r (snd (finish r))"

definition frame_ok :: "utext \<Rightarrow> sse_frame \<Rightarrow> bool" where
  "frame_ok m f \<longleftrightarrow> \<not> blank_octets (ev_raw f) \<and> (ev_terminal f \<longleftrightarrow> text_strip (ev_data f) = m)
     \<and> (ev_heartbeat f \<longrightarrow> ev_data f = []) \<and> (ev_payload f = None \<or> ev_parse_error f = None)
     \<and> (ev_terminal f \<longrightarrow> ev_payload f = None \<and> ev_parse_error f = None)
     \<and> (\<not> ev_terminal f \<and> ev_data f \<noteq> [] \<longrightarrow> ev_payload f \<noteq> None \<or> ev_parse_error f \<noteq> None)"

definition reader_inv :: "reassembler \<Rightarrow> bool" where
  "reader_inv r \<longleftrightarrow> ra_index r = int (length (ra_frames r)) \<and> map ev_index (ra_frames r) = map int [0..<length (ra_frames r)]
     \<and> (\<forall>f \<in> set (ra_frames r). frame_ok (ra_terminal_marker r) f)"

lemma decode_payload_cases:
  "decode_payload L data = Inr (payload, None) \<Longrightarrow> \<exists>m. payload = Some m"
  "decode_payload L data = Inr (payload, Some problem) \<Longrightarrow> payload = None"
  by (auto simp: decode_payload_def split: loads_result.splits json.splits)

lemma parse_event_fields:
  assumes "parse_event L raw r = (Inr f, r1)"
  shows "ra_index r1 = ra_index r + 1" "ra_frames r1 = ra_frames r" "ra_terminal_marker r1 = ra_terminal_marker r"
    "ev_index f = ra_index r" "ev_raw f = raw" "\<not> blank_octets raw \<Longrightarrow> frame_ok (ra_terminal_marker r) f"
  using assms
  by (auto simp: parse_event_def frame_ok_def Let_def case_prod_beta dest: decode_payload_cases split: sum.splits if_splits prod.splits)

lemma parse_event_error:
  "parse_event L raw r = (Inl e, r1) \<Longrightarrow> ra_index r1 = ra_index r \<and> ra_frames r1 = ra_frames r \<and> ra_terminal_marker r1 = ra_terminal_marker r"
  by (auto simp: parse_event_def Let_def case_prod_beta split: sum.splits if_splits)

lemma read_event_inv: "reader_inv r \<Longrightarrow> reader_inv (snd (read_event L raw r)) \<and> ra_terminal_marker (snd (read_event L raw r)) = ra_terminal_marker r"
proof (cases "parse_event L raw r")
  case (Pair x r1)
  assume "reader_inv r"
  with Pair parse_event_fields [of L raw r _ r1] parse_event_error [of L raw r _ r1] show ?thesis
    by (cases x) (auto simp: read_event_def reader_inv_def)
qed

lemma read_events_inv: "reader_inv r \<Longrightarrow> reader_inv (snd (read_events L raws r)) \<and> ra_terminal_marker (snd (read_events L raws r)) = ra_terminal_marker r"
proof (induction raws arbitrary: r)
  case (Cons raw raws)
  obtain x r1 where x: "read_event L raw r = (x, r1)" by (cases "read_event L raw r")
  have "reader_inv r1" "ra_terminal_marker r1 = ra_terminal_marker r" using read_event_inv [OF Cons.prems, of L raw] x by simp_all
  with x Cons.IH show ?case by (auto simp: case_prod_beta split: sum.split)
qed simp

lemma reader_inv_buffer [simp]: "reader_inv (r\<lparr>ra_buffer := b\<rparr>) = reader_inv r"
  by (simp add: reader_inv_def)

lemma feed_inv: "reader_inv r \<Longrightarrow> reader_inv (snd (feed L chunk r)) \<and> ra_terminal_marker (snd (feed L chunk r)) = ra_terminal_marker r"
proof -
  assume inv: "reader_inv r"
  obtain es rest where s: "split_events (ra_buffer r @ chunk) = (es, rest)" by (cases "split_events (ra_buffer r @ chunk)")
  obtain x r' where x: "read_events L es r = (x, r')" by (cases "read_events L es r")
  show ?thesis using feed_events [OF s, of L, unfolded x] read_events_inv [OF inv, of L es] x by (cases x) auto
qed

lemma reader_reachable_inv:
  "(reader_step L)\<^sup>*\<^sup>* (new_reassembler p m) r \<Longrightarrow> reader_inv r \<and> ra_terminal_marker r = m"
proof (induction rule: rtranclp_induct)
  case (step r r')
  from step(2) step(3) show ?case
    by cases (auto simp: feed_inv, auto simp: finish_def Let_def reader_inv_def)
qed (simp add: new_reassembler_def reader_inv_def)

text \<open>The problems that only a hand-made list of frames can have.\<close>

definition foreign_problem :: "stream_problem \<Rightarrow> bool" where
  "foreign_problem p = (case p of
     Terminal_with_payload \<Rightarrow> True | Not_monotonic _ _ \<Rightarrow> True | Terminal_and_heartbeat _ \<Rightarrow> True
   | Empty_frame _ \<Rightarrow> True | Wrong_marker _ \<Rightarrow> True | _ \<Rightarrow> False)"

lemma sequence_not_foreign:
  assumes "map ev_index fs = map int [n..<n + length fs]" "\<forall>f \<in> set fs. \<not> blank_octets (ev_raw f) \<and> \<not> (ev_terminal f \<and> ev_heartbeat f)"
  shows "\<forall>p \<in> set (sequence_problems (int n) fs). \<not> foreign_problem p"
  using assms
proof (induction fs arbitrary: n)
  case (Cons f fs)
  have "[n..<n + length (f # fs)] = n # [Suc n..<Suc n + length fs]" using upt_conv_Cons [of n "n + length (f # fs)"] by simp
  then have i: "ev_index f = int n" "map ev_index fs = map int [Suc n..<Suc n + length fs]" using Cons.prems(1) by simp_all
  have "\<forall>p \<in> set (frame_problems (int n) f). \<not> foreign_problem p"
    using i(1) Cons.prems(2) by (auto simp: frame_problems_def foreign_problem_def split: option.splits)
  then show ?case using Cons.IH [OF i(2)] Cons.prems(2) i(1) by (auto simp: add.commute)
qed simp

text \<open>The frames of a reader are consistent after any sequence of reads and closings, failed ones included: they are numbered
  from 0 without gaps, none is blank, a frame is terminal exactly when its stripped data is the marker, and a
  terminal frame is no heartbeat and carries neither payload nor parse error, while every other frame with data
  carries exactly one of them. So five kinds of problem of the framing oracle never occur on frames that were read.\<close>

theorem reader_frames_consistent:
  assumes "(reader_step L)\<^sup>*\<^sup>* (new_reassembler p m) r" "m \<noteq> []"
  shows "map ev_index (ra_frames r) = map int [0..<length (ra_frames r)] \<and> ra_index r = int (length (ra_frames r))
    \<and> (\<forall>f \<in> set (ra_frames r). \<not> blank_octets (ev_raw f) \<and> (ev_terminal f \<longleftrightarrow> text_strip (ev_data f) = m)
         \<and> (ev_terminal f \<longrightarrow> \<not> ev_heartbeat f \<and> ev_payload f = None \<and> ev_parse_error f = None)
         \<and> (\<not> ev_terminal f \<and> ev_data f \<noteq> [] \<longrightarrow> (ev_payload f = None \<longleftrightarrow> ev_parse_error f \<noteq> None)))
    \<and> (\<forall>problem \<in> set (sr_problems (validate_stream m expect (ra_frames r))). \<not> foreign_problem problem)"
proof -
  have inv: "reader_inv r" "ra_terminal_marker r = m" using reader_reachable_inv [OF assms(1)] by simp_all
  then have ok: "\<forall>f \<in> set (ra_frames r). frame_ok m f" by (simp add: reader_inv_def)
  have nh: "\<not> (ev_terminal f \<and> ev_heartbeat f)" if "f \<in> set (ra_frames r)" for f
    using that ok assms(2) by (auto simp: frame_ok_def text_strip_def)
  have "\<forall>problem \<in> set (sequence_problems 0 (ra_frames r)). \<not> foreign_problem problem"
    using sequence_not_foreign [of "ra_frames r" 0] inv(1) ok nh by (auto simp: reader_inv_def frame_ok_def)
  then have problems: "\<forall>problem \<in> set (sr_problems (validate_stream m expect (ra_frames r))). \<not> foreign_problem problem"
    using ok by (auto simp: validate_stream_def Let_def frame_ok_def foreign_problem_def key_problems_def split: option.splits)
  have frames: "\<forall>f \<in> set (ra_frames r). \<not> blank_octets (ev_raw f) \<and> (ev_terminal f \<longleftrightarrow> text_strip (ev_data f) = m)
         \<and> (ev_terminal f \<longrightarrow> \<not> ev_heartbeat f \<and> ev_payload f = None \<and> ev_parse_error f = None)
         \<and> (\<not> ev_terminal f \<and> ev_data f \<noteq> [] \<longrightarrow> (ev_payload f = None \<longleftrightarrow> ev_parse_error f \<noteq> None))"
    using ok nh by (auto simp: frame_ok_def)
  have "map ev_index (ra_frames r) = map int [0..<length (ra_frames r)]" "ra_index r = int (length (ra_frames r))"
    using inv(1) by (simp_all add: reader_inv_def)
  then show ?thesis by (intro conjI frames problems)
qed

lemma read_events_raws:
  "read_events L es r = (Inr fs, r') \<Longrightarrow> map ev_raw fs = filter (\<lambda>e. \<not> blank_octets e) es \<and> ra_frames r' = ra_frames r @ fs"
proof (induction es arbitrary: r fs)
  case (Cons e es)
  obtain x r1 where x: "read_event L e r = (x, r1)" by (cases "read_event L e r")
  obtain gs where x': "x = Inr gs" using Cons.prems x by (cases x) auto
  obtain hs where h: "read_events L es r1 = (Inr hs, r')" "fs = gs @ hs"
    using Cons.prems x x' by (auto split: prod.splits sum.splits)
  have "map ev_raw gs = filter (\<lambda>e. \<not> blank_octets e) [e] \<and> ra_frames r1 = ra_frames r @ gs"
    using x x' parse_event_fields by (auto simp: read_event_def split: if_splits prod.splits sum.splits)
  then show ?case using Cons.IH [OF h(1)] h(2) by auto
qed simp

text \<open>C27: no byte is dropped silently: the stream read so far is the events, each closed by an empty line, followed by the
  buffer, which holds no complete event; the raw bytes of the frames are exactly the non-blank events, in
  order; and closing reports the stream complete iff no error was recorded and only blanks are left over.\<close>

theorem reader_conserves_bytes:
  assumes "feed_all L chunks (new_reassembler p m) = (Inr frames, r)"
  shows "\<exists>es. concat chunks = concat (map (\<lambda>e. e @ [10, 10]) es) @ ra_buffer r \<and> find_sep (ra_buffer r) = None
    \<and> ra_frames r = frames \<and> map ev_raw frames = filter (\<lambda>e. \<not> blank_octets e) es
    \<and> (ss_complete (fst (finish r)) \<longleftrightarrow> ra_errors r = [] \<and> blank_octets (ra_buffer r))
    \<and> ss_trailing_bytes (fst (finish r)) = length (ra_buffer r)"
proof -
  let ?r = "new_reassembler p m"
  have b: "find_sep (ra_buffer ?r) = None" "ra_buffer ?r = []" "ra_frames ?r = []" by (simp_all add: new_reassembler_def)
  obtain es rest where s: "split_events (concat chunks) = (es, rest)" by (cases "split_events (concat chunks)")
  obtain x r' where x: "read_events L es ?r = (x, r')" by (cases "read_events L es ?r")
  have s': "split_events (ra_buffer ?r @ concat chunks) = (es, rest)" using s b(2) by simp
  obtain fs where fs: "x = Inr fs" using feed_all_events [OF b(1) s', of L, unfolded x] assms by (cases x) auto
  have "frames = fs" "r = r'\<lparr>ra_buffer := rest\<rparr>" using feed_all_events [OF b(1) s', of L, unfolded x] assms fs by simp_all
  then show ?thesis using read_events_raws [OF x [unfolded fs]] split_events_join [OF s] b(3)
    by (intro exI [of _ es]) (simp add: finish_def Let_def)
qed

section \<open>Written streams are read back\<close>

lemma utf8_newlines: "utf8_bytes newlines = [10, 10]"
  by (simp add: newlines_def utf8_bytes_def utf8_char_def)

lemma data_field_simps [simp]: "list_all encodable data_field" "10 \<notin> set data_field"
  by (simp add: data_field_def, simp add: data_field_def ascii_def)

definition field_octets :: "utext \<Rightarrow> octets" where
  "field_octets d = utf8_bytes (data_field @ d)"

lemma encode_field: "list_all encodable d \<Longrightarrow> utf8_encode (data_field @ d @ newlines) = Inr (field_octets d @ [10, 10])"
proof -
  have "list_all encodable newlines" by (simp add: newlines_def encodable_def)
  then show "list_all encodable d \<Longrightarrow> ?thesis" by (simp add: utf8_encode_def field_octets_def utf8_newlines)
qed

lemma field_plain: "list_all encodable d \<Longrightarrow> 10 \<notin> set d \<Longrightarrow> 10 \<notin> set (field_octets d)"
  by (simp add: field_octets_def newline_octets del: utf8_bytes_append)

lemma field_not_blank: "\<not> blank_octets (field_octets d)"
  by (simp add: field_octets_def blank_octets_def data_field_def ascii_def utf8_bytes_def utf8_char_def)

lemma split_single: "10 \<notin> set s \<Longrightarrow> split_lines s = [s]"
  by (induction s) auto

lemma fold_field:
  assumes "list_all encodable d" "10 \<notin> set d"
  shows "fold parse_line (split_lines (utf8_decode (field_octets d))) ([], False, errors) = ([d], False, errors)"
proof -
  have "list_all encodable (data_field @ d)" using assms(1) by simp
  then have "utf8_decode (field_octets d) = data_field @ d" unfolding field_octets_def by (rule utf8_roundtrip)
  moreover have "10 \<notin> set (data_field @ d)" using assms(2) by simp
  ultimately have "split_lines (utf8_decode (field_octets d)) = [data_field @ d]" by (metis split_single)
  then show ?thesis by (simp add: parse_line_def data_field_def ascii_def)
qed

definition data_frame :: "int \<Rightarrow> utext \<Rightarrow> jobject \<Rightarrow> sse_frame" where
  "data_frame i d p = \<lparr>ev_index = i, ev_raw = field_octets d, ev_data = d, ev_terminal = False, ev_heartbeat = False,
     ev_payload = Some p, ev_parse_error = None\<rparr>"

definition terminal_frame :: "int \<Rightarrow> sse_frame" where
  "terminal_frame i = \<lparr>ev_index = i, ev_raw = field_octets DEFAULT_TERMINAL_MARKER, ev_data = DEFAULT_TERMINAL_MARKER,
     ev_terminal = True, ev_heartbeat = False, ev_payload = None, ev_parse_error = None\<rparr>"

text \<open>What the JSON codec does on one payload: one line of text that starts as an object and is read back.\<close>

definition one_line_json :: "json_lib \<Rightarrow> jobject \<Rightarrow> bool" where
  "one_line_json L p \<longleftrightarrow> (let d = jl_dumps L (JObj p) in
     jl_loads L d = Loaded (JObj p) \<and> list_all encodable d \<and> 10 \<notin> set d \<and> prefix (ascii ''{'') d)"

lemma brace_not_marker: "prefix (ascii ''{'') d \<Longrightarrow> text_strip d \<noteq> DEFAULT_TERMINAL_MARKER"
proof -
  assume "prefix (ascii ''{'') d"
  then obtain e where "d = 123 # e" by (auto simp: ascii_def prefix_def)
  then have "text_strip d = 123 # rev (dropWhile text_space (rev e))" by (simp add: text_strip_def text_space_def dropWhile_append3)
  then show ?thesis by (simp add: DEFAULT_TERMINAL_MARKER_def ascii_def)
qed

lemma marker_strip: "text_strip DEFAULT_TERMINAL_MARKER = DEFAULT_TERMINAL_MARKER"
  by (simp add: text_strip_def DEFAULT_TERMINAL_MARKER_def ascii_def text_space_def)

lemma marker_plain [simp]: "list_all encodable DEFAULT_TERMINAL_MARKER" "10 \<notin> set DEFAULT_TERMINAL_MARKER" "DEFAULT_TERMINAL_MARKER \<noteq> []"
  by (simp add: DEFAULT_TERMINAL_MARKER_def, simp_all add: DEFAULT_TERMINAL_MARKER_def ascii_def)

definition default_marker :: "reassembler \<Rightarrow> bool" where
  "default_marker r \<longleftrightarrow> ra_terminal_marker r = DEFAULT_TERMINAL_MARKER"

lemma read_data_event:
  assumes "one_line_json L p" "default_marker r"
  shows "read_event L (field_octets (jl_dumps L (JObj p))) r
    = (let f = data_frame (ra_index r) (jl_dumps L (JObj p)) p in (Inr [f], r\<lparr>ra_index := ra_index r + 1, ra_frames := ra_frames r @ [f]\<rparr>))"
proof -
  let ?d = "jl_dumps L (JObj p)"
  have d: "jl_loads L ?d = Loaded (JObj p)" "list_all encodable ?d" "10 \<notin> set ?d" "prefix (ascii ''{'') ?d"
    using assms(1) by (simp_all add: one_line_json_def Let_def)
  then have "?d \<noteq> []" by (auto simp: ascii_def)
  then show ?thesis
    using d(1) brace_not_marker [OF d(4)] assms(2) field_not_blank [of ?d]
    by (simp add: read_event_def parse_event_def fold_field [OF d(2,3)] Let_def decode_payload_def data_frame_def default_marker_def)
qed

lemma read_terminal_event:
  assumes "default_marker r"
  shows "read_event L (field_octets DEFAULT_TERMINAL_MARKER) r
    = (let f = terminal_frame (ra_index r) in (Inr [f], r\<lparr>ra_index := ra_index r + 1, ra_frames := ra_frames r @ [f]\<rparr>))"
  using assms field_not_blank [of DEFAULT_TERMINAL_MARKER]
  by (simp add: read_event_def parse_event_def fold_field marker_strip terminal_frame_def Let_def default_marker_def)

text \<open>The frames of a written stream, numbered from \<open>i\<close>.\<close>

fun stream_frames :: "json_lib \<Rightarrow> int \<Rightarrow> jobject list \<Rightarrow> sse_frame list" where
  "stream_frames L i [] = [terminal_frame i]"
| "stream_frames L i (p # ps) = data_frame i (jl_dumps L (JObj p)) p # stream_frames L (i + 1) ps"

definition stream_events :: "json_lib \<Rightarrow> jobject list \<Rightarrow> octets list" where
  "stream_events L ps = map (\<lambda>p. field_octets (jl_dumps L (JObj p))) ps @ [field_octets DEFAULT_TERMINAL_MARKER]"

definition stream_octets :: "json_lib \<Rightarrow> jobject list \<Rightarrow> octets" where
  "stream_octets L ps = concat (map (\<lambda>e. e @ [10, 10]) (stream_events L ps))"

lemma read_stream_events:
  "\<forall>p \<in> set ps. one_line_json L p \<Longrightarrow> default_marker r \<Longrightarrow>
   read_events L (stream_events L ps) r = (Inr (stream_frames L (ra_index r) ps),
     r\<lparr>ra_index := ra_index r + int (length ps) + 1, ra_frames := ra_frames r @ stream_frames L (ra_index r) ps\<rparr>)"
proof (induction ps arbitrary: r)
  case Nil
  then show ?case by (simp add: stream_events_def read_terminal_event Let_def)
next
  case (Cons p ps)
  let ?f = "data_frame (ra_index r) (jl_dumps L (JObj p)) p"
  let ?r = "r\<lparr>ra_index := ra_index r + 1, ra_frames := ra_frames r @ [?f]\<rparr>"
  have "read_event L (field_octets (jl_dumps L (JObj p))) r = (Inr [?f], ?r)"
    using read_data_event [of L p r] Cons.prems by (simp add: Let_def)
  moreover have "default_marker ?r" using Cons.prems(2) by (simp add: default_marker_def)
  moreover have "stream_events L (p # ps) = field_octets (jl_dumps L (JObj p)) # stream_events L ps" by (simp add: stream_events_def)
  ultimately show ?case using Cons.IH [of ?r] Cons.prems(1) by (simp add: algebra_simps)
qed

lemma split_plain_events:
  "\<forall>e \<in> set es. 10 \<notin> set e \<Longrightarrow> split_events (concat (map (\<lambda>e. e @ [10, 10]) es) @ rest) = (case split_events rest of (fs, tail) \<Rightarrow> (es @ fs, tail))"
proof (induction es)
  case (Cons e es)
  let ?rest = "concat (map (\<lambda>e. e @ [10, 10]) es) @ rest"
  have "find_sep (e @ 10 # 10 # ?rest) = Some (length e)" using Cons.prems by (simp add: find_sep_plain)
  then show ?case using Cons by (simp add: split_events.simps [of "e @ 10 # 10 # ?rest"] case_prod_beta)
qed simp

lemma stream_events_plain: "\<forall>p \<in> set ps. one_line_json L p \<Longrightarrow> \<forall>e \<in> set (stream_events L ps). 10 \<notin> set e"
  by (auto simp: stream_events_def one_line_json_def Let_def field_plain)

lemma default_parse_events:
  assumes "split_events raw = (es, rest)"
  shows "default_parse L raw = (case read_events L es default_reassembler of
      (Inl e, _) \<Rightarrow> Inl e
    | (Inr fs, r) \<Rightarrow> let errors = ra_errors r @ (if blank_octets rest then [] else [Truncated_frame (take 32 rest)])
        in Inr (\<lparr>ss_frames = length (ra_frames r), ss_errors = errors, ss_trailing_bytes = length rest, ss_complete = (errors = [])\<rparr>, ra_frames r))"
proof -
  have s: "split_events (ra_buffer default_reassembler @ raw) = (es, rest)" using assms by (simp add: default_reassembler_def new_reassembler_def)
  obtain x r where x: "read_events L es default_reassembler = (x, r)" by (cases "read_events L es default_reassembler")
  show ?thesis using feed_events [OF s, of L, unfolded x] x
    by (cases x) (auto simp: default_parse_def parse_stream_def finish_def Let_def simp flip: default_reassembler_def)
qed

lemma default_reassembler_simps [simp]:
  "default_marker default_reassembler" "ra_index default_reassembler = 0" "ra_frames default_reassembler = []" "ra_errors default_reassembler = []"
  by (simp_all add: default_marker_def default_reassembler_def new_reassembler_def)

lemma encode_stream:
  assumes "\<forall>p \<in> set ps. one_line_json L p"
  shows "all_res (map (encode_data_frame L data_field) ps) = Inr (map (\<lambda>p. field_octets (jl_dumps L (JObj p)) @ [10, 10]) ps)"
    "encode_terminal data_field DEFAULT_TERMINAL_MARKER = Inr (field_octets DEFAULT_TERMINAL_MARKER @ [10, 10])"
    "concat (map (\<lambda>p. field_octets (jl_dumps L (JObj p)) @ [10, 10]) ps) @ field_octets DEFAULT_TERMINAL_MARKER @ [10, 10] = stream_octets L ps"
proof -
  show "all_res (map (encode_data_frame L data_field) ps) = Inr (map (\<lambda>p. field_octets (jl_dumps L (JObj p)) @ [10, 10]) ps)"
    using assms by (induction ps) (simp_all add: encode_data_frame_def encode_field one_line_json_def Let_def)
qed (simp_all add: encode_terminal_def encode_field stream_octets_def stream_events_def comp_def)

lemma split_stream:
  "\<forall>p \<in> set ps. one_line_json L p \<Longrightarrow> split_events (stream_octets L ps @ rest) = (case split_events rest of (fs, tail) \<Rightarrow> (stream_events L ps @ fs, tail))"
  unfolding stream_octets_def by (intro split_plain_events stream_events_plain)

lemma parse_stream_octets:
  assumes "\<forall>p \<in> set ps. one_line_json L p"
  shows "default_parse L (stream_octets L ps) = Inr (\<lparr>ss_frames = length ps + 1, ss_errors = [], ss_trailing_bytes = 0, ss_complete = True\<rparr>, stream_frames L 0 ps)"
proof -
  have "length (stream_frames L i ps) = length ps + 1" for i by (induction ps arbitrary: i) simp_all
  then show ?thesis
    using default_parse_events [of "stream_octets L ps" "stream_events L ps" "[]"] split_stream [OF assms, of "[]"] read_stream_events [OF assms]
    by (simp add: Let_def blank_octets_def)
qed

lemma stream_frames_nonempty [simp]: "stream_frames L i ps \<noteq> []"
  by (cases ps) simp_all

lemma stream_frames_fields:
  "map ev_payload (stream_frames L i ps) = map Some ps @ [None]"
  "map ev_terminal (stream_frames L i ps) = replicate (length ps) False @ [True]"
  "filter ev_terminal (stream_frames L i ps) = [terminal_frame (i + int (length ps))]"
  "ev_terminal (last (stream_frames L i ps))"
  "sequence_problems i (stream_frames L i ps) = []"
  by (induction ps arbitrary: i)
    (simp_all add: data_frame_def terminal_frame_def frame_problems_def field_not_blank algebra_simps)

definition has_keys :: "jobject \<Rightarrow> bool" where
  "has_keys p \<longleftrightarrow> (\<forall>k \<in> {''id'', ''object'', ''model'', ''choices''}. map_of p (ascii k) \<noteq> None)"

lemma stream_frames_keys:
  "concat (map key_problems (filter (\<lambda>f. \<not> ev_terminal f \<and> \<not> ev_heartbeat f) (stream_frames L i ps))) = [] \<longleftrightarrow> list_all has_keys ps"
  by (induction ps arbitrary: i) (auto simp: data_frame_def terminal_frame_def key_problems_def has_keys_def filter_empty_conv)

lemma stream_no_payload_error:
  "\<forall>f \<in> set (stream_frames L i ps). ev_parse_error f = None"
  by (induction ps arbitrary: i) (simp_all add: data_frame_def terminal_frame_def)

text \<open>C26: what the writer writes the reader reads: when the JSON codec writes the payloads as single lines and reads them
  back, the encoded stream parses, however it is cut into reads, into the frames that
  \<open>frames_from_payloads\<close> returns: one per payload with exactly that payload, then the terminal one. No error or
  byte is left over, and the oracle accepts the frames iff every payload has the four required keys.\<close>

theorem stream_roundtrip:
  assumes "\<forall>p \<in> set ps. one_line_json L p"
  shows "\<exists>encoded terminal frames.
    all_res (map (encode_data_frame L data_field) ps) = Inr encoded \<and> encode_terminal data_field DEFAULT_TERMINAL_MARKER = Inr terminal
    \<and> frames_from_payloads L ps = Inr frames
    \<and> map ev_payload frames = map Some ps @ [None] \<and> map ev_terminal frames = replicate (length ps) False @ [True]
    \<and> (\<forall>chunks. concat chunks = concat encoded @ terminal \<longrightarrow>
         parse_chunks L chunks = Inr (\<lparr>ss_frames = length ps + 1, ss_errors = [], ss_trailing_bytes = 0, ss_complete = True\<rparr>, frames))
    \<and> (sr_problems (validate_stream DEFAULT_TERMINAL_MARKER True frames) = [] \<longleftrightarrow> list_all has_keys ps)"
proof -
  let ?frames = "stream_frames L 0 ps"
  note e = encode_stream [OF assms] and p = parse_stream_octets [OF assms]
  have "frames_from_payloads L ps = Inr ?frames" using e p by (simp add: frames_from_payloads_def)
  moreover have "parse_chunks L chunks = Inr (\<lparr>ss_frames = length ps + 1, ss_errors = [], ss_trailing_bytes = 0, ss_complete = True\<rparr>, ?frames)"
    if "concat chunks = stream_octets L ps" for chunks
    using parse_chunks_default [of L chunks] p that by simp
  moreover have "sr_problems (validate_stream DEFAULT_TERMINAL_MARKER True ?frames) = [] \<longleftrightarrow> list_all has_keys ps"
    using stream_frames_fields(3-) [where i = 0 and L = L and ps = ps] stream_frames_keys [of L 0 ps] stream_no_payload_error [of L 0 ps]
    by (simp add: validate_stream_def Let_def)
  ultimately show ?thesis using e stream_frames_fields(1,2) [of L 0 ps] by metis
qed

section \<open>The self-checks pass on written streams\<close>

lemma fragmentation_cases_default:
  assumes "default_parse L raw = Inr x"
  shows "fragmentation_cases L raw splits = Inr (map (\<lambda>k. (k, x)) (filter (\<lambda>k. 0 < k \<and> k < length raw) splits))"
proof -
  have "parse_chunks L [take k raw, drop k raw] = Inr x" for k using assms by (simp add: parse_chunks_default)
  then show ?thesis unfolding fragmentation_cases_def by (induction splits) (auto simp: case_prod_beta)
qed

lemma stream_events_cons: "\<exists>e es. stream_events L ps = e # es"
  by (cases ps) (simp_all add: stream_events_def)

lemma stream_octets_long: "7 < length (stream_octets L ps)"
  by (simp add: stream_octets_def stream_events_def field_octets_def data_field_def DEFAULT_TERMINAL_MARKER_def ascii_def utf8_bytes_def utf8_char_def)

lemma sticky_parse:
  assumes "\<forall>p \<in> set ps. one_line_json L p"
  shows "\<exists>s fs. default_parse L (stream_octets L ps @ stream_octets L ps) = Inr (s, fs) \<and> ss_frames s = 2 * (length ps + 1)"
proof -
  let ?r = "default_reassembler\<lparr>ra_index := int (length ps) + 1, ra_frames := stream_frames L 0 ps\<rparr>"
  have len: "length (stream_frames L i ps) = length ps + 1" for i by (induction ps arbitrary: i) simp_all
  have "split_events (stream_octets L ps @ stream_octets L ps) = (stream_events L ps @ stream_events L ps, [])"
    using split_stream [OF assms, of "stream_octets L ps"] split_stream [OF assms, of "[]"] by simp
  moreover have "read_events L (stream_events L ps) default_reassembler = (Inr (stream_frames L 0 ps), ?r)"
    using read_stream_events [OF assms, of default_reassembler] by simp
  moreover have "default_marker ?r" using default_reassembler_simps(1) by (simp add: default_marker_def)
  ultimately show ?thesis using default_parse_events [of _ "stream_events L ps @ stream_events L ps" "[]"] read_stream_events [OF assms, of ?r] len
    by (simp add: read_events_append Let_def)
qed

lemma truncated_parse:
  assumes "\<forall>p \<in> set ps. one_line_json L p"
  shows "\<exists>s fs. default_parse L (take (length (stream_octets L ps) - 2) (stream_octets L ps)) = Inr (s, fs) \<and> \<not> ss_complete s"
proof -
  let ?es = "map (\<lambda>p. field_octets (jl_dumps L (JObj p))) ps" and ?t = "field_octets DEFAULT_TERMINAL_MARKER"
  have "stream_octets L ps = (concat (map (\<lambda>e. e @ [10, 10]) ?es) @ ?t) @ [10, 10]" by (simp add: stream_octets_def stream_events_def)
  then have cut: "take (length (stream_octets L ps) - 2) (stream_octets L ps) = concat (map (\<lambda>e. e @ [10, 10]) ?es) @ ?t" by simp
  have "find_sep ?t = None" by (intro find_sep_none field_plain) simp_all
  then have "split_events ?t = ([], ?t)" by (simp add: split_events.simps)
  then have s: "split_events (concat (map (\<lambda>e. e @ [10, 10]) ?es) @ ?t) = (?es, ?t)"
    using split_plain_events [of ?es ?t] stream_events_plain [OF assms] by (simp add: stream_events_def)
  have "\<exists>fs r. read_events L ?es default_reassembler = (Inr fs, r)"
    using read_stream_events [OF assms, of default_reassembler] by (auto simp: stream_events_def read_events_append split: prod.splits sum.splits)
  then show ?thesis unfolding cut using default_parse_events [OF s, of L] field_not_blank by (auto simp: Let_def)
qed

lemma doubled_parse:
  assumes "\<forall>p \<in> set ps. one_line_json L p"
  shows "default_parse L (double_first_blank (stream_octets L ps)) = default_parse L (stream_octets L ps)"
proof -
  obtain e es where es: "stream_events L ps = e # es" using stream_events_cons by blast
  let ?rest = "concat (map (\<lambda>e. e @ [10, 10]) es)"
  have plain: "10 \<notin> set e" "\<forall>e \<in> set es. 10 \<notin> set e" using stream_events_plain [OF assms] es by simp_all
  have raw: "stream_octets L ps = e @ 10 # 10 # ?rest" using es by (simp add: stream_octets_def)
  have s: "split_events (stream_octets L ps) = (e # es, [])" using split_stream [OF assms, of "[]"] es by simp
  have "split_events ?rest = (es, [])" using split_plain_events [OF plain(2), of "[]"] by simp
  then have "split_events (e @ 10 # 10 # 10 # 10 # ?rest) = (e # [] # es, [])"
    using find_sep_plain [OF plain(1), of "10 # 10 # ?rest"]
    by (simp add: split_events.simps [of "e @ 10 # 10 # 10 # 10 # ?rest"] split_events.simps [of "10 # 10 # ?rest"])
  moreover have "double_first_blank (stream_octets L ps) = e @ 10 # 10 # 10 # 10 # ?rest"
    using find_sep_plain [OF plain(1), of ?rest] by (simp add: double_first_blank_def raw)
  moreover have "read_events L (e # [] # es) r = read_events L (e # es) r" for r
    by (simp add: read_event_def blank_octets_def case_prod_beta split: sum.split)
  ultimately show ?thesis using default_parse_events [of _ "e # [] # es" "[]"] default_parse_events [OF s] by simp
qed

text \<open>The event with an unknown field that the oracle puts in front.\<close>

definition foreign_event :: octets where
  "foreign_event = utf8_bytes (ascii ''event: message'' @ [10] @ ascii ''foo: bar'')"

lemma foreign_event_lines: "split_lines (utf8_decode foreign_event) = [ascii ''event: message'', ascii ''foo: bar'']"
proof -
  have "list_all encodable (ascii ''event: message'' @ [10] @ ascii ''foo: bar'')" by (simp add: encodable_def)
  then have "utf8_decode foreign_event = ascii ''event: message'' @ [10] @ ascii ''foo: bar''" unfolding foreign_event_def by (rule utf8_roundtrip)
  then show ?thesis by (simp add: ascii_def)
qed

lemma foreign_event_sep: "find_sep (foreign_event @ 10 # 10 # rest) = Some (length foreign_event)"
  by (simp add: foreign_event_def ascii_def utf8_bytes_def utf8_char_def)

lemma read_foreign_event:
  "\<exists>f. read_event L foreign_event default_reassembler = (Inr [f], default_reassembler\<lparr>ra_index := 1, ra_frames := [f],
     ra_errors := [Unknown_field (ascii ''foo: bar'')]\<rparr>)"
proof -
  have nb: "\<not> blank_octets foreign_event" by (simp add: foreign_event_def blank_octets_def ascii_def utf8_bytes_def utf8_char_def)
  have "fold parse_line (split_lines (utf8_decode foreign_event)) ([], False, []) = ([], False, [Unknown_field (ascii ''foo: bar'')])"
    unfolding foreign_event_lines by (simp add: parse_line_def ascii_def)
  then show ?thesis using nb by (simp add: read_event_def parse_event_def Let_def)
qed

lemma unknown_field_parse:
  assumes "\<forall>p \<in> set ps. one_line_json L p"
  shows "\<exists>s fs. default_parse L (utf8_bytes (ascii ''event: message'' @ [10] @ ascii ''foo: bar'' @ newlines) @ stream_octets L ps) = Inr (s, fs)
    \<and> ss_errors s \<noteq> []"
proof -
  obtain f where f: "read_event L foreign_event default_reassembler = (Inr [f], default_reassembler\<lparr>ra_index := 1, ra_frames := [f],
     ra_errors := [Unknown_field (ascii ''foo: bar'')]\<rparr>)" using read_foreign_event by blast
  let ?r = "default_reassembler\<lparr>ra_index := 1, ra_frames := [f], ra_errors := [Unknown_field (ascii ''foo: bar'')]\<rparr>"
  have "utf8_bytes (ascii ''event: message'' @ [10] @ ascii ''foo: bar'' @ newlines) = foreign_event @ [10, 10]"
    by (simp only: foreign_event_def utf8_bytes_append utf8_newlines append.assoc)
  then have raw: "utf8_bytes (ascii ''event: message'' @ [10] @ ascii ''foo: bar'' @ newlines) @ stream_octets L ps = foreign_event @ 10 # 10 # stream_octets L ps"
    by simp
  have "split_events (stream_octets L ps) = (stream_events L ps, [])" using split_stream [OF assms, of "[]"] by simp
  then have s: "split_events (foreign_event @ 10 # 10 # stream_octets L ps) = (foreign_event # stream_events L ps, [])"
    by (simp add: split_events.simps [of "foreign_event @ 10 # 10 # stream_octets L ps"] foreign_event_sep)
  have "default_marker ?r" using default_reassembler_simps(1) by (simp add: default_marker_def)
  then show ?thesis unfolding raw using default_parse_events [OF s, of L] read_stream_events [OF assms, of ?r] f by (simp add: Let_def)
qed

text \<open>The parser's self-verification passes on every written stream: with \<open>n\<close> payloads it counts \<open>n + 1\<close> frames, at
  every cut as well, notices a second response in one read, a truncated separator and an unknown
  field, and tolerates a doubled blank line.\<close>

theorem parser_oracle_passes:
  assumes "\<forall>p \<in> set ps. one_line_json L p"
  shows "\<exists>encoded terminal.
    all_res (map (encode_data_frame L data_field) ps) = Inr encoded \<and> encode_terminal data_field DEFAULT_TERMINAL_MARKER = Inr terminal
    \<and> parser_oracle_cases L (concat encoded @ terminal) = Inr \<lparr>or_baseline_frames = length ps + 1, or_baseline_ok = True,
        or_fragmented_all_ok = True, or_fragmented_counts = [length ps + 1, length ps + 1, length ps + 1], or_sticky_detected = True,
        or_truncated_reported = True, or_unknown_field_reported = True, or_doubled_blank_tolerated = True\<rparr>"
proof -
  let ?raw = "stream_octets L ps"
  note full = parse_stream_octets [OF assms]
  have len: "length (stream_frames L 0 ps) = length ps + 1" by (metis (no_types) length_map length_append_singleton stream_frames_fields(1) Suc_eq_plus1)
  obtain s1 f1 where sticky: "default_parse L (?raw @ ?raw) = Inr (s1, f1)" "ss_frames s1 = 2 * (length ps + 1)" using sticky_parse [OF assms] by blast
  obtain s2 f2 where cut: "default_parse L (take (length ?raw - 2) ?raw) = Inr (s2, f2)" "\<not> ss_complete s2" using truncated_parse [OF assms] by blast
  obtain s3 f3 where unknown: "default_parse L (utf8_bytes (ascii ''event: message'' @ [10] @ ascii ''foo: bar'' @ newlines) @ ?raw) = Inr (s3, f3)" "ss_errors s3 \<noteq> []"
    using unknown_field_parse [OF assms] by blast
  have frag: "fragmentation_cases L ?raw [1, 3, 7] = Inr (map (\<lambda>k. (k, \<lparr>ss_frames = length ps + 1, ss_errors = [], ss_trailing_bytes = 0, ss_complete = True\<rparr>, stream_frames L 0 ps)) [1, 3, 7])"
    using fragmentation_cases_default [OF full, of "[1, 3, 7]"] stream_octets_long [of L ps] by simp
  have "parser_oracle_cases L ?raw = Inr \<lparr>or_baseline_frames = length ps + 1, or_baseline_ok = True,
        or_fragmented_all_ok = True, or_fragmented_counts = [length ps + 1, length ps + 1, length ps + 1], or_sticky_detected = True,
        or_truncated_reported = True, or_unknown_field_reported = True, or_doubled_blank_tolerated = True\<rparr>"
    using stream_octets_long [of L ps] sticky cut unknown len
    by (simp add: parser_oracle_cases_def full frag doubled_parse [OF assms] del: utf8_bytes_append One_nat_def)
  then show ?thesis using encode_stream [OF assms] by metis
qed

lemma boundary_frame_rebuilt:
  "reconstruct L [data_frame i d (boundary_payload txt)] = Inr \<lparr>rb_text = txt, rb_token_ids = [], rb_finish_reason = [], rb_usage = None\<rparr>"
  by (simp add: reconstruct_def rebuild_frame_def data_frame_def frame_text_def payload_choices_def boundary_payload_def ascii_def
      choice_text_def token_ids_def segment_tokens_def finish_reason_def usage_def)

text \<open>A text survives being cut inside a character: for encodable texts the boundary cases all complete and
  rebuild the text they sent.\<close>

theorem utf8_boundary_ok:
  assumes "\<forall>txt \<in> set texts. list_all encodable txt \<and> one_line_json L (boundary_payload txt)"
  shows "utf8_boundary_cases L texts = Inr (map (\<lambda>txt. \<lparr>bc_text = txt, bc_complete = True, bc_reconstructed = txt, bc_ok = True\<rparr>) texts)"
proof -
  have one: "boundary_result L t = Inr \<lparr>bc_text = t, bc_complete = True, bc_reconstructed = t, bc_ok = True\<rparr>" if "t \<in> set texts" for t
  proof -
    let ?p = "boundary_payload t"
    let ?d = "jl_dumps L (JObj ?p)"
    have p: "list_all encodable t" "one_line_json L ?p" using assms that by simp_all
    then have d: "list_all encodable ?d" "10 \<notin> set ?d" by (simp_all add: one_line_json_def Let_def)
    have s: "split_events (field_octets ?d @ [10, 10]) = ([field_octets ?d], [])"
      using split_plain_events [of "[field_octets ?d]" "[]"] field_plain [OF d] by simp
    have parse: "default_parse L (field_octets ?d @ [10, 10]) = Inr (\<lparr>ss_frames = 1, ss_errors = [], ss_trailing_bytes = 0, ss_complete = True\<rparr>, [data_frame 0 ?d ?p])"
      using default_parse_events [OF s, of L] read_data_event [OF p(2), of default_reassembler] by (simp add: Let_def blank_octets_def)
    show ?thesis
      using p(1) d(1) parse boundary_frame_rebuilt [of L 0 ?d t]
      by (simp add: boundary_result_def encode_data_frame_def encode_field utf8_encode_def [of t] parse_chunks_default Let_def)
  qed
  then show ?thesis unfolding utf8_boundary_cases_def by (induction texts) simp_all
qed

section \<open>Reconstruction\<close>

lemma rebuild_concat:
  assumes "forE (rebuild_frame L) frames b0 = Inr b" "\<forall>f \<in> set frames. ev_heartbeat f \<longrightarrow> ev_payload f = None"
  shows "\<exists>texts tokens. all_res (map frame_text frames) = Inr texts \<and> rb_text b = rb_text b0 @ concat texts
    \<and> all_res (map (token_ids L) frames) = Inr tokens \<and> rb_token_ids b = rb_token_ids b0 @ concat tokens"
  using assms
proof (induction frames arbitrary: b0)
  case (Cons f frames)
  obtain b1 where b1: "rebuild_frame L f b0 = Inr b1" "forE (rebuild_frame L) frames b1 = Inr b"
    using Cons.prems(1) by (auto simp: result_simps)
  obtain t ts where f: "frame_text f = Inr t" "token_ids L f = Inr ts" "rb_text b1 = rb_text b0 @ t" "rb_token_ids b1 = rb_token_ids b0 @ ts"
  proof (cases "ev_heartbeat f \<or> ev_terminal f")
    case True
    then have "frame_text f = Inr []" "token_ids L f = Inr []" using Cons.prems(2) by (auto simp: frame_text_def token_ids_def split: option.split)
    then show thesis using that b1(1) True by (simp add: rebuild_frame_def)
  next
    case False
    then show thesis using that b1(1) by (auto simp: rebuild_frame_def result_simps)
  qed
  obtain texts tokens where IH: "all_res (map frame_text frames) = Inr texts" "rb_text b = rb_text b1 @ concat texts"
      "all_res (map (token_ids L) frames) = Inr tokens" "rb_token_ids b = rb_token_ids b1 @ concat tokens"
    using Cons.IH [OF b1(2)] Cons.prems(2) by auto
  then show ?case using f by simp
qed simp

text \<open>Reconstruction loses nothing: the rebuilt text and tokens are the concatenation of what the frames carry, in order, and
  the drop check accepts exactly the number of tokens that were rebuilt.\<close>

theorem reconstruct_concatenates:
  assumes "reconstruct L frames = Inr b" "\<forall>f \<in> set frames. ev_heartbeat f \<longrightarrow> ev_payload f = None"
  shows "\<exists>texts tokens. all_res (map frame_text frames) = Inr texts \<and> rb_text b = concat texts
    \<and> all_res (map (token_ids L) frames) = Inr tokens \<and> rb_token_ids b = concat tokens
    \<and> (require_no_silent_drop L frames n = Inr () \<longleftrightarrow> n = int (length (rb_token_ids b)))"
proof -
  obtain texts tokens where r: "all_res (map frame_text frames) = Inr texts" "rb_text b = concat texts"
      "all_res (map (token_ids L) frames) = Inr tokens" "rb_token_ids b = concat tokens"
    using rebuild_concat [OF assms(1) [unfolded reconstruct_def] assms(2)] by auto
  moreover have "require_no_silent_drop L frames n = Inr () \<longleftrightarrow> n = int (length (concat tokens))"
    using r(3) by (auto simp: require_no_silent_drop_def length_concat)
  ultimately show ?thesis by metis
qed

text \<open>A stream without a finish reason never equals the body of the same answer.\<close>

lemma missing_reason_reported:
  assumes "stream_vs_nonstream L frames body = Inr (problems, b, t)" "rb_finish_reason b = []" "first_choice body = Inr (JObj m)"
    "map_of m (ascii ''finish_reason'') \<in> {None, Some JNull}"
  shows "Finish_reason_differs \<in> set problems"
  using assms by (auto simp: stream_vs_nonstream_def Let_def result_simps)

section \<open>Witnesses\<close>

text \<open>A codec for one payload: it writes the text of the delta in braces.\<close>

definition demo_lib :: "utext \<Rightarrow> json_lib" where
  "demo_lib t = \<lparr>jl_loads = \<lambda>_. Loaded (JObj (boundary_payload t)), jl_dumps = \<lambda>_. ascii ''{'' @ t @ ascii ''}'',
     jl_int = \<lambda>_. None, jl_str = \<lambda>_. []\<rparr>"

text \<open>Two characters of three bytes each.\<close>

definition demo_text :: utext where
  "demo_text = [20320, 22909]"

lemma demo_one_line: "one_line_json (demo_lib demo_text) (boundary_payload demo_text)"
  by (simp add: one_line_json_def demo_lib_def demo_text_def ascii_def encodable_def Let_def)

lemma utf8_boundary_ok_witness:
  "utf8_boundary_cases (demo_lib demo_text) [demo_text]
   = Inr [\<lparr>bc_text = demo_text, bc_complete = True, bc_reconstructed = demo_text, bc_ok = True\<rparr>]"
  using utf8_boundary_ok [of "[demo_text]" "demo_lib demo_text"] demo_one_line by (simp add: demo_text_def encodable_def)

lemma parser_oracle_passes_witness:
  "\<exists>raw. parser_oracle_cases (demo_lib demo_text) raw = Inr \<lparr>or_baseline_frames = 2, or_baseline_ok = True,
     or_fragmented_all_ok = True, or_fragmented_counts = [2, 2, 2], or_sticky_detected = True,
     or_truncated_reported = True, or_unknown_field_reported = True, or_doubled_blank_tolerated = True\<rparr>"
  using parser_oracle_passes [of "[boundary_payload demo_text]" "demo_lib demo_text"] demo_one_line by (auto simp: numeral_2_eq_2)

lemma stream_roundtrip_witness:
  "\<exists>frames. frames_from_payloads (demo_lib demo_text) [boundary_payload demo_text] = Inr frames
     \<and> map ev_payload frames = [Some (boundary_payload demo_text), None]
     \<and> sr_problems (validate_stream DEFAULT_TERMINAL_MARKER True frames) = []"
proof -
  have "has_keys (boundary_payload demo_text)" by (simp add: has_keys_def boundary_payload_def ascii_def)
  then show ?thesis using stream_roundtrip [of "[boundary_payload demo_text]" "demo_lib demo_text"] demo_one_line by auto
qed

lemma feed_stream:
  assumes "\<forall>p \<in> set ps. one_line_json L p"
  shows "feed L (stream_octets L ps) default_reassembler = (Inr (stream_frames L 0 ps),
    default_reassembler\<lparr>ra_index := int (length ps) + 1, ra_frames := stream_frames L 0 ps\<rparr>)"
proof -
  have b: "ra_buffer default_reassembler = []" by (simp add: default_reassembler_def new_reassembler_def)
  have s: "split_events (ra_buffer default_reassembler @ stream_octets L ps) = (stream_events L ps, [])"
    using split_stream [OF assms, of "[]"] b by simp
  show ?thesis using feed_events [OF s, of L] read_stream_events [OF assms, of default_reassembler] b by simp
qed

definition demo_stream :: octets where
  "demo_stream = stream_octets (demo_lib demo_text) [boundary_payload demo_text]"

definition demo_reader :: reassembler where
  "demo_reader = snd (feed (demo_lib demo_text) demo_stream default_reassembler)"

lemma demo_reader_frames:
  "feed (demo_lib demo_text) demo_stream default_reassembler = (Inr (ra_frames demo_reader), demo_reader)"
  "map ev_terminal (ra_frames demo_reader) = [False, True]" "ra_buffer demo_reader = []"
proof -
  note f = feed_stream [of "[boundary_payload demo_text]" "demo_lib demo_text"]
  show "feed (demo_lib demo_text) demo_stream default_reassembler = (Inr (ra_frames demo_reader), demo_reader)"
    "map ev_terminal (ra_frames demo_reader) = [False, True]" "ra_buffer demo_reader = []"
    using f demo_one_line by (simp_all add: demo_reader_def demo_stream_def data_frame_def terminal_frame_def default_reassembler_def new_reassembler_def)
qed

lemma reader_frames_consistent_witness:
  "map ev_index (ra_frames demo_reader) = map int [0..<length (ra_frames demo_reader)] \<and> map ev_terminal (ra_frames demo_reader) = [False, True]"
proof -
  have "(reader_step (demo_lib demo_text))\<^sup>*\<^sup>* (new_reassembler data_field DEFAULT_TERMINAL_MARKER) demo_reader"
    unfolding demo_reader_def default_reassembler_def by (rule r_into_rtranclp) (rule reader_step.Feed)
  note t = reader_frames_consistent [OF this marker_plain(3), of True]
  then show ?thesis using demo_reader_frames(2) by blast
qed

lemma reader_conserves_bytes_witness:
  "\<exists>es. demo_stream = concat (map (\<lambda>e. e @ [10, 10]) es) \<and> map ev_raw (ra_frames demo_reader) = filter (\<lambda>e. \<not> blank_octets e) es"
proof -
  have "feed_all (demo_lib demo_text) [demo_stream] (new_reassembler data_field DEFAULT_TERMINAL_MARKER) = (Inr (ra_frames demo_reader), demo_reader)"
    using demo_reader_frames(1) by (simp add: default_reassembler_def)
  from reader_conserves_bytes [OF this] show ?thesis using demo_reader_frames(3) by auto
qed

lemma reconstruct_concatenates_witness:
  "\<exists>texts. all_res (map frame_text [data_frame 0 [] (boundary_payload demo_text)]) = Inr texts \<and> concat texts = demo_text"
  using reconstruct_concatenates [OF boundary_frame_rebuilt [of "demo_lib demo_text" 0 "[]" demo_text], of 0]
  by (auto simp: data_frame_def)

end
