(* ===== verification/Py_List.thy ===== *)
theory Py_List
  imports Errors
begin

text \<open>
  Python lists as the distributed layer uses them: slices with negative and out-of-range bounds, indexing
  that raises, integer ranges, and \<open>zip(*rows)\<close>, which stops at the shortest row.
\<close>

definition clamp_index :: "int \<Rightarrow> int \<Rightarrow> int" where
  "clamp_index len i = (if i < 0 then max 0 (i + len) else min i len)"

definition py_slice :: "int \<Rightarrow> int \<Rightarrow> 'a list \<Rightarrow> 'a list" where
  "py_slice i j xs =
     (let len = int (length xs); lo = nat (clamp_index len i); hi = nat (clamp_index len j)
      in take (hi - lo) (drop lo xs))"

definition py_nth :: "'a list \<Rightarrow> nat \<Rightarrow> 'a res" where
  "py_nth xs i = (if i < length xs then Inr (xs ! i) else Inl IndexError)"

definition py_range :: "int \<Rightarrow> int list" where
  "py_range n = map int [0..<nat n]"

definition zip_rows :: "'a list list \<Rightarrow> 'a list list" where
  "zip_rows rows = (if rows = [] then [] else map (\<lambda>i. map (\<lambda>row. row ! i) rows) [0..<Min (set (map length rows))])"

section \<open>Slices\<close>

lemma py_slice_nat: "0 \<le> i \<Longrightarrow> i \<le> j \<Longrightarrow> j \<le> int (length xs) \<Longrightarrow> py_slice i j xs = take (nat (j - i)) (drop (nat i) xs)"
  by (simp add: py_slice_def clamp_index_def nat_diff_distrib Let_def)

lemma length_py_slice: "0 \<le> i \<Longrightarrow> i \<le> j \<Longrightarrow> j \<le> int (length xs) \<Longrightarrow> int (length (py_slice i j xs)) = j - i"
  by (simp add: py_slice_nat)

lemma py_slice_all [simp]: "py_slice 0 (int (length xs)) xs = xs"
  by (simp add: py_slice_nat)

lemma py_slice_empty: "0 \<le> i \<Longrightarrow> i \<le> int (length xs) \<Longrightarrow> py_slice i i xs = []"
  by (simp add: py_slice_nat)

lemma py_slice_split:
  assumes "0 \<le> i" "i \<le> j" "j \<le> k" "k \<le> int (length xs)"
  shows "py_slice i j xs @ py_slice j k xs = py_slice i k xs"
proof -
  have "take (nat (j - i)) (drop (nat i) xs) @ take (nat (k - j)) (drop (nat (j - i)) (drop (nat i) xs))
      = take (nat (j - i) + nat (k - j)) (drop (nat i) xs)" by (simp only: take_add)
  moreover have "nat (j - i) + nat i = nat j" "nat (j - i) + nat (k - j) = nat (k - i)" using assms by linarith+
  ultimately show ?thesis using assms by (simp add: py_slice_nat)
qed

lemma py_slice_append:
  assumes "0 \<le> i" "i \<le> j" "j \<le> int (length ys)"
  shows "py_slice (int (length xs) + i) (int (length xs) + j) (xs @ ys @ zs) = py_slice i j ys"
  using assms by (simp add: py_slice_nat nat_add_distrib)

lemma length_py_range [simp]: "length (py_range n) = nat n"
  by (simp add: py_range_def)

lemma set_py_range [simp]: "set (py_range n) = {0..<n}"
proof -
  have "x \<in> int ` {0..<nat n}" if "0 \<le> x" "x < n" for x
    using that by (intro image_eqI [of _ _ "nat x"]) simp_all
  then show ?thesis by (auto simp: py_range_def)
qed

lemma nth_py_range: "i < nat n \<Longrightarrow> py_range n ! i = int i"
  by (simp add: py_range_def)

lemma distinct_singleton_set: "distinct xs \<Longrightarrow> set xs = {p} \<Longrightarrow> xs = [p]"
  by (cases xs; cases "tl xs") auto

text \<open>A family of adjacent slices.\<close>

lemma concat_adjacent_slices:
  assumes "\<And>i. i < n \<Longrightarrow> 0 \<le> f i \<and> f i \<le> f (Suc i) \<and> f (Suc i) \<le> int (length xs)" "0 \<le> f 0" "f 0 \<le> int (length xs)"
  shows "concat (map (\<lambda>i. py_slice (f i) (f (Suc i)) xs) [0..<n]) = py_slice (f 0) (f n) xs \<and> f 0 \<le> f n"
  using assms
proof (induction n)
  case 0
  then show ?case by (simp add: py_slice_empty)
next
  case (Suc n)
  then have IH: "concat (map (\<lambda>i. py_slice (f i) (f (Suc i)) xs) [0..<n]) = py_slice (f 0) (f n) xs" "f 0 \<le> f n" by simp_all
  have "py_slice (f 0) (f n) xs @ py_slice (f n) (f (Suc n)) xs = py_slice (f 0) (f (Suc n)) xs"
    using Suc.prems(1) [of n] Suc.prems(2) IH(2) by (intro py_slice_split) simp_all
  then show ?case using IH Suc.prems(1) [of n] by simp
qed

end
