(* ===== verification/Tensor_Shards.thy ===== *)
theory Tensor_Shards
  imports Py_List Float64
begin

text \<open>
  The shards of \<open>hqsb/distributed/parallel_plan.py\<close>: how an axis of a parameter is divided among ranks, how a
  flattened tensor is split and merged, the audit of the ranges, and the linear blocks that are computed shard
  by shard. A float operation is the exact one followed by \<open>fl\<close>; the sum of a list of floats and the
  exponential (which may raise) are arguments.
\<close>

definition require :: "bool \<Rightarrow> string \<Rightarrow> unit res" where
  "require condition what = ensure condition (ConfigError what)"

definition shape_prod :: "int list \<Rightarrow> int" where
  "shape_prod shape = foldl (*) 1 shape"

section \<open>Shard specifications\<close>

definition SHARD_AXES :: "string list" where
  "SHARD_AXES = [''row'', ''column'', ''none'']"

record shard_spec =
  sh_param_name :: string
  sh_global_shape :: "int list"
  sh_axis :: string
  sh_index :: int
  sh_count :: int
  sh_start :: int
  sh_end :: int
  sh_padding :: int
  sh_replicated :: bool
  sh_dtype :: string

definition axis_of :: "string \<Rightarrow> nat" where
  "axis_of shard_axis = (if shard_axis = ''row'' then 0 else 1)"

definition check_shard :: "shard_spec \<Rightarrow> shard_spec res" where
  "check_shard s =
     bindE (require (sh_axis s \<in> set SHARD_AXES) ''shard_axis'') (\<lambda>_.
     bindE (require (sh_count s \<ge> 1) ''shard_count'') (\<lambda>_.
     bindE (require (0 \<le> sh_index s \<and> sh_index s < sh_count s) ''shard_index'') (\<lambda>_.
     bindE (if sh_axis s = ''none'' then require (sh_replicated s) ''replicated''
            else require (axis_of (sh_axis s) < length (sh_global_shape s)) ''global_shape'') (\<lambda>_.
     bindE (require (sh_padding s \<ge> 0) ''padding'') (\<lambda>_. Inr s)))))"

definition local_shape :: "shard_spec \<Rightarrow> int list" where
  "local_shape s = (if sh_axis s = ''none'' then sh_global_shape s
     else (sh_global_shape s)[axis_of (sh_axis s) := sh_end s - sh_start s])"

definition shard_numel :: "shard_spec \<Rightarrow> int" where
  "shard_numel s = shape_prod (local_shape s)"

text \<open>The loop of \<open>plan_axis_shards\<close>: the shards and the end of the last one.\<close>

fun axis_shards :: "(int \<Rightarrow> int \<Rightarrow> int \<Rightarrow> shard_spec) \<Rightarrow> int \<Rightarrow> int \<Rightarrow> int \<Rightarrow> int list \<Rightarrow> (shard_spec list \<times> int) res" where
  "axis_shards mk base remainder start [] = Inr ([], start)"
| "axis_shards mk base remainder start (index # indices) =
     (let len = base + (if index < remainder then 1 else 0); stop = start + len
      in bindE (check_shard (mk index start stop)) (\<lambda>s.
         bindE (axis_shards mk base remainder stop indices) (\<lambda>(ss, last_end). Inr (s # ss, last_end))))"

definition plan_axis_shards :: "string \<Rightarrow> int list \<Rightarrow> string \<Rightarrow> int \<Rightarrow> string \<Rightarrow> bool \<Rightarrow> shard_spec list res" where
  "plan_axis_shards param_name global_shape shard_axis shard_count dtype allow_padding =
     bindE (require (shard_axis = ''row'' \<or> shard_axis = ''column'') ''shard_axis'') (\<lambda>_.
     bindE (require (axis_of shard_axis < length global_shape) ''axis'') (\<lambda>_.
     let total = global_shape ! axis_of shard_axis in
     if shard_count = 0 then Inl ZeroDivisionError
     else let base = total div shard_count; remainder = total mod shard_count
     in if remainder \<noteq> 0 \<and> \<not> allow_padding then Inl (ConfigError ''global_shape'')
        else bindE (axis_shards (\<lambda>index start stop. \<lparr>sh_param_name = param_name, sh_global_shape = global_shape, sh_axis = shard_axis,
                 sh_index = index, sh_count = shard_count, sh_start = start, sh_end = stop, sh_padding = 0,
                 sh_replicated = False, sh_dtype = dtype\<rparr>) base remainder 0 (py_range shard_count)) (\<lambda>(specs, start).
             bindE (require (start = total) ''cover'') (\<lambda>_. Inr specs))))"

definition replicated_shard :: "string \<Rightarrow> int list \<Rightarrow> string \<Rightarrow> int \<Rightarrow> shard_spec res" where
  "replicated_shard param_name global_shape dtype count =
     check_shard \<lparr>sh_param_name = param_name, sh_global_shape = global_shape, sh_axis = ''none'', sh_index = 0,
       sh_count = count, sh_start = 0, sh_end = (if global_shape = [] then 0 else hd global_shape), sh_padding = 0,
       sh_replicated = True, sh_dtype = dtype\<rparr>"

section \<open>Splitting and merging flattened tensors\<close>

definition split_flat :: "'a list \<Rightarrow> int list \<Rightarrow> shard_spec \<Rightarrow> 'a list res" where
  "split_flat values global_shape s =
     bindE (require (int (length values) = shape_prod global_shape) ''values'') (\<lambda>_.
     if sh_axis s = ''none'' then Inr values
     else if axis_of (sh_axis s) = 0 then
       (let stride = shape_prod (drop 1 global_shape) in Inr (py_slice (sh_start s * stride) (sh_end s * stride) values))
     else bindE (py_nth global_shape 0) (\<lambda>rows. bindE (py_nth global_shape 1) (\<lambda>row_stride.
       Inr (concat (map (\<lambda>row. py_slice (row * row_stride + sh_start s) (row * row_stride + sh_end s) values) (py_range rows))))))"

text \<open>One shard appended to the rows merged so far.\<close>

definition append_shard :: "int \<Rightarrow> 'a list list \<Rightarrow> 'a list \<Rightarrow> 'a list list" where
  "append_shard rows merged_rows shard =
     map (\<lambda>row. (if row < length merged_rows then merged_rows ! row else [])
         @ (let len = int (length shard) div rows in py_slice (int row * len) ((int row + 1) * len) shard)) [0..<nat rows]"

definition merge_flat :: "'a list list \<Rightarrow> shard_spec \<Rightarrow> int list \<Rightarrow> 'a list res" where
  "merge_flat shards template global_shape =
     (if sh_axis template = ''none'' then Inr (if shards = [] then [] else hd shards)
      else if axis_of (sh_axis template) = 0 then
        (let merged = concat shards in
         bindE (require (int (length merged) = shape_prod global_shape) ''row merge'') (\<lambda>_. Inr merged))
      else bindE (py_nth global_shape 0) (\<lambda>rows. bindE (py_nth global_shape 1) (\<lambda>row_stride.
        let merged = concat (foldl (append_shard rows) [] shards) in
        bindE (require (int (length merged) = shape_prod global_shape) ''column merge'') (\<lambda>_. Inr merged))))"

section \<open>The range audit\<close>

fun scan_ranges :: "int \<Rightarrow> (int \<times> int) list \<Rightarrow> (int \<times> int) list \<times> (int \<times> int) list \<times> int" where
  "scan_ranges cursor [] = ([], [], cursor)"
| "scan_ranges cursor ((start, stop) # ranges) =
     (let (overlaps, gaps, last_end) = scan_ranges (max cursor stop) ranges
      in ((if start < cursor then [(start, stop)] else []) @ overlaps,
          (if start > cursor then [(cursor, start)] else []) @ gaps, last_end))"

definition audit_ranges :: "int \<Rightarrow> (int \<times> int) list \<Rightarrow> (int \<times> int) list \<times> (int \<times> int) list" where
  "audit_ranges extent ranges =
     (let (overlaps, gaps, cursor) = scan_ranges 0 (sort ranges)
      in (overlaps, gaps @ (if cursor \<noteq> extent then [(cursor, extent)] else [])))"

record range_audit =
  au_overlaps :: "(string \<times> (int \<times> int)) list"
  au_gaps :: "(string \<times> (int \<times> int)) list"

text \<open>The specifications of one parameter, by the axis of its first one.\<close>

definition audit_param :: "shard_spec list \<Rightarrow> int list \<Rightarrow> string \<Rightarrow> range_audit res" where
  "audit_param specs global_shape param =
     (let items = filter (\<lambda>s. sh_param_name s = param) specs; axis = sh_axis (hd items)
      in if axis = ''none'' then Inr \<lparr>au_overlaps = [], au_gaps = []\<rparr>
         else bindE (py_nth global_shape (axis_of axis)) (\<lambda>extent.
           case audit_ranges extent (map (\<lambda>s. (sh_start s, sh_end s)) items) of
             (overlaps, gaps) \<Rightarrow> Inr \<lparr>au_overlaps = map (Pair param) overlaps, au_gaps = map (Pair param) gaps\<rparr>))"

definition verify_shard_ranges :: "shard_spec list \<Rightarrow> int list \<Rightarrow> range_audit res" where
  "verify_shard_ranges specs global_shape =
     bindE (all_res (map (audit_param specs global_shape) (sort (remdups (map sh_param_name specs))))) (\<lambda>audits.
       Inr \<lparr>au_overlaps = concat (map au_overlaps audits), au_gaps = concat (map au_gaps audits)\<rparr>)"

section \<open>Linear blocks\<close>

definition dot_row :: "rat list \<Rightarrow> nat \<Rightarrow> rat list \<Rightarrow> nat \<Rightarrow> nat \<Rightarrow> rat" where
  "dot_row weight w_base x x_base n = foldl (\<lambda>acc i. fl (acc + fl (weight ! (w_base + i) * x ! (x_base + i)))) 0 [0..<n]"

definition matmul :: "rat list \<Rightarrow> int \<Rightarrow> int \<Rightarrow> rat list \<Rightarrow> int \<Rightarrow> rat list res" where
  "matmul weight out_features in_features x rows0 =
     (let rows = (if rows0 < 1 then 1 else rows0) in
      bindE (require (int (length weight) = out_features * in_features) ''weight'') (\<lambda>_.
      bindE (require (int (length x) = rows * in_features) ''x'') (\<lambda>_.
        Inr (concat (map (\<lambda>row. map (\<lambda>out. dot_row weight (out * nat in_features) x (row * nat in_features) (nat in_features))
               [0..<nat out_features]) [0..<nat rows])))))"

text \<open>\<open>max(abs(a - b) for a, b in zip(full, merged)) if full else 0.0\<close>\<close>

definition max_abs_diff :: "rat list \<Rightarrow> rat list \<Rightarrow> rat res" where
  "max_abs_diff full merged =
     (if full = [] then Inr 0
      else let diffs = map (\<lambda>(a, b). \<bar>fl (a - b)\<bar>) (zip full merged)
      in if diffs = [] then Inl (ValueError ''max'') else Inr (Max (set diffs)))"

record block_case =
  bk_full :: "rat list"
  bk_merged :: "rat list"
  bk_max_abs :: rat
  bk_bytes :: int

text \<open>\<open>len(x) // in_features\<close>\<close>

definition rows_of :: "rat list \<Rightarrow> int \<Rightarrow> int res" where
  "rows_of x in_features = (if in_features = 0 then Inl ZeroDivisionError else Inr (int (length x) div in_features))"

definition column_parallel_case :: "rat list \<Rightarrow> int \<Rightarrow> int \<Rightarrow> int \<Rightarrow> rat list \<Rightarrow> block_case res" where
  "column_parallel_case weight out_features in_features degree x =
     bindE (plan_axis_shards ''w'' [out_features, in_features] ''row'' degree ''fp16'' False) (\<lambda>specs.
     bindE (all_res (map (split_flat weight [out_features, in_features]) specs)) (\<lambda>shards.
     bindE (rows_of x in_features) (\<lambda>rows.
     bindE (matmul weight out_features in_features x rows) (\<lambda>full.
     bindE (all_res (map (\<lambda>(shard, s). matmul shard (sh_end s - sh_start s) in_features x rows) (zip shards specs))) (\<lambda>parts.
     bindE (max_abs_diff full (concat parts)) (\<lambda>d.
       Inr \<lparr>bk_full = full, bk_merged = concat parts, bk_max_abs = d, bk_bytes = int (sum_list (map length shards)) * 2\<rparr>))))))"

definition row_parallel_case :: "(rat list \<Rightarrow> rat) \<Rightarrow> rat list \<Rightarrow> int \<Rightarrow> int \<Rightarrow> int \<Rightarrow> rat list \<Rightarrow> (block_case \<times> rat list list) res" where
  "row_parallel_case fsum weight out_features in_features degree x =
     bindE (plan_axis_shards ''w'' [out_features, in_features] ''column'' degree ''fp16'' False) (\<lambda>specs.
     bindE (plan_axis_shards ''x'' [1, in_features] ''column'' degree ''fp16'' False) (\<lambda>x_specs.
     bindE (all_res (map (\<lambda>(s, x_s).
        bindE (split_flat weight [out_features, in_features] s) (\<lambda>shard.
        bindE (split_flat x [1, in_features] x_s) (\<lambda>x_shard.
          matmul shard out_features (sh_end s - sh_start s) x_shard 1))) (zip specs x_specs))) (\<lambda>partials.
     let merged = map fsum (zip_rows partials) in
     bindE (matmul weight out_features in_features x 1) (\<lambda>full.
     bindE (max_abs_diff full merged) (\<lambda>d.
       Inr (\<lparr>bk_full = full, bk_merged = merged, bk_max_abs = d, bk_bytes = out_features * 2\<rparr>, partials))))))"

text \<open>\<open>value / (1.0 + math.exp(-value))\<close>\<close>

definition silu :: "(rat \<Rightarrow> rat res) \<Rightarrow> rat \<Rightarrow> rat res" where
  "silu exp_fl v = bindE (exp_fl (- v)) (\<lambda>e. Inr (fl (v / fl (1 + e))))"

definition mlp_partial :: "(rat \<Rightarrow> rat res) \<Rightarrow> int \<Rightarrow> int \<Rightarrow> rat list \<Rightarrow> rat list \<Rightarrow> rat list \<Rightarrow> rat list \<Rightarrow> shard_spec \<times> shard_spec \<Rightarrow> (rat list \<times> rat list) res" where
  "mlp_partial exp_fl hidden intermediate x gate up down specs =
     (case specs of (gate_spec, down_spec) \<Rightarrow>
      let local_rows = sh_end gate_spec - sh_start gate_spec in
      bindE (split_flat gate [intermediate, hidden] gate_spec) (\<lambda>gate_shard.
      bindE (split_flat up [intermediate, hidden] gate_spec) (\<lambda>up_shard.
      bindE (matmul gate_shard local_rows hidden x 1) (\<lambda>g.
      bindE (matmul up_shard local_rows hidden x 1) (\<lambda>u.
      bindE (all_res (map (\<lambda>i. bindE (silu exp_fl (g ! i)) (\<lambda>a. Inr (fl (a * u ! i)))) [0..<nat local_rows])) (\<lambda>activated.
      bindE (split_flat down [hidden, intermediate] down_spec) (\<lambda>down_shard.
      bindE (matmul down_shard hidden (sh_end down_spec - sh_start down_spec) activated 1) (\<lambda>partial.
        Inr (activated, partial)))))))))"

definition mlp_block_case ::
  "(rat list \<Rightarrow> rat) \<Rightarrow> (rat \<Rightarrow> rat res) \<Rightarrow> int \<Rightarrow> int \<Rightarrow> int \<Rightarrow> rat list \<Rightarrow> rat list \<Rightarrow> rat list \<Rightarrow> rat list \<Rightarrow> (rat list \<times> rat list list) res" where
  "mlp_block_case fsum exp_fl hidden intermediate degree x gate up down =
     bindE (require (int (length x) = hidden) ''x'') (\<lambda>_.
     bindE (plan_axis_shards ''gate_up'' [intermediate, hidden] ''row'' degree ''fp16'' False) (\<lambda>gate_specs.
     bindE (plan_axis_shards ''down'' [hidden, intermediate] ''column'' degree ''fp16'' False) (\<lambda>down_specs.
     bindE (all_res (map (mlp_partial exp_fl hidden intermediate x gate up down) (zip gate_specs down_specs))) (\<lambda>parts.
       Inr (map fsum (zip_rows (map snd parts)), map fst parts)))))"

end
