(* ===== verification/Tensor_Shards_Props.thy ===== *)
theory Tensor_Shards_Props
  imports Tensor_Shards
begin

text \<open>
  The shards of one axis tile it, the range audit accepts exactly the tilings, splitting and merging are inverse,
  and the two linear blocks agree with the unsplit product where the code claims it.
\<close>

section \<open>The ranges of the shards\<close>

definition shard_off :: "int \<Rightarrow> int \<Rightarrow> nat \<Rightarrow> int" where
  "shard_off base remainder i = int i * base + min (int i) remainder"

lemma shard_off_0 [simp]: "0 \<le> remainder \<Longrightarrow> shard_off base remainder 0 = 0"
  by (simp add: shard_off_def)

lemma shard_off_Suc: "shard_off base remainder (Suc i) = shard_off base remainder i + base + (if int i < remainder then 1 else 0)"
  by (simp add: shard_off_def algebra_simps)

lemma shard_off_even: "shard_off base 0 i = int i * base"
  by (simp add: shard_off_def)

lemma shard_off_last: "0 < c \<Longrightarrow> shard_off (t div c) (t mod c) (nat c) = t"
proof -
  assume "0 < c"
  then have "min (int (nat c)) (t mod c) = t mod c" by (simp add: min_absorb2 less_imp_le)
  then show ?thesis using \<open>0 < c\<close> by (simp add: shard_off_def)
qed

lemma shard_off_mono: "0 \<le> base \<Longrightarrow> i \<le> j \<Longrightarrow> shard_off base remainder i \<le> shard_off base remainder j"
  by (simp add: shard_off_def add_mono mult_right_mono)

lemma shard_off_le:
  assumes "0 < c" "0 \<le> t" "i \<le> nat c"
  shows "shard_off (t div c) (t mod c) i \<le> t"
  using shard_off_mono [of "t div c" i "nat c" "t mod c"] shard_off_last [of c t] assms by (simp add: pos_imp_zdiv_nonneg_iff)

lemma shard_off_nonneg: "0 \<le> base \<Longrightarrow> 0 \<le> remainder \<Longrightarrow> 0 \<le> shard_off base remainder i"
  by (simp add: shard_off_def)

lemma axis_shards_eq:
  assumes "\<And>i start stop. i < n \<Longrightarrow> check_shard (mk (int i) start stop) = Inr (mk (int i) start stop)" and "k \<le> n"
  shows "axis_shards mk base remainder (shard_off base remainder k) (map int [k..<n])
    = Inr (map (\<lambda>i. mk (int i) (shard_off base remainder i) (shard_off base remainder (Suc i))) [k..<n], shard_off base remainder n)"
  using \<open>k \<le> n\<close>
proof (induction "n - k" arbitrary: k)
  case 0
  then show ?case by simp
next
  case (Suc d)
  then have k: "k < n" "[k..<n] = k # [Suc k..<n]" by (simp_all add: upt_rec)
  have "shard_off base remainder k + (base + (if int k < remainder then 1 else 0)) = shard_off base remainder (Suc k)"
    by (simp add: shard_off_Suc)
  with k assms(1) [of k] Suc.hyps(1) [of "Suc k"] Suc.hyps(2) show ?case by (simp add: Let_def)
qed

text \<open>The shard \<open>i\<close> of an axis.\<close>

definition nth_shard :: "string \<Rightarrow> int list \<Rightarrow> string \<Rightarrow> int \<Rightarrow> string \<Rightarrow> nat \<Rightarrow> shard_spec" where
  "nth_shard p shape axis c d i =
     (let t = shape ! axis_of axis in
      \<lparr>sh_param_name = p, sh_global_shape = shape, sh_axis = axis, sh_index = int i, sh_count = c,
       sh_start = shard_off (t div c) (t mod c) i, sh_end = shard_off (t div c) (t mod c) (Suc i), sh_padding = 0,
       sh_replicated = False, sh_dtype = d\<rparr>)"

lemma nth_shard_simps [simp]:
  "sh_param_name (nth_shard p shape axis c d i) = p" "sh_global_shape (nth_shard p shape axis c d i) = shape"
  "sh_axis (nth_shard p shape axis c d i) = axis" "sh_index (nth_shard p shape axis c d i) = int i"
  "sh_start (nth_shard p shape axis c d i) = shard_off (shape ! axis_of axis div c) (shape ! axis_of axis mod c) i"
  "sh_end (nth_shard p shape axis c d i) = shard_off (shape ! axis_of axis div c) (shape ! axis_of axis mod c) (Suc i)"
  "sh_replicated (nth_shard p shape axis c d i) = False" "sh_count (nth_shard p shape axis c d i) = c"
  by (simp_all add: nth_shard_def Let_def)

lemma plan_axis_shards_eq:
  assumes "axis = ''row'' \<or> axis = ''column''" "axis_of axis < length shape" "1 \<le> c"
    "allow_padding \<or> c dvd shape ! axis_of axis"
  shows "plan_axis_shards p shape axis c d allow_padding = Inr (map (nth_shard p shape axis c d) [0..<nat c])"
proof -
  let ?t = "shape ! axis_of axis"
  let ?mk = "\<lambda>index start stop. \<lparr>sh_param_name = p, sh_global_shape = shape, sh_axis = axis,
                 sh_index = index, sh_count = c, sh_start = start, sh_end = stop, sh_padding = 0,
                 sh_replicated = False, sh_dtype = d\<rparr>"
  have chk: "check_shard (?mk (int i) start stop) = Inr (?mk (int i) start stop)" if "i < nat c" for i start stop
  proof -
    have "int i < c" using that assms(3) by linarith
    then show ?thesis using assms(1,2,3) by (elim disjE) (simp_all add: check_shard_def require_def SHARD_AXES_def)
  qed
  have "axis_shards ?mk (?t div c) (?t mod c) 0 (py_range c)
      = Inr (map (nth_shard p shape axis c d) [0..<nat c], ?t)"
    using axis_shards_eq [of "nat c" ?mk 0 "?t div c" "?t mod c"] chk assms(3) shard_off_last [of c ?t]
    by (simp add: py_range_def nth_shard_def [abs_def] Let_def)
  then show ?thesis using assms by (auto simp: plan_axis_shards_def require_def Let_def dvd_eq_mod_eq_0)
qed

lemma plan_axis_shards_indivisible:
  assumes "axis = ''row'' \<or> axis = ''column''" "axis_of axis < length shape" "1 \<le> c"
    "\<not> allow_padding" "\<not> c dvd shape ! axis_of axis"
  shows "plan_axis_shards p shape axis c d allow_padding = Inl (ConfigError ''global_shape'')"
  using assms by (auto simp: plan_axis_shards_def require_def Let_def dvd_eq_mod_eq_0)

lemma plan_axis_shards_no_axis:
  assumes "axis = ''row'' \<or> axis = ''column''" "\<not> axis_of axis < length shape"
  shows "plan_axis_shards p shape axis c d allow_padding = Inl (ConfigError ''axis'')"
  using assms by (auto simp: plan_axis_shards_def require_def ensure_def)

lemma plan_axis_shards_Inr:
  assumes "plan_axis_shards p shape axis c d allow_padding = Inr ss" "1 \<le> c"
  shows "ss = map (nth_shard p shape axis c d) [0..<nat c] \<and> (axis = ''row'' \<or> axis = ''column'') \<and> axis_of axis < length shape
    \<and> (allow_padding \<or> c dvd shape ! axis_of axis)"
proof -
  have ax: "axis = ''row'' \<or> axis = ''column''" "axis_of axis < length shape"
    using assms(1) by (auto simp: plan_axis_shards_def require_def result_simps)
  moreover have "allow_padding \<or> c dvd shape ! axis_of axis"
    using plan_axis_shards_indivisible [OF ax assms(2), of allow_padding p d] assms(1) by (cases allow_padding) auto
  ultimately show ?thesis using plan_axis_shards_eq [OF ax assms(2)] assms(1) by simp
qed

section \<open>The range audit\<close>

definition range_cover :: "(int \<times> int) list \<Rightarrow> int \<Rightarrow> nat" where
  "range_cover rs k = length (filter (\<lambda>(a, b). a \<le> k \<and> k < b) rs)"

lemma range_cover_simps [simp]:
  "range_cover [] k = 0" "range_cover ((a, b) # rs) k = (if a \<le> k \<and> k < b then 1 else 0) + range_cover rs k"
  by (simp_all add: range_cover_def)

lemma range_cover_sort [simp]: "range_cover (sort rs) k = range_cover rs k"
  by (simp add: range_cover_def filter_sort)

lemma range_cover_pos: "(a, b) \<in> set rs \<Longrightarrow> a \<le> k \<Longrightarrow> k < b \<Longrightarrow> 1 \<le> range_cover rs k"
  by (induction rs) auto

lemma range_cover_ex: "1 \<le> range_cover rs k \<Longrightarrow> \<exists>(a, b) \<in> set rs. a \<le> k \<and> k < b"
  by (induction rs) (auto split: if_splits)

lemma scan_clean_covers:
  "scan_ranges c rs = ([], [], e) \<Longrightarrow> c \<le> e \<and> range_cover rs k = (if c \<le> k \<and> k < e then 1 else 0)"
proof (induction rs arbitrary: c)
  case Nil
  then show ?case by simp
next
  case (Cons r rs)
  obtain a b where r: "r = (a, b)" by fastforce
  with Cons.prems have a: "a = c" and s: "scan_ranges (max c b) rs = ([], [], e)"
    by (auto simp: Let_def split: prod.splits if_splits)
  then show ?case using Cons.IH [OF s] r by auto
qed

text \<open>Ranges sorted by their start that cover \<open>[c, n)\<close> exactly once are scanned without a complaint.\<close>

lemma covers_scan_clean:
  assumes "sorted rs" "c \<le> n" "\<forall>(a, b) \<in> set rs. a < b" "\<forall>k. range_cover rs k = (if c \<le> k \<and> k < n then 1 else 0)"
  shows "scan_ranges c rs = ([], [], n)"
  using assms
proof (induction rs arbitrary: c)
  case Nil
  have "\<not> c < n" using spec [OF Nil(4), of c] by (auto split: if_splits)
  with Nil show ?case by simp
next
  case (Cons r rs)
  obtain a b where r: "r = (a, b)" by fastforce
  have ab: "a < b" using Cons.prems(3) r by simp
  have cov: "(if a \<le> k \<and> k < b then 1 else 0) + range_cover rs k = (if c \<le> k \<and> k < n then 1 else 0)" for k
    using spec [OF Cons.prems(4), of k] r by simp
  have cn: "c \<le> a" "a < n" using cov [of a] ab by (auto split: if_splits)
  have bn: "b \<le> n" using cov [of "b - 1"] ab by (auto split: if_splits)
  have "a = c"
  proof (rule ccontr)
    assume "a \<noteq> c"
    then have "1 \<le> range_cover rs c" using cov [of c] cn by simp
    then obtain a' b' where m: "(a', b') \<in> set rs" "a' \<le> c" using range_cover_ex by fastforce
    then have "(a, b) \<le> (a', b')" using Cons.prems(1) r by auto
    with m(2) cn(1) \<open>a \<noteq> c\<close> show False by (simp add: less_eq_prod_def split: if_splits)
  qed
  moreover have "scan_ranges b rs = ([], [], n)"
  proof (rule Cons.IH)
    show "sorted rs" "b \<le> n" "\<forall>(a, b) \<in> set rs. a < b" using Cons.prems r bn by auto
    show "\<forall>k. range_cover rs k = (if b \<le> k \<and> k < n then 1 else 0)"
    proof
      fix k
      show "range_cover rs k = (if b \<le> k \<and> k < n then 1 else 0)"
        using cov [of k] \<open>a = c\<close> bn ab by (auto split: if_splits)
    qed
  qed
  ultimately show ?case using r ab by (simp add: max_def Let_def)
qed

lemma audit_ranges_clean_iff:
  assumes "0 \<le> n" "\<forall>(a, b) \<in> set rs. a < b"
  shows "audit_ranges n rs = ([], []) \<longleftrightarrow> (\<forall>k. range_cover rs k = (if 0 \<le> k \<and> k < n then 1 else 0))"
proof
  assume "audit_ranges n rs = ([], [])"
  then have "scan_ranges 0 (sort rs) = ([], [], n)"
    by (auto simp: audit_ranges_def split: prod.splits if_splits)
  then show "\<forall>k. range_cover rs k = (if 0 \<le> k \<and> k < n then 1 else 0)"
    using scan_clean_covers [of 0 "sort rs" n] by simp
next
  assume "\<forall>k. range_cover rs k = (if 0 \<le> k \<and> k < n then 1 else 0)"
  then have "scan_ranges 0 (sort rs) = ([], [], n)" using assms by (intro covers_scan_clean) auto
  then show "audit_ranges n rs = ([], [])" by (simp add: audit_ranges_def)
qed

lemma audit_ranges_sound:
  "audit_ranges n rs = ([], []) \<Longrightarrow> range_cover rs k = (if 0 \<le> k \<and> k < n then 1 else 0)"
  using scan_clean_covers [of 0 "sort rs" n k] by (auto simp: audit_ranges_def split: prod.splits if_splits)

text \<open>Contiguous ranges, in order, are scanned without a complaint.\<close>

lemma scan_contiguous:
  assumes "\<And>i. i < n \<Longrightarrow> f i \<le> f (Suc i)"
  shows "k \<le> n \<Longrightarrow> scan_ranges (f k) (map (\<lambda>i. (f i, f (Suc i))) [k..<n]) = ([], [], f n)"
proof (induction "n - k" arbitrary: k)
  case 0
  then show ?case by simp
next
  case (Suc d)
  then have k: "k < n" "[k..<n] = k # [Suc k..<n]" by (simp_all add: upt_rec)
  with assms [of k] Suc.hyps(1) [of "Suc k"] Suc.hyps(2) show ?case by (simp add: max_absorb2)
qed

lemma audit_contiguous:
  assumes "\<And>i. i < n \<Longrightarrow> f i \<le> f (Suc i)" "f 0 = 0" "f n = t"
  shows "audit_ranges t (map (\<lambda>i. (f i, f (Suc i))) [0..<n]) = ([], [])"
proof -
  have mono: "i \<le> j \<Longrightarrow> j \<le> n \<Longrightarrow> f i \<le> f j" for i j
  proof (induction j)
    case (Suc j)
    then show ?case using assms(1) [of j] by (cases "i = Suc j") auto
  qed simp
  have "sorted (map (\<lambda>i. (f i, f (Suc i))) [0..<n])"
    unfolding sorted_map by (rule sorted_wrt_mono_rel [of _ "(<)"]) (auto simp: less_eq_prod_def intro: mono order_antisym)
  then have "sort (map (\<lambda>i. (f i, f (Suc i))) [0..<n]) = map (\<lambda>i. (f i, f (Suc i))) [0..<n]" by (rule sorted_sort_id)
  then show ?thesis using scan_contiguous [of n f 0] assms by (simp add: audit_ranges_def)
qed

lemma remdups_replicate_name: "specs \<noteq> [] \<Longrightarrow> \<forall>s \<in> set specs. f s = p \<Longrightarrow> sort (remdups (map f specs)) = [p]"
  by (rule distinct_singleton_set) (cases specs; auto)+

lemma verify_one_param:
  assumes "specs \<noteq> []" "\<forall>s \<in> set specs. sh_param_name s = p" "sh_axis (hd specs) \<noteq> ''none''"
    "axis_of (sh_axis (hd specs)) < length shape"
    "audit_ranges (shape ! axis_of (sh_axis (hd specs))) (map (\<lambda>s. (sh_start s, sh_end s)) specs) = (os, gs)"
  shows "verify_shard_ranges specs shape = Inr \<lparr>au_overlaps = map (Pair p) os, au_gaps = map (Pair p) gs\<rparr>"
proof -
  have "filter (\<lambda>s. sh_param_name s = p) specs = specs" using assms(2) by (simp add: filter_id_conv)
  then show ?thesis
    using assms remdups_replicate_name [OF assms(1,2)] by (simp add: verify_shard_ranges_def audit_param_def py_nth_def Let_def)
qed

lemma nth_shards_audit:
  assumes "1 \<le> c" "0 \<le> shape ! axis_of axis"
  shows "audit_ranges (shape ! axis_of axis) (map (\<lambda>s. (sh_start s, sh_end s)) (map (nth_shard p shape axis c d) [0..<nat c])) = ([], [])"
proof -
  let ?t = "shape ! axis_of axis"
  let ?f = "shard_off (?t div c) (?t mod c)"
  have "audit_ranges ?t (map (\<lambda>i. (?f i, ?f (Suc i))) [0..<nat c]) = ([], [])"
    using assms by (intro audit_contiguous shard_off_mono shard_off_0 shard_off_last) (simp_all add: pos_imp_zdiv_nonneg_iff)
  then show ?thesis by (simp add: comp_def)
qed

lemma nth_shards_verify:
  assumes "axis = ''row'' \<or> axis = ''column''" "axis_of axis < length shape" "1 \<le> c" "0 \<le> shape ! axis_of axis"
  shows "verify_shard_ranges (map (nth_shard p shape axis c d) [0..<nat c]) shape = Inr \<lparr>au_overlaps = [], au_gaps = []\<rparr>"
proof -
  let ?ss = "map (nth_shard p shape axis c d) [0..<nat c]"
  have ne: "?ss \<noteq> []" using assms(3) by simp
  then have "sh_axis (hd ?ss) = axis" by (simp add: hd_map)
  then show ?thesis
    using verify_one_param [OF ne, of p shape "[]" "[]"] nth_shards_audit [OF assms(3,4), of p d] assms(1,2) by auto
qed

section \<open>Properties\<close>

text \<open>A successful split of one axis is a tiling of it: one shard per rank in rank order, the first at 0, each
  starting where the previous one ends, the last ending at the extent, with lengths that differ by at most one
  (and are all equal when padding is not allowed); the range audit accepts it.\<close>

theorem axis_split_tiles:
  assumes "plan_axis_shards p shape axis c d allow_padding = Inr ss" "1 \<le> c" "0 \<le> shape ! axis_of axis"
  shows "let t = shape ! axis_of axis in
      length ss = nat c \<and> sh_start (hd ss) = 0 \<and> sh_end (last ss) = t
    \<and> (\<forall>i < length ss - 1. sh_end (ss ! i) = sh_start (ss ! Suc i))
    \<and> (\<forall>i < length ss. sh_index (ss ! i) = int i \<and> sh_end (ss ! i) - sh_start (ss ! i) = t div c + (if int i < t mod c then 1 else 0))
    \<and> (\<not> allow_padding \<longrightarrow> t mod c = 0)
    \<and> verify_shard_ranges ss shape = Inr \<lparr>au_overlaps = [], au_gaps = []\<rparr>"
proof -
  have ss: "ss = map (nth_shard p shape axis c d) [0..<nat c]" and ax: "axis = ''row'' \<or> axis = ''column''"
    "axis_of axis < length shape" "allow_padding \<or> c dvd shape ! axis_of axis"
    using plan_axis_shards_Inr [OF assms(1,2)] by auto
  obtain n where n: "nat c = Suc n" using assms(2) by (cases "nat c") auto
  have "sh_end (last ss) = shard_off (shape ! axis_of axis div c) (shape ! axis_of axis mod c) (nat c)"
    by (simp add: ss n del: upt_Suc) (simp add: upt_Suc)
  moreover have "sh_start (hd ss) = 0" using assms(2) by (simp add: ss n hd_map del: upt_Suc)
  ultimately show ?thesis
    using nth_shards_verify [OF ax(1,2) assms(2,3), of p d] shard_off_last [of c "shape ! axis_of axis"] ax(3) assms(2)
    by (auto simp: ss Let_def shard_off_Suc dvd_eq_mod_eq_0 simp del: upt_Suc)
qed

theorem axis_split_tiles_witness:
  "verify_shard_ranges (map (nth_shard ''w'' [7, 4] ''row'' 3 ''fp16'') [0..<3]) [7, 4] = Inr \<lparr>au_overlaps = [], au_gaps = []\<rparr>
    \<and> plan_axis_shards ''w'' [7, 4] ''row'' 3 ''fp16'' False = Inl (ConfigError ''global_shape'')"
proof -
  have p: "plan_axis_shards ''w'' [7, 4] ''row'' 3 ''fp16'' True = Inr (map (nth_shard ''w'' [7, 4] ''row'' 3 ''fp16'') [0..<3])"
    by (subst plan_axis_shards_eq) (simp_all add: axis_of_def)
  show ?thesis using axis_split_tiles [OF p] by (simp add: Let_def axis_of_def plan_axis_shards_indivisible)
qed

text \<open>C28: the range audit accepts the shards of a parameter (none of them empty) exactly when every index of the axis
  is owned by exactly one shard and no shard reaches outside the axis.\<close>

theorem range_audit_exact_cover:
  assumes "specs \<noteq> []" "\<forall>s \<in> set specs. sh_param_name s = p \<and> sh_start s < sh_end s" "sh_axis (hd specs) \<noteq> ''none''"
    "axis_of (sh_axis (hd specs)) < length shape" "0 \<le> shape ! axis_of (sh_axis (hd specs))"
  shows "verify_shard_ranges specs shape = Inr \<lparr>au_overlaps = [], au_gaps = []\<rparr>
    \<longleftrightarrow> (\<forall>k. length (filter (\<lambda>s. sh_start s \<le> k \<and> k < sh_end s) specs)
          = (if 0 \<le> k \<and> k < shape ! axis_of (sh_axis (hd specs)) then 1 else 0))"
proof -
  let ?rs = "map (\<lambda>s. (sh_start s, sh_end s)) specs"
  let ?t = "shape ! axis_of (sh_axis (hd specs))"
  obtain os gs where a: "audit_ranges ?t ?rs = (os, gs)" by fastforce
  have "verify_shard_ranges specs shape = Inr \<lparr>au_overlaps = map (Pair p) os, au_gaps = map (Pair p) gs\<rparr>"
    using assms a by (intro verify_one_param) auto
  then have "verify_shard_ranges specs shape = Inr \<lparr>au_overlaps = [], au_gaps = []\<rparr> \<longleftrightarrow> audit_ranges ?t ?rs = ([], [])"
    using a by auto
  also have "\<dots> \<longleftrightarrow> (\<forall>k. range_cover ?rs k = (if 0 \<le> k \<and> k < ?t then 1 else 0))"
    using assms by (intro audit_ranges_clean_iff) auto
  finally show ?thesis by (simp add: range_cover_def filter_map comp_def)
qed

theorem range_audit_exact_cover_witness:
  "verify_shard_ranges (map (nth_shard ''w'' [7, 4] ''row'' 3 ''fp16'') [0..<3]) [7, 4] = Inr \<lparr>au_overlaps = [], au_gaps = []\<rparr>"
  by (subst range_audit_exact_cover [where p = "''w''"]) (auto simp: axis_of_def upt_rec shard_off_def)

end
