(* ===== verification/Shard_Round_Trip.thy ===== *)
theory Shard_Round_Trip
  imports Tensor_Shards_Props
begin

text \<open>
  Splitting a flattened tensor by the shards of an axis and merging the parts gives the tensor back; the linear
  blocks computed shard by shard agree with the unsplit product where the code claims it.
\<close>

section \<open>Blocks of a flattened list\<close>

lemma length_concat_blocks: "\<forall>b \<in> set bs. length b = w \<Longrightarrow> length (concat bs) = length bs * w"
  by (induction bs) auto

lemma block_of_concat: "\<forall>b \<in> set bs. length b = w \<Longrightarrow> j < length bs \<Longrightarrow> take w (drop (j * w) (concat bs)) = bs ! j"
proof (induction bs arbitrary: j)
  case Nil
  then show ?case by simp
next
  case (Cons b bs)
  then show ?case by (cases j) auto
qed

lemma nth_concat_blocks: "\<forall>b \<in> set bs. length b = w \<Longrightarrow> j < length bs \<Longrightarrow> i < w \<Longrightarrow> concat bs ! (j * w + i) = bs ! j ! i"
proof (induction bs arbitrary: j)
  case Nil
  then show ?case by simp
next
  case (Cons b bs)
  then show ?case by (cases j) (auto simp: nth_append add.assoc)
qed

lemma py_slice_block:
  assumes "\<forall>b \<in> set bs. int (length b) = w" "j < length bs"
  shows "py_slice (int j * w) ((int j + 1) * w) (concat bs) = bs ! j"
proof -
  have "bs ! j \<in> set bs" using assms(2) by simp
  then have "int (length (bs ! j)) = w" using assms(1) by blast
  then have "0 \<le> w" by linarith
  then have w: "w = int (nat w)" "\<forall>b \<in> set bs. length b = nat w" using assms(1) by force+
  have le: "(int j + 1) * w \<le> int (length (concat bs))"
  proof -
    have "(int j + 1) * w \<le> int (length bs) * w" using assms(2) \<open>0 \<le> w\<close> by (intro mult_right_mono) auto
    then show ?thesis using length_concat_blocks [OF w(2)] w(1) by simp
  qed
  have eq: "(int j + 1) * w - int j * w = w" "nat (int j * w) = j * nat w" using \<open>0 \<le> w\<close> by (simp_all add: algebra_simps nat_mult_distrib)
  have ge: "0 \<le> int j * w" "int j * w \<le> (int j + 1) * w" using \<open>0 \<le> w\<close> by (simp_all add: mult_right_mono)
  show ?thesis using block_of_concat [OF w(2) assms(2)] by (simp add: py_slice_nat [OF ge le] eq)
qed

lemma foldl_mult: "foldl (*) a ns = a * foldl (*) 1 ns" for a :: int
proof (induction ns arbitrary: a)
  case Nil
  then show ?case by simp
next
  case (Cons n ns)
  show ?case using Cons [of "a * n"] Cons [of n] by simp
qed

lemma shape_prod_Cons: "shape_prod (n # ns) = n * shape_prod ns"
  using foldl_mult [of n ns] by (simp add: shape_prod_def)

lemma shape_prod_Nil [simp]: "shape_prod [] = 1"
  by (simp add: shape_prod_def)

lemma shape_prod_nonneg: "\<forall>n \<in> set ns. 0 \<le> n \<Longrightarrow> 0 \<le> shape_prod ns"
  by (induction ns) (simp_all add: shape_prod_Cons)

section \<open>Splitting rows\<close>

lemma split_row_shards:
  assumes "int (length values) = shape_prod (t # rest)" "1 \<le> c"
  shows "all_res (map (split_flat values (t # rest)) (map (nth_shard p (t # rest) ''row'' c d) [0..<nat c]))
    = Inr (map (\<lambda>i. py_slice (shard_off (t div c) (t mod c) i * shape_prod rest)
                      (shard_off (t div c) (t mod c) (Suc i) * shape_prod rest) values) [0..<nat c])"
  using assms unfolding map_map comp_def by (intro all_res_map_total) (simp add: split_flat_def require_def axis_of_def Let_def)

lemma merge_row_shards:
  assumes "int (length values) = shape_prod (t # rest)" "1 \<le> c" "0 \<le> t" "\<forall>n \<in> set rest. 0 \<le> n"
  shows "concat (map (\<lambda>i. py_slice (shard_off (t div c) (t mod c) i * shape_prod rest)
                      (shard_off (t div c) (t mod c) (Suc i) * shape_prod rest) values) [0..<nat c]) = values"
proof -
  let ?f = "\<lambda>i. shard_off (t div c) (t mod c) i * shape_prod rest"
  have m: "0 \<le> shape_prod rest" by (rule shape_prod_nonneg) (rule assms(4))
  have d: "0 \<le> t div c" "0 \<le> t mod c" using assms(2,3) by (simp_all add: pos_imp_zdiv_nonneg_iff)
  have fin: "?f (nat c) = int (length values)" using shard_off_last [of c t] assms(1,2) by (simp add: shape_prod_Cons)
  have b: "0 \<le> ?f i \<and> ?f i \<le> ?f (Suc i) \<and> ?f (Suc i) \<le> int (length values)" if "i < nat c" for i
    using shard_off_nonneg [OF d, of i] shard_off_mono [OF d(1), of i "Suc i" "t mod c"]
      shard_off_mono [OF d(1), of "Suc i" "nat c" "t mod c"] that m fin [symmetric] by (simp add: mult_right_mono)
  have "concat (map (\<lambda>i. py_slice (?f i) (?f (Suc i)) values) [0..<nat c]) = py_slice (?f 0) (?f (nat c)) values"
    using concat_adjacent_slices [of "nat c" ?f "values"] b d by simp
  then show ?thesis using d(2) by (simp add: fin)
qed

section \<open>Splitting columns\<close>

definition column_piece :: "'a list \<Rightarrow> int \<Rightarrow> (nat \<Rightarrow> int) \<Rightarrow> nat \<Rightarrow> nat \<Rightarrow> 'a list" where
  "column_piece values q f i row = py_slice (int row * q + f i) (int row * q + f (Suc i)) values"

lemma split_column_shards:
  assumes "int (length values) = r * q" "1 \<le> c"
  shows "all_res (map (split_flat values [r, q]) (map (nth_shard p [r, q] ''column'' c d) [0..<nat c]))
    = Inr (map (\<lambda>i. concat (map (column_piece values q (shard_off (q div c) (q mod c)) i) [0..<nat r])) [0..<nat c])"
  using assms unfolding map_map comp_def
  by (intro all_res_map_total)
    (simp add: split_flat_def require_def axis_of_def Let_def py_nth_def shape_prod_Cons py_range_def comp_def column_piece_def [abs_def])

text \<open>The offsets of \<open>n\<close> adjacent ranges of an axis of extent \<open>q\<close>.\<close>

definition offsets :: "int \<Rightarrow> (nat \<Rightarrow> int) \<Rightarrow> nat \<Rightarrow> bool" where
  "offsets q f n \<longleftrightarrow> f 0 = 0 \<and> (\<forall>i < n. 0 \<le> f i \<and> f i \<le> f (Suc i) \<and> f (Suc i) \<le> q)"

lemma offsets_D: "offsets q f n \<Longrightarrow> i < n \<Longrightarrow> 0 \<le> f i \<and> f i \<le> f (Suc i) \<and> f (Suc i) \<le> q"
  by (simp add: offsets_def)

lemma shard_offsets: "1 \<le> c \<Longrightarrow> 0 \<le> t \<Longrightarrow> offsets t (shard_off (t div c) (t mod c)) (nat c)"
  by (auto simp: offsets_def pos_imp_zdiv_nonneg_iff intro!: shard_off_nonneg shard_off_mono shard_off_le)

lemma row_bound:
  assumes "int (length values) = r * q" "0 \<le> q" "row < nat r"
  shows "int row * q + q \<le> int (length values)"
proof -
  have "(int row + 1) * q \<le> r * q" using assms(2,3) by (intro mult_right_mono) linarith+
  then show ?thesis by (simp add: assms(1) algebra_simps)
qed

lemma length_piece:
  assumes "int (length values) = r * q" "0 \<le> q" "offsets q f n" "i < n" "row < nat r"
  shows "int (length (column_piece values q f i row)) = f (Suc i) - f i"
proof -
  have "0 \<le> int row * q" using assms(2) by simp
  then show ?thesis using offsets_D [OF assms(3,4)] row_bound [OF assms(1,2,5)] by (simp add: column_piece_def length_py_slice)
qed

lemma append_column:
  assumes len: "int (length values) = r * q" and nonneg: "0 \<le> q" and off: "offsets q f n" and "i < n" "0 < r" "length acc = nat r \<or> acc = []"
  shows "append_shard r acc (concat (map (column_piece values q f i) [0..<nat r]))
    = map (\<lambda>row. (if row < length acc then acc ! row else []) @ column_piece values q f i row) [0..<nat r]"
proof -
  let ?bs = "map (column_piece values q f i) [0..<nat r]"
  have bl: "\<forall>b \<in> set ?bs. int (length b) = f (Suc i) - f i" using length_piece [OF len nonneg off assms(4)] by auto
  have "\<forall>b \<in> set ?bs. length b = nat (f (Suc i) - f i)"
  proof
    fix b assume "b \<in> set ?bs"
    then have "int (length b) = f (Suc i) - f i" using bl by blast
    then show "length b = nat (f (Suc i) - f i)" by linarith
  qed
  then have "int (length (concat ?bs)) = r * (f (Suc i) - f i)"
    using length_concat_blocks [of ?bs "nat (f (Suc i) - f i)"] assms(5) offsets_D [OF off assms(4)] by simp
  then have div: "int (length (concat ?bs)) div r = f (Suc i) - f i" using assms(5) by simp
  have "py_slice (int row * (f (Suc i) - f i)) ((int row + 1) * (f (Suc i) - f i)) (concat ?bs) = column_piece values q f i row"
    if "row < nat r" for row using py_slice_block [OF bl, of row] that by simp
  then show ?thesis by (auto simp: append_shard_def Let_def div)
qed

lemma merge_columns:
  assumes len: "int (length values) = r * q" and nonneg: "0 \<le> q" and off: "offsets q f n" and r: "0 < r" and "k \<le> n" "1 \<le> k"
  shows "foldl (append_shard r) [] (map (\<lambda>i. concat (map (column_piece values q f i) [0..<nat r])) [0..<k])
    = map (\<lambda>row. py_slice (int row * q) (int row * q + f k) values) [0..<nat r]"
  using \<open>k \<le> n\<close> \<open>1 \<le> k\<close>
proof (induction k)
  case 0
  then show ?case by simp
next
  case (Suc k)
  have k: "k < n" using Suc.prems by simp
  show ?case
  proof (cases "k = 0")
    case True
    then show ?thesis using append_column [OF len nonneg off k r, of "[]"] off by (simp add: column_piece_def [abs_def] offsets_def)
  next
    case False
    have IH: "foldl (append_shard r) [] (map (\<lambda>i. concat (map (column_piece values q f i) [0..<nat r])) [0..<k])
        = map (\<lambda>row. py_slice (int row * q) (int row * q + f k) values) [0..<nat r]"
      using Suc.IH False k by simp
    have "py_slice (int row * q) (int row * q + f k) values @ column_piece values q f k row
        = py_slice (int row * q) (int row * q + f (Suc k)) values" if "row < nat r" for row
      using row_bound [OF len nonneg that] offsets_D [OF off k] nonneg unfolding column_piece_def
      by (intro py_slice_split) simp_all
    then show ?thesis using append_column [OF len nonneg off k r] by (simp add: IH)
  qed
qed

lemma merge_columns_all:
  assumes len: "int (length values) = r * q" and nonneg: "0 \<le> q" and off: "offsets q f n" and r: "0 < r" and "1 \<le> n" "f n = q"
  shows "concat (foldl (append_shard r) [] (map (\<lambda>i. concat (map (column_piece values q f i) [0..<nat r])) [0..<n])) = values"
proof -
  have "concat (map (\<lambda>i. py_slice (int i * q) (int (Suc i) * q) values) [0..<nat r]) = py_slice (int 0 * q) (int (nat r) * q) values
      \<and> int 0 * q \<le> int (nat r) * q"
    using row_bound [OF len nonneg] nonneg by (intro concat_adjacent_slices) (simp_all add: algebra_simps)
  then show ?thesis
    using merge_columns [OF len nonneg off r order_refl assms(5)] r assms(6) py_slice_all [of "values"] by (simp add: algebra_simps len)
qed

lemma merge_no_rows: "foldl (append_shard 0) [] shards = []"
  by (induction shards rule: rev_induct) (simp_all add: append_shard_def)

text \<open>C29: splitting a flattened tensor by the shards of one axis and merging the parts gives the tensor back: for a split
  of the rows of a tensor of any rank, and for a split of the columns of a matrix. A column split of a
  tensor of higher rank is accepted by the plan but loses values (\<open>rank3_column_split_loses\<close>).\<close>

theorem split_merge_round_trip:
  assumes "plan_axis_shards p shape axis c d allow_padding = Inr ss" "1 \<le> c"
    "int (length values) = shape_prod shape" "\<forall>n \<in> set shape. 0 \<le> n" "axis = ''row'' \<or> length shape = 2"
  shows "\<exists>shards. all_res (map (split_flat values shape) ss) = Inr shards \<and> length shards = nat c
    \<and> merge_flat shards (hd ss) shape = Inr values"
proof -
  have ss: "ss = map (nth_shard p shape axis c d) [0..<nat c]" "axis = ''row'' \<or> axis = ''column''" "axis_of axis < length shape"
    using plan_axis_shards_Inr [OF assms(1,2)] by auto
  have hd: "sh_axis (hd ss) = axis" using assms(2) by (simp add: ss(1) hd_map)
  show ?thesis
  proof (cases "axis = ''row''")
    case True
    obtain t rest where sh: "shape = t # rest" using ss(3) by (cases shape) auto
    let ?S = "map (\<lambda>i. py_slice (shard_off (t div c) (t mod c) i * shape_prod rest)
                      (shard_off (t div c) (t mod c) (Suc i) * shape_prod rest) values) [0..<nat c]"
    have "all_res (map (split_flat values shape) ss) = Inr ?S"
      using split_row_shards [OF assms(3)[unfolded sh] assms(2)] by (simp only: ss(1) True sh)
    moreover have "merge_flat ?S (hd ss) shape = Inr values"
      using merge_row_shards [OF assms(3)[unfolded sh] assms(2)] assms(3,4)
      by (simp add: merge_flat_def hd True axis_of_def require_def sh Let_def)
    ultimately show ?thesis by (intro exI [of _ ?S]) simp
  next
    case False
    then obtain r q where sh: "shape = [r, q]" and ax: "axis = ''column''"
      using assms(5) ss(2) by (auto simp: numeral_2_eq_2 length_Suc_conv)
    let ?f = "shard_off (q div c) (q mod c)"
    let ?S = "map (\<lambda>i. concat (map (column_piece values q ?f i) [0..<nat r])) [0..<nat c]"
    have len: "int (length values) = r * q" and nn: "0 \<le> r" "0 \<le> q" using assms(3,4) sh by (simp_all add: shape_prod_Cons)
    have "all_res (map (split_flat values shape) ss) = Inr ?S"
      using split_column_shards [OF len assms(2)] by (simp only: ss(1) ax sh)
    moreover have "concat (foldl (append_shard r) [] ?S) = values"
    proof (cases "r = 0")
      case True
      then show ?thesis using len by (simp add: merge_no_rows)
    next
      case False
      then show ?thesis
        using nn assms(2) shard_offsets [OF assms(2) nn(2)] shard_off_last [of c q]
        by (intro merge_columns_all [OF len nn(2)]) auto
    qed
    then have "merge_flat ?S (hd ss) shape = Inr values"
      using len by (simp add: merge_flat_def hd ax axis_of_def require_def sh py_nth_def shape_prod_Cons Let_def)
    ultimately show ?thesis by (intro exI [of _ ?S]) simp
  qed
qed

theorem split_merge_round_trip_witness:
  "\<exists>ss shards. plan_axis_shards ''w'' [2, 3] ''column'' 2 ''fp16'' True = Inr ss \<and> length shards = 2
    \<and> merge_flat shards (hd ss) [2, 3] = Inr [1 :: rat, 2, 3, 4, 5, 6]"
proof -
  have p: "plan_axis_shards ''w'' [2, 3] ''column'' 2 ''fp16'' True = Inr (map (nth_shard ''w'' [2, 3] ''column'' 2 ''fp16'') [0..<nat 2])"
    by (rule plan_axis_shards_eq) (simp_all add: axis_of_def)
  show ?thesis
    using split_merge_round_trip [OF p, of "[1 :: rat, 2, 3, 4, 5, 6]"] p by (fastforce simp: shape_prod_Cons)
qed

text \<open>The rows of a tensor of rank three are sliced as if each held \<open>shape[1]\<close> values: of twelve values
  four reach the shards, and the merge reports a size mismatch.\<close>

lemma rank3_column_split_loses:
  "\<exists>ss. plan_axis_shards ''w'' [2, 2, 3] ''column'' 2 ''fp16'' False = Inr ss
    \<and> all_res (map (split_flat (map of_nat [0..<12] :: rat list) [2, 2, 3]) ss) = Inr [[0, 2], [1, 3]]
    \<and> \<not> is_ok (merge_flat [[0, 2], [1, 3 :: rat]] (hd ss) [2, 2, 3])"
proof -
  have c: "case plan_axis_shards ''w'' [2, 2, 3] ''column'' 2 ''fp16'' False of Inl _ \<Rightarrow> False
    | Inr ss \<Rightarrow> all_res (map (split_flat (map of_nat [0..<12] :: rat list) [2, 2, 3]) ss) = Inr [[0, 2], [1, 3]]
        \<and> \<not> is_ok (merge_flat [[0, 2], [1, 3 :: rat]] (hd ss) [2, 2, 3])"
    by code_simp
  then show ?thesis by (cases "plan_axis_shards ''w'' [2, 2, 3] ''column'' 2 ''fp16'' False") simp_all
qed

end
