(* ===== verification/Linear_Blocks.thy ===== *)
theory Linear_Blocks
  imports Shard_Round_Trip
begin

text \<open>
  The linear blocks computed shard by shard. The outputs of the column-parallel block are the column shards of
  the unsplit product; the row-parallel block is exact on integers as long as every sum stays within 53 bits.
\<close>

section \<open>Rows of a product\<close>

lemma block_sub:
  assumes "\<forall>b \<in> set bs. length b = w" "j < length bs" "0 \<le> a" "a \<le> k" "k \<le> int w"
  shows "py_slice (int j * int w + a) (int j * int w + k) (concat bs) = py_slice a k (bs ! j)"
proof -
  have c: "concat bs = concat (take j bs) @ bs ! j @ concat (drop (Suc j) bs)"
    using id_take_nth_drop [OF assms(2)] by (metis concat.simps(2) concat_append)
  have l: "length (concat (take j bs)) = j * w"
    using length_concat_blocks [of "take j bs" w] assms(1,2) by (metis in_set_takeD length_take min.absorb4)
  have "length (bs ! j) = w" using assms(1,2) by simp
  then show ?thesis using py_slice_append [of a k "bs ! j" "concat (take j bs)" "concat (drop (Suc j) bs)"] assms(3-5)
    by (simp add: c [symmetric] l)
qed

lemma py_slice_map_upt:
  "0 \<le> a \<Longrightarrow> a \<le> k \<Longrightarrow> k \<le> int m \<Longrightarrow> py_slice a k (map g [0..<m]) = map (\<lambda>i. g (nat a + i)) [0..<nat (k - a)]"
  by (rule nth_equalityI) (simp_all add: py_slice_nat)

lemma dot_row_slice:
  assumes "0 \<le> a" "a \<le> k" "k \<le> int (length W)" "wb + n \<le> nat (k - a)"
  shows "dot_row (py_slice a k W) wb x xb n = dot_row W (nat a + wb) x xb n"
  unfolding dot_row_def
proof (rule foldl_cong)
  fix acc i assume "i \<in> set [0..<n]"
  then have "i < n" by simp
  with assms have "py_slice a k W ! (wb + i) = W ! (nat a + wb + i)" by (simp add: py_slice_nat add.assoc)
  then show "fl (acc + fl (py_slice a k W ! (wb + i) * x ! (xb + i))) = fl (acc + fl (W ! (nat a + wb + i) * x ! (xb + i)))"
    by simp
qed simp_all

definition product_row :: "rat list \<Rightarrow> nat \<Rightarrow> nat \<Rightarrow> rat list \<Rightarrow> nat \<Rightarrow> rat list" where
  "product_row W m n x row = map (\<lambda>out. dot_row W (out * n) x (row * n) n) [0..<m]"

lemma matmul_eq:
  assumes "int (length W) = out * n" "int (length x) = R * n" "1 \<le> R"
  shows "matmul W out n x R = Inr (concat (map (product_row W (nat out) (nat n) x) [0..<nat R]))"
  using assms by (simp add: matmul_def require_def product_row_def [abs_def])

lemma length_product_row [simp]: "length (product_row W m n x row) = m"
  by (simp add: product_row_def)

section \<open>Column parallel\<close>

text \<open>The part of one rank is the column shard of the unsplit product.\<close>

lemma rank_part:
  assumes len: "int (length W) = out * n" and xl: "int (length x) = R * n" and R: "1 \<le> R" and n: "0 \<le> n" "0 \<le> out"
    and off: "offsets out f k" and i: "i < k"
  shows "matmul (py_slice (f i * n) (f (Suc i) * n) W) (f (Suc i) - f i) n x R
    = Inr (concat (map (column_piece (concat (map (product_row W (nat out) (nat n) x) [0..<nat R])) out f i) [0..<nat R]))"
proof -
  have fi: "0 \<le> f i" "f i \<le> f (Suc i)" "f (Suc i) \<le> out" using offsets_D [OF off i] by auto
  have sl: "0 \<le> f i * n" "f i * n \<le> f (Suc i) * n" "f (Suc i) * n \<le> int (length W)"
    using fi n by (simp_all add: len mult_right_mono)
  have wl: "int (length (py_slice (f i * n) (f (Suc i) * n) W)) = (f (Suc i) - f i) * n"
    by (simp add: length_py_slice [OF sl] left_diff_distrib)
  have row: "product_row (py_slice (f i * n) (f (Suc i) * n) W) (nat (f (Suc i) - f i)) (nat n) x j
      = column_piece (concat (map (product_row W (nat out) (nat n) x) [0..<nat R])) out f i j" if j: "j < nat R" for j
  proof -
    have dots: "dot_row (py_slice (f i * n) (f (Suc i) * n) W) (o' * nat n) x (j * nat n) (nat n)
        = dot_row W ((nat (f i) + o') * nat n) x (j * nat n) (nat n)" if "o' < nat (f (Suc i) - f i)" for o'
    proof -
      have "(o' + 1) * nat n \<le> nat (f (Suc i) - f i) * nat n" using that by (intro mult_right_mono) simp_all
      then have "o' * nat n + nat n \<le> nat (f (Suc i) * n - f i * n)"
        using fi n by (simp add: nat_mult_distrib [symmetric] left_diff_distrib algebra_simps)
      then show ?thesis
        using dot_row_slice [OF sl, of "o' * nat n" "nat n"] fi n by (simp add: nat_mult_distrib distrib_right)
    qed
    have "column_piece (concat (map (product_row W (nat out) (nat n) x) [0..<nat R])) out f i j
        = py_slice (f i) (f (Suc i)) (product_row W (nat out) (nat n) x j)"
      using block_sub [of "map (product_row W (nat out) (nat n) x) [0..<nat R]" "nat out" j "f i" "f (Suc i)"] j fi n
      by (simp add: column_piece_def)
    also have "\<dots> = map (\<lambda>o'. dot_row W ((nat (f i) + o') * nat n) x (j * nat n) (nat n)) [0..<nat (f (Suc i) - f i)]"
      using fi n unfolding product_row_def by (subst py_slice_map_upt) simp_all
    also have "\<dots> = product_row (py_slice (f i * n) (f (Suc i) * n) W) (nat (f (Suc i) - f i)) (nat n) x j"
      unfolding product_row_def by (rule map_cong) (simp_all add: dots)
    finally show ?thesis by simp
  qed
  have "matmul (py_slice (f i * n) (f (Suc i) * n) W) (f (Suc i) - f i) n x R
      = Inr (concat (map (product_row (py_slice (f i * n) (f (Suc i) * n) W) (nat (f (Suc i) - f i)) (nat n) x) [0..<nat R]))"
    using wl xl R by (rule matmul_eq)
  also have "map (product_row (py_slice (f i * n) (f (Suc i) * n) W) (nat (f (Suc i) - f i)) (nat n) x) [0..<nat R]
      = map (column_piece (concat (map (product_row W (nat out) (nat n) x) [0..<nat R])) out f i) [0..<nat R]"
    by (rule map_cong) (simp_all add: row)
  finally show ?thesis .
qed

lemma max_abs_diff_self: "xs \<noteq> [] \<Longrightarrow> max_abs_diff xs xs = Inr 0"
proof -
  assume "xs \<noteq> []"
  then have "set (map (\<lambda>(a, b). \<bar>fl (a - b)\<bar>) (zip xs xs)) = {0}"
    by (cases xs) (auto simp: in_set_zip, (metis fst_conv in_set_zip snd_conv)?)
  then have "map (\<lambda>(a, b). \<bar>fl (a - b)\<bar>) (zip xs xs) \<noteq> [] \<and> Max (set (map (\<lambda>(a, b). \<bar>fl (a - b)\<bar>) (zip xs xs))) = 0"
    by (metis Max_singleton empty_iff empty_set insertI1)
  with \<open>xs \<noteq> []\<close> show ?thesis by (simp add: max_abs_diff_def Let_def)
qed

lemma max_abs_diff_total: "xs \<noteq> [] \<Longrightarrow> ys \<noteq> [] \<Longrightarrow> \<exists>d. max_abs_diff xs ys = Inr d"
  by (cases xs; cases ys) (simp_all add: max_abs_diff_def Let_def)

lemma zip_map_self: "map g (zip (map h xs) (map k xs)) = map (\<lambda>x. g (h x, k x)) xs"
  by (induction xs) simp_all

text \<open>Where the elements of the column shards lie when they are written one rank after the other.\<close>

lemma nth_column_parts:
  fixes full :: "'a list" and w out R :: nat
  assumes len: "length full = R * out" and fit: "degree * w = out" and i: "i < degree" and r: "r < R" and j: "j < w"
  shows "concat (map (\<lambda>i. concat (map (column_piece full (int out) (\<lambda>i. int i * int w) i) [0..<R])) [0..<degree])
      ! (i * (R * w) + (r * w + j)) = full ! (r * out + i * w + j)"
proof -
  have piece: "column_piece full (int out) (\<lambda>i. int i * int w) i r = take w (drop (r * out + i * w) full)"
    and bound: "r * out + i * w + w \<le> length full" if "i < degree" "r < R" for i r
  proof -
    have "(i + 1) * w \<le> degree * w" "(r + 1) * out \<le> R * out" using that by (intro mult_le_mono1; simp)+
    then show b: "r * out + i * w + w \<le> length full" using fit len by (simp add: algebra_simps)
    have e: "int r * int out + int i * int w = int (r * out + i * w)" "int r * int out + int (Suc i) * int w = int (r * out + i * w + w)"
      by (simp_all add: algebra_simps)
    show "column_piece full (int out) (\<lambda>i. int i * int w) i r = take w (drop (r * out + i * w) full)"
    proof -
      have "nat (int (r * out + i * w + w) - int (r * out + i * w)) = w" by simp
      moreover have "int (r * out + i * w + w) \<le> int (length full)" using b by (simp only: of_nat_le_iff)
      ultimately show ?thesis unfolding column_piece_def e using py_slice_nat [of "int (r * out + i * w)" "int (r * out + i * w + w)" full]
        by (simp only: of_nat_0_le_iff of_nat_le_iff le_add1 nat_int)
    qed
  qed
  let ?row = "\<lambda>i. map (column_piece full (int out) (\<lambda>i. int i * int w) i) [0..<R]"
  have lw: "length (column_piece full (int out) (\<lambda>i. int i * int w) i r) = w" if "i < degree" "r < R" for i r
  proof -
    have "w \<le> length full - (r * out + i * w)" using bound [OF that] by simp
    then show ?thesis unfolding piece [OF that] length_take length_drop by (rule min_absorb2)
  qed
  then have inner: "\<forall>b \<in> set (?row i). length b = w" if "i < degree" for i using that by simp
  then have outer: "\<forall>b \<in> set (map (\<lambda>i. concat (?row i)) [0..<degree]). length b = R * w"
    using length_concat_blocks [OF inner] by auto
  have "(r + 1) * w \<le> R * w" using r by (intro mult_le_mono1) simp
  then have rj: "r * w + j < R * w" using j by simp
  have "concat (map (\<lambda>i. concat (?row i)) [0..<degree]) ! (i * (R * w) + (r * w + j)) = concat (?row i) ! (r * w + j)"
    using nth_concat_blocks [OF outer, of i "r * w + j"] i rj by simp
  also have "\<dots> = column_piece full (int out) (\<lambda>i. int i * int w) i r ! j"
    using nth_concat_blocks [OF inner [OF i], of r j] r j by simp
  also have "\<dots> = full ! (r * out + i * w + j)" using piece [OF i r] bound [OF i r] j by simp
  finally show ?thesis .
qed

text \<open>The whole case: the shards, the unsplit product and the parts.\<close>

lemma column_parallel_eq:
  assumes "int (length W) = out * n" "int (length x) = R * n" "1 \<le> R" "1 \<le> n" "1 \<le> out" "1 \<le> degree" "degree dvd out"
  defines "full \<equiv> concat (map (product_row W (nat out) (nat n) x) [0..<nat R])"
  defines "merged \<equiv> concat (map (\<lambda>i. concat (map (column_piece full out (\<lambda>i. int i * (out div degree)) i) [0..<nat R])) [0..<nat degree])"
  shows "column_parallel_case W out n degree x
    = bindE (max_abs_diff full merged) (\<lambda>d. Inr \<lparr>bk_full = full, bk_merged = merged, bk_max_abs = d, bk_bytes = out * n * 2\<rparr>)"
proof -
  let ?f = "shard_off (out div degree) (out mod degree)"
  let ?ss = "map (nth_shard ''w'' [out, n] ''row'' degree ''fp16'') [0..<nat degree]"
  let ?S = "map (\<lambda>i. py_slice (?f i * n) (?f (Suc i) * n) W) [0..<nat degree]"
  have feq: "?f = (\<lambda>i. int i * (out div degree))" using assms(7) by (auto simp: shard_off_def dvd_eq_mod_eq_0)
  have plan: "plan_axis_shards ''w'' [out, n] ''row'' degree ''fp16'' False = Inr ?ss"
    using assms(6,7) by (intro plan_axis_shards_eq) (simp_all add: axis_of_def)
  have wl: "int (length W) = shape_prod [out, n]" using assms(1) by (simp add: shape_prod_Cons)
  have split: "all_res (map (split_flat W [out, n]) ?ss) = Inr ?S"
    using split_row_shards [OF wl assms(6), of "''w''" "''fp16''"] by (simp add: shape_prod_Cons)
  have S: "concat ?S = W" using merge_row_shards [OF wl assms(6)] assms(4,5) by (simp add: shape_prod_Cons)
  have rows: "rows_of x n = Inr R" using assms(2,4) by (simp add: rows_of_def)
  have off: "offsets out ?f (nat degree)" using assms(5,6) by (intro shard_offsets) simp_all
  have parts: "all_res (map (\<lambda>(shard, s). matmul shard (sh_end s - sh_start s) n x R) (zip ?S ?ss))
      = Inr (map (\<lambda>i. concat (map (column_piece full out ?f i) [0..<nat R])) [0..<nat degree])"
    unfolding zip_map_self full_def
    using assms(4,5) rank_part [OF assms(1-3) _ _ off]
    by (intro all_res_map_total) (simp add: axis_of_def)
  have "int (sum_list (map length ?S)) = out * n" using S assms(1) by (metis length_concat)
  then show ?thesis
    unfolding column_parallel_case_def
    by (simp only: plan split [unfolded feq] rows matmul_eq [OF assms(1-3)] parts [unfolded feq full_def] bindE.simps feq merged_def full_def)
qed

text \<open>C30: for a degree that divides the output features, the column-parallel block of \<open>R\<close> rows returns the
  unsplit product, and as its merged result the column shards of it one rank after the other: element \<open>j\<close> of
  row \<open>r\<close> of rank \<open>i\<close> stands at \<open>i * (R * w) + r * w + j\<close>, where the product has it at \<open>r * out + i * w + j\<close>, with \<open>w\<close>
  columns per rank. For one row or one rank the two lists are the same and the reported error is 0; for more of
  both the error compares lists in these two different orders.\<close>

theorem column_parallel_layout:
  assumes "int (length W) = out * n" "int (length x) = R * n" "1 \<le> R" "1 \<le> n" "1 \<le> out" "1 \<le> degree" "degree dvd out"
  defines "w \<equiv> nat (out div degree)"
  shows "\<exists>full parts b. matmul W out n x R = Inr full
    \<and> all_res (map (split_flat full [R, out]) (map (nth_shard p [R, out] ''column'' degree d) [0..<nat degree])) = Inr parts
    \<and> column_parallel_case W out n degree x = Inr b \<and> bk_full b = full \<and> bk_merged b = concat parts
    \<and> max_abs_diff full (concat parts) = Inr (bk_max_abs b)
    \<and> length (bk_merged b) = length full
    \<and> (\<forall>i < nat degree. \<forall>r < nat R. \<forall>j < w. bk_merged b ! (i * (nat R * w) + (r * w + j)) = full ! (r * nat out + i * w + j))
    \<and> (R = 1 \<or> degree = 1 \<longrightarrow> bk_merged b = full \<and> bk_max_abs b = 0)"
proof -
  let ?f = "\<lambda>i. int i * (out div degree)"
  let ?full = "concat (map (product_row W (nat out) (nat n) x) [0..<nat R])"
  let ?parts = "map (\<lambda>i. concat (map (column_piece ?full out ?f i) [0..<nat R])) [0..<nat degree]"
  have feq: "shard_off (out div degree) (out mod degree) = ?f" using assms(7) by (auto simp: shard_off_def dvd_eq_mod_eq_0)
  have off: "offsets out ?f (nat degree)" using assms(5,6) shard_offsets [of degree out] by (simp add: feq)
  have full: "matmul W out n x R = Inr ?full" by (rule matmul_eq) (rule assms)+
  have "\<forall>b \<in> set (map (product_row W (nat out) (nat n) x) [0..<nat R]). length b = nat out" by simp
  then have fl: "int (length ?full) = R * out"
    using assms(3,5) length_concat_blocks [of "map (product_row W (nat out) (nat n) x) [0..<nat R]" "nat out"] by simp
  have parts: "all_res (map (split_flat ?full [R, out]) (map (nth_shard p [R, out] ''column'' degree d) [0..<nat degree])) = Inr ?parts"
    using split_column_shards [OF fl assms(6)] by (simp only: feq)
  have w: "out div degree = int w" "nat degree * w = nat out"
  proof -
    show "out div degree = int w" using assms(5,6) by (simp add: w_def pos_imp_zdiv_nonneg_iff)
    then have "degree * int w = out" using assms(7) by (metis dvd_mult_div_cancel)
    then have "nat (degree * int w) = nat out" by simp
    then show "nat degree * w = nat out" using assms(6) by (simp add: nat_mult_distrib)
  qed
  have fl': "length ?full = nat R * nat out" using fl assms(3,5) by (metis nat_int nat_mult_distrib order_trans zero_le_one)
  have at: "concat ?parts ! (i * (nat R * w) + (r * w + j)) = ?full ! (r * nat out + i * w + j)"
    if "i < nat degree" "r < nat R" "j < w" for i r j
    using nth_column_parts [OF fl' w(2) that] assms(5) by (simp add: w(1))
  have pl: "length (concat ?parts) = length ?full"
  proof -
    have "length (column_piece ?full out ?f i row) = w" if "i < nat degree" "row < nat R" for i row
    proof -
      have "int (length (column_piece ?full out ?f i row)) = ?f (Suc i) - ?f i"
        using length_piece [OF fl _ off that] assms(5) by simp
      then show ?thesis by (simp add: w(1) algebra_simps)
    qed
    then have l: "\<forall>b \<in> set (map (column_piece ?full out ?f i) [0..<nat R]). length b = w" if "i < nat degree" for i using that by simp
    have "\<forall>b \<in> set ?parts. length b = nat R * w" using length_concat_blocks [OF l] by auto
    then have "length (concat ?parts) = nat degree * (nat R * w)" using length_concat_blocks [of ?parts "nat R * w"] by simp
    also have "\<dots> = nat R * (nat degree * w)" by simp
    finally show ?thesis unfolding w(2) fl' .
  qed
  have one: "concat ?parts = ?full" if "R = 1 \<or> degree = 1"
  proof (rule nth_equalityI)
    fix k assume k: "k < length (concat ?parts)"
    have "0 < w" using w(2) assms(5) by (cases w) auto
    have kl: "k < nat R * nat out" using k unfolding pl fl' .
    show "concat ?parts ! k = ?full ! k"
    proof (cases "R = 1")
      case True
      then have "k < nat degree * w" using kl w(2) by simp
      then have "k div w < nat degree" "k mod w < w" using \<open>0 < w\<close> by (simp_all add: less_mult_imp_div_less)
      then show ?thesis using at [of "k div w" 0 "k mod w"] True by simp
    next
      case False
      then have d: "degree = 1" "w = nat out" using that w(2) by simp_all
      have "k div w < nat R" "k mod w < w" using kl d(2) \<open>0 < w\<close> by (simp_all add: less_mult_imp_div_less)
      then show ?thesis using at [of 0 "k div w" "k mod w"] d by simp
    qed
  qed (rule pl)
  have "0 < int (length ?full)" unfolding fl using assms(3,5) by simp
  then have ne: "?full \<noteq> []" by (simp only: of_nat_0_less_iff length_greater_0_conv not_False_eq_True)
  have "1 \<le> out div degree" using zdvd_imp_le [OF assms(7)] zdiv_mono1 [of degree out degree] assms(5,6) by simp
  moreover have "0 < nat degree" "0 < nat R" using assms(3,6) by simp_all
  ultimately have "column_piece ?full out ?f 0 0 \<noteq> []"
    using length_piece [OF fl _ off, of 0 0] assms(5) by auto
  moreover have "set (column_piece ?full out ?f 0 0) \<subseteq> set (concat ?parts)"
    using \<open>0 < nat degree\<close> \<open>0 < nat R\<close> by (auto intro!: bexI [of _ 0])
  ultimately have "concat ?parts \<noteq> []" by (metis empty_set set_empty subset_empty)
  then obtain dm where dm: "max_abs_diff ?full (concat ?parts) = Inr dm"
    using max_abs_diff_total [OF ne] by blast
  define b where "b = \<lparr>bk_full = ?full, bk_merged = concat ?parts, bk_max_abs = dm, bk_bytes = out * n * 2\<rparr>"
  have case_b: "column_parallel_case W out n degree x = Inr b" using column_parallel_eq [OF assms(1-7)] dm by (simp add: b_def)
  have bf: "bk_full b = ?full" "bk_merged b = concat ?parts" "bk_max_abs b = dm" by (simp_all add: b_def)
  have zero: "dm = 0" if "R = 1 \<or> degree = 1"
    using dm max_abs_diff_self [OF ne] unfolding one [OF that] by simp
  show ?thesis
    by (intro exI [of _ ?full] exI [of _ ?parts] exI [of _ b] conjI allI impI; (unfold bf)?) (rule full parts case_b dm pl at one zero refl; assumption?)+
qed

theorem column_parallel_layout_witness:
  "\<exists>b. column_parallel_case [1, 2] 2 1 2 [1, 3] = Inr b \<and> bk_full b = [1, 2, 3, 6] \<and> bk_merged b = [1, 3, 2, 6] \<and> bk_max_abs b = 1"
proof -
  have i: "fl 1 = 1" "fl 2 = 2" "fl 3 = 3" "fl 6 = 6" "fl (- 1) = - 1"
    using fl_of_int [of 1] fl_of_int [of 2] fl_of_int [of 3] fl_of_int [of 6] fl_of_int [of "- 1"] by simp_all
  have r: "nat 2 = 2" "[0..<2] = [0, 1]" by (simp_all add: upt_rec)
  have full: "matmul [1, 2] 2 1 [1, 3] 2 = Inr [1, 2, 3, 6]"
    by (simp add: matmul_def require_def dot_row_def r i)
  have parts: "all_res (map (split_flat [1, 2, 3, 6 :: rat] [2, 2]) (map (nth_shard p [2, 2] ''column'' 2 d) [0..<nat 2])) = Inr [[1, 3], [2, 6]]" for p d
    by (simp add: r split_flat_def require_def axis_of_def py_nth_def shape_prod_Cons py_range_def shard_off_def py_slice_nat)
  have diff: "max_abs_diff [1, 2, 3, 6] [1, 3, 2, 6] = Inr 1"
    by (simp add: max_abs_diff_def Let_def i)
  show ?thesis using column_parallel_layout [of "[1, 2]" 2 1 "[1, 3]" 2 2] full parts diff by auto
qed

end
