(* ===== verification/Row_Parallel.thy ===== *)
theory Row_Parallel
  imports Linear_Blocks
begin

text \<open>
  The row-parallel block adds the partial products of the ranks with Python's \<open>sum\<close>. Its contract, exactness on
  integers whose absolute values sum to at most \<open>2\<^sup>5\<^sup>3\<close>, is a locale, interpreted for the left-to-right sum
  of CPython up to 3.11 and for the compensated sum of later versions.
\<close>

section \<open>The sum of a list of floats\<close>

locale float_sum =
  fixes sum_fl :: "rat list \<Rightarrow> rat"
  assumes exact: "sum_list (map abs vs) \<le> 2 ^ 53 \<Longrightarrow> sum_fl (map of_int vs) = of_int (sum_list (vs :: int list))"

definition py_sum :: "rat list \<Rightarrow> rat" where
  "py_sum values = foldl (\<lambda>acc v. fl (acc + v)) 0 values"

definition compensated_step :: "rat \<times> rat \<Rightarrow> rat \<Rightarrow> rat \<times> rat" where
  "compensated_step sc x = (case sc of (s, c) \<Rightarrow>
     let t = fl (s + x)
     in (t, if \<bar>s\<bar> \<ge> \<bar>x\<bar> then fl (c + fl (fl (s - t) + x)) else fl (c + fl (fl (x - t) + s))))"

definition py_sum_compensated :: "rat list \<Rightarrow> rat" where
  "py_sum_compensated values =
     (case foldl compensated_step (0, 0) values of (s, c) \<Rightarrow> if c \<noteq> 0 then fl (s + c) else s)"

lemma abs_sum_list_le: "\<bar>sum_list vs\<bar> \<le> sum_list (map abs vs)" for vs :: "int list"
  by (induction vs) auto

lemma fl_add_int: "\<bar>a + b\<bar> \<le> 2 ^ 53 \<Longrightarrow> fl (of_int a + of_int b) = of_int (a + b)"
  using fl_of_int [of "a + b"] by simp

lemma fl_sub_int: "\<bar>a - b\<bar> \<le> 2 ^ 53 \<Longrightarrow> fl (of_int a - of_int b) = of_int (a - b)"
  using fl_of_int [of "a - b"] by simp

lemma py_sum_from:
  "\<bar>a\<bar> + sum_list (map abs vs) \<le> 2 ^ 53 \<Longrightarrow> foldl (\<lambda>acc v. fl (acc + v)) (of_int a) (map of_int vs) = of_int (a + sum_list vs)"
proof (induction vs arbitrary: a)
  case Nil
  then show ?case by simp
next
  case (Cons v vs)
  have "0 \<le> sum_list (map abs vs)" by (rule sum_list_nonneg) auto
  then have "\<bar>a + v\<bar> \<le> 2 ^ 53" using Cons.prems by simp
  then show ?case using Cons.IH [of "a + v"] Cons.prems fl_add_int [of a v] by (simp add: add.assoc)
qed

lemma compensated_from:
  "\<bar>a\<bar> + sum_list (map abs vs) \<le> 2 ^ 53 \<Longrightarrow> foldl compensated_step (of_int a, 0) (map of_int vs) = (of_int (a + sum_list vs), 0)"
proof (induction vs arbitrary: a)
  case Nil
  then show ?case by simp
next
  case (Cons v vs)
  have "0 \<le> sum_list (map abs vs)" by (rule sum_list_nonneg) auto
  then have "\<bar>a + v\<bar> \<le> 2 ^ 53" "\<bar>a\<bar> \<le> 2 ^ 53" "\<bar>v\<bar> \<le> 2 ^ 53" using Cons.prems by simp_all
  then have "compensated_step (of_int a, 0) (of_int v) = (of_int (a + v), 0)"
    using fl_add_int [of a v] fl_sub_int [of a "a + v"] fl_sub_int [of v "a + v"] by (simp add: compensated_step_def Let_def)
  then show ?case using Cons.IH [of "a + v"] Cons.prems by (simp add: add.assoc)
qed

interpretation left_sum: float_sum py_sum
proof
  fix vs :: "int list" assume "sum_list (map abs vs) \<le> 2 ^ 53"
  then show "py_sum (map of_int vs) = of_int (sum_list vs)" using py_sum_from [of 0 vs] by (simp add: py_sum_def)
qed

interpretation comp_sum: float_sum py_sum_compensated
proof
  fix vs :: "int list" assume "sum_list (map abs vs) \<le> 2 ^ 53"
  then show "py_sum_compensated (map of_int vs) = of_int (sum_list vs)"
    using compensated_from [of 0 vs] by (simp add: py_sum_compensated_def)
qed

section \<open>Exact dot products\<close>

definition idot :: "int list \<Rightarrow> nat \<Rightarrow> int list \<Rightarrow> nat \<Rightarrow> nat \<Rightarrow> int" where
  "idot W wb X xb n = (\<Sum>i<n. W ! (wb + i) * X ! (xb + i))"

definition idot_abs :: "int list \<Rightarrow> nat \<Rightarrow> int list \<Rightarrow> nat \<Rightarrow> nat \<Rightarrow> int" where
  "idot_abs W wb X xb n = (\<Sum>i<n. \<bar>W ! (wb + i) * X ! (xb + i)\<bar>)"

lemma idot_abs_le: "\<bar>idot W wb X xb n\<bar> \<le> idot_abs W wb X xb n"
  unfolding idot_def idot_abs_def by (rule sum_abs)

lemma dot_row_exact:
  assumes "wb + n \<le> length W" "xb + n \<le> length X" "idot_abs W wb X xb n \<le> 2 ^ 53"
  shows "dot_row (map of_int W) wb (map of_int X) xb n = of_int (idot W wb X xb n)"
  using assms
proof (induction n)
  case 0
  then show ?case by (simp add: dot_row_def idot_def)
next
  case (Suc n)
  let ?p = "W ! (wb + n) * X ! (xb + n)"
  have step: "idot_abs W wb X xb (Suc n) = idot_abs W wb X xb n + \<bar>?p\<bar>" "idot W wb X xb (Suc n) = idot W wb X xb n + ?p"
    by (simp_all add: idot_abs_def idot_def)
  have "0 \<le> idot_abs W wb X xb n" by (simp add: idot_abs_def sum_nonneg)
  then have b: "\<bar>?p\<bar> \<le> 2 ^ 53" "\<bar>idot W wb X xb n + ?p\<bar> \<le> 2 ^ 53" "idot_abs W wb X xb n \<le> 2 ^ 53"
    using Suc.prems(3) step idot_abs_le [of W wb X xb n] by linarith+
  have "dot_row (map of_int W) wb (map of_int X) xb (Suc n)
      = fl (dot_row (map of_int W) wb (map of_int X) xb n + fl (of_int (W ! (wb + n)) * of_int (X ! (xb + n))))"
    using Suc.prems by (simp add: dot_row_def)
  also have "fl (of_int (W ! (wb + n)) * of_int (X ! (xb + n))) = of_int ?p" using fl_of_int [OF b(1)] by simp
  finally show ?case using Suc.IH Suc.prems b fl_add_int [OF b(2)] by (simp add: step)
qed

lemma adjacent_sums:
  fixes f :: "nat \<Rightarrow> nat"
  assumes "\<And>i. i < k \<Longrightarrow> f i \<le> f (Suc i)" "f 0 = 0"
  shows "(\<Sum>i<k. \<Sum>j<f (Suc i) - f i. g (f i + j)) = (\<Sum>j<f k. g j :: int)"
  using assms(1)
proof (induction k)
  case 0
  then show ?case by (simp add: assms(2))
next
  case (Suc k)
  have "{..<f (Suc k)} = {..<f k} \<union> {f k..<f (Suc k)}" using Suc.prems [of k] by auto
  then have "(\<Sum>j<f (Suc k). g j) = (\<Sum>j<f k. g j) + (\<Sum>j = f k..<f (Suc k). g j)"
    by (simp add: sum.union_disjoint disjoint_iff)
  also have "(\<Sum>j = f k..<f (Suc k). g j) = (\<Sum>j<f (Suc k) - f k. g (f k + j))"
    using sum.shift_bounds_nat_ivl [of g 0 "f k" "f (Suc k) - f k"] Suc.prems [of k]
    by (simp add: atLeast0LessThan add.commute)
  finally show ?case using Suc by simp
qed

section \<open>The partial products\<close>

lemma nth_py_slice_nat: "a \<le> k \<Longrightarrow> k \<le> length xs \<Longrightarrow> j < k - a \<Longrightarrow> py_slice (int a) (int k) xs ! j = xs ! (a + j)"
  by (simp add: py_slice_nat)

text \<open>The partial product of rank \<open>i\<close>: each row restricted to the columns \<open>[i * w, (i + 1) * w)\<close>.\<close>

lemma rank_partial:
  fixes w out k i :: nat
  assumes W: "length W = out * (k * w)" and x: "length x = k * w" and i: "i < k"
  defines "f \<equiv> \<lambda>j. int j * int w"
  shows "matmul (concat (map (column_piece W (int (k * w)) f i) [0..<out])) (int out) (int w)
      (concat (map (column_piece x (int (k * w)) f i) [0..<1])) 1
    = Inr (map (\<lambda>row. dot_row W (row * (k * w) + i * w) x (i * w) w) [0..<out])"
proof -
  let ?S = "concat (map (column_piece W (int (k * w)) f i) [0..<out])"
  let ?X = "concat (map (column_piece x (int (k * w)) f i) [0..<1])"
  have iw: "i * w + w \<le> k * w" using mult_le_mono1 [of "Suc i" k w] i by simp
  have off: "offsets (int (k * w)) f k"
  proof -
    have "int (Suc j) * int w \<le> int k * int w" if "j < k" for j using that by (intro mult_right_mono) simp_all
    then show ?thesis by (simp add: offsets_def f_def mult_right_mono)
  qed
  have d: "f (Suc i) - f i = int w" by (simp add: f_def algebra_simps)
  have bl: "\<forall>b \<in> set (map (column_piece W (int (k * w)) f i) [0..<out]). length b = w"
    using length_piece [of W "int out" "int (k * w)" f k i] W off i d by auto
  have Xe: "?X = py_slice (int (i * w)) (int (i * w + w)) x" by (simp add: column_piece_def f_def algebra_simps)
  have "int (i * w + w) \<le> int (length x)" unfolding x of_nat_le_iff by (rule iw)
  then have "int (length (py_slice (int (i * w)) (int (i * w + w)) x)) = int (i * w + w) - int (i * w)"
    by (intro length_py_slice) simp_all
  then have Xl: "length ?X = w" unfolding Xe by linarith
  have Sl: "length ?S = out * w" using length_concat_blocks [OF bl] by simp
  have dots: "dot_row ?S (row * w) ?X 0 w = dot_row W (row * (k * w) + i * w) x (i * w) w" if row: "row < out" for row
    unfolding dot_row_def
  proof (rule foldl_cong)
    fix acc j assume "j \<in> set [0..<w]"
    then have j: "j < w" by simp
    have rb: "row * (k * w) + (i * w + w) \<le> length W"
      using mult_le_mono1 [of "Suc row" out "k * w"] row iw by (simp add: W)
    have "?S ! (row * w + j) = column_piece W (int (k * w)) f i row ! j" using nth_concat_blocks [OF bl, of row j] row j by simp
    also have "\<dots> = W ! (row * (k * w) + i * w + j)"
    proof -
      have "column_piece W (int (k * w)) f i row = py_slice (int (row * (k * w) + i * w)) (int (row * (k * w) + i * w + w)) W"
        by (simp add: column_piece_def f_def algebra_simps)
      then show ?thesis using rb j by (simp only: nth_py_slice_nat)
    qed
    finally have a: "?S ! (row * w + j) = W ! (row * (k * w) + i * w + j)" .
    have b: "?X ! (0 + j) = x ! (i * w + j)"
      unfolding Xe add_0 using iw x j by (intro nth_py_slice_nat) simp_all
    show "fl (acc + fl (?S ! (row * w + j) * ?X ! (0 + j))) = fl (acc + fl (W ! (row * (k * w) + i * w + j) * x ! (i * w + j)))"
      by (simp only: a b)
  qed simp_all
  have "matmul ?S (int out) (int w) ?X 1 = Inr (concat (map (product_row ?S (nat (int out)) (nat (int w)) ?X) [0..<nat 1]))"
    using Sl Xl by (intro matmul_eq) simp_all
  also have "concat (map (product_row ?S (nat (int out)) (nat (int w)) ?X) [0..<nat 1])
      = map (\<lambda>row. dot_row W (row * (k * w) + i * w) x (i * w) w) [0..<out]"
  proof -
    have "concat (map g [0..<nat 1]) = g 0" for g :: "nat \<Rightarrow> rat list" by simp
    moreover have "product_row ?S (nat (int out)) (nat (int w)) ?X 0 = map (\<lambda>row. dot_row W (row * (k * w) + i * w) x (i * w) w) [0..<out]"
      unfolding product_row_def nat_int mult_0 by (rule map_cong [OF refl dots]) simp
    ultimately show ?thesis by (simp only:)
  qed
  finally show ?thesis .
qed

lemma zip_rows_map:
  assumes "rows \<noteq> []" "\<forall>r \<in> set rows. length r = m"
  shows "zip_rows rows = map (\<lambda>i. map (\<lambda>r. r ! i) rows) [0..<m]"
proof -
  have "set (map length rows) = {m}" using assms by (cases rows) auto
  then have "Min (set (map length rows)) = m" by (metis Min_singleton)
  with assms(1) show ?thesis by (simp add: zip_rows_def)
qed

lemma row_parallel_eq:
  fixes w out k :: nat and fsum :: "rat list \<Rightarrow> rat"
  assumes W: "length W = out * (k * w)" and x: "length x = k * w" and k: "1 \<le> k"
  defines "partial \<equiv> \<lambda>i. map (\<lambda>row. dot_row W (row * (k * w) + i * w) x (i * w) w) [0..<out]"
  defines "merged \<equiv> map (\<lambda>row. fsum (map (\<lambda>i. dot_row W (row * (k * w) + i * w) x (i * w) w) [0..<k])) [0..<out]"
  defines "full \<equiv> map (\<lambda>row. dot_row W (row * (k * w)) x 0 (k * w)) [0..<out]"
  shows "row_parallel_case fsum W (int out) (int (k * w)) (int k) x
    = bindE (max_abs_diff full merged) (\<lambda>d.
        Inr (\<lparr>bk_full = full, bk_merged = merged, bk_max_abs = d, bk_bytes = int out * 2\<rparr>, map partial [0..<k]))"
proof -
  let ?f = "\<lambda>j. int j * int w"
  have div: "int (k * w) div int k = int w" "int (k * w) mod int k = 0" using k by simp_all
  have feq: "shard_off (int (k * w) div int k) (int (k * w) mod int k) = ?f"
    by (rule ext) (simp only: div shard_off_even)
  have plan: "plan_axis_shards p [r, int (k * w)] ''column'' (int k) ''fp16'' False
      = Inr (map (nth_shard p [r, int (k * w)] ''column'' (int k) ''fp16'') [0..<k])" for p r
    using plan_axis_shards_eq [of "''column''" "[r, int (k * w)]" "int k" False p "''fp16''"] k by (simp add: axis_of_def)
  have one: "split_flat v [int r, int (k * w)] (nth_shard p [int r, int (k * w)] ''column'' (int k) ''fp16'' i)
      = Inr (concat (map (column_piece v (int (k * w)) ?f i) [0..<r]))" if "length v = r * (k * w)" for v :: "rat list" and r p i
    using that feq
    by (simp add: split_flat_def require_def axis_of_def Let_def py_nth_def shape_prod_Cons py_range_def comp_def column_piece_def [abs_def])
  have parts: "all_res (map (\<lambda>(s, x_s).
        bindE (split_flat W [int out, int (k * w)] s) (\<lambda>shard.
        bindE (split_flat x [1, int (k * w)] x_s) (\<lambda>x_shard.
          matmul shard (int out) (sh_end s - sh_start s) x_shard 1)))
        (zip (map (nth_shard ''w'' [int out, int (k * w)] ''column'' (int k) ''fp16'') [0..<k])
             (map (nth_shard ''x'' [1, int (k * w)] ''column'' (int k) ''fp16'') [0..<k]))) = Inr (map partial [0..<k])"
    unfolding zip_map_self
  proof (rule all_res_map_total)
    fix i assume "i \<in> set [0..<k]"
    then have i: "i < k" by simp
    have e: "sh_end (nth_shard ''w'' [int out, int (k * w)] ''column'' (int k) ''fp16'' i)
        - sh_start (nth_shard ''w'' [int out, int (k * w)] ''column'' (int k) ''fp16'' i) = int w"
      by (simp add: axis_of_def shard_off_Suc div del: of_nat_mult)
    have xs: "split_flat x [1, int (k * w)] (nth_shard ''x'' [1, int (k * w)] ''column'' (int k) ''fp16'' i)
        = Inr (concat (map (column_piece x (int (k * w)) ?f i) [0..<1]))"
      using one [of x 1 "''x''" i] x by simp
    show "(case (nth_shard ''w'' [int out, int (k * w)] ''column'' (int k) ''fp16'' i, nth_shard ''x'' [1, int (k * w)] ''column'' (int k) ''fp16'' i) of
        (s, x_s) \<Rightarrow> bindE (split_flat W [int out, int (k * w)] s) (\<lambda>shard.
          bindE (split_flat x [1, int (k * w)] x_s) (\<lambda>x_shard. matmul shard (int out) (sh_end s - sh_start s) x_shard 1))) = Inr (partial i)"
      unfolding prod.case one [OF W] xs bindE.simps e partial_def by (rule rank_partial [OF W x i])
  qed
  have zr: "map fsum (zip_rows (map partial [0..<k])) = merged"
    using k by (subst zip_rows_map [where m = out]) (auto simp: partial_def merged_def comp_def)
  have full: "matmul W (int out) (int (k * w)) x 1 = Inr full"
    using matmul_eq [of W "int out" "int (k * w)" x 1] W x of_nat_mult [of out "k * w", where 'a = int] by (simp add: product_row_def full_def del: of_nat_mult)
  show ?thesis
    unfolding row_parallel_case_def plan bindE.simps parts Let_def zr full ..
qed

section \<open>Exactness on integers\<close>

lemma idot_parts: "(\<Sum>i<k. idot W (wb + i * w) X (i * w) w) = idot W wb X 0 (k * w)"
  using adjacent_sums [of k "\<lambda>i. i * w" "\<lambda>j. W ! (wb + j) * X ! j"] by (simp add: idot_def add.assoc)

lemma idot_abs_parts: "(\<Sum>i<k. idot_abs W (wb + i * w) X (i * w) w) = idot_abs W wb X 0 (k * w)"
  using adjacent_sums [of k "\<lambda>i. i * w" "\<lambda>j. \<bar>W ! (wb + j) * X ! j\<bar>"] by (simp add: idot_abs_def add.assoc)

lemma idot_abs_part_le: "i < k \<Longrightarrow> idot_abs W (wb + i * w) X (i * w) w \<le> idot_abs W wb X 0 (k * w)"
  unfolding idot_abs_parts [symmetric] by (rule member_le_sum) (simp_all add: idot_abs_def sum_nonneg)

definition exact_rows :: "int list \<Rightarrow> nat \<Rightarrow> nat \<Rightarrow> int list \<Rightarrow> rat list" where
  "exact_rows W out n X = map (\<lambda>row. of_int (idot W (row * n) X 0 n)) [0..<out]"

context float_sum
begin

lemma sum_of_parts:
  assumes "wb + k * w \<le> length W" "length X = k * w" "idot_abs W wb X 0 (k * w) \<le> 2 ^ 53"
  shows "sum_fl (map (\<lambda>i. dot_row (map of_int W) (wb + i * w) (map of_int X) (i * w) w) [0..<k]) = of_int (idot W wb X 0 (k * w))"
proof -
  let ?v = "\<lambda>i. idot W (wb + i * w) X (i * w) w"
  have part: "dot_row (map of_int W) (wb + i * w) (map of_int X) (i * w) w = of_int (?v i)" if "i < k" for i
  proof -
    have "i * w + w \<le> k * w" using mult_le_mono1 [of "Suc i" k w] that by simp
    then show ?thesis using assms(1,2) order_trans [OF idot_abs_part_le [OF that] assms(3)] by (intro dot_row_exact) simp_all
  qed
  have "sum_list (map abs (map ?v [0..<k])) = (\<Sum>i<k. \<bar>?v i\<bar>)" by (simp add: comp_def interv_sum_list_conv_sum_set_nat atLeast0LessThan)
  also have "\<dots> \<le> (\<Sum>i<k. idot_abs W (wb + i * w) X (i * w) w)" by (intro sum_mono idot_abs_le)
  also have "\<dots> \<le> 2 ^ 53" using assms(3) by (simp only: idot_abs_parts)
  finally have "sum_fl (map of_int (map ?v [0..<k])) = of_int (sum_list (map ?v [0..<k]))" by (rule exact)
  also have "sum_list (map ?v [0..<k]) = idot W wb X 0 (k * w)"
    by (simp add: interv_sum_list_conv_sum_set_nat atLeast0LessThan idot_parts)
  also have "map of_int (map ?v [0..<k]) = map (\<lambda>i. dot_row (map of_int W) (wb + i * w) (map of_int X) (i * w) w) [0..<k]"
    by (simp add: part)
  finally show ?thesis .
qed

lemma row_parallel_exact:
  assumes "length W = out * (k * w)" "length X = k * w" "1 \<le> k" "\<forall>row < out. idot_abs W (row * (k * w)) X 0 (k * w) \<le> 2 ^ 53"
  shows "\<exists>partials. row_parallel_case sum_fl (map of_int W) (int out) (int (k * w)) (int k) (map of_int X)
    = Inr (\<lparr>bk_full = exact_rows W out (k * w) X, bk_merged = exact_rows W out (k * w) X, bk_max_abs = 0, bk_bytes = int out * 2\<rparr>, partials)"
proof -
  have len: "row * (k * w) + k * w \<le> length W" if "row < out" for row
    using mult_le_mono1 [of "Suc row" out "k * w"] that by (simp add: assms(1))
  have full: "map (\<lambda>row. dot_row (map of_int W) (row * (k * w)) (map of_int X) 0 (k * w)) [0..<out] = exact_rows W out (k * w) X"
    unfolding exact_rows_def using assms len by (intro map_cong refl dot_row_exact) simp_all
  have merged: "map (\<lambda>row. sum_fl (map (\<lambda>i. dot_row (map of_int W) (row * (k * w) + i * w) (map of_int X) (i * w) w) [0..<k])) [0..<out]
      = exact_rows W out (k * w) X"
    unfolding exact_rows_def using assms len by (intro map_cong refl sum_of_parts) simp_all
  have "max_abs_diff xs xs = Inr 0" for xs :: "rat list"
    using max_abs_diff_self [of xs] by (cases "xs = []") (simp_all add: max_abs_diff_def)
  then show ?thesis
    using row_parallel_eq [of "map of_int W" out k w "map of_int X" sum_fl] assms(1-3) unfolding full merged by (auto simp del: of_nat_mult)
qed

end

text \<open>C31: on integer weights and inputs whose rows of products have absolute values summing to at most \<open>2\<^sup>5\<^sup>3\<close>, the
  row-parallel block of any degree that divides the columns returns exactly the integer product, both unsplit and
  merged from the partial products of the ranks, and reports the error 0; this holds for the left-to-right sum and for
  the compensated sum of Python.\<close>

theorem row_parallel_integers:
  assumes "length W = out * (k * w)" "length X = k * w" "1 \<le> k" "\<forall>row < out. idot_abs W (row * (k * w)) X 0 (k * w) \<le> 2 ^ 53"
    "sum_fl = py_sum \<or> sum_fl = py_sum_compensated"
  shows "\<exists>partials. row_parallel_case sum_fl (map of_int W) (int out) (int (k * w)) (int k) (map of_int X)
    = Inr (\<lparr>bk_full = exact_rows W out (k * w) X, bk_merged = exact_rows W out (k * w) X, bk_max_abs = 0, bk_bytes = int out * 2\<rparr>, partials)"
  using assms(5) left_sum.row_parallel_exact [OF assms(1-4)] comp_sum.row_parallel_exact [OF assms(1-4)] by (elim disjE) simp_all

theorem row_parallel_integers_witness:
  "\<exists>partials. row_parallel_case py_sum [1, - 2, 3, 4, 5, 6, 7, 8] 2 4 2 [1, 0, 2, - 1]
    = Inr (\<lparr>bk_full = [3, 11], bk_merged = [3, 11], bk_max_abs = 0, bk_bytes = 4\<rparr>, partials)"
proof -
  have r: "{..<4 :: nat} = {0, 1, 2, 3}" "\<And>row. row < (2 :: nat) \<longleftrightarrow> row = 0 \<or> row = 1" by auto
  have e: "exact_rows [1, - 2, 3, 4, 5, 6, 7, 8] 2 4 [1, 0, 2, - 1] = [3, 11]"
    by (simp add: exact_rows_def idot_def r(1) upt_rec numeral_eq_Suc)
  show ?thesis
    using row_parallel_integers [of "[1, - 2, 3, 4, 5, 6, 7, 8]" 2 2 2 "[1, 0, 2, - 1]" py_sum] e
    by (simp add: r idot_abs_def)
qed

end
