(* ===== verification/Tp_Census.thy ===== *)
theory Tp_Census
  imports Tensor_Shards
begin

text \<open>
  The architecture census of \<open>hqsb/distributed/parallel_plan.py\<close> and what is derived from it for one degree of tensor
  parallelism: the parameter shapes, the capability row, the head and MLP ownership of a rank, the KV cost.
  A reason is named by the quantity it complains about.
\<close>

section \<open>Census\<close>

record census =
  ca_family :: string
  ca_revision :: string
  ca_num_layers :: int
  ca_hidden :: int
  ca_intermediate :: int
  ca_q_heads :: int
  ca_kv_heads :: int
  ca_head_dim :: int
  ca_vocab :: int
  ca_rms_norm_eps :: rat
  ca_tie :: bool
  ca_attention_bias :: bool
  ca_mlp_bias :: bool
  ca_num_experts :: int
  ca_moe_top_k :: int

definition check_census :: "census \<Rightarrow> census res" where
  "check_census c =
     bindE (require (ca_num_layers c > 0) ''num_layers'') (\<lambda>_.
     bindE (require (ca_hidden c > 0) ''hidden_size'') (\<lambda>_.
     bindE (require (ca_intermediate c > 0) ''intermediate_size'') (\<lambda>_.
     bindE (require (ca_q_heads c > 0) ''num_attention_heads'') (\<lambda>_.
     bindE (require (ca_kv_heads c > 0) ''num_kv_heads'') (\<lambda>_.
     bindE (require (ca_head_dim c > 0) ''head_dim'') (\<lambda>_.
     bindE (require (ca_vocab c > 0) ''vocab_size'') (\<lambda>_.
     bindE (require (ca_q_heads c mod ca_kv_heads c = 0) ''num_kv_heads'') (\<lambda>_.
     bindE (if ca_num_experts c \<noteq> 0 then require (ca_moe_top_k c > 0) ''moe_top_k'' else Inr ()) (\<lambda>_. Inr c)))))))))"

definition head_groups :: "census \<Rightarrow> int" where
  "head_groups c = ca_q_heads c div ca_kv_heads c"

definition q_dim :: "census \<Rightarrow> int" where
  "q_dim c = ca_q_heads c * ca_head_dim c"

definition kv_dim :: "census \<Rightarrow> int" where
  "kv_dim c = ca_kv_heads c * ca_head_dim c"

type_synonym shapes = "(string \<times> int list) list"

text \<open>The entries of one layer, in the order they are put into the dictionary.\<close>

definition layer_name :: "nat \<Rightarrow> string \<Rightarrow> string" where
  "layer_name layer suffix = ''model.layers.'' @ str_nat layer @ suffix"

definition layer_suffixes :: "census \<Rightarrow> shapes" where
  "layer_suffixes c =
     [(''.input_layernorm.weight'', [ca_hidden c]),
      (''.self_attn.q_proj.weight'', [q_dim c, ca_hidden c]),
      (''.self_attn.k_proj.weight'', [kv_dim c, ca_hidden c]),
      (''.self_attn.v_proj.weight'', [kv_dim c, ca_hidden c]),
      (''.self_attn.o_proj.weight'', [ca_hidden c, q_dim c])]
     @ (if ca_attention_bias c then
          [(''.self_attn.q_proj.bias'', [q_dim c]), (''.self_attn.k_proj.bias'', [kv_dim c]), (''.self_attn.v_proj.bias'', [kv_dim c])]
        else [])
     @ [(''.post_attention_layernorm.weight'', [ca_hidden c]),
        (''.mlp.gate_proj.weight'', [ca_intermediate c, ca_hidden c]),
        (''.mlp.up_proj.weight'', [ca_intermediate c, ca_hidden c]),
        (''.mlp.down_proj.weight'', [ca_hidden c, ca_intermediate c])]
     @ (if ca_mlp_bias c then
          [(''.mlp.gate_proj.bias'', [ca_intermediate c]), (''.mlp.up_proj.bias'', [ca_intermediate c]), (''.mlp.down_proj.bias'', [ca_hidden c])]
        else [])"

definition layer_shapes :: "census \<Rightarrow> nat \<Rightarrow> shapes" where
  "layer_shapes c layer = map (\<lambda>(suffix, shape). (layer_name layer suffix, shape)) (layer_suffixes c)"

definition parameter_shapes :: "census \<Rightarrow> shapes" where
  "parameter_shapes c =
     [(''model.embed_tokens.weight'', [ca_vocab c, ca_hidden c]), (''model.norm.weight'', [ca_hidden c])]
     @ concat (map (layer_shapes c) [0..<nat (ca_num_layers c)])
     @ (if \<not> ca_tie c then [(''lm_head.weight'', [ca_vocab c, ca_hidden c])] else [])"

definition total_weight_elements :: "census \<Rightarrow> int" where
  "total_weight_elements c = sum_list (map (shape_prod \<circ> snd) (parameter_shapes c))"

section \<open>Capability of a degree\<close>

definition KV_STRATEGIES :: "string list" where
  "KV_STRATEGIES = [''SPLIT_EVEN'', ''REPLICATE'', ''UNEVEN'', ''REJECT'']"

record tp_capability =
  tc_degree :: int
  tc_supported :: bool
  tc_hidden_divisible :: bool
  tc_intermediate_divisible :: bool
  tc_q_heads_divisible :: bool
  tc_kv_heads_divisible :: bool
  tc_vocab_divisible :: bool
  tc_kv_strategy :: string
  tc_reasons :: "string list"
  tc_devices_required :: int

definition capability_strategy :: "census \<Rightarrow> bool \<Rightarrow> int \<Rightarrow> string \<times> string list" where
  "capability_strategy c allow_uneven degree =
     (if ca_kv_heads c mod degree = 0 then (''SPLIT_EVEN'', [])
      else if ca_kv_heads c \<ge> degree then
        (if allow_uneven then (''UNEVEN'', []) else (''REJECT'', [''num_kv_heads'']))
      else (''REPLICATE'', if degree > ca_kv_heads c then [''kv_replicated''] else []))"

definition capability_row :: "census \<Rightarrow> int \<Rightarrow> bool \<Rightarrow> bool \<Rightarrow> int \<Rightarrow> tp_capability res" where
  "capability_row c available_devices require_vocab_divisible allow_uneven degree =
     bindE (require (degree \<ge> 1) ''degree'') (\<lambda>_.
     let hidden_ok = (ca_hidden c mod degree = 0); intermediate_ok = (ca_intermediate c mod degree = 0);
         q_ok = (ca_q_heads c mod degree = 0); kv_ok = (ca_kv_heads c mod degree = 0); vocab_ok = (ca_vocab c mod degree = 0);
         (strategy, kv_reasons) = capability_strategy c allow_uneven degree;
         reasons = (if hidden_ok then [] else [''hidden_size'']) @ (if intermediate_ok then [] else [''intermediate_size''])
           @ (if q_ok then [] else [''num_attention_heads'']) @ (if available_devices < degree then [''devices''] else [])
           @ (if require_vocab_divisible \<and> \<not> vocab_ok then [''vocab_size''] else []) @ kv_reasons
     in bindE (require (strategy \<in> set KV_STRATEGIES) ''kv_strategy'') (\<lambda>_.
        Inr \<lparr>tc_degree = degree, tc_supported = (reasons = []), tc_hidden_divisible = hidden_ok,
          tc_intermediate_divisible = intermediate_ok, tc_q_heads_divisible = q_ok, tc_kv_heads_divisible = kv_ok,
          tc_vocab_divisible = vocab_ok, tc_kv_strategy = strategy, tc_reasons = reasons, tc_devices_required = degree\<rparr>))"

definition tp_capability_matrix :: "census \<Rightarrow> int list \<Rightarrow> int \<Rightarrow> bool \<Rightarrow> bool \<Rightarrow> tp_capability list res" where
  "tp_capability_matrix c degrees available_devices require_vocab_divisible allow_uneven =
     bindE (require (available_devices \<ge> 1) ''available_devices'') (\<lambda>_.
       all_res (map (capability_row c available_devices require_vocab_divisible allow_uneven) degrees))"

section \<open>Ownership of a rank\<close>

record attention_shard =
  at_degree :: int
  at_q_heads_per_rank :: int
  at_kv_heads_per_rank :: int
  at_kv_replicated :: bool
  at_q_range :: "int \<times> int"
  at_kv_range :: "int \<times> int"
  at_o_axis :: string
  at_global_to_local :: "(int \<times> int) list"

definition default_kv_strategy :: "census \<Rightarrow> int \<Rightarrow> string" where
  "default_kv_strategy c degree =
     (if ca_kv_heads c mod degree = 0 then ''SPLIT_EVEN'' else if ca_kv_heads c < degree then ''REPLICATE'' else ''REJECT'')"

text \<open>Heads per rank, replication and range of the KV heads under a strategy.\<close>

definition kv_share :: "census \<Rightarrow> int \<Rightarrow> int \<Rightarrow> string \<Rightarrow> int \<times> bool \<times> (int \<times> int)" where
  "kv_share c degree rank strategy =
     (if strategy = ''SPLIT_EVEN'' then
        (let per_rank = ca_kv_heads c div degree; start = rank * per_rank in (per_rank, False, (start, start + per_rank)))
      else if strategy = ''UNEVEN'' then
        (let base = ca_kv_heads c div degree; remainder = ca_kv_heads c mod degree;
             per_rank = base + (if rank < remainder then 1 else 0); start = rank * base + min rank remainder
         in (per_rank, False, (start, start + per_rank)))
      else (ca_kv_heads c, True, (0, ca_kv_heads c)))"

definition derive_attention_shard :: "census \<Rightarrow> int \<Rightarrow> int \<Rightarrow> string option \<Rightarrow> attention_shard res" where
  "derive_attention_shard c degree rank kv_strategy =
     bindE (require (degree \<ge> 1 \<and> 0 \<le> rank \<and> rank < degree) ''rank'') (\<lambda>_.
     let strategy = (case kv_strategy of None \<Rightarrow> default_kv_strategy c degree | Some s \<Rightarrow> s) in
     bindE (require (strategy \<noteq> ''REJECT'') ''kv_strategy'') (\<lambda>_.
     bindE (require (ca_q_heads c mod degree = 0 \<or> strategy = ''UNEVEN'') ''degree'') (\<lambda>_.
     let q_per_rank = ca_q_heads c div degree; q_start = rank * q_per_rank;
         (kv_per_rank, replicated, kv_range) = kv_share c degree rank strategy
     in Inr \<lparr>at_degree = degree, at_q_heads_per_rank = q_per_rank, at_kv_heads_per_rank = kv_per_rank,
          at_kv_replicated = replicated, at_q_range = (q_start, q_start + q_per_rank), at_kv_range = kv_range,
          at_o_axis = ''row'', at_global_to_local = map (\<lambda>offset. (q_start + offset, offset)) (py_range q_per_rank)\<rparr>)))"

record mlp_shard =
  ml_degree :: int
  ml_intermediate_per_rank :: int
  ml_gate_range :: "int \<times> int"
  ml_up_range :: "int \<times> int"
  ml_down_axis :: string
  ml_collective :: string
  ml_bias_placement :: string

definition derive_mlp_shard :: "census \<Rightarrow> int \<Rightarrow> int \<Rightarrow> string \<Rightarrow> mlp_shard res" where
  "derive_mlp_shard c degree rank collective =
     bindE (require (degree \<ge> 1 \<and> 0 \<le> rank \<and> rank < degree) ''rank'') (\<lambda>_.
     bindE (require (ca_intermediate c mod degree = 0) ''intermediate_size'') (\<lambda>_.
     bindE (require (collective \<in> set [''all_reduce'', ''reduce_scatter'']) ''collective'') (\<lambda>_.
     let per_rank = ca_intermediate c div degree; start = rank * per_rank
     in Inr \<lparr>ml_degree = degree, ml_intermediate_per_rank = per_rank, ml_gate_range = (start, start + per_rank),
          ml_up_range = (start, start + per_rank), ml_down_axis = ''row'', ml_collective = collective,
          ml_bias_placement = ''sharded_with_output''\<rparr>)))"

section \<open>Embedding and KV cache\<close>

definition EMBEDDING_STRATEGIES :: "string list" where
  "EMBEDDING_STRATEGIES = [''replicated'', ''vocab_parallel'']"

record embedding_decision =
  em_strategy :: string
  em_vocab_per_rank :: int
  em_replicated_bytes :: int
  em_communication :: string

definition embedding_strategy :: "census \<Rightarrow> int \<Rightarrow> int \<Rightarrow> string option \<Rightarrow> embedding_decision res" where
  "embedding_strategy c degree dtype_bytes choice =
     (if choice = None \<or> choice = Some ''replicated'' then
        Inr \<lparr>em_strategy = ''replicated'', em_vocab_per_rank = ca_vocab c,
          em_replicated_bytes = ca_vocab c * ca_hidden c * dtype_bytes, em_communication = ''none''\<rparr>
      else if degree = 0 then Inl ZeroDivisionError
      else bindE (require (ca_vocab c mod degree = 0) ''vocab_size'') (\<lambda>_.
        Inr \<lparr>em_strategy = ''vocab_parallel'', em_vocab_per_rank = ca_vocab c div degree, em_replicated_bytes = 0,
          em_communication = ''all_gather/masked logits + distributed top-k''\<rparr>))"

definition kv_per_token_bytes :: "census \<Rightarrow> int \<Rightarrow> int \<Rightarrow> (int \<times> int) res" where
  "kv_per_token_bytes c degree kv_dtype_bytes =
     (if degree = 0 then Inl ZeroDivisionError
      else let local_heads = (if ca_kv_heads c mod degree = 0 then ca_kv_heads c div degree
                 else if ca_kv_heads c < degree then ca_kv_heads c else - (- ca_kv_heads c div degree))
      in Inr (local_heads, ca_num_layers c * local_heads * ca_head_dim c * 2 * kv_dtype_bytes))"

record kv_own =
  ko_degree :: int
  ko_local_heads :: int
  ko_replicated_heads :: int
  ko_per_token_bytes :: int
  ko_capacity_tokens :: int

definition kv_ownership :: "census \<Rightarrow> int \<Rightarrow> int \<Rightarrow> int \<Rightarrow> rat \<Rightarrow> kv_own res" where
  "kv_ownership c degree kv_dtype_bytes free_memory_bytes reserved_fraction =
     bindE (kv_per_token_bytes c degree kv_dtype_bytes) (\<lambda>(local_heads, per_token).
       Inr \<lparr>ko_degree = degree, ko_local_heads = local_heads,
         ko_replicated_heads = (if local_heads = ca_kv_heads c \<and> ca_kv_heads c < degree then ca_kv_heads c else 0),
         ko_per_token_bytes = per_token,
         ko_capacity_tokens = (if free_memory_bytes \<noteq> 0 then
             (let usable = trunc_rat (int_times_float free_memory_bytes (fl (1 - reserved_fraction)))
              in if per_token \<noteq> 0 then usable div per_token else 0) else 0)\<rparr>)"

end
