(* ===== verification/Parallel_Plan.thy ===== *)
theory Parallel_Plan
  imports Tp_Census
begin

text \<open>
  The parallel plan of \<open>hqsb/distributed/parallel_plan.py\<close>: its records, its derivation from a census and its
  validation, the load audit, the memory model and the gates. A problem is named by what it complains about; the
  JSON rendering and the hash of a plan are not modelled.
\<close>

section \<open>Records\<close>

definition PLAN_COLLECTIVE_TRIGGERS :: "string list" where
  "PLAN_COLLECTIVE_TRIGGERS = [''all_reduce'', ''reduce_scatter'', ''all_gather'', ''scatter'', ''none'']"

definition REPLICATION_POLICIES :: "string list" where
  "REPLICATION_POLICIES = [''REPLICATED'', ''SHARDED'', ''LOCAL_COMPLETE'']"

record replication_policy =
  rp_role :: string
  rp_policy :: string
  rp_reason :: string
  rp_collective_required :: bool

definition check_policy :: "replication_policy \<Rightarrow> replication_policy res" where
  "check_policy p =
     bindE (require (rp_policy p \<in> set REPLICATION_POLICIES) ''policy'') (\<lambda>_.
     bindE (require (rp_reason p \<noteq> []) ''reason'') (\<lambda>_. Inr p))"

definition default_replication_policies :: "replication_policy list res" where
  "default_replication_policies = all_res (map check_policy
     [\<lparr>rp_role = ''input_layernorm'', rp_policy = ''REPLICATED'',
        rp_reason = ''RMSNorm reduces over the full hidden dim, which is replicated; no communication'', rp_collective_required = False\<rparr>,
      \<lparr>rp_role = ''post_attention_layernorm'', rp_policy = ''REPLICATED'',
        rp_reason = ''same as input layernorm; the residual stream stays replicated'', rp_collective_required = False\<rparr>,
      \<lparr>rp_role = ''rotary_embedding'', rp_policy = ''REPLICATED'',
        rp_reason = ''cos/sin tables are position-only and identical on every rank'', rp_collective_required = False\<rparr>,
      \<lparr>rp_role = ''residual_stream'', rp_policy = ''REPLICATED'',
        rp_reason = ''the model's residual semantics require an identical full hidden vector per rank'', rp_collective_required = False\<rparr>,
      \<lparr>rp_role = ''final_norm'', rp_policy = ''REPLICATED'',
        rp_reason = ''reduces over the replicated hidden dim'', rp_collective_required = False\<rparr>])"

record activation_layout =
  al_role :: string
  al_layout :: string
  al_axis :: string
  al_start :: int
  al_end :: int
  al_source :: string

definition check_layout :: "activation_layout \<Rightarrow> activation_layout res" where
  "check_layout a =
     bindE (require (al_layout a \<in> set [''replicated'', ''sharded'']) ''layout'') (\<lambda>_.
     bindE (require (al_source a \<in> set PLAN_COLLECTIVE_TRIGGERS) ''source_collective'') (\<lambda>_. Inr a))"

definition validate_collective_input_state :: "activation_layout \<Rightarrow> activation_layout \<Rightarrow> string \<Rightarrow> string list res" where
  "validate_collective_input_state expected actual collective =
     bindE (require (collective \<in> set PLAN_COLLECTIVE_TRIGGERS) ''collective'') (\<lambda>_.
       Inr ((if al_layout expected \<noteq> al_layout actual then [''layout''] else [])
         @ (if al_layout expected = ''sharded''
              \<and> (al_axis expected, al_start expected, al_end expected) \<noteq> (al_axis actual, al_start actual, al_end actual)
            then [''shard range''] else [])))"

record plan_event =
  pe_phase :: string
  pe_layer :: int
  pe_submodule :: string
  pe_collective :: string
  pe_tensor_role :: string
  pe_trigger :: string
  pe_group :: string

definition check_event :: "plan_event \<Rightarrow> plan_event res" where
  "check_event e = bindE (require (pe_collective e \<in> set PLAN_COLLECTIVE_TRIGGERS) ''collective'') (\<lambda>_. Inr e)"

record parallel_plan =
  pl_plan_id :: string
  pl_manifest_sha :: string
  pl_degree :: int
  pl_ordered_ranks :: "int list"
  pl_placement_hash :: string
  pl_shards :: "shard_spec list"
  pl_attention :: "attention_shard list"
  pl_mlp :: "mlp_shard list"
  pl_policies :: "replication_policy list"
  pl_embedding :: "embedding_decision option"
  pl_kv :: "kv_own option"
  pl_layouts :: "activation_layout list"
  pl_events :: "plan_event list"
  pl_unsupported_predicate :: string
  pl_shard_format :: string
  pl_fallback_policy :: string
  pl_created_at :: string
  pl_schema_version :: string

section \<open>Validation\<close>

datatype plan_problem =
    DegreeProblem
  | RankCountProblem
  | DuplicateRanksProblem
  | FallbackProblem
  | NoPredicateProblem
  | MissingParameters "string list"
  | UnknownParameters "string list"
  | ShapeProblem string
  | RangeProblem string "int \<times> int"

definition plan_basics :: "parallel_plan \<Rightarrow> plan_problem list" where
  "plan_basics p =
     (if pl_degree p < 1 then [DegreeProblem] else [])
     @ (if int (length (pl_ordered_ranks p)) \<noteq> pl_degree p then [RankCountProblem] else [])
     @ (if length (remdups (pl_ordered_ranks p)) \<noteq> length (pl_ordered_ranks p) then [DuplicateRanksProblem] else [])
     @ (if pl_fallback_policy p \<noteq> ''reject'' then [FallbackProblem] else [])
     @ (if pl_unsupported_predicate p = [] then [NoPredicateProblem] else [])"

text \<open>\<open>shapes[name]\<close>\<close>

definition census_shape :: "shapes \<Rightarrow> string \<Rightarrow> int list res" where
  "census_shape shapes name = (case map_of shapes name of None \<Rightarrow> Inl KeyError | Some shape \<Rightarrow> Inr shape)"

definition plan_names :: "census \<Rightarrow> parallel_plan \<Rightarrow> plan_problem list" where
  "plan_names c p =
     (let expected = map fst (parameter_shapes c); covered = map sh_param_name (pl_shards p);
          missing = sort (remdups (filter (\<lambda>n. n \<notin> set covered) expected));
          unknown = sort (remdups (filter (\<lambda>n. n \<notin> set expected) covered))
      in (if missing \<noteq> [] then [MissingParameters (take 5 missing)] else [])
       @ (if unknown \<noteq> [] then [UnknownParameters (take 5 unknown)] else []))"

definition shape_problems :: "census \<Rightarrow> shard_spec \<Rightarrow> plan_problem list res" where
  "shape_problems c s =
     bindE (census_shape (parameter_shapes c) (sh_param_name s)) (\<lambda>shape.
       Inr (if sh_global_shape s \<noteq> shape then [ShapeProblem (sh_param_name s)] else []))"

text \<open>The audit of one parameter's non-replicated shards.\<close>

definition range_problems :: "census \<Rightarrow> shard_spec list \<Rightarrow> string \<Rightarrow> plan_problem list res" where
  "range_problems c sharded param =
     bindE (census_shape (parameter_shapes c) param) (\<lambda>shape.
     bindE (verify_shard_ranges (filter (\<lambda>s. sh_param_name s = param) sharded) shape) (\<lambda>audit.
       Inr (map (\<lambda>(_, r). RangeProblem param r) (au_overlaps audit @ au_gaps audit))))"

definition plan_validate :: "census option \<Rightarrow> parallel_plan \<Rightarrow> plan_problem list res" where
  "plan_validate census p =
     (case census of None \<Rightarrow> Inr (plan_basics p)
      | Some c \<Rightarrow>
          bindE (all_res (map (shape_problems c) (pl_shards p))) (\<lambda>shape_ps.
          let sharded = filter (\<lambda>s. sh_axis s \<noteq> ''none'') (pl_shards p) in
          bindE (all_res (map (range_problems c sharded) (sort (remdups (map sh_param_name sharded))))) (\<lambda>range_ps.
            Inr (plan_basics p @ plan_names c p @ concat shape_ps @ concat range_ps))))"

definition shards_for :: "parallel_plan \<Rightarrow> string \<Rightarrow> shard_spec list" where
  "shards_for p param = filter (\<lambda>s. sh_param_name s = param) (pl_shards p)"

section \<open>Derivation\<close>

definition endswith :: "string \<Rightarrow> string \<Rightarrow> bool" where
  "endswith s suffix \<longleftrightarrow> length suffix \<le> length s \<and> drop (length s - length suffix) s = suffix"

text \<open>The shards of one parameter, chosen by the end of its name.\<close>

definition param_shards :: "census \<Rightarrow> int \<Rightarrow> string \<Rightarrow> bool \<Rightarrow> string \<times> int list \<Rightarrow> shard_spec list res" where
  "param_shards c degree dtype allow_padding entry =
     (case entry of (name, shape) \<Rightarrow>
      if endswith name ''embed_tokens.weight'' \<or> endswith name ''lm_head.weight'' \<or> endswith name ''norm.weight''
         \<or> endswith name ''layernorm.weight''
      then bindE (replicated_shard name shape dtype degree) (\<lambda>s. Inr [s])
      else if endswith name ''q_proj.weight'' \<or> endswith name ''q_proj.bias''
      then plan_axis_shards name shape ''row'' degree dtype allow_padding
      else if endswith name ''k_proj.weight'' \<or> endswith name ''v_proj.weight'' \<or> endswith name ''k_proj.bias'' \<or> endswith name ''v_proj.bias''
      then (if ca_kv_heads c mod degree = 0 then plan_axis_shards name shape ''row'' degree dtype allow_padding
            else bindE (replicated_shard name shape dtype degree) (\<lambda>s. Inr [s]))
      else if endswith name ''o_proj.weight'' \<or> endswith name ''down_proj.weight''
      then plan_axis_shards name shape ''column'' degree dtype allow_padding
      else if endswith name ''gate_proj.weight'' \<or> endswith name ''up_proj.weight'' \<or> endswith name ''gate_proj.bias'' \<or> endswith name ''up_proj.bias''
      then plan_axis_shards name shape ''row'' degree dtype allow_padding
      else plan_axis_shards name shape ''column'' degree dtype allow_padding)"

definition layer_events :: "string \<Rightarrow> int \<Rightarrow> plan_event list" where
  "layer_events collective_merge layer =
     (let collective = (if collective_merge = ''all_reduce'' then ''all_reduce'' else ''reduce_scatter'')
      in [\<lparr>pe_phase = ''both'', pe_layer = layer, pe_submodule = ''self_attn.o_proj'', pe_collective = collective,
            pe_tensor_role = ''attention_output'', pe_trigger = ''after the row-parallel O projection'', pe_group = ''tp''\<rparr>,
          \<lparr>pe_phase = ''both'', pe_layer = layer, pe_submodule = ''mlp.down_proj'', pe_collective = collective,
            pe_tensor_role = ''mlp_output'', pe_trigger = ''after the row-parallel down projection'', pe_group = ''tp''\<rparr>])"

definition plan_layouts :: "activation_layout list" where
  "plan_layouts =
     [\<lparr>al_role = ''residual_stream'', al_layout = ''replicated'', al_axis = ''none'', al_start = 0, al_end = 0, al_source = ''none''\<rparr>,
      \<lparr>al_role = ''mlp_gate_up'', al_layout = ''sharded'', al_axis = ''row'', al_start = 0, al_end = 0, al_source = ''none''\<rparr>,
      \<lparr>al_role = ''attention_output_partial'', al_layout = ''sharded'', al_axis = ''column'', al_start = 0, al_end = 0, al_source = ''none''\<rparr>]"

definition derive_plan ::
  "census \<Rightarrow> string \<Rightarrow> string \<Rightarrow> int \<Rightarrow> int list \<Rightarrow> string \<Rightarrow> string \<Rightarrow> int \<Rightarrow> int \<Rightarrow> bool \<Rightarrow> string \<Rightarrow> string \<Rightarrow> parallel_plan res" where
  "derive_plan c plan_id manifest_sha degree ordered_ranks placement_hash dtype kv_dtype_bytes free_memory_bytes
     allow_padding collective_merge created_at =
     bindE (tp_capability_matrix c [degree] degree False allow_padding) (\<lambda>rows.
     let capability = last rows in
     bindE (require (tc_supported capability \<or> tc_kv_strategy capability \<noteq> ''REJECT'') ''degree'') (\<lambda>_.
     bindE (all_res (map (param_shards c degree dtype allow_padding) (parameter_shapes c))) (\<lambda>shards.
     bindE (all_res (map (\<lambda>rank. derive_attention_shard c degree rank (Some (tc_kv_strategy capability))) (py_range degree))) (\<lambda>attention.
     bindE (all_res (map (\<lambda>rank. derive_mlp_shard c degree rank collective_merge) (py_range degree))) (\<lambda>mlp.
     bindE (all_res (map check_event (concat (map (layer_events collective_merge) (py_range (ca_num_layers c)))))) (\<lambda>events.
     bindE (all_res (map check_layout plan_layouts)) (\<lambda>layouts.
     bindE default_replication_policies (\<lambda>policies.
     bindE (embedding_strategy c degree 2 None) (\<lambda>embedding.
     bindE (kv_ownership c degree kv_dtype_bytes free_memory_bytes (fl (1 / 10))) (\<lambda>kv.
       Inr \<lparr>pl_plan_id = plan_id, pl_manifest_sha = manifest_sha, pl_degree = degree, pl_ordered_ranks = ordered_ranks,
         pl_placement_hash = placement_hash, pl_shards = concat shards, pl_attention = attention, pl_mlp = mlp,
         pl_policies = policies, pl_embedding = Some embedding, pl_kv = Some kv, pl_layouts = layouts, pl_events = events,
         pl_unsupported_predicate = ''hidden/intermediate/head/vocab divisibility per tp_capability_matrix; anything else is PAD/UNEVEN/REJECT, never truncated'',
         pl_shard_format = ''hqsb.shard.v1'', pl_fallback_policy = ''reject'', pl_created_at = created_at,
         pl_schema_version = ''1.0.0''\<rparr>))))))))))"

section \<open>Loading and memory\<close>

record load_plan =
  lp_mode :: string
  lp_peaks :: "int list"

definition check_load_plan :: "load_plan \<Rightarrow> load_plan res" where
  "check_load_plan p = bindE (require (lp_mode p \<in> set [''direct_shard_load'', ''full_then_split'']) ''mode'') (\<lambda>_. Inr p)"

definition audit_direct_load :: "load_plan \<Rightarrow> int \<Rightarrow> rat \<Rightarrow> (bool \<times> nat list) res" where
  "audit_direct_load plan full_model_bytes tolerance =
     bindE (require (full_model_bytes > 0) ''full_model_bytes'') (\<lambda>_.
     let offenders = filter (\<lambda>i. of_int (lp_peaks plan ! i) > int_times_float full_model_bytes tolerance) [0..<length (lp_peaks plan)]
     in Inr (lp_mode plan = ''direct_shard_load'' \<and> offenders = [], offenders))"

record memory_prediction =
  mm_weights_sharded :: int
  mm_weights_replicated :: int
  mm_kv :: int

definition memory_model :: "parallel_plan \<Rightarrow> int \<Rightarrow> int \<Rightarrow> memory_prediction" where
  "memory_model plan dtype_bytes tokens =
     \<lparr>mm_weights_sharded = sum_list (map (\<lambda>s. shard_numel s * dtype_bytes) (filter (\<lambda>s. \<not> sh_replicated s) (pl_shards plan))),
      mm_weights_replicated = sum_list (map (\<lambda>s. shard_numel s * dtype_bytes * sh_count s) (filter sh_replicated (pl_shards plan))),
      mm_kv = (case pl_kv plan of Some kv \<Rightarrow> if tokens \<noteq> 0 then ko_per_token_bytes kv * tokens else 0 | None \<Rightarrow> 0)\<rparr>"

section \<open>Correctness cases and gates\<close>

definition attention_block_case :: "int \<Rightarrow> int \<Rightarrow> int \<Rightarrow> int \<Rightarrow> (int list \<times> bool \<times> bool) res" where
  "attention_block_case hidden num_heads head_dim degree =
     bindE (check_census \<lparr>ca_family = ''synthetic'', ca_revision = ''fixture'', ca_num_layers = 1, ca_hidden = hidden,
         ca_intermediate = hidden * 2, ca_q_heads = num_heads, ca_kv_heads = max 1 (num_heads div 2), ca_head_dim = head_dim,
         ca_vocab = 128, ca_rms_norm_eps = fl (1 / 1000000), ca_tie = True, ca_attention_bias = False, ca_mlp_bias = False,
         ca_num_experts = 0, ca_moe_top_k = 0\<rparr>) (\<lambda>c.
     bindE (all_res (map (\<lambda>rank. derive_attention_shard c degree rank None) (py_range degree))) (\<lambda>shards.
     let covered = sort (concat (map (\<lambda>s. map (\<lambda>i. fst (at_q_range s) + i) (py_range (snd (at_q_range s) - fst (at_q_range s)))) shards))
     in Inr (covered, covered = py_range num_heads, list_ex at_kv_replicated shards)))"

definition layer_case :: "(int \<times> rat) list \<Rightarrow> rat \<Rightarrow> int list \<times> int option" where
  "layer_case layer_errors tolerance =
     (let failing = sort (map fst (filter (\<lambda>(_, error). error > tolerance) layer_errors))
      in (failing, if failing \<noteq> [] then Some (hd failing) else None))"

fun first_deviation :: "(string \<times> rat) list \<Rightarrow> string \<times> rat" where
  "first_deviation [] = ('''', 0)"
| "first_deviation ((stage, v) # rest) = (if v > 0 then (stage, v) else first_deviation rest)"

definition decode_alignment_plan :: "int \<Rightarrow> bool \<Rightarrow> (int \<times> bool) res" where
  "decode_alignment_plan steps greedy =
     bindE (require (steps \<ge> 1) ''steps'') (\<lambda>_. bindE (require greedy ''greedy'') (\<lambda>_. Inr (steps, greedy)))"

record run_plan =
  rn_name :: string
  rn_phase :: string
  rn_steps :: int

definition representative_run_plan :: "string \<Rightarrow> int \<Rightarrow> bool \<Rightarrow> run_plan res" where
  "representative_run_plan phase osl tiny =
     bindE (require (phase \<in> set [''prefill'', ''decode'']) ''phase'') (\<lambda>_.
       Inr \<lparr>rn_name = (if tiny then ''tiny_'' else ''representative_'') @ phase, rn_phase = phase,
         rn_steps = (if phase = ''decode'' then osl else 1)\<rparr>)"

definition UNSUPPORTED_POLICIES :: "string list" where
  "UNSUPPORTED_POLICIES = [''PAD'', ''UNEVEN'', ''REJECT'']"

record unsupported_decision =
  ud_predicate :: string
  ud_policy :: string
  ud_padding :: int
  ud_reason :: string

definition unsupported_policy :: "string \<Rightarrow> string \<Rightarrow> int \<Rightarrow> string \<Rightarrow> unsupported_decision res" where
  "unsupported_policy predicate policy padding reason0 =
     (let reason = (if policy = ''REJECT'' \<and> reason0 = []
          then ''the shape cannot be sharded or padded under the frozen plan; reject rather than truncate'' else reason0)
      in bindE (require (policy \<in> set UNSUPPORTED_POLICIES) ''policy'') (\<lambda>_.
         bindE (require (reason \<noteq> []) ''reason'') (\<lambda>_.
           Inr \<lparr>ud_predicate = predicate, ud_policy = policy, ud_padding = padding, ud_reason = reason\<rparr>)))"

definition assert_no_truncation :: "int \<Rightarrow> int \<Rightarrow> int res" where
  "assert_no_truncation global_extent covered_extent =
     bindE (require (\<not> covered_extent < global_extent) ''covered_extent'') (\<lambda>_. Inr (covered_extent - global_extent))"

definition tp_plan_gate :: "bool \<Rightarrow> bool \<Rightarrow> bool \<Rightarrow> bool \<Rightarrow> bool \<Rightarrow> bool \<Rightarrow> string list \<Rightarrow> bool \<times> string list" where
  "tp_plan_gate plan_ok roundtrip_ok direct_load_ok correctness_ok ledger_closed kv_ok blockers =
     (let problems = blockers @ (if plan_ok then [] else [''plan'']) @ (if roundtrip_ok then [] else [''roundtrip''])
        @ (if direct_load_ok then [] else [''direct load'']) @ (if correctness_ok then [] else [''correctness''])
        @ (if ledger_closed then [] else [''ledger'']) @ (if kv_ok then [] else [''kv''])
      in (problems = [], problems))"

end
