(* ===== verification/Parallel_Plan_Props.thy ===== *)
theory Parallel_Plan_Props
  imports Parallel_Plan Shard_Round_Trip
begin

text \<open>
  A derived plan passes its own validation, which architectures can be derived, who owns which heads, and what the
  memory model counts.
\<close>

section \<open>Parameter names\<close>

lemma endswith_append: "length suf \<le> length t \<Longrightarrow> endswith (p @ t) suf = endswith t suf"
  by (auto simp: endswith_def)

lemma endswith_append_short:
  "length t < length suf \<Longrightarrow> drop (length suf - length t) suf \<noteq> t \<Longrightarrow> \<not> endswith (p @ t) suf"
proof
  assume a: "length t < length suf" "drop (length suf - length t) suf \<noteq> t" "endswith (p @ t) suf"
  then have l: "length suf \<le> length (p @ t)" and d: "drop (length (p @ t) - length suf) (p @ t) = suf" by (simp_all add: endswith_def)
  have "drop (length suf - length t) suf = drop (length suf - length t + (length (p @ t) - length suf)) (p @ t)"
    by (subst d [symmetric]) (simp only: drop_drop)
  also have "length suf - length t + (length (p @ t) - length suf) = length p" using a(1) l by simp
  finally show False using a(2) by simp
qed

lemma layer_name_split: "layer_name layer suffix = (''model.layers.'' @ str_nat layer) @ suffix"
  by (simp add: layer_name_def)

lemmas endswith_layer = endswith_append [of _ _ "''model.layers.'' @ str_nat layer" for layer, folded layer_name_split]
  endswith_append_short [of _ _ "''model.layers.'' @ str_nat layer" for layer, folded layer_name_split]

lemma no_dot_in_numeral: "CHR ''.'' \<notin> set (str_nat n)"
proof (induction n rule: str_nat.induct)
  case (1 n)
  have d: "char_of (48 + k) \<noteq> CHR ''.''" if "k < 10" for k :: nat
  proof
    assume "char_of (48 + k) = CHR ''.''"
    then have "(of_char (char_of (48 + k) :: char) :: nat) = 46" by simp
    then show False using that by simp
  qed
  show ?case
  proof (cases "n < 10")
    case True
    then show ?thesis using d [of n] by (simp add: str_nat.simps [of n])
  next
    case False
    then show ?thesis using 1 d [of "n mod 10"] by (simp add: str_nat.simps [of n])
  qed
qed

lemma layer_name_inj:
  assumes "layer_name i (CHR ''.'' # s) = layer_name j (CHR ''.'' # t)"
  shows "i = j \<and> s = t"
proof -
  have e: "str_nat i @ CHR ''.'' # s = str_nat j @ CHR ''.'' # t" using assms by (simp add: layer_name_def)
  have tw: "takeWhile (\<lambda>ch. ch \<noteq> CHR ''.'') (str_nat n @ CHR ''.'' # u) = str_nat n" for n u
    using no_dot_in_numeral [of n] by (subst takeWhile_append2) auto
  have "str_nat i = str_nat j" using tw [of i s] tw [of j t] e by simp
  then show ?thesis using e str_nat_inj by auto
qed

lemma layer_suffix_dot: "(suffix, shape) \<in> set (layer_suffixes c) \<Longrightarrow> \<exists>s. suffix = CHR ''.'' # s"
  by (auto simp: layer_suffixes_def split: if_splits)

lemma layer_suffix_names: "map fst (layer_suffixes c) =
     [''.input_layernorm.weight'', ''.self_attn.q_proj.weight'', ''.self_attn.k_proj.weight'', ''.self_attn.v_proj.weight'', ''.self_attn.o_proj.weight'']
     @ (if ca_attention_bias c then [''.self_attn.q_proj.bias'', ''.self_attn.k_proj.bias'', ''.self_attn.v_proj.bias''] else [])
     @ [''.post_attention_layernorm.weight'', ''.mlp.gate_proj.weight'', ''.mlp.up_proj.weight'', ''.mlp.down_proj.weight'']
     @ (if ca_mlp_bias c then [''.mlp.gate_proj.bias'', ''.mlp.up_proj.bias'', ''.mlp.down_proj.bias''] else [])"
  by (cases "ca_attention_bias c"; cases "ca_mlp_bias c") (simp_all only: layer_suffixes_def if_True if_False append_Cons append_Nil list.map fst_conv)

lemma distinct_suffix_list: "\<forall>a b. distinct
     ([''.input_layernorm.weight'', ''.self_attn.q_proj.weight'', ''.self_attn.k_proj.weight'', ''.self_attn.v_proj.weight'', ''.self_attn.o_proj.weight'']
     @ (if a then [''.self_attn.q_proj.bias'', ''.self_attn.k_proj.bias'', ''.self_attn.v_proj.bias''] else [])
     @ [''.post_attention_layernorm.weight'', ''.mlp.gate_proj.weight'', ''.mlp.up_proj.weight'', ''.mlp.down_proj.weight'']
     @ (if b then [''.mlp.gate_proj.bias'', ''.mlp.up_proj.bias'', ''.mlp.down_proj.bias''] else []))"
  by code_simp

lemma distinct_layer_suffixes: "distinct (map fst (layer_suffixes c))"
  using distinct_suffix_list by (simp only: layer_suffix_names)

lemma layer_names: "map fst (layer_shapes c layer) = map (layer_name layer) (map fst (layer_suffixes c))"
  by (simp add: layer_shapes_def comp_def case_prod_beta)

lemma distinct_layer_names: "distinct (map fst (layer_shapes c layer))"
  unfolding layer_names
proof (subst distinct_map, intro conjI distinct_layer_suffixes inj_onI)
  fix a b assume "a \<in> set (map fst (layer_suffixes c))" "b \<in> set (map fst (layer_suffixes c))" "layer_name layer a = layer_name layer b"
  then show "a = b" by (simp add: layer_name_def)
qed

lemma layer_names_disjoint:
  assumes "i \<noteq> j"
  shows "set (map fst (layer_shapes c i)) \<inter> set (map fst (layer_shapes c j)) = {}"
proof -
  have False if ab: "a \<in> set (map fst (layer_suffixes c))" "b \<in> set (map fst (layer_suffixes c))" "layer_name i a = layer_name j b" for a b
  proof -
    obtain s t where "a = CHR ''.'' # s" "b = CHR ''.'' # t" using ab(1,2) layer_suffix_dot [of _ _ c] by fastforce
    then show False using ab(3) layer_name_inj assms by blast
  qed
  then show ?thesis unfolding layer_names by fastforce
qed

lemma distinct_all_layer_names: "distinct (map fst (concat (map (layer_shapes c) [0..<n])))"
proof (induction n)
  case 0
  then show ?case by simp
next
  case (Suc n)
  have "set (map fst (concat (map (layer_shapes c) [0..<n]))) = (\<Union>i < n. set (map fst (layer_shapes c i)))"
    by (simp add: image_Union image_image atLeast0LessThan lessThan_def)
  moreover have "(\<Union>i < n. set (map fst (layer_shapes c i))) \<inter> set (map fst (layer_shapes c n)) = {}"
  proof (rule equals0I)
    fix x assume x: "x \<in> (\<Union>i < n. set (map fst (layer_shapes c i))) \<inter> set (map fst (layer_shapes c n))"
    then obtain i where "i < n" "x \<in> set (map fst (layer_shapes c i))" by blast
    then show False using x layer_names_disjoint [of i n c] by blast
  qed
  ultimately have "distinct (map fst (concat (map (layer_shapes c) [0..<n])) @ map fst (layer_shapes c n))"
    by (simp only: distinct_append Suc distinct_layer_names simp_thms)
  then show ?case by (simp only: upt_Suc_append le0 map_append concat_append list.map concat.simps append_Nil2)
qed

lemma distinct_parameter_names: "distinct (map fst (parameter_shapes c))"
proof -
  have l: "n \<in> fst ` set (concat (map (layer_shapes c) [0..<k])) \<Longrightarrow> \<exists>r. n = ''model.layers.'' @ r" for n k
    by (auto simp: layer_shapes_def layer_name_def)
  have d: "distinct (map fst (concat (map (layer_shapes c) [0..<nat (ca_num_layers c)])))" by (rule distinct_all_layer_names)
  have n: "''model.embed_tokens.weight'' \<notin> fst ` set (concat (map (layer_shapes c) [0..<k]))"
     "''model.norm.weight'' \<notin> fst ` set (concat (map (layer_shapes c) [0..<k]))"
     "''lm_head.weight'' \<notin> fst ` set (concat (map (layer_shapes c) [0..<k]))" for k
    using l by fastforce+
  show ?thesis using d n [of "nat (ca_num_layers c)"] unfolding parameter_shapes_def by (simp del: set_concat)
qed

section \<open>The shards of one parameter\<close>

lemma replicated_shard_eq:
  "1 \<le> count \<Longrightarrow> replicated_shard n shape dtype count = Inr \<lparr>sh_param_name = n, sh_global_shape = shape, sh_axis = ''none'', sh_index = 0,
       sh_count = count, sh_start = 0, sh_end = (if shape = [] then 0 else hd shape), sh_padding = 0,
       sh_replicated = True, sh_dtype = dtype\<rparr>"
  by (simp add: replicated_shard_def check_shard_def require_def SHARD_AXES_def)

text \<open>One replicated shard, or the tiling of one axis.\<close>

definition good_shards :: "int \<Rightarrow> string \<Rightarrow> string \<times> int list \<Rightarrow> shard_spec list \<Rightarrow> bool" where
  "good_shards degree dtype e ss \<longleftrightarrow>
     replicated_shard (fst e) (snd e) dtype degree = Inr (hd ss) \<and> length ss = 1
     \<or> (\<exists>axis. (axis = ''row'' \<or> axis = ''column'') \<and> axis_of axis < length (snd e)
          \<and> ss = map (nth_shard (fst e) (snd e) axis degree dtype) [0..<nat degree])"

lemma good_axis:
  "plan_axis_shards n shape axis degree dtype allow = Inr ss \<Longrightarrow> 1 \<le> degree \<Longrightarrow> good_shards degree dtype (n, shape) ss"
  using plan_axis_shards_Inr [of n shape axis degree dtype allow ss] by (auto simp: good_shards_def)

lemma good_replicated:
  assumes "bindE (replicated_shard n shape dtype degree) (\<lambda>s. Inr [s]) = Inr ss"
  shows "good_shards degree dtype (n, shape) ss"
proof -
  obtain s where "replicated_shard n shape dtype degree = Inr s" "ss = [s]"
    using assms by (cases "replicated_shard n shape dtype degree") simp_all
  then show ?thesis by (simp add: good_shards_def)
qed

lemma param_shards_good:
  assumes "param_shards c degree dtype allow e = Inr ss" "1 \<le> degree"
  shows "good_shards degree dtype e ss"
proof -
  obtain n shape where e: "e = (n, shape)" by fastforce
  show ?thesis using assms(1) unfolding param_shards_def e prod.case
    by (auto split: if_split_asm intro: good_axis [OF _ assms(2)] good_replicated)
qed

lemma good_shards_names:
  assumes "good_shards degree dtype e ss" "1 \<le> degree"
  shows "ss \<noteq> [] \<and> (\<forall>s \<in> set ss. sh_param_name s = fst e \<and> sh_global_shape s = snd e)"
proof (cases "length ss = 1 \<and> replicated_shard (fst e) (snd e) dtype degree = Inr (hd ss)")
  case True
  then obtain s where "ss = [s]" by (cases ss) auto
  with True assms(2) show ?thesis by (auto simp: replicated_shard_eq)
next
  case False
  then show ?thesis using assms by (auto simp: good_shards_def)
qed

lemma good_shards_sharded:
  assumes "good_shards degree dtype e ss" "1 \<le> degree" "s \<in> set ss" "sh_axis s \<noteq> ''none''" "\<forall>n \<in> set (snd e). 0 \<le> n"
  shows "filter (\<lambda>s. sh_axis s \<noteq> ''none'') ss = ss \<and> verify_shard_ranges ss (snd e) = Inr \<lparr>au_overlaps = [], au_gaps = []\<rparr>"
proof (cases "length ss = 1 \<and> replicated_shard (fst e) (snd e) dtype degree = Inr (hd ss)")
  case True
  then obtain s' where "ss = [s']" by (cases ss) auto
  with True assms(2-4) show ?thesis by (auto simp: replicated_shard_eq)
next
  case False
  then obtain axis where a: "axis = ''row'' \<or> axis = ''column''" "axis_of axis < length (snd e)"
    "ss = map (nth_shard (fst e) (snd e) axis degree dtype) [0..<nat degree]"
    using assms(1) by (auto simp: good_shards_def)
  have "0 \<le> snd e ! axis_of axis" using assms(5) a(2) nth_mem by blast
  then have "verify_shard_ranges ss (snd e) = Inr \<lparr>au_overlaps = [], au_gaps = []\<rparr>"
    unfolding a(3) by (intro nth_shards_verify a(1,2) assms(2))
  moreover have "filter (\<lambda>s. sh_axis s \<noteq> ''none'') ss = ss" using a(1) by (auto simp: a(3) filter_id_conv)
  ultimately show ?thesis by simp
qed

lemma census_positive:
  assumes "check_census c = Inr c"
  shows "ca_num_layers c > 0" "ca_hidden c > 0" "ca_intermediate c > 0" "ca_q_heads c > 0" "ca_kv_heads c > 0"
    "ca_head_dim c > 0" "ca_vocab c > 0" "ca_q_heads c mod ca_kv_heads c = 0"
  using assms by (auto simp: check_census_def require_def result_simps)

lemma layer_dims_nonneg: "check_census c = Inr c \<Longrightarrow> (n, shape) \<in> set (layer_suffixes c) \<Longrightarrow> \<forall>d \<in> set shape. 0 \<le> d"
  using census_positive [of c]
  by (cases "ca_attention_bias c"; cases "ca_mlp_bias c") (auto simp: layer_suffixes_def q_dim_def kv_dim_def)

lemma dims_nonneg: "check_census c = Inr c \<Longrightarrow> e \<in> set (parameter_shapes c) \<Longrightarrow> \<forall>d \<in> set (snd e). 0 \<le> d"
  using layer_dims_nonneg [of c] census_positive [of c]
  by (fastforce simp: parameter_shapes_def layer_shapes_def split: if_splits)

section \<open>Validation of a derived plan\<close>

lemma all_res_map_Inr: "all_res (map f xs) = Inr ys \<Longrightarrow> ys = map (projr \<circ> f) xs \<and> (\<forall>x \<in> set xs. f x = Inr (projr (f x)))"
  by (induction xs arbitrary: ys) (auto simp: result_simps)

lemma filter_concat_name:
  assumes "distinct (map fst E)" "e \<in> set E" "\<forall>e \<in> set E. \<forall>s \<in> set (g e). nm s = fst e"
  shows "filter (\<lambda>s. P s \<and> nm s = fst e) (concat (map g E)) = filter P (g e)"
  using assms
proof (induction E)
  case Nil
  then show ?case by simp
next
  case (Cons a E)
  show ?case
  proof (cases "e = a")
    case True
    have "filter (\<lambda>s. P s \<and> nm s = fst e) (concat (map g E)) = []"
    proof (rule filter_False, rule ballI, rule notI)
      fix s assume "s \<in> set (concat (map g E))" "P s \<and> nm s = fst e"
      then obtain e' where e': "e' \<in> set E" "s \<in> set (g e')" "nm s = fst e" by auto
      then have "fst e' = fst e" using Cons.prems(3) by simp
      then have "fst a \<in> fst ` set E" using e'(1) True by (metis imageI)
      then show False using Cons.prems(1) by simp
    qed
    moreover have "filter (\<lambda>s. P s \<and> nm s = fst e) (g a) = filter P (g a)"
      using Cons.prems(3) True by (intro filter_cong) auto
    ultimately show ?thesis using True by simp
  next
    case False
    then have e: "e \<in> set E" using Cons.prems(2) by simp
    have "fst a \<notin> fst ` set E" using Cons.prems(1) by simp
    then have "fst e \<noteq> fst a" using e by (metis imageI)
    then have "filter (\<lambda>s. P s \<and> nm s = fst e) (g a) = []" using Cons.prems(3) by (intro filter_False) auto
    then show ?thesis using Cons.IH Cons.prems e by simp
  qed
qed

lemma derive_plan_Inr:
  assumes "derive_plan c plan_id sha degree ranks ph dtype kvb free allow merge created = Inr p"
  shows "1 \<le> degree" "pl_degree p = degree" "pl_ordered_ranks p = ranks" "pl_fallback_policy p = ''reject''"
    "pl_unsupported_predicate p \<noteq> []"
    "\<exists>shards. all_res (map (param_shards c degree dtype allow) (parameter_shapes c)) = Inr shards \<and> pl_shards p = concat shards"
    "\<exists>row. tp_capability_matrix c [degree] degree False allow = Inr [row] \<and> (tc_supported row \<or> tc_kv_strategy row \<noteq> ''REJECT'')
      \<and> all_res (map (\<lambda>rank. derive_attention_shard c degree rank (Some (tc_kv_strategy row))) (py_range degree)) = Inr (pl_attention p)"
    "kv_ownership c degree kvb free (fl (1 / 10)) = Inr (the (pl_kv p))" "pl_kv p \<noteq> None"
    "all_res (map (\<lambda>rank. derive_mlp_shard c degree rank merge) (py_range degree)) = Inr (pl_mlp p)"
  using assms by (auto simp: derive_plan_def tp_capability_matrix_def require_def result_simps Let_def)

text \<open>The shards of a derived plan, entry by entry.\<close>

lemma derived_shards:
  assumes "derive_plan c plan_id sha degree ranks ph dtype kvb free allow merge created = Inr p"
  shows "\<exists>g. pl_shards p = concat (map g (parameter_shapes c)) \<and> (\<forall>e \<in> set (parameter_shapes c). param_shards c degree dtype allow e = Inr (g e)
    \<and> good_shards degree dtype e (g e))"
proof -
  obtain shards where s: "all_res (map (param_shards c degree dtype allow) (parameter_shapes c)) = Inr shards" "pl_shards p = concat shards"
    using derive_plan_Inr(6) [OF assms] by blast
  have a: "shards = map (projr \<circ> param_shards c degree dtype allow) (parameter_shapes c)
      \<and> (\<forall>e \<in> set (parameter_shapes c). param_shards c degree dtype allow e = Inr (projr (param_shards c degree dtype allow e)))"
    by (rule all_res_map_Inr [OF s(1)])
  show ?thesis
    using a s(2) param_shards_good [OF _ derive_plan_Inr(1) [OF assms]] by (intro exI [of _ "projr \<circ> param_shards c degree dtype allow"]) auto
qed

lemma all_res_const: "(\<And>x. x \<in> set xs \<Longrightarrow> f x = Inr []) \<Longrightarrow> \<exists>yss. all_res (map f xs) = Inr yss \<and> concat yss = []"
  using all_res_map_total [of xs f "\<lambda>_. []"] by (intro exI [of _ "map (\<lambda>_. []) xs"]) simp

lemma covered_names:
  assumes "\<forall>e \<in> set E. g e \<noteq> [] \<and> (\<forall>s \<in> set (g e). nm s = fst e)"
  shows "set (map nm (concat (map g E))) = set (map fst E)"
  using assms
proof (induction E)
  case Nil
  then show ?case by simp
next
  case (Cons e E)
  have "set (map nm (g e)) = {fst e}" using Cons.prems by (cases "g e") auto
  then show ?case using Cons by simp
qed

text \<open>C32: a plan derived from a well-formed census for as many distinct ranks as its degree passes the validation against
  that census without a problem: every parameter is covered, with its own shape, and the shards of every split
  parameter neither overlap nor leave a gap.\<close>

theorem derived_plan_validates:
  assumes "check_census c = Inr c" "length ranks = nat degree" "distinct ranks"
    "derive_plan c plan_id sha degree ranks ph dtype kvb free allow merge created = Inr p"
  shows "plan_validate (Some c) p = Inr []"
proof -
  let ?E = "parameter_shapes c"
  note d = derive_plan_Inr [OF assms(4)]
  obtain g where g: "pl_shards p = concat (map g ?E)" "\<forall>e \<in> set ?E. good_shards degree dtype e (g e)"
    using derived_shards [OF assms(4)] by blast
  have names: "\<forall>e \<in> set ?E. g e \<noteq> [] \<and> (\<forall>s \<in> set (g e). sh_param_name s = fst e \<and> sh_global_shape s = snd e)"
    using g(2) good_shards_names [OF _ d(1)] by blast
  have shape: "census_shape ?E (fst e) = Inr (snd e)" if "e \<in> set ?E" for e
    using map_of_is_SomeI [OF distinct_parameter_names [of c], of "fst e" "snd e"] that by (simp add: census_shape_def)
  have basics: "plan_basics p = []" using d assms(2,3) by (simp add: plan_basics_def distinct_remdups_id)
  have "set (map sh_param_name (pl_shards p)) = set (map fst ?E)" using names unfolding g(1) by (intro covered_names) blast
  then have pnames: "plan_names c p = []" by (simp add: plan_names_def Let_def)
  have "shape_problems c s = Inr []" if "s \<in> set (pl_shards p)" for s
    using that names shape by (fastforce simp: g(1) shape_problems_def)
  then obtain sps where sps: "all_res (map (shape_problems c) (pl_shards p)) = Inr sps" "concat sps = []"
    using all_res_const [of "pl_shards p" "shape_problems c"] by blast
  let ?sharded = "filter (\<lambda>s. sh_axis s \<noteq> ''none'') (pl_shards p)"
  have "range_problems c ?sharded n = Inr []" if n: "n \<in> set (sort (remdups (map sh_param_name ?sharded)))" for n
  proof -
    obtain s where s: "s \<in> set (pl_shards p)" "sh_axis s \<noteq> ''none''" "n = sh_param_name s" using n by auto
    then obtain e where e: "e \<in> set ?E" "s \<in> set (g e)" "n = fst e" using names by (auto simp: g(1))
    have gs: "good_shards degree dtype e (g e)" using g(2) e(1) by blast
    note v = good_shards_sharded [OF gs d(1) e(2) s(2) dims_nonneg [OF assms(1) e(1)]]
    have "filter (\<lambda>s. sh_param_name s = n) ?sharded = g e"
      using filter_concat_name [of ?E e g sh_param_name "\<lambda>s. sh_axis s \<noteq> ''none''"] distinct_parameter_names [of c] e names v
      by (simp add: g(1))
    then show ?thesis using v shape [OF e(1)] e(3) by (simp add: range_problems_def)
  qed
  then obtain rps where rps: "all_res (map (range_problems c ?sharded) (sort (remdups (map sh_param_name ?sharded)))) = Inr rps" "concat rps = []"
    using all_res_const [of "sort (remdups (map sh_param_name ?sharded))" "range_problems c ?sharded"] by blast
  show ?thesis using basics pnames sps rps by (simp add: plan_validate_def Let_def)
qed

section \<open>Which architectures can be derived\<close>

definition rule_suffixes :: "string list" where
  "rule_suffixes = [''embed_tokens.weight'', ''lm_head.weight'', ''norm.weight'', ''layernorm.weight'', ''q_proj.weight'', ''q_proj.bias'',
     ''k_proj.weight'', ''v_proj.weight'', ''k_proj.bias'', ''v_proj.bias'', ''o_proj.weight'', ''down_proj.weight'', ''gate_proj.weight'',
     ''up_proj.weight'', ''gate_proj.bias'', ''up_proj.bias'']"

text \<open>A suffix of a name that decides every one of the derivation's \<open>endswith\<close> tests.\<close>

definition decisive :: "string \<Rightarrow> bool" where
  "decisive t \<longleftrightarrow> list_all (\<lambda>suf. length suf \<le> length t \<or> drop (length suf - length t) suf \<noteq> t) rule_suffixes"

lemma endswith_decisive:
  assumes "decisive t" "suf \<in> set rule_suffixes"
  shows "endswith (layer_name layer t) suf \<longleftrightarrow> endswith t suf"
proof (cases "length suf \<le> length t")
  case True
  then show ?thesis by (rule endswith_layer(1))
next
  case False
  then have "\<not> endswith t suf" by (simp add: endswith_def)
  moreover have "drop (length suf - length t) suf \<noteq> t" using assms False by (auto simp: decisive_def list_all_iff)
  ultimately show ?thesis using endswith_layer(2) [of t suf layer] False by simp
qed

text \<open>What the tests decide: 0 replicated, 1 split by rows, 2 the KV rule, 3 split by columns.\<close>

definition shard_rule :: "string \<Rightarrow> nat" where
  "shard_rule name =
     (if endswith name ''embed_tokens.weight'' \<or> endswith name ''lm_head.weight'' \<or> endswith name ''norm.weight'' \<or> endswith name ''layernorm.weight'' then 0
      else if endswith name ''q_proj.weight'' \<or> endswith name ''q_proj.bias'' then 1
      else if endswith name ''k_proj.weight'' \<or> endswith name ''v_proj.weight'' \<or> endswith name ''k_proj.bias'' \<or> endswith name ''v_proj.bias'' then 2
      else if endswith name ''o_proj.weight'' \<or> endswith name ''down_proj.weight'' then 3
      else if endswith name ''gate_proj.weight'' \<or> endswith name ''up_proj.weight'' \<or> endswith name ''gate_proj.bias'' \<or> endswith name ''up_proj.bias'' then 1
      else 3)"

lemma shard_rule_layer: "decisive t \<Longrightarrow> shard_rule (layer_name layer t) = shard_rule t"
  unfolding shard_rule_def by (simp only: endswith_decisive rule_suffixes_def list.set insert_iff simp_thms)

lemma rule_choice:
  "(if r0 then R else if r1 then row else if r2 then (if whole then row else R) else if r3 then col else if r4 then row else col)
   = (if (if r0 then 0 else if r1 then 1 else if r2 then 2 else if r3 then 3 else if r4 then 1 else (3 :: nat)) = 0
         \<or> (if r0 then 0 else if r1 then 1 else if r2 then 2 else if r3 then 3 else if r4 then 1 else (3 :: nat)) = 2 \<and> \<not> whole then R
      else if (if r0 then 0 else if r1 then 1 else if r2 then 2 else if r3 then 3 else if r4 then 1 else (3 :: nat)) = 3 then col else row)"
  by simp

lemma param_shards_rule:
  "param_shards c degree dtype allow (name, shape) =
     (if shard_rule name = 0 \<or> shard_rule name = 2 \<and> \<not> ca_kv_heads c mod degree = 0 then bindE (replicated_shard name shape dtype degree) (\<lambda>s. Inr [s])
      else if shard_rule name = 3 then plan_axis_shards name shape ''column'' degree dtype allow
      else plan_axis_shards name shape ''row'' degree dtype allow)"
  unfolding param_shards_def prod.case shard_rule_def by (rule rule_choice)

definition weight_suffixes :: "string list" where
  "weight_suffixes = [''.input_layernorm.weight'', ''.post_attention_layernorm.weight'', ''.self_attn.q_proj.weight'', ''.self_attn.q_proj.bias'',
    ''.mlp.gate_proj.weight'', ''.mlp.up_proj.weight'', ''.self_attn.k_proj.weight'', ''.self_attn.k_proj.bias'', ''.self_attn.v_proj.weight'',
    ''.self_attn.v_proj.bias'', ''.self_attn.o_proj.weight'', ''.mlp.down_proj.weight'', ''.mlp.down_proj.bias'']"

lemma weight_suffix_rules:
  "list_all decisive weight_suffixes" "map shard_rule weight_suffixes = [0, 0, 1, 1, 1, 1, 2, 2, 2, 2, 3, 3, 3]"
  "map shard_rule [''model.embed_tokens.weight'', ''model.norm.weight'', ''lm_head.weight''] = [0, 0, 0]"
  by code_simp+

lemma layer_entries_total:
  assumes "1 \<le> degree" "degree dvd ca_q_heads c" "degree dvd ca_intermediate c" "\<not> ca_mlp_bias c" "e \<in> set (layer_suffixes c)"
  shows "is_ok (param_shards c degree dtype False (layer_name layer (fst e), snd e))"
proof -
  have dq: "degree dvd q_dim c" using assms(2) by (simp add: q_dim_def)
  have dk: "ca_kv_heads c mod degree = 0 \<Longrightarrow> degree dvd kv_dim c" by (simp add: kv_dim_def mod_eq_0_iff_dvd)
  have rep: "is_ok (bindE (replicated_shard n shape dtype degree) (\<lambda>s. Inr [s]))" for n shape
    using assms(1) by (simp add: replicated_shard_eq)
  have row: "is_ok (plan_axis_shards n (t # shape) ''row'' degree dtype False)" if "degree dvd t" for n t shape
    using assms(1) that by (simp add: plan_axis_shards_eq axis_of_def)
  have col: "is_ok (plan_axis_shards n [r, t] ''column'' degree dtype False)" if "degree dvd t" for n r t
    using assms(1) that by (simp add: plan_axis_shards_eq axis_of_def)
  have r: "shard_rule ''.input_layernorm.weight'' = 0" "shard_rule ''.post_attention_layernorm.weight'' = 0"
    "shard_rule ''.self_attn.q_proj.weight'' = 1" "shard_rule ''.self_attn.q_proj.bias'' = 1" "shard_rule ''.mlp.gate_proj.weight'' = 1"
    "shard_rule ''.mlp.up_proj.weight'' = 1" "shard_rule ''.self_attn.k_proj.weight'' = 2" "shard_rule ''.self_attn.k_proj.bias'' = 2"
    "shard_rule ''.self_attn.v_proj.weight'' = 2" "shard_rule ''.self_attn.v_proj.bias'' = 2" "shard_rule ''.self_attn.o_proj.weight'' = 3"
    "shard_rule ''.mlp.down_proj.weight'' = 3"
    using weight_suffix_rules(2) by (simp_all add: weight_suffixes_def)
  have d: "decisive ''.input_layernorm.weight''" "decisive ''.post_attention_layernorm.weight''"
    "decisive ''.self_attn.q_proj.weight''" "decisive ''.self_attn.q_proj.bias''" "decisive ''.mlp.gate_proj.weight''"
    "decisive ''.mlp.up_proj.weight''" "decisive ''.self_attn.k_proj.weight''" "decisive ''.self_attn.k_proj.bias''"
    "decisive ''.self_attn.v_proj.weight''" "decisive ''.self_attn.v_proj.bias''" "decisive ''.self_attn.o_proj.weight''"
    "decisive ''.mlp.down_proj.weight''"
    using weight_suffix_rules(1) by (simp_all add: weight_suffixes_def)
  show ?thesis
    using assms(3-5) dq dk rep row col
    by (cases "ca_attention_bias c") (auto simp: layer_suffixes_def param_shards_rule shard_rule_layer r d)
qed

lemma entries_total:
  assumes "1 \<le> degree" "degree dvd ca_q_heads c" "degree dvd ca_intermediate c" "\<not> ca_mlp_bias c" "e \<in> set (parameter_shapes c)"
  shows "is_ok (param_shards c degree dtype False e)"
proof -
  have r: "shard_rule ''model.embed_tokens.weight'' = 0" "shard_rule ''model.norm.weight'' = 0" "shard_rule ''lm_head.weight'' = 0"
    using weight_suffix_rules(3) by simp_all
  have rep: "is_ok (bindE (replicated_shard n shape dtype degree) (\<lambda>s. Inr [s]))" for n shape
    using assms(1) by (simp add: replicated_shard_eq)
  consider "e = (''model.embed_tokens.weight'', [ca_vocab c, ca_hidden c])" | "e = (''model.norm.weight'', [ca_hidden c])"
    | "e = (''lm_head.weight'', [ca_vocab c, ca_hidden c])" | layer where "e \<in> set (layer_shapes c layer)"
    using assms(5) by (auto simp: parameter_shapes_def split: if_splits)
  then show ?thesis
  proof cases
    case (4 layer)
    then obtain e' where "e' \<in> set (layer_suffixes c)" "e = (layer_name layer (fst e'), snd e')" by (auto simp: layer_shapes_def)
    then show ?thesis using layer_entries_total [OF assms(1-4)] by simp
  qed (simp_all add: param_shards_rule r rep)
qed

lemma capability_row_eq:
  "1 \<le> degree \<Longrightarrow> \<exists>row. capability_row c devices vocab allow degree = Inr row \<and> tc_kv_strategy row = fst (capability_strategy c allow degree)
    \<and> (tc_supported row \<longrightarrow> tc_kv_strategy row \<noteq> ''REJECT'')"
  by (auto simp: capability_row_def require_def Let_def capability_strategy_def KV_STRATEGIES_def)

lemma down_bias_unplanned:
  "param_shards c degree dtype allow (layer_name layer ''.mlp.down_proj.bias'', [h]) = Inl (ConfigError ''axis'')"
proof -
  have "shard_rule ''.mlp.down_proj.bias'' = 3" "decisive ''.mlp.down_proj.bias''"
    using weight_suffix_rules(1,2) by (simp_all add: weight_suffixes_def)
  then show ?thesis by (simp add: param_shards_rule shard_rule_layer plan_axis_shards_no_axis axis_of_def)
qed

lemma down_bias_entry:
  assumes "ca_mlp_bias c" "ca_num_layers c > 0"
  shows "(layer_name 0 ''.mlp.down_proj.bias'', [ca_hidden c]) \<in> set (parameter_shapes c)"
proof -
  have "(layer_name 0 ''.mlp.down_proj.bias'', [ca_hidden c]) \<in> set (layer_shapes c 0)"
    using assms(1) by (simp add: layer_shapes_def layer_suffixes_def)
  then show ?thesis using assms(2) by (auto simp: parameter_shapes_def intro!: bexI [of _ "0 :: nat"])
qed

lemma is_ok_all_res: "(\<And>x. x \<in> set xs \<Longrightarrow> is_ok (f x)) \<Longrightarrow> is_ok (all_res (map f xs))"
proof (induction xs)
  case (Cons x xs)
  then have "is_ok (f x)" "is_ok (all_res (map f xs))" by simp_all
  then show ?case by (auto simp: is_ok_iff)
qed simp

lemma attention_ok_iff:
  "is_ok (derive_attention_shard c degree rank (Some s)) \<longleftrightarrow>
     (1 \<le> degree \<and> 0 \<le> rank \<and> rank < degree) \<and> s \<noteq> ''REJECT'' \<and> (ca_q_heads c mod degree = 0 \<or> s = ''UNEVEN'')"
  by (auto simp: derive_attention_shard_def require_def ensure_def Let_def case_prod_beta)

lemma mlp_ok_iff:
  "is_ok (derive_mlp_shard c degree rank merge) \<longleftrightarrow>
     (1 \<le> degree \<and> 0 \<le> rank \<and> rank < degree) \<and> ca_intermediate c mod degree = 0 \<and> (merge = ''all_reduce'' \<or> merge = ''reduce_scatter'')"
  by (auto simp: derive_mlp_shard_def require_def ensure_def Let_def)

lemma derive_plan_total:
  assumes "1 \<le> degree" "degree dvd ca_q_heads c" "degree dvd ca_intermediate c" "\<not> ca_mlp_bias c"
    "degree dvd ca_kv_heads c \<or> ca_kv_heads c < degree" "merge = ''all_reduce'' \<or> merge = ''reduce_scatter''"
  shows "is_ok (derive_plan c plan_id sha degree ranks ph dtype kvb free False merge created)"
proof -
  obtain row where row: "tp_capability_matrix c [degree] degree False False = Inr [row]" "tc_kv_strategy row = fst (capability_strategy c False degree)"
    using capability_row_eq [OF assms(1), of c degree False False] assms(1) by (auto simp: tp_capability_matrix_def require_def)
  have strat: "tc_kv_strategy row \<noteq> ''REJECT''" using assms(5) by (auto simp: row(2) capability_strategy_def)
  have att: "is_ok (all_res (map (\<lambda>rank. derive_attention_shard c degree rank (Some (tc_kv_strategy row))) (py_range degree)))"
    using assms(1,2) strat by (intro is_ok_all_res) (simp add: attention_ok_iff)
  have mlp: "is_ok (all_res (map (\<lambda>rank. derive_mlp_shard c degree rank merge) (py_range degree)))"
    using assms(1,3,6) by (intro is_ok_all_res) (simp add: mlp_ok_iff)
  have ev: "is_ok (all_res (map check_event (concat (map (layer_events merge) (py_range (ca_num_layers c))))))"
    by (intro is_ok_all_res) (auto simp: layer_events_def check_event_def require_def PLAN_COLLECTIVE_TRIGGERS_def Let_def)
  have lay: "is_ok (all_res (map check_layout plan_layouts))" by code_simp
  have pol: "is_ok default_replication_policies" by code_simp
  have emb: "is_ok (embedding_strategy c degree 2 None)" by (simp add: embedding_strategy_def)
  have kv: "is_ok (kv_ownership c degree kvb free (fl (1 / 10)))"
    using assms(1) by (simp add: kv_ownership_def kv_per_token_bytes_def Let_def)
  have sh: "is_ok (all_res (map (param_shards c degree dtype False) (parameter_shapes c)))"
    by (intro is_ok_all_res entries_total assms(1-4))
  have req: "require (tc_supported row \<or> tc_kv_strategy row \<noteq> ''REJECT'') ''degree'' = Inr ()" using strat by (simp add: require_def)
  have lst: "last [row] = row" by simp
  obtain x1 x2 x3 x4 x5 x6 x7 x8 where e:
    "all_res (map (param_shards c degree dtype False) (parameter_shapes c)) = Inr x1"
    "all_res (map (\<lambda>rank. derive_attention_shard c degree rank (Some (tc_kv_strategy row))) (py_range degree)) = Inr x2"
    "all_res (map (\<lambda>rank. derive_mlp_shard c degree rank merge) (py_range degree)) = Inr x3"
    "all_res (map check_event (concat (map (layer_events merge) (py_range (ca_num_layers c))))) = Inr x4"
    "all_res (map check_layout plan_layouts) = Inr x5" "default_replication_policies = Inr x6"
    "embedding_strategy c degree 2 None = Inr x7" "kv_ownership c degree kvb free (fl (1 / 10)) = Inr x8"
    using att mlp ev lay pol emb kv sh unfolding is_ok_iff by blast
  show ?thesis
    unfolding derive_plan_def Let_def row(1) bindE.simps lst req e by (simp only: is_ok_simps)
qed


end
