(* ===== verification/Plan_Ownership.thy ===== *)
theory Plan_Ownership
  imports Parallel_Plan_Props
begin

text \<open>
  Witnesses for the derivation, the ownership of query and KV heads, the KV cost per rank, what the memory model
  counts, and what validation does with a parameter the census does not have.
\<close>

definition tiny_census :: "int \<Rightarrow> int \<Rightarrow> bool \<Rightarrow> census" where
  "tiny_census q kv bias = \<lparr>ca_family = ''qwen3'', ca_revision = ''r0'', ca_num_layers = 1, ca_hidden = 4, ca_intermediate = 8, ca_q_heads = q,
     ca_kv_heads = kv, ca_head_dim = 2, ca_vocab = 10, ca_rms_norm_eps = 1 / 1000000, ca_tie = True, ca_attention_bias = True,
     ca_mlp_bias = bias, ca_num_experts = 0, ca_moe_top_k = 0\<rparr>"

lemma tiny_ok: "check_census (tiny_census 4 2 bias) = Inr (tiny_census 4 2 bias)"
  by (simp add: tiny_census_def check_census_def require_def)

lemma tiny_derived: "is_ok (derive_plan (tiny_census 4 2 False) a b 2 ranks e d k f False ''all_reduce'' t)"
  by (rule derive_plan_total) (simp_all add: tiny_census_def)

theorem derived_plan_validates_witness:
  "\<exists>p. derive_plan (tiny_census 4 2 False) ''p'' ''s'' 2 [0, 1] ''h'' ''fp16'' 2 0 False ''all_reduce'' ''t'' = Inr p
    \<and> plan_validate (Some (tiny_census 4 2 False)) p = Inr []"
proof -
  obtain p where p: "derive_plan (tiny_census 4 2 False) ''p'' ''s'' 2 [0, 1] ''h'' ''fp16'' 2 0 False ''all_reduce'' ''t'' = Inr p"
    using tiny_derived [of "''p''" "''s''" "[0, 1]" "''h''" "''fp16''" 2 0 "''t''"] unfolding is_ok_iff by blast
  then show ?thesis using derived_plan_validates [OF tiny_ok _ _ p] by simp
qed


section \<open>Head ownership\<close>

lemma attention_shard_Inr:
  assumes "derive_attention_shard c degree rank (Some s) = Inr a"
  shows "1 \<le> degree" "0 \<le> rank" "rank < degree" "s \<noteq> ''REJECT''" "ca_q_heads c mod degree = 0 \<or> s = ''UNEVEN''"
    "at_q_range a = (rank * (ca_q_heads c div degree), rank * (ca_q_heads c div degree) + ca_q_heads c div degree)"
    "(at_kv_heads_per_rank a, at_kv_replicated a, at_kv_range a) = kv_share c degree rank s"
  using assms by (auto simp: derive_attention_shard_def require_def result_simps Let_def case_prod_beta)

lemma block_index: "0 < (b :: int) \<Longrightarrow> r * b \<le> h \<and> h < r * b + b \<longleftrightarrow> h div b = r"
proof
  assume "0 < b" "r * b \<le> h \<and> h < r * b + b"
  then show "h div b = r" by (intro int_div_pos_eq [of _ _ _ "h - r * b"]) (auto simp: algebra_simps)
next
  assume b: "0 < b" and "h div b = r"
  then have "h = r * b + h mod b" by (metis div_mult_mod_eq)
  moreover have "0 \<le> h mod b" "h mod b < b" using b by simp_all
  ultimately show "r * b \<le> h \<and> h < r * b + b" by linarith
qed

lemma le_div_int: "0 < (b :: int) \<Longrightarrow> d \<le> h div b \<longleftrightarrow> d * b \<le> h"
proof
  assume b: "0 < b" and "d \<le> h div b"
  then have "d * b \<le> h div b * b" by (intro mult_right_mono) simp_all
  also have "\<dots> \<le> h" using b div_mult_mod_eq [of h b] pos_mod_sign [of b h] by linarith
  finally show "d * b \<le> h" .
next
  assume "0 < b" "d * b \<le> h"
  then show "d \<le> h div b" using zdiv_mono1 [of "d * b" h b] by simp
qed

lemma div_less_int: "0 < (b :: int) \<Longrightarrow> h div b < d \<longleftrightarrow> h < d * b"
  using le_div_int [of b d h] by linarith

definition owns_q :: "attention_shard \<Rightarrow> int \<Rightarrow> bool" where
  "owns_q a h \<longleftrightarrow> fst (at_q_range a) \<le> h \<and> h < snd (at_q_range a)"

definition owns_kv :: "attention_shard \<Rightarrow> int \<Rightarrow> bool" where
  "owns_kv a k \<longleftrightarrow> fst (at_kv_range a) \<le> k \<and> k < snd (at_kv_range a)"

lemma owner_iff:
  assumes "1 \<le> degree" "0 \<le> ca_q_heads c" "s \<noteq> ''REJECT''" "ca_q_heads c mod degree = 0 \<or> s = ''UNEVEN''"
  shows "(\<exists>a. derive_attention_shard c degree rank (Some s) = Inr a \<and> owns_q a h)
    \<longleftrightarrow> 0 < ca_q_heads c div degree \<and> 0 \<le> rank \<and> rank < degree \<and> h div (ca_q_heads c div degree) = rank"
proof -
  let ?b = "ca_q_heads c div degree"
  have b: "0 \<le> ?b" using assms(1,2) by (simp add: pos_imp_zdiv_nonneg_iff)
  have "(\<exists>a. derive_attention_shard c degree rank (Some s) = Inr a \<and> owns_q a h)
      \<longleftrightarrow> 0 \<le> rank \<and> rank < degree \<and> rank * ?b \<le> h \<and> h < rank * ?b + ?b"
  proof
    assume "\<exists>a. derive_attention_shard c degree rank (Some s) = Inr a \<and> owns_q a h"
    then obtain a where a: "derive_attention_shard c degree rank (Some s) = Inr a" "owns_q a h" by blast
    then show "0 \<le> rank \<and> rank < degree \<and> rank * ?b \<le> h \<and> h < rank * ?b + ?b"
      using attention_shard_Inr [OF a(1)] by (simp add: owns_q_def)
  next
    assume r: "0 \<le> rank \<and> rank < degree \<and> rank * ?b \<le> h \<and> h < rank * ?b + ?b"
    then have "is_ok (derive_attention_shard c degree rank (Some s))" using assms by (simp add: attention_ok_iff)
    then obtain a where a: "derive_attention_shard c degree rank (Some s) = Inr a" unfolding is_ok_iff by blast
    then show "\<exists>a. derive_attention_shard c degree rank (Some s) = Inr a \<and> owns_q a h"
      using r attention_shard_Inr(6) [OF a] by (simp add: owns_q_def)
  qed
  then show ?thesis using b block_index [of ?b rank h] by auto
qed

lemma kv_owner_iff:
  assumes "1 \<le> degree" "s \<noteq> ''REJECT''" "ca_q_heads c mod degree = 0 \<or> s = ''UNEVEN''" "kv_share c degree rank s = (n, rep, (from_head, to_head))"
  shows "(\<exists>a. derive_attention_shard c degree rank (Some s) = Inr a \<and> owns_kv a g)
    \<longleftrightarrow> 0 \<le> rank \<and> rank < degree \<and> from_head \<le> g \<and> g < to_head"
proof
  assume "\<exists>a. derive_attention_shard c degree rank (Some s) = Inr a \<and> owns_kv a g"
  then obtain a where a: "derive_attention_shard c degree rank (Some s) = Inr a" "owns_kv a g" by blast
  then show "0 \<le> rank \<and> rank < degree \<and> from_head \<le> g \<and> g < to_head"
    using attention_shard_Inr [OF a(1)] assms(4) by (simp add: owns_kv_def)
next
  assume r: "0 \<le> rank \<and> rank < degree \<and> from_head \<le> g \<and> g < to_head"
  then have "is_ok (derive_attention_shard c degree rank (Some s))" using assms(1-3) by (simp add: attention_ok_iff)
  then obtain a where a: "derive_attention_shard c degree rank (Some s) = Inr a" unfolding is_ok_iff by blast
  then show "\<exists>a. derive_attention_shard c degree rank (Some s) = Inr a \<and> owns_kv a g"
    using r attention_shard_Inr(7) [OF a] assms(4) by (simp add: owns_kv_def)
qed

text \<open>Blocks of one size, and the ranges between growing offsets: each contains a point exactly once.\<close>

lemma unique_block:
  assumes "1 \<le> degree" "0 \<le> (b :: int)"
  shows "if 0 \<le> h \<and> h < degree * b then \<exists>!rank. 0 \<le> rank \<and> rank < degree \<and> rank * b \<le> h \<and> h < rank * b + b
    else \<not> (\<exists>rank. 0 \<le> rank \<and> rank < degree \<and> rank * b \<le> h \<and> h < rank * b + b)"
proof (cases "0 < b")
  case True
  then have "h div b < degree \<longleftrightarrow> h < degree * b" "0 \<le> h div b \<longleftrightarrow> 0 \<le> h" by (simp_all add: div_less_int pos_imp_zdiv_nonneg_iff)
  then show ?thesis unfolding block_index [OF True] by auto
next
  case False
  then have "b = 0" using assms(2) by simp
  then show ?thesis by auto
qed

lemma unique_interval:
  assumes mono: "\<And>i. f i \<le> f (Suc i)" and "f 0 \<le> g" "g < f n"
  shows "\<exists>!i. i < n \<and> f i \<le> g \<and> g < (f (Suc i) :: int)"
proof (rule ex_ex1I)
  show "\<exists>i. i < n \<and> f i \<le> g \<and> g < f (Suc i)"
    using assms(2,3)
  proof (induction n)
    case (Suc n)
    then show ?case by (cases "g < f n") (auto intro: less_SucI)
  qed simp
next
  fix i j assume i: "i < n \<and> f i \<le> g \<and> g < f (Suc i)" and j: "j < n \<and> f j \<le> g \<and> g < f (Suc j)"
  have "\<not> k < l" if "f l \<le> g" "g < f (Suc k)" for k l
  proof
    assume "k < l"
    then have "f (Suc k) \<le> f l" using lift_Suc_mono_le [of f "Suc k" l, OF mono] by simp
    then show False using that by simp
  qed
  then show "i = j" using i j by (meson linorder_neqE_nat)
qed

lemma unique_uneven:
  assumes "1 \<le> degree" "0 \<le> (t :: int)"
  defines "f \<equiv> \<lambda>rank. rank * (t div degree) + min rank (t mod degree)"
  shows "if 0 \<le> g \<and> g < t
    then \<exists>!rank. 0 \<le> rank \<and> rank < degree \<and> f rank \<le> g \<and> g < f rank + (t div degree + (if rank < t mod degree then 1 else 0))
    else \<not> (\<exists>rank. 0 \<le> rank \<and> rank < degree \<and> f rank \<le> g \<and> g < f rank + (t div degree + (if rank < t mod degree then 1 else 0)))"
proof -
  let ?off = "shard_off (t div degree) (t mod degree)"
  have pos: "0 \<le> t div degree" "0 \<le> t mod degree" using assms(1,2) by (simp_all add: pos_imp_zdiv_nonneg_iff)
  have mono: "?off i \<le> ?off (Suc i)" for i using shard_off_mono [OF pos(1)] by simp
  have last: "?off (nat degree) = t" using assms(1) by (intro shard_off_last) simp
  have range: "f (int i) + (t div degree + (if int i < t mod degree then 1 else 0)) = ?off (Suc i)" "f (int i) = ?off i" for i
    by (simp_all add: shard_off_Suc f_def) (simp_all add: shard_off_def)
  have at: "(0 \<le> rank \<and> rank < degree \<and> f rank \<le> g \<and> g < f rank + (t div degree + (if rank < t mod degree then 1 else 0)))
      \<longleftrightarrow> 0 \<le> rank \<and> nat rank < nat degree \<and> ?off (nat rank) \<le> g \<and> g < ?off (Suc (nat rank))" for rank
  proof (cases "0 \<le> rank")
    case True
    then show ?thesis using range [of "nat rank"] assms(1) by simp
  qed simp
  show ?thesis
  proof (cases "0 \<le> g \<and> g < t")
    case True
    then obtain i where i: "i < nat degree \<and> ?off i \<le> g \<and> g < ?off (Suc i)"
      and u: "\<And>j. j < nat degree \<and> ?off j \<le> g \<and> g < ?off (Suc j) \<Longrightarrow> j = i"
      using unique_interval [of ?off g "nat degree", OF mono] pos(2) last by (metis shard_off_0)
    have "\<exists>!rank. 0 \<le> rank \<and> nat rank < nat degree \<and> ?off (nat rank) \<le> g \<and> g < ?off (Suc (nat rank))"
    proof (rule ex1I [of _ "int i"])
      show "0 \<le> int i \<and> nat (int i) < nat degree \<and> ?off (nat (int i)) \<le> g \<and> g < ?off (Suc (nat (int i)))" using i by simp
      show "rank = int i" if "0 \<le> rank \<and> nat rank < nat degree \<and> ?off (nat rank) \<le> g \<and> g < ?off (Suc (nat rank))" for rank
        using u [of "nat rank"] that by (metis nat_0_le)
    qed
    then show ?thesis unfolding at if_P [OF True] .
  next
    case False
    have "\<not> (\<exists>i. i < nat degree \<and> ?off i \<le> g \<and> g < ?off (Suc i))"
    proof
      assume "\<exists>i. i < nat degree \<and> ?off i \<le> g \<and> g < ?off (Suc i)"
      then obtain i where i: "i < nat degree" "?off i \<le> g" "g < ?off (Suc i)" by blast
      have "0 \<le> ?off i" using pos by (intro shard_off_nonneg)
      moreover have "?off (Suc i) \<le> ?off (nat degree)" using i(1) by (intro shard_off_mono pos(1)) simp
      ultimately show False using False i last by simp
    qed
    then show ?thesis unfolding at if_not_P [OF False] by blast
  qed
qed

text \<open>C34: under every accepted strategy a query head is owned by exactly one rank if it lies below the largest multiple of the
  degree, and by no rank otherwise: when the degree divides the number of heads every head has its owner; the uneven
  strategy accepts other degrees too, and then the last \<open>num_attention_heads mod degree\<close> heads belong to no rank. A KV head
  is owned by exactly one rank under the uneven strategy; under the even split if it lies below the largest multiple of
  the degree, so always when the degree divides their number, and by none otherwise; and by every rank under
  replication, the remaining strategy.\<close>

theorem head_coverage:
  assumes "1 \<le> degree" "0 \<le> ca_q_heads c" "0 \<le> ca_kv_heads c" "s \<noteq> ''REJECT''" "ca_q_heads c mod degree = 0 \<or> s = ''UNEVEN''"
  defines "q_owner \<equiv> \<lambda>rank h. \<exists>a. derive_attention_shard c degree rank (Some s) = Inr a \<and> owns_q a h"
    and "kv_owner \<equiv> \<lambda>rank g. \<exists>a. derive_attention_shard c degree rank (Some s) = Inr a \<and> owns_kv a g"
    and "kv_split \<equiv> if s = ''UNEVEN'' then ca_kv_heads c else ca_kv_heads c - ca_kv_heads c mod degree"
  shows "(if 0 \<le> h \<and> h < ca_q_heads c - ca_q_heads c mod degree then \<exists>!rank. q_owner rank h else \<not> (\<exists>rank. q_owner rank h))
    \<and> (if s = ''SPLIT_EVEN'' \<or> s = ''UNEVEN''
       then if 0 \<le> g \<and> g < kv_split then \<exists>!rank. kv_owner rank g else \<not> (\<exists>rank. kv_owner rank g)
       else \<forall>rank. kv_owner rank g \<longleftrightarrow> (0 \<le> rank \<and> rank < degree) \<and> 0 \<le> g \<and> g < ca_kv_heads c)"
proof
  let ?b = "ca_q_heads c div degree"
  have e: "t - t mod degree = degree * (t div degree)" for t by (simp add: minus_mod_eq_mult_div)
  have "0 < ?b \<and> 0 \<le> h div ?b \<and> h div ?b < degree \<longleftrightarrow> 0 \<le> h \<and> h < degree * ?b"
  proof (cases "0 < ?b")
    case True
    then have "h div ?b < degree \<longleftrightarrow> h < degree * ?b" by (simp add: div_less_int)
    then show ?thesis using True by (simp add: pos_imp_zdiv_nonneg_iff)
  next
    case False
    then have "?b = 0" using assms(1,2) by (simp add: pos_imp_zdiv_nonneg_iff order_antisym)
    then show ?thesis by simp
  qed
  then show "if 0 \<le> h \<and> h < ca_q_heads c - ca_q_heads c mod degree then \<exists>!rank. q_owner rank h else \<not> (\<exists>rank. q_owner rank h)"
    unfolding e q_owner_def owner_iff [OF assms(1,2,4,5)] by auto
  note kv = kv_owner_iff [OF assms(1,4,5)]
  have b0: "0 \<le> ca_kv_heads c div degree" using assms(1,3) by (simp add: pos_imp_zdiv_nonneg_iff)
  consider (even) "s = ''SPLIT_EVEN''" | (uneven) "s = ''UNEVEN''" | (replicate) "\<not> (s = ''SPLIT_EVEN'' \<or> s = ''UNEVEN'')" by blast
  then show "if s = ''SPLIT_EVEN'' \<or> s = ''UNEVEN''
       then if 0 \<le> g \<and> g < kv_split then \<exists>!rank. kv_owner rank g else \<not> (\<exists>rank. kv_owner rank g)
       else \<forall>rank. kv_owner rank g \<longleftrightarrow> (0 \<le> rank \<and> rank < degree) \<and> 0 \<le> g \<and> g < ca_kv_heads c"
  proof cases
    case even
    then have o: "kv_owner rank g \<longleftrightarrow> 0 \<le> rank \<and> rank < degree \<and> rank * (ca_kv_heads c div degree) \<le> g
        \<and> g < rank * (ca_kv_heads c div degree) + ca_kv_heads c div degree" for rank
      unfolding kv_owner_def by (intro kv [where n = "ca_kv_heads c div degree" and rep = False]) (simp add: kv_share_def Let_def)
    have s: "kv_split = degree * (ca_kv_heads c div degree)" using even by (simp add: kv_split_def e)
    show ?thesis using unique_block [OF assms(1) b0, of g] even unfolding o s by simp
  next
    case uneven
    then have o: "kv_owner rank g \<longleftrightarrow> 0 \<le> rank \<and> rank < degree \<and> rank * (ca_kv_heads c div degree) + min rank (ca_kv_heads c mod degree) \<le> g
        \<and> g < rank * (ca_kv_heads c div degree) + min rank (ca_kv_heads c mod degree)
            + (ca_kv_heads c div degree + (if rank < ca_kv_heads c mod degree then 1 else 0))" for rank
      unfolding kv_owner_def
      by (intro kv [where n = "ca_kv_heads c div degree + (if rank < ca_kv_heads c mod degree then 1 else 0)" and rep = False]) (simp add: kv_share_def Let_def)
    have s: "kv_split = ca_kv_heads c" using uneven by (simp add: kv_split_def)
    show ?thesis using unique_uneven [OF assms(1,3), of g] uneven unfolding o s by simp
  next
    case replicate
    then have "kv_owner rank g \<longleftrightarrow> 0 \<le> rank \<and> rank < degree \<and> 0 \<le> g \<and> g < ca_kv_heads c" for rank
      unfolding kv_owner_def by (intro kv [where n = "ca_kv_heads c" and rep = True]) (simp add: kv_share_def)
    then show ?thesis using replicate by simp
  qed
qed

theorem head_coverage_witness:
  "(\<exists>!rank. \<exists>a. derive_attention_shard (tiny_census 4 2 False) 2 rank (Some ''SPLIT_EVEN'') = Inr a \<and> owns_kv a 1)
    \<and> \<not> (\<exists>rank a. derive_attention_shard (tiny_census 3 3 False) 2 rank (Some ''UNEVEN'') = Inr a \<and> owns_q a 2)
    \<and> (\<exists>!rank. \<exists>a. derive_attention_shard (tiny_census 3 3 False) 2 rank (Some ''UNEVEN'') = Inr a \<and> owns_kv a 2)"
  using head_coverage [of 2 "tiny_census 4 2 False" "''SPLIT_EVEN''" 3 1] head_coverage [of 2 "tiny_census 3 3 False" "''UNEVEN''" 2 2]
  by (simp add: tiny_census_def)

text \<open>C35: with KV heads split evenly or replicated, attention is local: the KV head a query head reads (its index divided by
  the group size) is held by the rank that owns the query head.\<close>

theorem gqa_local:
  assumes "check_census c = Inr c" "derive_attention_shard c degree rank (Some s) = Inr a" "owns_q a h"
    "s = ''SPLIT_EVEN'' \<and> degree dvd ca_kv_heads c \<or> s = ''REPLICATE''"
  shows "owns_kv a (h div head_groups c)"
proof -
  note a = attention_shard_Inr [OF assms(2)] and pos = census_positive [OF assms(1)]
  obtain g where g: "ca_q_heads c = ca_kv_heads c * g" using pos(8) by (auto simp: mod_eq_0_iff_dvd dvd_def)
  then have hg: "head_groups c = g" "0 < g" using pos(4,5) by (auto simp: head_groups_def zero_less_mult_iff)
  have h: "rank * (ca_q_heads c div degree) \<le> h" "h < rank * (ca_q_heads c div degree) + ca_q_heads c div degree"
    using assms(3) a(6) by (simp_all add: owns_q_def)
  show ?thesis
  proof (cases "s = ''REPLICATE''")
    case True
    have dv: "degree dvd ca_q_heads c" using a(5) True by (simp add: dvd_eq_mod_eq_0)
    have b0: "0 \<le> ca_q_heads c div degree" using pos(4) a(1) by (simp add: pos_imp_zdiv_nonneg_iff)
    have "(rank + 1) * (ca_q_heads c div degree) \<le> degree * (ca_q_heads c div degree)"
      using a(3) b0 by (intro mult_right_mono) simp_all
    then have "h < ca_q_heads c" using h(2) dv by (simp add: distrib_right)
    moreover have "0 \<le> h" using h(1) a(2) b0 by (meson mult_nonneg_nonneg order_trans)
    ultimately have "0 \<le> h div g \<and> h div g < ca_kv_heads c"
      using hg(2) g by (simp add: pos_imp_zdiv_nonneg_iff div_less_int)
    then show ?thesis using a(7) True hg by (simp add: owns_kv_def kv_share_def)
  next
    case False
    then obtain m where m: "ca_kv_heads c = degree * m" using assms(4) by (auto simp: dvd_def)
    have d: "ca_q_heads c div degree = m * g" "ca_kv_heads c div degree = m" using a(1) by (simp_all add: g m mult.assoc)
    have "rank * m \<le> h div g"
    proof -
      have "rank * m * g \<le> h" using h(1) by (simp add: d mult.assoc)
      then show ?thesis using hg(2) by (simp add: le_div_int)
    qed
    moreover have "h div g < rank * m + m"
    proof -
      have "h < (rank * m + m) * g" using h(2) by (simp add: d algebra_simps)
      then show ?thesis using hg(2) by (simp add: div_less_int)
    qed
    ultimately show ?thesis using a(7) assms(4) False hg d by (simp add: owns_kv_def kv_share_def Let_def)
  qed
qed

theorem gqa_local_witness:
  "\<exists>a. derive_attention_shard (tiny_census 4 2 False) 2 1 (Some ''SPLIT_EVEN'') = Inr a \<and> owns_q a 2 \<and> owns_kv a 1"
proof -
  have "is_ok (derive_attention_shard (tiny_census 4 2 False) 2 1 (Some ''SPLIT_EVEN''))" by (simp add: attention_ok_iff tiny_census_def)
  then obtain a where a: "derive_attention_shard (tiny_census 4 2 False) 2 1 (Some ''SPLIT_EVEN'') = Inr a" unfolding is_ok_iff by blast
  have q: "owns_q a 2" using attention_shard_Inr(6) [OF a] by (simp add: owns_q_def tiny_census_def)
  have "owns_kv a (2 div head_groups (tiny_census 4 2 False))" by (rule gqa_local [OF tiny_ok a q]) (simp add: tiny_census_def)
  then show ?thesis using a q by (auto simp: head_groups_def tiny_census_def)
qed

text \<open>Under the uneven strategy locality fails: with 6 query heads, 3 KV heads and degree 2, rank 1 owns query head 3, which
  reads KV head 1, but holds KV head 2 only.\<close>

lemma uneven_not_local:
  "\<exists>a. derive_attention_shard (tiny_census 6 3 False) 2 1 (Some ''UNEVEN'') = Inr a \<and> owns_q a 3
    \<and> 3 div head_groups (tiny_census 6 3 False) = 1 \<and> \<not> owns_kv a 1 \<and> \<not> at_kv_replicated a"
proof -
  have "is_ok (derive_attention_shard (tiny_census 6 3 False) 2 1 (Some ''UNEVEN''))" by (simp add: attention_ok_iff tiny_census_def)
  then obtain a where a: "derive_attention_shard (tiny_census 6 3 False) 2 1 (Some ''UNEVEN'') = Inr a" unfolding is_ok_iff by blast
  then show ?thesis
    using attention_shard_Inr(6,7) [OF a] by (auto simp: owns_q_def owns_kv_def head_groups_def tiny_census_def kv_share_def Let_def)
qed

end
