(* ===== verification/Plan_Memory.thy ===== *)
theory Plan_Memory
  imports Plan_Ownership
begin

text \<open>
  The cost of a token's KV cache per rank, what the memory model of a derived plan counts, and the validation of a plan
  that names a parameter the census does not have.
\<close>

section \<open>KV cache\<close>

lemma ceil_share:
  assumes "1 \<le> (d :: int)"
  shows "k \<le> d * (- (- k div d))" "d * (- (- k div d)) = k \<longleftrightarrow> d dvd k"
proof -
  have e: "d * (- k div d) = - k - (- k) mod d" by (simp add: minus_mod_eq_mult_div)
  have "0 \<le> (- k) mod d" using assms by simp
  then show "k \<le> d * (- (- k div d))" using e by simp
  show "d * (- (- k div d)) = k \<longleftrightarrow> d dvd k" using e by (simp add: dvd_eq_mod_eq_0 [symmetric])
qed

text \<open>C36: over all ranks the KV cache of a token never takes less than unsplit, and takes exactly as much when and only when the
  degree divides the KV heads; with fewer KV heads than ranks a rank pays the whole unsplit cost. The cost is that of the
  rank that holds the most heads under the strategy the capability matrix chooses.\<close>

theorem kv_cost_per_rank:
  assumes "check_census c = Inr c" "1 \<le> degree" "0 < kvb"
    "kv_per_token_bytes c degree kvb = Inr (heads, bytes)" "kv_per_token_bytes c 1 kvb = Inr (all_heads, full)"
  shows "full \<le> degree * bytes \<and> (degree * bytes = full \<longleftrightarrow> degree dvd ca_kv_heads c)
    \<and> (ca_kv_heads c < degree \<longrightarrow> bytes = full)
    \<and> (0 \<le> rank \<and> rank < degree \<longrightarrow> fst (kv_share c degree rank (fst (capability_strategy c True degree))) \<le> heads)"
proof -
  note pos = census_positive [OF assms(1)]
  let ?k = "ca_kv_heads c" and ?u = "ca_num_layers c * ca_head_dim c * 2 * kvb"
  have u: "0 < ?u" using pos assms(3) by simp
  have heads: "heads = (if ?k mod degree = 0 then ?k div degree else if ?k < degree then ?k else - (- ?k div degree))"
    and b: "bytes = ?u * heads" and f: "full = ?u * ?k"
    using assms(2,4,5) by (auto simp: kv_per_token_bytes_def Let_def)
  have nd: "\<not> degree dvd ?k" if "?k < degree" using that pos(5) by (simp add: zdvd_not_zless)
  have h: "?k \<le> degree * heads \<and> (degree * heads = ?k \<longleftrightarrow> degree dvd ?k) \<and> (?k < degree \<longrightarrow> heads = ?k)"
  proof (cases "?k mod degree = 0")
    case True
    then show ?thesis using nd by (auto simp: heads dvd_eq_mod_eq_0)
  next
    case False
    show ?thesis
    proof (cases "?k < degree")
      case True
      then have "1 * ?k < degree * ?k" using pos(5) by (intro mult_strict_right_mono) simp_all
      then show ?thesis using True False nd by (auto simp: heads dvd_eq_mod_eq_0)
    next
      case False
      then show ?thesis using ceil_share [OF assms(2), of ?k] \<open>?k mod degree \<noteq> 0\<close> by (simp add: heads)
    qed
  qed
  have "full \<le> degree * bytes" using h u mult_left_mono [of ?k "degree * heads" ?u] by (simp add: b f algebra_simps)
  moreover have "degree * bytes = full \<longleftrightarrow> degree * heads = ?k"
  proof -
    have "degree * bytes = ?u * (degree * heads)" by (simp add: b algebra_simps)
    then show ?thesis using u unfolding f by (metis mult_cancel_left less_irrefl)
  qed
  moreover have "fst (kv_share c degree rank (fst (capability_strategy c True degree))) \<le> heads"
  proof -
    have "?k div degree + 1 \<le> - (- ?k div degree)" if "?k mod degree \<noteq> 0"
      using that assms(2) zdiv_zminus1_eq_if [of degree ?k] by simp
    then show ?thesis
      by (auto simp: kv_share_def capability_strategy_def heads Let_def)
  qed
  ultimately show ?thesis using h b f by auto
qed

theorem kv_cost_per_rank_witness:
  "kv_per_token_bytes (tiny_census 4 2 False) 4 2 = Inr (2, 16) \<and> 16 \<le> 4 * (16 :: int)"
  using kv_cost_per_rank [OF tiny_ok, of 4 2 False 2 16 2 16 0] by (simp add: kv_per_token_bytes_def tiny_census_def)

section \<open>Memory\<close>

lemma shape_prod_update:
  assumes "axis = ''row'' \<or> axis = ''column''" "axis_of axis < length shape"
  shows "\<exists>m. \<forall>x. shape_prod (shape[axis_of axis := x]) = x * m"
proof (cases "axis = ''row''")
  case True
  then obtain t rest where "shape = t # rest" using assms(2) by (cases shape) (auto simp: axis_of_def)
  then show ?thesis using True by (intro exI [of _ "shape_prod rest"]) (simp add: axis_of_def shape_prod_Cons)
next
  case False
  then obtain r t rest where "shape = r # t # rest"
    using assms(2) by (cases shape; cases "tl shape") (auto simp: axis_of_def)
  then show ?thesis using False by (intro exI [of _ "r * shape_prod rest"]) (simp add: axis_of_def shape_prod_Cons)
qed

lemma telescope: "sum_list (map (\<lambda>i. f (Suc i) - f i) [0..<n]) = f n - (f 0 :: int)"
  by (induction n) simp_all

text \<open>The shards of one axis hold the tensor's elements between them.\<close>

lemma shards_numel:
  assumes "axis = ''row'' \<or> axis = ''column''" "axis_of axis < length shape" "1 \<le> c" "0 \<le> shape ! axis_of axis"
  shows "sum_list (map (\<lambda>s. shard_numel s * b) (map (nth_shard p shape axis c d) [0..<nat c])) = shape_prod shape * b"
proof -
  let ?t = "shape ! axis_of axis"
  let ?f = "shard_off (?t div c) (?t mod c)"
  obtain m where m: "shape_prod (shape[axis_of axis := x]) = x * m" for x using shape_prod_update [OF assms(1,2)] by blast
  have n: "shard_numel (nth_shard p shape axis c d i) = (?f (Suc i) - ?f i) * m" for i
    using assms(1) m by (auto simp: shard_numel_def local_shape_def)
  have "shape_prod shape = ?t * m" using m [of ?t] by simp
  moreover have "sum_list (map (\<lambda>i. (?f (Suc i) - ?f i) * (m * b)) [0..<nat c]) = ?t * (m * b)"
    using telescope [of ?f "nat c"] shard_off_last [of c ?t] assms(3)
    by (simp add: sum_list_mult_const pos_imp_zdiv_nonneg_iff)
  ultimately show ?thesis by (simp add: comp_def n mult.assoc)
qed

text \<open>Which parameters the derivation replicates.\<close>

definition replicated_rule :: "census \<Rightarrow> int \<Rightarrow> string \<times> int list \<Rightarrow> bool" where
  "replicated_rule c degree e \<longleftrightarrow> shard_rule (fst e) = 0 \<or> shard_rule (fst e) = 2 \<and> ca_kv_heads c mod degree \<noteq> 0"

lemma entry_memory:
  assumes "param_shards c degree dtype allow e = Inr ss" "1 \<le> degree" "\<forall>n \<in> set (snd e). 0 \<le> n"
  shows "sum_list (map (\<lambda>s. shard_numel s * b) (filter (\<lambda>s. \<not> sh_replicated s) ss)) = (if replicated_rule c degree e then 0 else shape_prod (snd e) * b)
    \<and> sum_list (map (\<lambda>s. shard_numel s * b * sh_count s) (filter sh_replicated ss)) = (if replicated_rule c degree e then shape_prod (snd e) * b * degree else 0)"
proof -
  obtain n shape where e: "e = (n, shape)" by fastforce
  show ?thesis
  proof (cases "replicated_rule c degree e")
    case True
    then have "bindE (replicated_shard n shape dtype degree) (\<lambda>s. Inr [s]) = Inr ss"
      using assms(1) by (simp add: param_shards_rule e replicated_rule_def)
    then show ?thesis using True assms(2) by (auto simp: replicated_shard_eq shard_numel_def local_shape_def e)
  next
    case False
    then obtain axis where p: "plan_axis_shards n shape axis degree dtype allow = Inr ss"
      using assms(1) by (auto simp: param_shards_rule e replicated_rule_def split: if_splits)
    note q = plan_axis_shards_Inr [OF p assms(2)]
    have ss: "ss = map (nth_shard n shape axis degree dtype) [0..<nat degree]" using q by blast
    have ax: "axis = ''row'' \<or> axis = ''column''" "axis_of axis < length shape" using q by blast+
    have "0 \<le> shape ! axis_of axis" using assms(3) ax(2) e nth_mem by fastforce
    then have "sum_list (map (\<lambda>s. shard_numel s * b) ss) = shape_prod shape * b" unfolding ss by (intro shards_numel ax assms(2))
    moreover have "filter (\<lambda>s. \<not> sh_replicated s) ss = ss" "filter sh_replicated ss = []" by (simp_all add: ss filter_id_conv filter_empty_conv)
    ultimately show ?thesis using False by (simp add: e)
  qed
qed

lemma sum_concat_filter:
  assumes "\<And>e. e \<in> set E \<Longrightarrow> sum_list (map f (filter P (g e))) = (if Q e then w e else (0 :: int))"
  shows "sum_list (map f (filter P (concat (map g E)))) = sum_list (map w (filter Q E))"
  using assms by (induction E) auto

text \<open>The memory model of a derived plan counts every split parameter once in full, the sum over all ranks, and every
  replicated parameter once per rank: the two figures are totals of the job. The second is returned under the name
  \<open>weights_replicated_bytes_per_rank\<close>.\<close>

theorem memory_model_totals:
  assumes "check_census c = Inr c" "derive_plan c plan_id sha degree ranks ph dtype kvb free allow merge created = Inr p"
  shows "mm_weights_sharded (memory_model p b tokens)
      = sum_list (map (\<lambda>e. shape_prod (snd e) * b) (filter (\<lambda>e. \<not> replicated_rule c degree e) (parameter_shapes c)))
    \<and> mm_weights_replicated (memory_model p b tokens)
      = sum_list (map (\<lambda>e. shape_prod (snd e) * b * degree) (filter (replicated_rule c degree) (parameter_shapes c)))
    \<and> degree * mm_weights_sharded (memory_model p b tokens) + mm_weights_replicated (memory_model p b tokens)
      = degree * b * total_weight_elements c"
proof -
  let ?E = "parameter_shapes c" and ?Q = "replicated_rule c degree"
  note d1 = derive_plan_Inr(1) [OF assms(2)]
  obtain g where g: "pl_shards p = concat (map g ?E)" "\<forall>e \<in> set ?E. param_shards c degree dtype allow e = Inr (g e)"
    using derived_shards [OF assms(2)] by blast
  have m: "sum_list (map (\<lambda>s. shard_numel s * b) (filter (\<lambda>s. \<not> sh_replicated s) (g e))) = (if ?Q e then 0 else shape_prod (snd e) * b)"
    "sum_list (map (\<lambda>s. shard_numel s * b * sh_count s) (filter sh_replicated (g e))) = (if ?Q e then shape_prod (snd e) * b * degree else 0)"
    if "e \<in> set ?E" for e
    using entry_memory [OF bspec [OF g(2) that] d1 dims_nonneg [OF assms(1) that]] by blast+
  have s: "mm_weights_sharded (memory_model p b tokens) = sum_list (map (\<lambda>e. shape_prod (snd e) * b) (filter (\<lambda>e. \<not> ?Q e) ?E))"
    unfolding memory_model_def memory_prediction.simps g(1) by (rule sum_concat_filter) (simp add: m)
  have r: "mm_weights_replicated (memory_model p b tokens) = sum_list (map (\<lambda>e. shape_prod (snd e) * b * degree) (filter ?Q ?E))"
    unfolding memory_model_def memory_prediction.simps g(1) by (rule sum_concat_filter) (simp add: m)
  have "degree * sum_list (map (\<lambda>e. shape_prod (snd e) * b) (filter (\<lambda>e. \<not> ?Q e) xs))
      + sum_list (map (\<lambda>e. shape_prod (snd e) * b * degree) (filter ?Q xs)) = degree * b * sum_list (map (shape_prod \<circ> snd) xs)" for xs
    by (induction xs) (simp_all add: algebra_simps)
  then show ?thesis using s r by (simp add: total_weight_elements_def)
qed

theorem memory_model_totals_witness:
  "\<exists>p. derive_plan (tiny_census 4 2 False) ''p'' ''s'' 2 [0, 1] ''h'' ''fp16'' 2 0 False ''all_reduce'' ''t'' = Inr p
    \<and> 2 * mm_weights_sharded (memory_model p 2 0) + mm_weights_replicated (memory_model p 2 0) = 4 * total_weight_elements (tiny_census 4 2 False)"
proof -
  obtain p where p: "derive_plan (tiny_census 4 2 False) ''p'' ''s'' 2 [0, 1] ''h'' ''fp16'' 2 0 False ''all_reduce'' ''t'' = Inr p"
    using tiny_derived [of "''p''" "''s''" "[0, 1]" "''h''" "''fp16''" 2 0 "''t''"] unfolding is_ok_iff by blast
  then show ?thesis using memory_model_totals [OF tiny_ok p, of 2 0] by simp
qed

section \<open>Unknown parameters\<close>

lemma all_res_first_error:
  "(\<And>x. x \<in> set xs \<Longrightarrow> f x = Inl e \<or> is_ok (f x)) \<Longrightarrow> \<exists>x \<in> set xs. f x = Inl e \<Longrightarrow> all_res (map f xs) = Inl e"
proof (induction xs)
  case (Cons x xs)
  show ?case
  proof (cases "f x = Inl e")
    case False
    then obtain y where y: "f x = Inr y" using Cons.prems(1) [of x] unfolding is_ok_iff by auto
    moreover have "all_res (map f xs) = Inl e" using Cons False y by (intro Cons.IH) auto
    ultimately show ?thesis by simp
  qed simp
qed simp

text \<open>The validation of a plan one of whose shards names a parameter the census does not have raises a \<open>KeyError\<close>: the
  message about unknown parameters it prepares for that case is never returned.\<close>

theorem unknown_parameter_raises:
  assumes "s \<in> set (pl_shards p)" "sh_param_name s \<notin> fst ` set (parameter_shapes c)"
  shows "plan_validate (Some c) p = Inl KeyError"
proof -
  have e: "shape_problems c s' = Inl KeyError \<or> is_ok (shape_problems c s')" for s'
    by (cases "map_of (parameter_shapes c) (sh_param_name s')") (simp_all add: shape_problems_def census_shape_def)
  have "map_of (parameter_shapes c) (sh_param_name s) = None" using assms(2) by (simp add: map_of_eq_None_iff)
  then have "shape_problems c s = Inl KeyError" by (simp add: shape_problems_def census_shape_def)
  then have "all_res (map (shape_problems c) (pl_shards p)) = Inl KeyError"
    using e assms(1) by (intro all_res_first_error) auto
  then show ?thesis by (simp add: plan_validate_def)
qed

theorem unknown_parameter_raises_witness:
  "\<exists>p. derive_plan (tiny_census 4 2 False) ''p'' ''s'' 2 [0, 1] ''h'' ''fp16'' 2 0 False ''all_reduce'' ''t'' = Inr p
    \<and> plan_validate (Some (tiny_census 4 2 False)) (p\<lparr>pl_shards := [nth_shard ''rotary.inv_freq'' [4, 4] ''row'' 2 ''fp16'' 0]\<rparr>) = Inl KeyError"
proof -
  obtain p where p: "derive_plan (tiny_census 4 2 False) ''p'' ''s'' 2 [0, 1] ''h'' ''fp16'' 2 0 False ''all_reduce'' ''t'' = Inr p"
    using tiny_derived [of "''p''" "''s''" "[0, 1]" "''h''" "''fp16''" 2 0 "''t''"] unfolding is_ok_iff by blast
  have "''rotary.inv_freq'' \<notin> fst ` set (parameter_shapes (tiny_census 4 2 False))"
    by (simp add: parameter_shapes_def layer_shapes_def layer_suffixes_def layer_name_def tiny_census_def)
  then show ?thesis
    using p unknown_parameter_raises [of "nth_shard ''rotary.inv_freq'' [4, 4] ''row'' 2 ''fp16'' 0" "p\<lparr>pl_shards := [nth_shard ''rotary.inv_freq'' [4, 4] ''row'' 2 ''fp16'' 0]\<rparr>"]
    by auto
qed

end
