(* ===== verification/Moe_Dispatch.thy ===== *)
theory Moe_Dispatch
  imports Py_List Float64
begin

text \<open>
  Routing and dispatch of \<open>hqsb/distributed/moe.py\<close>: route artifacts and their generation (the weight vectors drawn from
  the random number generator are an argument), the grouping of assignments by expert, offsets, and the combination
  of the expert outputs. A float operation is the exact one followed by \<open>fl\<close>; the sum of a list of floats is an argument.
\<close>

definition demand :: "bool \<Rightarrow> string \<Rightarrow> unit res" where
  "demand condition what = ensure condition (ConfigError what)"

section \<open>Operator and routes\<close>

definition SKEW_PROFILES :: "string list" where
  "SKEW_PROFILES = [''uniform'', ''mild_zipf'', ''severe_zipf'', ''single_hot_expert'', ''hot_pair_same_rank'', ''hot_pair_different_rank'',
     ''per_source_correlated'', ''prefill_large_token'', ''decode_small_batch'', ''time_varying_hot_expert'']"

definition OVERFLOW_POLICIES :: "string list" where
  "OVERFLOW_POLICIES = [''dynamic'', ''padding'', ''drop'', ''reroute'']"

record moe_operator =
  mo_hidden_size :: int
  mo_num_experts :: int
  mo_top_k :: int
  mo_normalization :: string
  mo_capacity_factor :: rat
  mo_overflow_policy :: string
  mo_dtype :: string
  mo_expert_compute :: string

definition check_operator :: "moe_operator \<Rightarrow> moe_operator res" where
  "check_operator m =
     bindE (demand (mo_hidden_size m > 0) ''hidden_size'') (\<lambda>_.
     bindE (demand (mo_num_experts m \<ge> 1) ''num_experts'') (\<lambda>_.
     bindE (demand (1 \<le> mo_top_k m \<and> mo_top_k m \<le> mo_num_experts m) ''top_k'') (\<lambda>_.
     bindE (demand (mo_overflow_policy m \<in> set OVERFLOW_POLICIES) ''overflow_policy'') (\<lambda>_.
     bindE (demand (mo_normalization m \<in> set [''softmax_over_topk'', ''renormalized_topk'', ''none'']) ''gate_weight_normalization'') (\<lambda>_.
       Inr m)))))"

text \<open>\<open>int(math.ceil(tokens * top_k / num_experts * capacity_factor))\<close>\<close>

definition capacity_per_expert :: "moe_operator \<Rightarrow> int \<Rightarrow> int option" where
  "capacity_per_expert m tokens =
     (if mo_capacity_factor m = 0 then None
      else Some \<lceil>fl (int_truediv (tokens * mo_top_k m) (mo_num_experts m) * mo_capacity_factor m)\<rceil>)"

record assignment =
  as_token :: int
  as_source :: int
  as_expert :: int
  as_slot :: int
  as_weight :: rat

record route_artifact =
  ro_id :: string
  ro_token_count :: int
  ro_top_k :: int
  ro_num_experts :: int
  ro_assignments :: "assignment list"
  ro_profile :: string
  ro_seed :: int

definition check_route :: "route_artifact \<Rightarrow> route_artifact res" where
  "check_route r =
     bindE (demand (ro_profile r \<in> set SKEW_PROFILES) ''profile'') (\<lambda>_.
     bindE (demand (int (length (ro_assignments r)) = ro_token_count r * ro_top_k r) ''assignments'') (\<lambda>_.
     bindE (demand (list_all (\<lambda>a. 0 \<le> as_expert a \<and> as_expert a < ro_num_experts r) (ro_assignments r)) ''expert_id'') (\<lambda>_. Inr r)))"

text \<open>The position a Python index means in a list of length \<open>n\<close>.\<close>

definition py_index :: "nat \<Rightarrow> int \<Rightarrow> nat option" where
  "py_index n i = (if 0 \<le> i \<and> i < int n then Some (nat i) else if i < 0 \<and> - int n \<le> i then Some (nat (i + int n)) else None)"

definition update_at :: "int \<Rightarrow> ('a \<Rightarrow> 'a res) \<Rightarrow> 'a list \<Rightarrow> 'a list res" where
  "update_at i f xs = (case py_index (length xs) i of None \<Rightarrow> Inl IndexError | Some j \<Rightarrow> bindE (f (xs ! j)) (\<lambda>y. Inr (xs[j := y])))"

definition send_count_matrix :: "route_artifact \<Rightarrow> (int \<times> int) list \<Rightarrow> int \<Rightarrow> int list list res" where
  "send_count_matrix r expert_to_rank world_size =
     forE (\<lambda>a matrix. case map_of expert_to_rank (as_expert a) of None \<Rightarrow> Inl KeyError
         | Some destination \<Rightarrow> update_at (as_source a) (update_at destination (\<lambda>n. Inr (n + 1))) matrix)
       (ro_assignments r) (replicate (nat world_size) (replicate (nat world_size) 0))"

definition tokens_per_expert :: "route_artifact \<Rightarrow> int list res" where
  "tokens_per_expert r = forE (\<lambda>a. update_at (as_expert a) (\<lambda>n. Inr (n + 1))) (ro_assignments r) (replicate (nat (ro_num_experts r)) 0)"

definition gate_weight_sum_per_token :: "route_artifact \<Rightarrow> rat list res" where
  "gate_weight_sum_per_token r =
     forE (\<lambda>a. update_at (as_token a) (\<lambda>w. Inr (fl (w + as_weight a)))) (ro_assignments r) (replicate (nat (ro_token_count r)) 0)"

record route_stats =
  rs_per_expert :: "int list"
  rs_per_rank :: "int list"
  rs_matrix :: "int list list"
  rs_gate_sums :: "rat list"

definition route_stats_of :: "route_artifact \<Rightarrow> (int \<times> int) list \<Rightarrow> int \<Rightarrow> route_stats res" where
  "route_stats_of r expert_to_rank world_size =
     bindE (send_count_matrix r expert_to_rank world_size) (\<lambda>matrix.
     bindE (tokens_per_expert r) (\<lambda>per_expert.
     bindE (gate_weight_sum_per_token r) (\<lambda>gates.
       Inr \<lparr>rs_per_expert = per_expert, rs_per_rank = map sum_list matrix, rs_matrix = matrix, rs_gate_sums = gates\<rparr>)))"

section \<open>Generation\<close>

definition top_k_indices :: "rat list \<Rightarrow> int \<Rightarrow> nat list" where
  "top_k_indices weights top_k = py_slice 0 top_k (sort_key (\<lambda>index. (- (weights ! index), index)) [0..<length weights])"

text \<open>The assignments of one token.\<close>

definition token_assignments :: "(rat list \<Rightarrow> rat) \<Rightarrow> rat list \<Rightarrow> int \<Rightarrow> int \<Rightarrow> int \<Rightarrow> assignment list" where
  "token_assignments fsum weights top_k world_size token =
     (let chosen = top_k_indices weights top_k; total = fsum (map (\<lambda>index. weights ! index) chosen);
          normaliser = (if total = 0 then 1 else total)
      in map (\<lambda>(slot, expert). \<lparr>as_token = token, as_source = token mod world_size, as_expert = int expert, as_slot = int slot,
             as_weight = fl (weights ! expert / normaliser)\<rparr>) (zip [0..<length chosen] chosen))"

definition generate_route_artifact ::
  "(rat list \<Rightarrow> rat) \<Rightarrow> (int \<Rightarrow> rat list) \<Rightarrow> string \<Rightarrow> int \<Rightarrow> int \<Rightarrow> int \<Rightarrow> int \<Rightarrow> string \<Rightarrow> int \<Rightarrow> route_artifact res" where
  "generate_route_artifact fsum weights_of artifact_id token_count world_size experts_per_rank top_k profile seed =
     bindE (demand (profile \<in> set SKEW_PROFILES) ''profile'') (\<lambda>_.
     bindE (demand (token_count > 0) ''token_count'') (\<lambda>_.
     let num_experts = world_size * experts_per_rank in
     bindE (demand (1 \<le> top_k \<and> top_k \<le> num_experts) ''top_k'') (\<lambda>_.
       check_route \<lparr>ro_id = artifact_id, ro_token_count = token_count, ro_top_k = top_k, ro_num_experts = num_experts,
         ro_assignments = concat (map (\<lambda>token. token_assignments fsum (weights_of token) top_k world_size token) (py_range token_count)),
         ro_profile = profile, ro_seed = seed\<rparr>)))"

section \<open>Dispatch\<close>

record dispatch_result =
  dr_token_order :: "int list"
  dr_expert_order :: "int list"
  dr_weights :: "rat list"
  dr_source_order :: "int list"
  dr_slot_order :: "int list"
  dr_send_counts :: "int list"
  dr_offsets :: "int list"
  dr_empty_experts :: "int list"

definition packed_count :: "dispatch_result \<Rightarrow> nat" where
  "packed_count d = length (dr_token_order d)"

definition align_up :: "int \<Rightarrow> int \<Rightarrow> int" where
  "align_up alignment cursor =
     (if alignment > 1 \<and> cursor mod alignment \<noteq> 0 then cursor + (alignment - cursor mod alignment) else cursor)"

fun offsets_from :: "int \<Rightarrow> int \<Rightarrow> int list \<Rightarrow> int list res" where
  "offsets_from alignment cursor [] = Inr []"
| "offsets_from alignment cursor (count # counts) =
     (if count < 0 then Inl (ConfigError ''counts'')
      else bindE (offsets_from alignment (align_up alignment (cursor + count)) counts) (\<lambda>os. Inr (cursor # os)))"

definition compute_offsets :: "int list \<Rightarrow> int \<Rightarrow> int list res" where
  "compute_offsets counts alignment =
     bindE (demand (\<not> alignment < 1) ''alignment'') (\<lambda>_. offsets_from alignment 0 counts)"

definition expert_items :: "route_artifact \<Rightarrow> int \<Rightarrow> assignment list" where
  "expert_items r expert = sort_key (\<lambda>a. (as_token a, as_slot a)) (filter (\<lambda>a. as_expert a = expert) (ro_assignments r))"

definition dispatch_oracle :: "route_artifact \<Rightarrow> int \<Rightarrow> dispatch_result res" where
  "dispatch_oracle r alignment =
     (let experts = py_range (ro_num_experts r); groups = map (expert_items r) experts; packed = concat groups;
          send_counts = map (int \<circ> length) groups
      in bindE (compute_offsets send_counts alignment) (\<lambda>offsets.
         Inr \<lparr>dr_token_order = map as_token packed,
           dr_expert_order = concat (map (\<lambda>expert. replicate (length (expert_items r expert)) expert) experts),
           dr_weights = map as_weight packed, dr_source_order = map as_source packed, dr_slot_order = map as_slot packed,
           dr_send_counts = send_counts, dr_offsets = offsets,
           dr_empty_experts = filter (\<lambda>expert. send_counts ! nat expert = 0) (py_range (int (length send_counts)))\<rparr>))"

section \<open>Combination\<close>

definition add_weighted :: "rat \<Rightarrow> rat list \<Rightarrow> rat list \<Rightarrow> rat list" where
  "add_weighted weight vector target = map (\<lambda>(t, v). fl (t + fl (weight * v))) (zip target vector)"

text \<open>One packed position; \<open>accumulated\<close> holds the vectors of the tokens \<open>0, 1, ...\<close> and has no other key.\<close>

definition combine_step :: "dispatch_result \<Rightarrow> (nat \<Rightarrow> rat list option) \<Rightarrow> int \<Rightarrow> nat \<Rightarrow> rat list list \<Rightarrow> rat list list res" where
  "combine_step d expert_outputs hidden_size position accumulated =
     (case expert_outputs position of None \<Rightarrow> Inl (ConfigError ''expert_outputs'')
      | Some vector \<Rightarrow>
          bindE (demand (int (length vector) = hidden_size) ''expert_outputs'') (\<lambda>_.
          let token = dr_token_order d ! position in
          if 0 \<le> token \<and> token < int (length accumulated)
          then Inr (accumulated[nat token := add_weighted (dr_weights d ! position) vector (accumulated ! nat token)])
          else Inl KeyError))"

record combined =
  co_tokens :: "rat list list"
  co_positions :: nat
  co_conserved :: bool

definition combine_oracle :: "dispatch_result \<Rightarrow> (nat \<Rightarrow> rat list option) \<Rightarrow> int \<Rightarrow> combined res" where
  "combine_oracle d expert_outputs hidden_size =
     bindE (demand (\<not> hidden_size \<le> 0) ''hidden_size'') (\<lambda>_.
     let token_count = (if dr_token_order d \<noteq> [] then Max (set (dr_token_order d)) + 1 else 0) in
     bindE (forE (combine_step d expert_outputs hidden_size) [0..<packed_count d]
         (replicate (nat token_count) (replicate (nat hidden_size) 0))) (\<lambda>accumulated.
       Inr \<lparr>co_tokens = accumulated, co_positions = packed_count d, co_conserved = True\<rparr>))"

text \<open>\<open>float((base + index) % 1021) / 1021.0\<close>\<close>

definition deterministic_stub_expert :: "int \<Rightarrow> int \<Rightarrow> int \<Rightarrow> rat list" where
  "deterministic_stub_expert position expert_id hidden_size =
     (let base = (expert_id * 1000003 + position * 7919) mod 65521
      in map (\<lambda>index. fl (of_int ((base + index) mod 1021) / 1021)) (py_range hidden_size))"

record gemm_shape =
  gs_expert :: nat
  gs_tokens :: int
  gs_empty :: bool
  gs_gemm_k :: int

definition expert_mlp_plan :: "moe_operator \<Rightarrow> int list \<Rightarrow> gemm_shape list res" where
  "expert_mlp_plan m counts =
     bindE (demand (counts \<noteq> []) ''tokens_per_expert'') (\<lambda>_.
       Inr (map (\<lambda>(expert, tokens). \<lparr>gs_expert = expert, gs_tokens = tokens, gs_empty = (tokens = 0), gs_gemm_k = mo_hidden_size m\<rparr>)
         (zip [0..<length counts] counts)))"

definition pack_plan :: "int list \<Rightarrow> int \<Rightarrow> int \<Rightarrow> int \<Rightarrow> int \<times> int \<times> int \<times> int \<times> int" where
  "pack_plan send_counts hidden_size dtype_bytes alignment =
     (let total = sum_list send_counts;
          padding_slots = (if alignment > 1 then
              sum_list (map (\<lambda>count. if count mod alignment \<noteq> 0 then alignment - count mod alignment else 0) send_counts) else 0)
      in (total, total * hidden_size * dtype_bytes, int (length send_counts) * 8, padding_slots, padding_slots * hidden_size * dtype_bytes))"

end
