(* ===== verification/Moe_Placement.thy ===== *)
theory Moe_Placement
  imports Moe_Dispatch
begin

text \<open>
  Counts, capacity policies, expert placement and the graded verdicts of \<open>hqsb/distributed/moe.py\<close>.
\<close>

section \<open>Count matrix\<close>

record count_matrix =
  cm_send_counts :: "int list list"
  cm_world_size :: int
  cm_tokens :: int
  cm_top_k :: int
  cm_dropped :: int
  cm_duplicated :: int
  cm_padding_slots :: int

definition check_count_matrix :: "count_matrix \<Rightarrow> count_matrix res" where
  "check_count_matrix m =
     bindE (demand (int (length (cm_send_counts m)) = cm_world_size m
         \<and> list_all (\<lambda>row. int (length row) = cm_world_size m) (cm_send_counts m)) ''send_counts'') (\<lambda>_.
     bindE (demand (list_all (list_all (\<lambda>v. v \<ge> 0)) (cm_send_counts m)) ''send_counts'') (\<lambda>_. Inr m))"

definition send_tokens :: "count_matrix \<Rightarrow> int list" where
  "send_tokens m = map sum_list (cm_send_counts m)"

definition recv_tokens :: "count_matrix \<Rightarrow> int list" where
  "recv_tokens m = map (\<lambda>dst. sum_list (map (\<lambda>src. cm_send_counts m ! src ! dst) [0..<nat (cm_world_size m)])) [0..<nat (cm_world_size m)]"

datatype count_problem = SendTotal | RecvTotal | Unbalanced

definition matrix_audit :: "count_matrix \<Rightarrow> count_problem list" where
  "matrix_audit m =
     (let expected = cm_tokens m * cm_top_k m - cm_dropped m; send_total = sum_list (send_tokens m); recv_total = sum_list (recv_tokens m)
      in (if send_total \<noteq> expected then [SendTotal] else []) @ (if recv_total \<noteq> expected then [RecvTotal] else [])
       @ (if send_total \<noteq> recv_total then [Unbalanced] else []))"

definition matrix_offsets :: "count_matrix \<Rightarrow> int \<Rightarrow> int list list res" where
  "matrix_offsets m alignment = all_res (map (\<lambda>row. compute_offsets row alignment) (cm_send_counts m))"

definition count_matrix_of :: "route_artifact \<Rightarrow> (int \<times> int) list \<Rightarrow> int \<Rightarrow> count_matrix res" where
  "count_matrix_of r expert_to_rank world_size =
     bindE (send_count_matrix r expert_to_rank world_size) (\<lambda>matrix.
       check_count_matrix \<lparr>cm_send_counts = matrix, cm_world_size = world_size, cm_tokens = ro_token_count r, cm_top_k = ro_top_k r,
         cm_dropped = 0, cm_duplicated = 0, cm_padding_slots = 0\<rparr>)"

definition padding_waste :: "route_artifact \<Rightarrow> (int \<times> int) list \<Rightarrow> int \<Rightarrow> (int \<times> int \<times> int \<times> rat) res" where
  "padding_waste r expert_to_rank world_size =
     bindE (send_count_matrix r expert_to_rank world_size) (\<lambda>matrix.
     let max_row = (if matrix \<noteq> [] then Max (set (map sum_list matrix)) else 0);
         fixed_slots = max_row * world_size; actual_slots = sum_list (map sum_list matrix)
     in Inr (fixed_slots, actual_slots, fixed_slots - actual_slots,
          if fixed_slots \<noteq> 0 then int_truediv (fixed_slots - actual_slots) fixed_slots else 0))"

section \<open>Capacity policies\<close>

record capacity_row =
  cy_policy :: string
  cy_capacity :: "int option"
  cy_dropped :: int
  cy_padding_slots :: int
  cy_quality_changed :: bool

definition overfull :: "string \<Rightarrow> int \<Rightarrow> int list \<Rightarrow> int \<times> int" where
  "overfull policy capacity counts =
     foldl (\<lambda>(dropped, padded) count.
         if count > capacity then (dropped + (count - capacity), padded + (if policy = ''padding'' then capacity - count else 0))
         else (dropped, padded)) (0, 0) counts"

definition capacity_policy_row :: "moe_operator \<Rightarrow> int \<Rightarrow> int list \<Rightarrow> string \<Rightarrow> capacity_row" where
  "capacity_policy_row m tokens counts policy =
     (if policy = ''dynamic'' then \<lparr>cy_policy = policy, cy_capacity = None, cy_dropped = 0, cy_padding_slots = 0, cy_quality_changed = False\<rparr>
      else let capacity = capacity_per_expert m tokens;
               (dropped, padded) = (case capacity of None \<Rightarrow> (0, 0) | Some c \<Rightarrow> overfull policy c counts)
      in \<lparr>cy_policy = policy, cy_capacity = capacity, cy_dropped = dropped, cy_padding_slots = max 0 padded,
           cy_quality_changed = (policy = ''drop'' \<or> policy = ''reroute'')\<rparr>)"

definition capacity_policy_rows :: "moe_operator \<Rightarrow> int \<Rightarrow> int list \<Rightarrow> capacity_row list" where
  "capacity_policy_rows m tokens counts = map (capacity_policy_row m tokens counts) OVERFLOW_POLICIES"

section \<open>Placement\<close>

record expert_placement =
  ep_name :: string
  ep_kind :: string
  ep_expert_to_rank :: "(int \<times> int) list"
  ep_memory :: "(int \<times> int) list"

definition PLACEMENT_KINDS :: "string list" where
  "PLACEMENT_KINDS = [''round_robin'', ''topology_aware'', ''framework_default'']"

definition check_placement :: "expert_placement \<Rightarrow> expert_placement res" where
  "check_placement p =
     bindE (demand (ep_kind p \<in> set PLACEMENT_KINDS) ''kind'') (\<lambda>_.
     bindE (demand (ep_expert_to_rank p \<noteq> []) ''expert_to_rank'') (\<lambda>_. Inr p))"

definition rank_of :: "expert_placement \<Rightarrow> int \<Rightarrow> int res" where
  "rank_of p expert = (case map_of (ep_expert_to_rank p) expert of None \<Rightarrow> Inl (ConfigError ''expert'') | Some rank \<Rightarrow> Inr rank)"

definition round_robin_placement :: "int \<Rightarrow> int \<Rightarrow> expert_placement res" where
  "round_robin_placement num_experts world_size =
     (if world_size = 0 \<and> num_experts > 0 then Inl ZeroDivisionError
      else check_placement \<lparr>ep_name = ''baseline_round_robin'', ep_kind = ''round_robin'',
        ep_expert_to_rank = map (\<lambda>expert. (expert, expert mod world_size)) (py_range num_experts), ep_memory = []\<rparr>)"

text \<open>The rank an expert is put on: the least loaded one, and with fast edges a destination of one of them first.\<close>

definition choose_rank :: "(int \<times> int) list \<Rightarrow> int list \<Rightarrow> nat res" where
  "choose_rank fast_edges loads =
     (let candidates = (if fast_edges \<noteq> [] then sort_key (\<lambda>rank. (if int rank \<in> set (map snd fast_edges) then 0 else 1 :: int, loads ! rank)) [0..<length loads]
                        else sort_key (\<lambda>rank. loads ! rank) [0..<length loads])
      in if candidates = [] then Inl IndexError else Inr (hd candidates))"

definition place_expert :: "(int \<times> int) list \<Rightarrow> int list \<Rightarrow> int \<Rightarrow> (int \<times> int) list \<times> int list \<Rightarrow> ((int \<times> int) list \<times> int list) res" where
  "place_expert fast_edges counts expert state =
     (case state of (placement, loads) \<Rightarrow>
      bindE (choose_rank fast_edges loads) (\<lambda>target.
        Inr (placement @ [(expert, int target)], loads[target := loads ! target + counts ! nat expert])))"

definition place_all :: "(int \<times> int) list \<Rightarrow> int list \<Rightarrow> int list \<Rightarrow> int \<Rightarrow> ((int \<times> int) list \<times> int list) res" where
  "place_all fast_edges counts order world_size =
     forE (place_expert fast_edges counts) order ([], replicate (nat world_size) 0)"

definition topology_aware_placement :: "route_artifact \<Rightarrow> int \<Rightarrow> int \<Rightarrow> (int \<times> int) list \<Rightarrow> int \<Rightarrow> int \<Rightarrow> expert_placement res" where
  "topology_aware_placement r world_size num_experts fast_edges max_memory_bytes_per_rank expert_bytes =
     bindE (tokens_per_expert r) (\<lambda>counts.
     if num_experts > int (length counts) then Inl IndexError
     else let order = sort_key (\<lambda>expert. - (counts ! nat expert)) (py_range num_experts) in
     bindE (place_all fast_edges counts order world_size) (\<lambda>(placement, loads).
     let memory = map (\<lambda>rank. (rank, expert_bytes * int (length (filter (\<lambda>(_, target). target = rank) placement)))) (py_range world_size) in
     bindE (demand (\<not> (max_memory_bytes_per_rank \<noteq> 0 \<and> list_ex (\<lambda>(_, v). v > max_memory_bytes_per_rank) memory)) ''max_memory_bytes_per_rank'') (\<lambda>_.
       check_placement \<lparr>ep_name = ''treatment_topology_aware'', ep_kind = ''topology_aware'', ep_expert_to_rank = placement, ep_memory = memory\<rparr>)))"

record placement_arm =
  pa_placement :: string
  pa_max_rank_tokens :: int
  pa_mean_rank_tokens :: rat
  pa_cross_rank :: int
  pa_matrix :: "int list list"

definition placement_arm_of :: "route_artifact \<Rightarrow> int \<Rightarrow> expert_placement \<Rightarrow> placement_arm res" where
  "placement_arm_of r world_size p =
     bindE (send_count_matrix r (ep_expert_to_rank p) world_size) (\<lambda>matrix.
     let per_rank = map sum_list matrix in
     Inr \<lparr>pa_placement = ep_name p, pa_max_rank_tokens = (if per_rank \<noteq> [] then Max (set per_rank) else 0),
       pa_mean_rank_tokens = (if per_rank \<noteq> [] then int_truediv (sum_list per_rank) (int (length per_rank)) else 0),
       pa_cross_rank = sum_list (concat (map (\<lambda>src. map (\<lambda>dst. if src \<noteq> dst then matrix ! src ! dst else 0) [0..<nat world_size]) [0..<nat world_size])),
       pa_matrix = matrix\<rparr>)"

definition placement_ab_rows :: "route_artifact \<Rightarrow> expert_placement \<Rightarrow> expert_placement \<Rightarrow> int \<Rightarrow> (placement_arm \<times> placement_arm) res" where
  "placement_ab_rows r baseline treatment world_size =
     bindE (placement_arm_of r world_size baseline) (\<lambda>a. bindE (placement_arm_of r world_size treatment) (\<lambda>b. Inr (a, b)))"

definition normalised_histogram :: "int list \<Rightarrow> rat list" where
  "normalised_histogram counts = (let total = (if sum_list counts = 0 then 1 else sum_list counts) in map (\<lambda>count. int_truediv count total) counts)"

definition holdout_check :: "(rat list \<Rightarrow> rat) \<Rightarrow> route_artifact \<Rightarrow> route_artifact \<Rightarrow> rat \<Rightarrow> (rat \<times> bool) res" where
  "holdout_check fsum tuning holdout threshold =
     bindE (tokens_per_expert tuning) (\<lambda>t. bindE (tokens_per_expert holdout) (\<lambda>h.
     let tuning_hist = normalised_histogram t; holdout_hist = normalised_histogram h in
     bindE (demand (length tuning_hist = length holdout_hist) ''expert count'') (\<lambda>_.
     let divergence = fl (1 / 2 * fsum (map (\<lambda>(left, right). \<bar>fl (left - right)\<bar>) (zip tuning_hist holdout_hist)))
     in Inr (divergence, divergence > threshold))))"

section \<open>Claim levels and verdicts\<close>

definition CLAIM_LEVELS :: "string list" where
  "CLAIM_LEVELS = [''L0'', ''L1'', ''L2'', ''L3'', ''L4'']"

definition claim_gate :: "string \<Rightarrow> bool \<Rightarrow> bool \<Rightarrow> bool \<Rightarrow> (string \<times> string list) res" where
  "claim_gate level has_real_moe_artifact runtime_closed model_quality_rows =
     bindE (demand (level \<in> set CLAIM_LEVELS) ''level'') (\<lambda>_.
     let open_runtime = (level = ''L3'' \<or> level = ''L4'') \<and> \<not> runtime_closed;
         fallback = (if runtime_closed then ''L3'' else ''L2'');
         no_artifact = level = ''L4'' \<and> \<not> has_real_moe_artifact;
         no_rows = level = ''L4'' \<and> \<not> model_quality_rows
     in Inr (if no_artifact \<or> no_rows then fallback else if open_runtime then ''L2'' else level,
          (if open_runtime then [''runtime''] else []) @ (if no_artifact then [''artifact''] else []) @ (if no_rows then [''rows''] else [])))"

definition l4_gate :: "string \<Rightarrow> bool \<Rightarrow> bool \<Rightarrow> (bool \<times> string list) res" where
  "l4_gate level has_real_moe_artifact model_rows =
     (if level \<noteq> ''L4'' then (if level \<in> set CLAIM_LEVELS then Inr (False, []) else Inl KeyError)
      else let blocking = (if has_real_moe_artifact then [] else [''artifact'']) @ (if model_rows then [] else [''rows''])
      in Inr (blocking = [], blocking))"

datatype moe_status = MoePass | MoeFail string | MoeInconclusive string

definition moe_verdict :: "bool \<Rightarrow> bool \<Rightarrow> bool \<Rightarrow> string option \<Rightarrow> bool \<Rightarrow> moe_status" where
  "moe_verdict conservation_ok l2_or_l3_closed skew_covered placement_conclusion holdout_ok =
     (if \<not> conservation_ok then MoeFail ''conservation''
      else if \<not> l2_or_l3_closed then MoeFail ''loop''
      else if \<not> skew_covered then MoeFail ''skew''
      else if \<not> holdout_ok then MoeInconclusive ''holdout''
      else if placement_conclusion = None then MoeInconclusive ''placement''
      else MoePass)"

end
