(* ===== verification/Moe_Props.thy ===== *)
theory Moe_Props
  imports Moe_Placement "HOL-Library.Multiset"
begin

text \<open>
  Dispatch groups the assignments by expert without losing one, combination is the per-token sum of the weighted
  expert outputs and undoes the dispatch of a top-1 route, and aligned offsets account for the padding.
\<close>

section \<open>Updating a list by a Python index\<close>

lemma py_index_nonneg: "0 \<le> i \<Longrightarrow> i < int n \<Longrightarrow> py_index n i = Some (nat i)"
  by (simp add: py_index_def)

lemma py_index_less: "py_index n i = Some j \<Longrightarrow> j < n"
  by (auto simp: py_index_def split: if_splits)

lemma update_at_map:
  assumes "0 \<le> i" "i < int n"
  shows "update_at i f (map h [0..<n]) = bindE (f (h (nat i))) (\<lambda>y. Inr (map (h(nat i := y)) [0..<n]))"
proof -
  have "nat i < n" using assms by linarith
  then have "(map h [0..<n])[nat i := y] = map (h(nat i := y)) [0..<n]" for y
    by (intro nth_equalityI) (simp_all add: nth_list_update)
  then show ?thesis using assms \<open>nat i < n\<close> by (simp add: update_at_def py_index_nonneg)
qed

text \<open>Counting by a key.\<close>

lemma count_loop:
  assumes "\<forall>a \<in> set xs. 0 \<le> key a \<and> key a < int n"
  shows "forE (\<lambda>a. update_at (key a) (\<lambda>m. Inr (m + 1))) xs (map h [0..<n])
    = Inr (map (\<lambda>i. h i + int (length (filter (\<lambda>a. key a = int i) xs))) [0..<n])"
  using assms
proof (induction xs arbitrary: h)
  case Nil
  then show ?case by simp
next
  case (Cons a xs)
  have k: "0 \<le> key a" "key a < int n" using Cons.prems by simp_all
  have e: "key a = int i \<longleftrightarrow> i = nat (key a)" for i using k(1) by auto
  have "forE (\<lambda>a. update_at (key a) (\<lambda>m. Inr (m + 1))) (a # xs) (map h [0..<n])
      = forE (\<lambda>a. update_at (key a) (\<lambda>m. Inr (m + 1))) xs (map (h(nat (key a) := h (nat (key a)) + 1)) [0..<n])"
    by (simp add: update_at_map [OF k] del: fun_upd_apply)
  also have "\<dots> = Inr (map (\<lambda>i. (h(nat (key a) := h (nat (key a)) + 1)) i + int (length (filter (\<lambda>a. key a = int i) xs))) [0..<n])"
    using Cons.prems by (intro Cons.IH) simp
  also have "\<dots> = Inr (map (\<lambda>i. h i + int (length (filter (\<lambda>a. key a = int i) (a # xs)))) [0..<n])"
    by (rule arg_cong [of _ _ Inr], rule map_cong) (auto simp: e)
  finally show ?case .
qed

lemma replicate_map: "replicate n x = map (\<lambda>_. x) [0..<n]"
  by (simp add: map_replicate_const)

lemma check_route_D:
  assumes "check_route r = Inr r'"
  shows "r' = r" "int (length (ro_assignments r)) = ro_token_count r * ro_top_k r"
    "\<forall>a \<in> set (ro_assignments r). 0 \<le> as_expert a \<and> as_expert a < ro_num_experts r"
  using assms by (auto simp: check_route_def demand_def result_simps list_all_iff)

lemma tokens_per_expert_eq:
  assumes "check_route r = Inr r"
  shows "tokens_per_expert r = Inr (map (\<lambda>i. int (length (filter (\<lambda>a. as_expert a = int i) (ro_assignments r)))) [0..<nat (ro_num_experts r)])"
proof -
  have "\<forall>a \<in> set (ro_assignments r). 0 \<le> as_expert a \<and> as_expert a < int (nat (ro_num_experts r))"
    using check_route_D(3) [OF assms] by fastforce
  then show ?thesis
    using count_loop [of "ro_assignments r" as_expert "nat (ro_num_experts r)" "\<lambda>_. 0"] by (simp add: tokens_per_expert_def replicate_map)
qed

section \<open>Grouping by expert\<close>

lemma mset_groups:
  "mset (concat (map (\<lambda>e. sort_key k (filter (\<lambda>a. key a = int e) xs)) [0..<n])) = mset (filter (\<lambda>a. 0 \<le> key a \<and> key a < int n) xs)"
proof (induction n)
  case 0
  then show ?case by simp
next
  case (Suc n)
  have "mset (filter (\<lambda>a. 0 \<le> key a \<and> key a < int n) xs) + mset (filter (\<lambda>a. key a = int n) xs)
      = mset (filter (\<lambda>a. 0 \<le> key a \<and> key a < int (Suc n)) xs)"
    by (induction xs) auto
  then show ?case using Suc by simp
qed

text \<open>Sorting each group by its own key and writing the groups in ascending order is one stable sort by both keys.\<close>

lemma groups_sorted:
  "sorted (map (\<lambda>a. (key a, k a)) (concat (map (\<lambda>e. sort_key k (filter (\<lambda>a. key a = int e) xs)) [0..<n])))"
proof (induction n)
  case (Suc n)
  have "sorted (map (\<lambda>a. (key a, k a)) (sort_key k (filter (\<lambda>a. key a = int n) xs)))"
  proof -
    have "sorted (map (\<lambda>a. (int n, k a)) ys)" if "sorted (map k ys)" for ys using that by (induction ys) auto
    then have "sorted (map (\<lambda>a. (int n, k a)) (sort_key k (filter (\<lambda>a. key a = int n) xs)))" by simp
    moreover have "map (\<lambda>a. (int n, k a)) (sort_key k (filter (\<lambda>a. key a = int n) xs))
        = map (\<lambda>a. (key a, k a)) (sort_key k (filter (\<lambda>a. key a = int n) xs))" by (rule map_cong) auto
    ultimately show ?thesis by simp
  qed
  then show ?case using Suc by (auto simp: sorted_append)
qed simp

lemma sort_key_groups:
  assumes "\<forall>a \<in> set xs. 0 \<le> key a \<and> key a < int n"
  shows "concat (map (\<lambda>e. sort_key k (filter (\<lambda>a. key a = int e) xs)) [0..<n]) = sort_key (\<lambda>a. (key a, k a)) xs"
proof (rule properties_for_sort_key [symmetric])
  let ?g = "\<lambda>e. sort_key k (filter (\<lambda>a. key a = int e) xs)" and ?f = "\<lambda>a. (key a, k a)"
  have "filter (\<lambda>a. 0 \<le> key a \<and> key a < int n) xs = xs" using assms by (simp add: filter_id_conv)
  then show "mset (concat (map ?g [0..<n])) = mset xs" using mset_groups [of k key xs n] by simp
  show "sorted (map ?f (concat (map ?g [0..<n])))" by (rule groups_sorted)
  fix a assume "a \<in> set (concat (map ?g [0..<n]))"
  then obtain e where e: "e < n" "key a = int e" by auto
  have one: "filter (\<lambda>x. ?f a = ?f x) (?g e') = (if e' = e then filter (\<lambda>x. ?f a = ?f x) xs else [])" for e'
  proof (cases "e' = e")
    case True
    have "filter (\<lambda>x. ?f a = ?f x) (?g e) = filter (\<lambda>x. k x = k a) (?g e)"
      using e by (intro filter_cong) auto
    also have "\<dots> = filter (\<lambda>x. k x = k a) (filter (\<lambda>x. key x = int e) xs)" by (rule sort_key_stable)
    also have "\<dots> = filter (\<lambda>x. ?f a = ?f x) xs" using e by (simp add: conj_commute) (rule filter_cong; auto)
    finally show ?thesis using True by simp
  next
    case False
    then show ?thesis using e by (auto simp: filter_empty_conv)
  qed
  have "concat (map (\<lambda>e'. if e' = e then ys else []) [0..<m]) = (if e < m then ys else [])" for m and ys :: "'a list"
    by (induction m) auto
  then show "filter (\<lambda>x. ?f a = ?f x) (concat (map ?g [0..<n])) = filter (\<lambda>x. ?f a = ?f x) xs"
    using e(1) unfolding filter_concat map_map comp_def one by simp
qed

lemma sorted_groups: "sorted (concat (map (\<lambda>e. replicate (f e) (int e)) [0..<n]))"
  by (induction n) (auto simp: sorted_append)

lemma expert_items_map: "map as_expert (expert_items r e) = replicate (length (expert_items r e)) e"
  by (rule replicate_eqI) (auto simp: expert_items_def)

lemma int_sum_list: "int (sum_list (map f xs)) = sum_list (map (\<lambda>x. int (f x)) xs)"
  by (induction xs) simp_all

text \<open>The assignment at a packed position, read back from the arrays.\<close>

definition packed_assignment :: "dispatch_result \<Rightarrow> nat \<Rightarrow> assignment" where
  "packed_assignment d i = \<lparr>as_token = dr_token_order d ! i, as_source = dr_source_order d ! i, as_expert = dr_expert_order d ! i,
     as_slot = dr_slot_order d ! i, as_weight = dr_weights d ! i\<rparr>"

definition packed_items :: "route_artifact \<Rightarrow> assignment list" where
  "packed_items r = concat (map (\<lambda>e. expert_items r (int e)) [0..<nat (ro_num_experts r)])"

lemma offsets_total: "\<forall>c \<in> set counts. 0 \<le> c \<Longrightarrow> \<exists>os. offsets_from alignment cursor counts = Inr os \<and> length os = length counts"
proof (induction counts arbitrary: cursor)
  case (Cons c counts)
  obtain os where "offsets_from alignment (align_up alignment (cursor + c)) counts = Inr os" "length os = length counts"
    using Cons by fastforce
  then show ?case using Cons.prems by simp
qed simp

lemma dispatch_eq:
  assumes "1 \<le> alignment"
  shows "\<exists>d os. dispatch_oracle r alignment = Inr d \<and> compute_offsets (dr_send_counts d) alignment = Inr os \<and> dr_offsets d = os
    \<and> dr_token_order d = map as_token (packed_items r) \<and> dr_expert_order d = map as_expert (packed_items r)
    \<and> dr_weights d = map as_weight (packed_items r) \<and> dr_source_order d = map as_source (packed_items r)
    \<and> dr_slot_order d = map as_slot (packed_items r)
    \<and> dr_send_counts d = map (\<lambda>e. int (length (expert_items r (int e)))) [0..<nat (ro_num_experts r)]"
proof -
  let ?counts = "map (int \<circ> length) (map (expert_items r) (py_range (ro_num_experts r)))"
  have g: "map (expert_items r) (py_range (ro_num_experts r)) = map (\<lambda>e. expert_items r (int e)) [0..<nat (ro_num_experts r)]"
    by (simp add: py_range_def comp_def)
  have x: "concat (map (\<lambda>expert. replicate (length (expert_items r expert)) expert) (py_range (ro_num_experts r))) = map as_expert (packed_items r)"
    by (simp add: packed_items_def map_concat py_range_def comp_def expert_items_map)
  obtain os where "offsets_from alignment 0 ?counts = Inr os" using offsets_total [of ?counts alignment 0] by auto
  then have os: "compute_offsets ?counts alignment = Inr os" using assms by (simp add: compute_offsets_def demand_def)
  show ?thesis unfolding dispatch_oracle_def Let_def os bindE.simps x
    by (rule exI, rule exI [of _ os], rule conjI, rule refl) (use os in \<open>simp add: g packed_items_def comp_def\<close>)
qed

lemma nth_packed:
  assumes "dr_token_order d = map as_token ps" "dr_expert_order d = map as_expert ps" "dr_weights d = map as_weight ps"
    "dr_source_order d = map as_source ps" "dr_slot_order d = map as_slot ps"
  shows "map (packed_assignment d) [0..<packed_count d] = ps"
  using assms by (intro nth_equalityI) (simp_all add: packed_count_def packed_assignment_def)

lemma packed_sort:
  assumes "check_route r = Inr r"
  shows "packed_items r = sort_key (\<lambda>a. (as_expert a, as_token a, as_slot a)) (ro_assignments r)"
proof -
  have "\<forall>a \<in> set (ro_assignments r). 0 \<le> as_expert a \<and> as_expert a < int (nat (ro_num_experts r))"
    using check_route_D(3) [OF assms] by fastforce
  then show ?thesis unfolding packed_items_def expert_items_def by (rule sort_key_groups)
qed

lemma packed_mset:
  assumes "check_route r = Inr r"
  shows "mset (packed_items r) = mset (ro_assignments r)"
proof -
  have "filter (\<lambda>a. 0 \<le> as_expert a \<and> as_expert a < int (nat (ro_num_experts r))) (ro_assignments r) = ro_assignments r"
    using check_route_D(3) [OF assms] by (fastforce simp: filter_id_conv)
  then show ?thesis
    using mset_groups [of "\<lambda>a. (as_token a, as_slot a)" as_expert "ro_assignments r" "nat (ro_num_experts r)"]
    by (simp add: packed_items_def expert_items_def)
qed

text \<open>C37: the dispatch of an accepted route is a permutation of its assignments grouped by expert, in token and slot order
  inside each group: the packed arrays, read back position by position, are the assignments under the stable sort by
  expert, token and slot, so every assignment occurs exactly once with its token, source, slot and weight. The send counts
  are the tokens per expert, which add up to tokens times top-k.\<close>

theorem dispatch_permutes:
  assumes "check_route r = Inr r" "1 \<le> alignment"
  shows "\<exists>d. dispatch_oracle r alignment = Inr d
    \<and> map (packed_assignment d) [0..<packed_count d] = sort_key (\<lambda>a. (as_expert a, as_token a, as_slot a)) (ro_assignments r)
    \<and> mset (map (packed_assignment d) [0..<packed_count d]) = mset (ro_assignments r)
    \<and> sorted (dr_expert_order d)
    \<and> sorted (map (\<lambda>i. (dr_expert_order d ! i, dr_token_order d ! i, dr_slot_order d ! i)) [0..<packed_count d])
    \<and> tokens_per_expert r = Inr (dr_send_counts d)
    \<and> sum_list (dr_send_counts d) = ro_token_count r * ro_top_k r \<and> int (packed_count d) = ro_token_count r * ro_top_k r"
proof -
  obtain d where d: "dispatch_oracle r alignment = Inr d" "dr_token_order d = map as_token (packed_items r)"
    "dr_expert_order d = map as_expert (packed_items r)" "dr_weights d = map as_weight (packed_items r)"
    "dr_source_order d = map as_source (packed_items r)" "dr_slot_order d = map as_slot (packed_items r)"
    "dr_send_counts d = map (\<lambda>e. int (length (expert_items r (int e)))) [0..<nat (ro_num_experts r)]"
    using dispatch_eq [OF assms(2)] by blast
  note c = check_route_D [OF assms(1)]
  note m = packed_mset [OF assms(1)]
  have "map as_expert (packed_items r) = concat (map (\<lambda>e. replicate (length (expert_items r (int e))) (int e)) [0..<nat (ro_num_experts r)])"
    by (simp add: packed_items_def map_concat comp_def expert_items_map)
  then have s: "sorted (dr_expert_order d)" using d(3) sorted_groups [of "\<lambda>e. length (expert_items r (int e))"] by simp
  have t: "tokens_per_expert r = Inr (dr_send_counts d)" using tokens_per_expert_eq [OF assms(1)] d(7) by (simp add: expert_items_def)
  have "sum_list (dr_send_counts d) = int (length (packed_items r))"
    unfolding d(7) packed_items_def by (simp add: length_concat comp_def int_sum_list)
  moreover have "length (packed_items r) = length (ro_assignments r)" using m by (metis size_mset)
  ultimately have n: "sum_list (dr_send_counts d) = ro_token_count r * ro_top_k r" "int (packed_count d) = ro_token_count r * ro_top_k r"
    using c(2) d(2) by (simp_all add: packed_count_def)
  have "mset (map (packed_assignment d) [0..<packed_count d]) = mset (ro_assignments r)" by (simp only: nth_packed [OF d(2-6)] m)
  moreover have p: "map (packed_assignment d) [0..<packed_count d] = sort_key (\<lambda>a. (as_expert a, as_token a, as_slot a)) (ro_assignments r)"
    by (simp only: nth_packed [OF d(2-6)] packed_sort [OF assms(1)])
  moreover have "sorted (map (\<lambda>a. (as_expert a, as_token a, as_slot a)) (map (packed_assignment d) [0..<packed_count d]))"
    unfolding p by simp
  then have "sorted (map (\<lambda>i. (dr_expert_order d ! i, dr_token_order d ! i, dr_slot_order d ! i)) [0..<packed_count d])"
    by (simp add: comp_def packed_assignment_def)
  ultimately show ?thesis using d(1) s t n by blast
qed

definition demo_route :: "nat \<Rightarrow> route_artifact" where
  "demo_route k = \<lparr>ro_id = ''demo'', ro_token_count = 2, ro_top_k = int k, ro_num_experts = 3,
     ro_assignments = concat (map (\<lambda>t. take k [\<lparr>as_token = t, as_source = t, as_expert = 2 - t, as_slot = 0, as_weight = 1\<rparr>,
       \<lparr>as_token = t, as_source = t, as_expert = 0, as_slot = 1, as_weight = 1 / 2\<rparr>]) [0, 1]),
     ro_profile = ''uniform'', ro_seed = 0\<rparr>"

lemma demo_route_ok: "check_route (demo_route 1) = Inr (demo_route 1)" "check_route (demo_route 2) = Inr (demo_route 2)"
  by (simp_all add: check_route_def demand_def demo_route_def SKEW_PROFILES_def numeral_2_eq_2)

theorem dispatch_permutes_witness:
  "\<exists>d. dispatch_oracle (demo_route 2) 1 = Inr d \<and> sum_list (dr_send_counts d) = 4 \<and> int (packed_count d) = 4
    \<and> sorted (map (\<lambda>i. (dr_expert_order d ! i, dr_token_order d ! i, dr_slot_order d ! i)) [0..<packed_count d])"
proof -
  have "ro_token_count (demo_route 2) * ro_top_k (demo_route 2) = 4" by (simp add: demo_route_def)
  then show ?thesis using dispatch_permutes [OF demo_route_ok(2), of 1] by (simp only: le_refl) blast
qed

section \<open>Combination\<close>

text \<open>What a token receives: the weighted outputs of its packed positions, added in packed order.\<close>

definition token_sum :: "dispatch_result \<Rightarrow> (nat \<Rightarrow> rat list) \<Rightarrow> nat \<Rightarrow> nat list \<Rightarrow> rat list \<Rightarrow> rat list" where
  "token_sum d vec t ps start = foldl (\<lambda>acc p. add_weighted (dr_weights d ! p) (vec p) acc) start (filter (\<lambda>p. dr_token_order d ! p = int t) ps)"

lemma combine_loop:
  assumes "\<forall>p \<in> set ps. outputs p = Some (vec p) \<and> int (length (vec p)) = hidden \<and> 0 \<le> dr_token_order d ! p \<and> dr_token_order d ! p < int n"
  shows "forE (combine_step d outputs hidden) ps (map g [0..<n]) = Inr (map (\<lambda>t. token_sum d vec t ps (g t)) [0..<n])"
  using assms
proof (induction ps arbitrary: g)
  case Nil
  then show ?case by (simp add: token_sum_def)
next
  case (Cons p ps)
  let ?t = "nat (dr_token_order d ! p)"
  let ?g = "g(?t := add_weighted (dr_weights d ! p) (vec p) (g ?t))"
  have p: "outputs p = Some (vec p)" "int (length (vec p)) = hidden" "0 \<le> dr_token_order d ! p" "dr_token_order d ! p < int n"
    using Cons.prems by simp_all
  then have tn: "?t < n" by linarith
  have e: "dr_token_order d ! p = int t \<longleftrightarrow> t = ?t" for t using p(3) by auto
  have "(map g [0..<n])[?t := add_weighted (dr_weights d ! p) (vec p) (g ?t)] = map ?g [0..<n]"
    using tn by (intro nth_equalityI) (simp_all add: nth_list_update)
  then have "combine_step d outputs hidden p (map g [0..<n]) = Inr (map ?g [0..<n])"
    using p tn by (simp add: combine_step_def demand_def Let_def del: fun_upd_apply)
  then have "forE (combine_step d outputs hidden) (p # ps) (map g [0..<n]) = Inr (map (\<lambda>t. token_sum d vec t ps (?g t)) [0..<n])"
    using Cons.IH [of ?g] Cons.prems by (simp del: fun_upd_apply)
  also have "\<dots> = Inr (map (\<lambda>t. token_sum d vec t (p # ps) (g t)) [0..<n])"
    by (rule arg_cong [of _ _ Inr], rule map_cong) (simp_all add: token_sum_def e)
  finally show ?case .
qed

lemma combine_eq:
  assumes "0 < hidden" "\<forall>p < packed_count d. outputs p = Some (vec p) \<and> int (length (vec p)) = hidden \<and> 0 \<le> dr_token_order d ! p"
    "0 < packed_count d"
  shows "0 \<le> Max (set (dr_token_order d)) \<and> combine_oracle d outputs hidden
    = Inr \<lparr>co_tokens = map (\<lambda>t. token_sum d vec t [0..<packed_count d] (replicate (nat hidden) 0)) [0..<nat (Max (set (dr_token_order d)) + 1)],
        co_positions = packed_count d, co_conserved = True\<rparr>"
proof -
  let ?m = "Max (set (dr_token_order d))"
  have ne: "dr_token_order d \<noteq> []" using assms(3) by (simp add: packed_count_def)
  have le: "dr_token_order d ! p \<le> ?m" if "p < packed_count d" for p using that by (simp add: packed_count_def)
  have m0: "0 \<le> ?m" using assms(2,3) le by fastforce
  have "\<forall>p \<in> set [0..<packed_count d]. outputs p = Some (vec p) \<and> int (length (vec p)) = hidden \<and> 0 \<le> dr_token_order d ! p
      \<and> dr_token_order d ! p < int (nat (?m + 1))"
    using assms(2) le m0 by (auto simp: less_le_trans zle_add1_eq_le)
  note l = combine_loop [OF this, of "\<lambda>_. replicate (nat hidden) 0"]
  show ?thesis
    using assms(1) ne l m0 by (simp add: combine_oracle_def demand_def Let_def replicate_map [of "nat (?m + 1)"])
qed

text \<open>When every packed position has an expert output of the hidden size and no token index is negative, combination succeeds
  and gives each token, up to the largest one dispatched, the sum of its own weighted outputs in packed order, started
  from zero: nothing of another token is mixed in, and no position is left out.\<close>

theorem combine_per_token:
  assumes "0 < hidden" "\<forall>p < packed_count d. outputs p = Some (vec p) \<and> int (length (vec p)) = hidden \<and> 0 \<le> dr_token_order d ! p"
    "0 < packed_count d"
  shows "\<exists>c. combine_oracle d outputs hidden = Inr c \<and> co_positions c = packed_count d
    \<and> int (length (co_tokens c)) = Max (set (dr_token_order d)) + 1
    \<and> (\<forall>t < length (co_tokens c). co_tokens c ! t = token_sum d vec t [0..<packed_count d] (replicate (nat hidden) 0))"
  using combine_eq [OF assms] by auto

theorem combine_per_token_witness:
  "\<exists>d c. dispatch_oracle (demo_route 2) 1 = Inr d \<and> combine_oracle d (\<lambda>p. Some [of_nat p]) 1 = Inr c \<and> length (co_tokens c) = 2"
proof -
  obtain d where d: "dispatch_oracle (demo_route 2) 1 = Inr d" "dr_token_order d = map as_token (packed_items (demo_route 2))"
    using dispatch_eq [of 1 "demo_route 2"] by auto
  have "packed_items (demo_route 2) = [\<lparr>as_token = 0, as_source = 0, as_expert = 0, as_slot = 1, as_weight = 1 / 2\<rparr>,
      \<lparr>as_token = 1, as_source = 1, as_expert = 0, as_slot = 1, as_weight = 1 / 2\<rparr>,
      \<lparr>as_token = 1, as_source = 1, as_expert = 1, as_slot = 0, as_weight = 1\<rparr>,
      \<lparr>as_token = 0, as_source = 0, as_expert = 2, as_slot = 0, as_weight = 1\<rparr>]"
    by (simp add: packed_items_def expert_items_def demo_route_def numeral_eq_Suc upt_rec)
  then have t: "dr_token_order d = [0, 1, 1, 0]" using d(2) by simp
  have "\<forall>p < packed_count d. Some [rat_of_nat p] = Some [of_nat p] \<and> int (length [rat_of_nat p]) = 1 \<and> 0 \<le> dr_token_order d ! p"
    by (auto simp: t packed_count_def nth_Cons split: nat.splits)
  then show ?thesis
    using combine_per_token [of 1 d "\<lambda>p. Some [of_nat p]" "\<lambda>p. [of_nat p]"] d(1) by (auto simp: t packed_count_def)
qed

lemma filter_nth_distinct: "distinct xs \<Longrightarrow> i < length xs \<Longrightarrow> filter (\<lambda>p. xs ! p = xs ! i) [0..<length xs] = [i]"
  by (rule distinct_singleton_set) (auto simp: nth_eq_iff_index_eq)

lemma add_weighted_identity: "\<forall>v \<in> set x. is_float v \<Longrightarrow> add_weighted 1 x (replicate (length x) 0) = x"
  by (induction x) (simp_all add: add_weighted_def is_float_def)

text \<open>C38: for a route that sends every token to one expert with weight 1, combining the dispatched activations themselves gives
  the activations back in the original token order: combination undoes the permutation of the dispatch, whatever the
  experts, the sources and the alignment.\<close>

theorem dispatch_combine_identity:
  assumes "check_route r = Inr r" "1 \<le> alignment" "mset (map as_token (ro_assignments r)) = mset (py_range (int (length X)))"
    "\<forall>a \<in> set (ro_assignments r). as_weight a = 1" "0 < hidden" "X \<noteq> []"
    "\<forall>x \<in> set X. int (length x) = hidden \<and> (\<forall>v \<in> set x. is_float v)"
  shows "\<exists>d c. dispatch_oracle r alignment = Inr d
    \<and> combine_oracle d (\<lambda>p. Some (X ! nat (dr_token_order d ! p))) hidden = Inr c \<and> co_tokens c = X"
proof -
  obtain d where d: "dispatch_oracle r alignment = Inr d" "dr_token_order d = map as_token (packed_items r)"
    "dr_weights d = map as_weight (packed_items r)"
    using dispatch_eq [OF assms(2)] by blast
  let ?T = "dr_token_order d"
  have mT: "mset ?T = mset (py_range (int (length X)))"
    using assms(3) packed_mset [OF assms(1)] by (simp only: d(2) mset_map)
  have dT: "distinct ?T" using mT by (metis distinct_map distinct_upt inj_on_of_nat mset_eq_imp_distinct_iff py_range_def)
  have sT: "set ?T = {0..<int (length X)}" using mset_eq_setD [OF mT] by simp
  have lT: "length ?T = length X" using mset_eq_length [OF mT] by simp
  have sp: "set (packed_items r) = set (ro_assignments r)" using mset_eq_setD [OF packed_mset [OF assms(1)]] .
  have w: "dr_weights d ! p = 1" if "p < packed_count d" for p
  proof -
    have "packed_items r ! p \<in> set (packed_items r)" using that by (simp add: d(2) packed_count_def)
    then show ?thesis using that assms(4) sp by (simp add: d(2,3) packed_count_def)
  qed
  have r: "0 \<le> ?T ! p \<and> nat (?T ! p) < length X" if "p < packed_count d" for p
    using that sT nth_mem [of p ?T] by (auto simp: packed_count_def)
  let ?vec = "\<lambda>p. X ! nat (?T ! p)"
  have pc: "packed_count d = length X" by (simp add: packed_count_def lT)
  have out: "\<forall>p < packed_count d. Some (?vec p) = Some (?vec p) \<and> int (length (?vec p)) = hidden \<and> 0 \<le> ?T ! p"
    using r assms(7) by simp
  have pos: "0 < packed_count d" using pc assms(6) by simp
  have "Max {0..<int (length X)} = int (length X) - 1" using assms(6) by (intro Max_eqI) auto
  then have "combine_oracle d (\<lambda>p. Some (?vec p)) hidden
      = Inr \<lparr>co_tokens = map (\<lambda>t. token_sum d ?vec t [0..<packed_count d] (replicate (nat hidden) 0)) [0..<length X], co_positions = packed_count d, co_conserved = True\<rparr>"
    using combine_eq [OF assms(5) out pos] by (simp add: sT)
  moreover have "token_sum d ?vec t [0..<packed_count d] (replicate (nat hidden) 0) = X ! t" if t: "t < length X" for t
  proof -
    have "int t \<in> set ?T" using t sT by simp
    then obtain p where p: "p < length ?T" "?T ! p = int t" by (auto simp: in_set_conv_nth)
    have "filter (\<lambda>q. ?T ! q = int t) [0..<packed_count d] = [p]"
      using filter_nth_distinct [OF dT p(1)] p(2) by (simp add: packed_count_def)
    then have "token_sum d ?vec t [0..<packed_count d] (replicate (nat hidden) 0) = add_weighted 1 (X ! t) (replicate (nat hidden) 0)"
      using w [of p] p by (simp add: token_sum_def packed_count_def)
    moreover have "nat hidden = length (X ! t)" using assms(7) t by (metis nat_int nth_mem)
    ultimately show ?thesis using add_weighted_identity [of "X ! t"] assms(7) nth_mem [OF t] by simp
  qed
  then have "map (\<lambda>t. token_sum d ?vec t [0..<packed_count d] (replicate (nat hidden) 0)) [0..<length X] = X"
    by (intro nth_equalityI) simp_all
  ultimately show ?thesis using d(1) by auto
qed

theorem dispatch_combine_identity_witness:
  "\<exists>d c. dispatch_oracle (demo_route 1) 8 = Inr d
    \<and> combine_oracle d (\<lambda>p. Some ([[1, 2], [3, 4]] ! nat (dr_token_order d ! p))) 2 = Inr c \<and> co_tokens c = [[1, 2], [3, 4]]"
proof (rule dispatch_combine_identity [OF demo_route_ok(1)])
  show "mset (map as_token (ro_assignments (demo_route 1))) = mset (py_range (int (length [[1, 2 :: rat], [3, 4]])))"
    by (simp add: demo_route_def py_range_def upt_rec numeral_2_eq_2)
  show "\<forall>x \<in> set [[1, 2 :: rat], [3, 4]]. int (length x) = 2 \<and> (\<forall>v \<in> set x. is_float v)"
    using fl_of_int [of 1] fl_of_int [of 2] fl_of_int [of 3] fl_of_int [of 4] by (simp add: is_float_def)
qed (simp_all add: demo_route_def)

section \<open>Offsets\<close>

definition count_padding :: "int \<Rightarrow> int list \<Rightarrow> int" where
  "count_padding alignment counts = fst (snd (snd (snd (pack_plan counts 1 1 alignment))))"

lemma count_padding_Cons:
  "count_padding alignment [] = 0"
  "count_padding alignment (c # cs) = (if alignment > 1 \<and> c mod alignment \<noteq> 0 then alignment - c mod alignment else 0) + count_padding alignment cs"
  by (simp_all add: count_padding_def pack_plan_def Let_def)

lemma align_up_aligned:
  assumes "1 \<le> alignment" "cursor mod alignment = 0"
  shows "align_up alignment (cursor + c) = cursor + c + (if alignment > 1 \<and> c mod alignment \<noteq> 0 then alignment - c mod alignment else 0)"
    and "align_up alignment (cursor + c) mod alignment = 0"
proof -
  have m: "(cursor + c) mod alignment = c mod alignment" using assms(2) by (metis add_0 mod_add_left_eq)
  show "align_up alignment (cursor + c) = cursor + c + (if alignment > 1 \<and> c mod alignment \<noteq> 0 then alignment - c mod alignment else 0)"
    by (simp add: align_up_def m)
  show "align_up alignment (cursor + c) mod alignment = 0"
  proof (cases "alignment > 1 \<and> c mod alignment \<noteq> 0")
    case True
    then have "align_up alignment (cursor + c) = (cursor + c) - (cursor + c) mod alignment + alignment" by (simp add: align_up_def m)
    also have "\<dots> = ((cursor + c) div alignment + 1) * alignment" by (simp add: minus_mod_eq_div_mult distrib_right)
    finally show ?thesis by simp
  next
    case False
    then show ?thesis using assms(1) m by (cases "alignment = 1") (auto simp: align_up_def)
  qed
qed

lemma offsets_from_spec:
  assumes "1 \<le> alignment" "cursor mod alignment = 0" "\<forall>c \<in> set counts. 0 \<le> c"
  shows "offsets_from alignment cursor counts
    = Inr (map (\<lambda>i. cursor + sum_list (take i counts) + count_padding alignment (take i counts)) [0..<length counts])
    \<and> (\<forall>i < length counts. (cursor + sum_list (take i counts) + count_padding alignment (take i counts)) mod alignment = 0)"
  using assms(2,3)
proof (induction counts arbitrary: cursor)
  case Nil
  then show ?case by simp
next
  case (Cons c counts)
  let ?next = "align_up alignment (cursor + c)"
  note a = align_up_aligned [OF assms(1) Cons.prems(1), of c]
  have nx: "?next + sum_list (take i counts) + count_padding alignment (take i counts)
      = cursor + sum_list (take (Suc i) (c # counts)) + count_padding alignment (take (Suc i) (c # counts))" for i
    by (simp add: a(1) count_padding_Cons)
  have IH: "offsets_from alignment ?next counts
      = Inr (map (\<lambda>i. cursor + sum_list (take (Suc i) (c # counts)) + count_padding alignment (take (Suc i) (c # counts))) [0..<length counts])"
    "\<forall>i < length counts. (cursor + sum_list (take (Suc i) (c # counts)) + count_padding alignment (take (Suc i) (c # counts))) mod alignment = 0"
    using Cons.IH [OF a(2)] Cons.prems(2) unfolding nx by simp_all
  have "offsets_from alignment cursor (c # counts)
      = Inr (map (\<lambda>i. cursor + sum_list (take i (c # counts)) + count_padding alignment (take i (c # counts))) [0..<length (c # counts)])"
    using IH(1) Cons.prems(2) by (simp add: map_upt_Suc count_padding_Cons(1) del: upt_Suc take_Suc_Cons)
  moreover have "(cursor + sum_list (take i (c # counts)) + count_padding alignment (take i (c # counts))) mod alignment = 0"
    if "i < length (c # counts)" for i
    using IH(2) that Cons.prems(1) by (cases i) (simp_all add: count_padding_Cons(1) del: take_Suc_Cons)
  ultimately show ?case by blast
qed

text \<open>For non-negative counts the offsets are the aligned exclusive prefix sums: each one is a multiple of the alignment and
  equals the tokens before it plus the padding slots the pack plan charges for them.\<close>

theorem aligned_offsets:
  assumes "1 \<le> alignment" "\<forall>c \<in> set counts. 0 \<le> c"
  shows "\<exists>os. compute_offsets counts alignment = Inr os \<and> length os = length counts
    \<and> (\<forall>i < length counts. os ! i mod alignment = 0
        \<and> os ! i = sum_list (take i counts) + fst (snd (snd (snd (pack_plan (take i counts) hidden bytes alignment)))))"
proof -
  have p: "fst (snd (snd (snd (pack_plan cs hidden bytes alignment)))) = count_padding alignment cs" for cs
    by (simp add: count_padding_def pack_plan_def Let_def)
  have o: "compute_offsets counts alignment = Inr (map (\<lambda>i. 0 + sum_list (take i counts) + count_padding alignment (take i counts)) [0..<length counts])"
    "\<forall>i < length counts. (0 + sum_list (take i counts) + count_padding alignment (take i counts)) mod alignment = 0"
    using offsets_from_spec [OF assms(1) _ assms(2), of 0] assms(1) by (simp_all add: compute_offsets_def demand_def)
  then show ?thesis unfolding p by (intro exI [of _ "map (\<lambda>i. 0 + sum_list (take i counts) + count_padding alignment (take i counts)) [0..<length counts]"]) simp
qed

theorem aligned_offsets_witness:
  "\<exists>os. compute_offsets [3, 0, 5] 4 = Inr os \<and> length os = 3 \<and> os ! 2 = 4"
  using aligned_offsets [of 4 "[3, 0, 5]" 1 1] by (force simp: pack_plan_def numeral_2_eq_2)

text \<open>The packed arrays of a dispatch are not padded, so with an alignment above 1 the offsets do not index them: here expert
  2's offset is 8, past the end of the two packed positions.\<close>

lemma dispatch_offset_outside:
  "\<exists>d. dispatch_oracle (demo_route 1) 8 = Inr d \<and> packed_count d = 2 \<and> dr_send_counts d = [0, 1, 1] \<and> dr_offsets d = [0, 0, 8]"
proof -
  obtain d where d: "dispatch_oracle (demo_route 1) 8 = Inr d" "compute_offsets (dr_send_counts d) 8 = Inr (dr_offsets d)"
    "dr_token_order d = map as_token (packed_items (demo_route 1))"
    "dr_send_counts d = map (\<lambda>e. int (length (expert_items (demo_route 1) (int e)))) [0..<nat (ro_num_experts (demo_route 1))]"
    using dispatch_eq [of 8 "demo_route 1"] by auto
  have s: "dr_send_counts d = [0, 1, 1]" by (simp add: d(4) expert_items_def demo_route_def numeral_eq_Suc upt_rec)
  have "packed_count d = 2" by (simp add: packed_count_def d(3) packed_items_def expert_items_def demo_route_def numeral_eq_Suc upt_rec)
  then show ?thesis using d(1,2) s by (auto simp: compute_offsets_def demand_def align_up_def)
qed

end
