(* ===== verification/Moe_Placement_Props.thy ===== *)
theory Moe_Placement_Props
  imports Moe_Props
begin

text \<open>
  The count matrix conserves the assignments, the greedy placement is within Graham's bound of a perfect balance but
  puts every expert behind a fast edge when there is one, and what the comparison of placements and the capacity
  policies report.
\<close>

section \<open>The count matrix\<close>

definition cell_count :: "route_artifact \<Rightarrow> (int \<times> int) list \<Rightarrow> int \<Rightarrow> int \<Rightarrow> nat" where
  "cell_count r e2r src dst = length (filter (\<lambda>a. as_source a = src \<and> map_of e2r (as_expert a) = Some dst) (ro_assignments r))"

lemma update_cell:
  assumes "0 \<le> s" "s < int n" "0 \<le> t" "t < int n"
  shows "update_at s (update_at t (\<lambda>m. Inr (m + 1))) (map (\<lambda>i. map (g i) [0..<n]) [0..<n])
    = Inr (map (\<lambda>i. map (\<lambda>j. g i j + (if i = nat s \<and> j = nat t then 1 else (0 :: int))) [0..<n]) [0..<n])"
proof -
  have "(map (g (nat s)) [0..<n]) = map (g (nat s)) [0..<n]" ..
  have "update_at s (update_at t (\<lambda>m. Inr (m + 1))) (map (\<lambda>i. map (g i) [0..<n]) [0..<n])
      = Inr (map ((\<lambda>i. map (g i) [0..<n])(nat s := map ((g (nat s))(nat t := g (nat s) (nat t) + 1)) [0..<n])) [0..<n])"
    by (simp add: update_at_map [OF assms(1,2)] update_at_map [OF assms(3,4)] del: fun_upd_apply)
  also have "\<dots> = Inr (map (\<lambda>i. map (\<lambda>j. g i j + (if i = nat s \<and> j = nat t then 1 else 0)) [0..<n]) [0..<n])"
    by (rule arg_cong [of _ _ Inr], rule map_cong) auto
  finally show ?thesis .
qed

lemma matrix_loop:
  assumes "\<forall>a \<in> set xs. 0 \<le> as_source a \<and> as_source a < int n \<and> (\<exists>t. map_of e2r (as_expert a) = Some t \<and> 0 \<le> t \<and> t < int n)"
  shows "forE (\<lambda>a matrix. case map_of e2r (as_expert a) of None \<Rightarrow> Inl KeyError
         | Some destination \<Rightarrow> update_at (as_source a) (update_at destination (\<lambda>m. Inr (m + 1))) matrix) xs (map (\<lambda>i. map (g i) [0..<n]) [0..<n])
    = Inr (map (\<lambda>i. map (\<lambda>j. g i j + int (length (filter (\<lambda>a. as_source a = int i \<and> map_of e2r (as_expert a) = Some (int j)) xs))) [0..<n]) [0..<n])"
  using assms
proof (induction xs arbitrary: g)
  case Nil
  then show ?case by simp
next
  case (Cons a xs)
  obtain t where t: "map_of e2r (as_expert a) = Some t" "0 \<le> t" "t < int n" using Cons.prems by auto
  have s: "0 \<le> as_source a" "as_source a < int n" using Cons.prems by simp_all
  have e: "as_source a = int i \<longleftrightarrow> i = nat (as_source a)" "t = int j \<longleftrightarrow> j = nat t" for i j using s t by auto
  have "forE (\<lambda>a matrix. case map_of e2r (as_expert a) of None \<Rightarrow> Inl KeyError
         | Some destination \<Rightarrow> update_at (as_source a) (update_at destination (\<lambda>m. Inr (m + 1))) matrix) (a # xs) (map (\<lambda>i. map (g i) [0..<n]) [0..<n])
      = Inr (map (\<lambda>i. map (\<lambda>j. g i j + (if i = nat (as_source a) \<and> j = nat t then 1 else 0)
          + int (length (filter (\<lambda>a. as_source a = int i \<and> map_of e2r (as_expert a) = Some (int j)) xs))) [0..<n]) [0..<n])"
    using Cons.IH [of "\<lambda>i j. g i j + (if i = nat (as_source a) \<and> j = nat t then 1 else 0)"] Cons.prems
    by (simp add: t(1) update_cell [OF s t(2,3)])
  also have "\<dots> = Inr (map (\<lambda>i. map (\<lambda>j. g i j
      + int (length (filter (\<lambda>a. as_source a = int i \<and> map_of e2r (as_expert a) = Some (int j)) (a # xs)))) [0..<n]) [0..<n])"
    by (rule arg_cong [of _ _ Inr], rule map_cong, rule refl, rule map_cong) (auto simp: t(1) e)
  finally show ?case .
qed

text \<open>Every assignment lies in exactly one cell.\<close>

lemma cells_total:
  assumes "\<forall>a \<in> set xs. 0 \<le> f a \<and> f a < int n \<and> 0 \<le> g a \<and> g a < int n"
  shows "(\<Sum>i<n. \<Sum>j<n. int (length (filter (\<lambda>a. f a = int i \<and> g a = int j) xs))) = int (length xs)"
  using assms
proof (induction xs)
  case Nil
  then show ?case by simp
next
  case (Cons a xs)
  have e: "f a = int i \<and> g a = int j \<longleftrightarrow> i = nat (f a) \<and> j = nat (g a)" for i j using Cons.prems by auto
  have r: "nat (f a) < n" "nat (g a) < n" using Cons.prems by auto
  have "(\<Sum>i<n. \<Sum>j<n. int (length (filter (\<lambda>a. f a = int i \<and> g a = int j) (a # xs))))
      = (\<Sum>i<n. \<Sum>j<n. int (length (filter (\<lambda>a. f a = int i \<and> g a = int j) xs))) + (\<Sum>i<n. \<Sum>j<n. if i = nat (f a) \<and> j = nat (g a) then 1 else 0)"
    unfolding sum.distrib [symmetric] by (intro sum.cong refl) (simp add: e)
  also have "(\<Sum>i<n. \<Sum>j<n. if i = nat (f a) \<and> j = nat (g a) then 1 else 0) = (\<Sum>i<n. if i = nat (f a) then 1 else (0 :: int))"
    using r(2) by (intro sum.cong refl) simp
  also have "\<dots> = 1" using r(1) by simp
  finally show ?case using Cons by simp
qed

text \<open>C39: for an accepted route whose sources and placed experts lie within the world, the count matrix is built and its cell
  \<open>[s][t]\<close> is the number of assignments that source \<open>s\<close> sends to an expert on rank \<open>t\<close>; its conservation audit finds no
  problem.\<close>

theorem count_matrix_conserves:
  assumes "check_route r = Inr r" "0 \<le> w"
    "\<forall>a \<in> set (ro_assignments r). 0 \<le> as_source a \<and> as_source a < w \<and> (\<exists>t. map_of e2r (as_expert a) = Some t \<and> 0 \<le> t \<and> t < w)"
  shows "\<exists>m. count_matrix_of r e2r w = Inr m \<and> matrix_audit m = []
    \<and> (\<forall>s < nat w. \<forall>t < nat w. cm_send_counts m ! s ! t = int (cell_count r e2r (int s) (int t)))"
proof -
  let ?n = "nat w"
  let ?M = "map (\<lambda>i. map (\<lambda>j. int (cell_count r e2r (int i) (int j))) [0..<?n]) [0..<?n]"
  have n: "int ?n = w" using assms(2) by simp
  have "send_count_matrix r e2r w = Inr ?M"
    using matrix_loop [of "ro_assignments r" ?n e2r "\<lambda>_ _. 0", unfolded n, OF assms(3)]
    unfolding send_count_matrix_def replicate_map cell_count_def by simp
  then have c: "count_matrix_of r e2r w = Inr \<lparr>cm_send_counts = ?M, cm_world_size = w, cm_tokens = ro_token_count r, cm_top_k = ro_top_k r,
         cm_dropped = 0, cm_duplicated = 0, cm_padding_slots = 0\<rparr>"
    using assms(2) by (simp add: count_matrix_of_def check_count_matrix_def demand_def list_all_iff)
  let ?g = "\<lambda>a. the (map_of e2r (as_expert a))"
  have cg: "cell_count r e2r (int i) (int j) = length (filter (\<lambda>a. as_source a = int i \<and> ?g a = int j) (ro_assignments r))" for i j
    unfolding cell_count_def by (rule arg_cong [of _ _ length], rule filter_cong) (use assms(3) in auto)
  have total: "(\<Sum>i<?n. \<Sum>j<?n. int (cell_count r e2r (int i) (int j))) = ro_token_count r * ro_top_k r"
    unfolding cg check_route_D(2) [OF assms(1), symmetric] using assms(3) n by (intro cells_total) fastforce
  have send: "sum_list (map sum_list ?M) = ro_token_count r * ro_top_k r"
    unfolding total [symmetric] by (simp add: comp_def interv_sum_list_conv_sum_set_nat atLeast0LessThan)
  have "sum_list (map (\<lambda>dst. sum_list (map (\<lambda>src. ?M ! src ! dst) [0..<?n])) [0..<?n])
      = (\<Sum>j<?n. \<Sum>i<?n. int (cell_count r e2r (int i) (int j)))"
    by (simp add: interv_sum_list_conv_sum_set_nat atLeast0LessThan)
  also have "\<dots> = ro_token_count r * ro_top_k r" unfolding total [symmetric] by (rule sum.swap)
  finally have recv: "sum_list (map (\<lambda>dst. sum_list (map (\<lambda>src. ?M ! src ! dst) [0..<?n])) [0..<?n]) = ro_token_count r * ro_top_k r" .
  let ?m = "\<lparr>cm_send_counts = ?M, cm_world_size = w, cm_tokens = ro_token_count r, cm_top_k = ro_top_k r,
         cm_dropped = 0, cm_duplicated = 0, cm_padding_slots = 0\<rparr>"
  have "matrix_audit ?m = []"
    unfolding matrix_audit_def send_tokens_def recv_tokens_def count_matrix.simps send recv Let_def by simp
  moreover have "\<forall>s < ?n. \<forall>t < ?n. cm_send_counts ?m ! s ! t = int (cell_count r e2r (int s) (int t))" by simp
  ultimately show ?thesis using c by blast
qed

theorem count_matrix_conserves_witness:
  "\<exists>m. count_matrix_of (demo_route 2) [(0, 0), (1, 1), (2, 0)] 2 = Inr m \<and> matrix_audit m = [] \<and> cm_send_counts m ! 1 ! 0 = 1"
  using count_matrix_conserves [OF demo_route_ok(2), of 2 "[(0, 0), (1, 1), (2, 0)]"]
  by (force simp: demo_route_def numeral_2_eq_2 cell_count_def)

section \<open>Greedy placement\<close>

lemma sort_key_hd_least: "xs \<noteq> [] \<Longrightarrow> y \<in> set xs \<Longrightarrow> f (hd (sort_key f xs)) \<le> f y"
proof -
  assume "xs \<noteq> []" "y \<in> set xs"
  then obtain z zs where z: "sort_key f xs = z # zs" by (cases "sort_key f xs") (metis length_0_conv length_sort, blast)
  have "sorted (map f (sort_key f xs))" "y \<in> set (sort_key f xs)" using \<open>y \<in> set xs\<close> by simp_all
  then show ?thesis by (auto simp: z)
qed

lemma choose_rank_spec:
  assumes "choose_rank edges loads = Inr t"
  shows "t < length loads"
    and "edges = [] \<Longrightarrow> i < length loads \<Longrightarrow> loads ! t \<le> loads ! i"
    and "\<exists>i < length loads. int i \<in> set (map snd edges) \<Longrightarrow> int t \<in> set (map snd edges)"
proof -
  have ne: "[0..<length loads] \<noteq> []" using assms by (auto simp: choose_rank_def Let_def split: if_splits)
  have "t \<in> set [0..<length loads]"
    using assms ne hd_in_set [of "sort_key _ [0..<length loads]"]
    by (auto simp: choose_rank_def Let_def split: if_splits) (metis atLeastLessThan_iff hd_in_set length_0_conv length_sort set_sort set_upt)+
  then show "t < length loads" by simp
  show "loads ! t \<le> loads ! i" if "edges = []" "i < length loads"
    using assms that sort_key_hd_least [OF ne, of i "\<lambda>rank. loads ! rank"] by (auto simp: choose_rank_def Let_def split: if_splits)
  show "int t \<in> set (map snd edges)" if ex: "\<exists>i < length loads. int i \<in> set (map snd edges)"
  proof -
    obtain i where i: "i < length loads" "int i \<in> set (map snd edges)" using ex by blast
    let ?key = "\<lambda>rank. (if int rank \<in> set (map snd edges) then 0 else 1 :: int, loads ! rank)"
    have "t = hd (sort_key ?key [0..<length loads])" using assms i(2) by (auto simp: choose_rank_def Let_def split: if_splits)
    then have "?key t \<le> ?key i" using sort_key_hd_least [OF ne, of i ?key] i(1) by simp
    then show ?thesis using i(2) by (auto simp: less_eq_prod_def split: if_splits)
  qed
qed

definition rank_load :: "int list \<Rightarrow> (int \<times> int) list \<Rightarrow> int \<Rightarrow> int" where
  "rank_load counts placement rank = sum_list (map (\<lambda>(e, t). if t = rank then counts ! nat e else 0) placement)"

lemma rank_load_snoc: "rank_load counts (pl @ [(e, t)]) rank = rank_load counts pl rank + (if t = rank then counts ! nat e else 0)"
  by (simp add: rank_load_def)

text \<open>What the placement loop keeps: the loads are those of the placement, each within Graham's bound of the average.\<close>

definition placed :: "(int \<times> int) list \<Rightarrow> int list \<Rightarrow> nat \<Rightarrow> int \<Rightarrow> int list \<Rightarrow> (int \<times> int) list \<times> int list \<Rightarrow> bool" where
  "placed edges counts n M experts s \<longleftrightarrow> (case s of (pl, loads) \<Rightarrow>
     length loads = n \<and> map fst pl = experts \<and> (\<forall>i < n. loads ! i = rank_load counts pl (int i))
     \<and> (\<forall>(e, t) \<in> set pl. 0 \<le> t \<and> t < int n)
     \<and> sum_list loads = sum_list (map (\<lambda>e. counts ! nat e) experts)
     \<and> (edges = [] \<longrightarrow> (\<forall>i < n. int n * loads ! i \<le> sum_list loads + (int n - 1) * M))
     \<and> ((\<exists>i < n. int i \<in> set (map snd edges)) \<longrightarrow> (\<forall>(e, t) \<in> set pl. t \<in> set (map snd edges))))"

lemma sum_list_update_int: "i < length xs \<Longrightarrow> sum_list (xs[i := xs ! i + (c :: int)]) = sum_list xs + c"
  by (induction xs arbitrary: i) (auto split: nat.splits)

lemma min_le_average: "i < length xs \<Longrightarrow> \<forall>j < length xs. xs ! i \<le> xs ! j \<Longrightarrow> int (length xs) * xs ! i \<le> sum_list (xs :: int list)"
proof -
  assume "\<forall>j < length xs. xs ! i \<le> xs ! j"
  then have "(\<Sum>j<length xs. xs ! i) \<le> (\<Sum>j<length xs. xs ! j)" by (intro sum_mono) simp
  then show ?thesis by (simp add: sum_list_sum_nth atLeast0LessThan)
qed

lemma place_expert_step:
  assumes "placed edges counts n M experts s" "place_expert edges counts e s = Inr s'" "0 \<le> counts ! nat e" "counts ! nat e \<le> M"
  shows "placed edges counts n M (experts @ [e]) s'"
proof -
  obtain pl loads where s: "s = (pl, loads)" by fastforce
  obtain t where t: "choose_rank edges loads = Inr t" "s' = (pl @ [(e, int t)], loads[t := loads ! t + counts ! nat e])"
    using assms(2) by (auto simp: s place_expert_def result_simps)
  let ?c = "counts ! nat e"
  have p: "length loads = n" "map fst pl = experts" "\<forall>i < n. loads ! i = rank_load counts pl (int i)"
    "\<forall>(e, t) \<in> set pl. 0 \<le> t \<and> t < int n" "sum_list loads = sum_list (map (\<lambda>e. counts ! nat e) experts)"
    "edges = [] \<longrightarrow> (\<forall>i < n. int n * loads ! i \<le> sum_list loads + (int n - 1) * M)"
    "(\<exists>i < n. int i \<in> set (map snd edges)) \<longrightarrow> (\<forall>(e, t) \<in> set pl. t \<in> set (map snd edges))"
    using assms(1) unfolding placed_def s prod.case by blast+
  note cr = choose_rank_spec [OF t(1)]
  have tn: "t < n" using cr(1) p(1) by simp
  have sum: "sum_list (loads[t := loads ! t + ?c]) = sum_list loads + ?c" using tn p(1) by (simp add: sum_list_update_int)
  have graham: "int n * loads[t := loads ! t + ?c] ! i \<le> sum_list loads + ?c + (int n - 1) * M" if "edges = []" "i < n" for i
  proof (cases "i = t")
    case True
    have "int n * loads ! t \<le> sum_list loads" using min_le_average [of t loads] cr(2) that(1) tn p(1) by simp
    moreover have "(int n - 1) * ?c \<le> (int n - 1) * M" using assms(4) tn by (intro mult_left_mono) simp_all
    ultimately show ?thesis using True tn p(1) by (simp add: algebra_simps)
  next
    case False
    then show ?thesis using p(6) that assms(3) by force
  qed
  show ?thesis
    unfolding placed_def t(2) prod.case
    using p tn sum graham cr(3) by (auto simp: nth_list_update rank_load_snoc)
qed

lemma place_all_spec:
  assumes "place_all edges counts order w = Inr s" "\<forall>e \<in> set order. 0 \<le> counts ! nat e \<and> counts ! nat e \<le> M" "0 \<le> M"
  shows "placed edges counts (nat w) M order s"
proof -
  have "placed edges counts n M (es @ order) s"
    if "placed edges counts n M es s0" "forE (place_expert edges counts) order s0 = Inr s" "\<forall>e \<in> set order. 0 \<le> counts ! nat e \<and> counts ! nat e \<le> M" for n es s0
    using that
  proof (induction order arbitrary: es s0)
    case (Cons e order)
    obtain s1 where s1: "place_expert edges counts e s0 = Inr s1" "forE (place_expert edges counts) order s1 = Inr s"
      using Cons.prems(2) by (auto simp: result_simps)
    have "placed edges counts n M (es @ [e]) s1" using Cons.prems(1,3) s1(1) by (intro place_expert_step) auto
    then show ?case using Cons.IH [of "es @ [e]" s1] s1(2) Cons.prems(3) by simp
  qed simp
  moreover have "placed edges counts (nat w) M [] ([], replicate (nat w) 0)"
  proof -
    have "0 \<le> (int (nat w) - 1) * M" if "i < nat w" for i using that assms(3) by (intro mult_nonneg_nonneg) linarith+
    then show ?thesis unfolding placed_def prod.case by (simp add: rank_load_def sum_list_replicate)
  qed
  ultimately show ?thesis using assms(1,2) by (fastforce simp: place_all_def)
qed

lemma placement_Inr:
  assumes "check_route r = Inr r" "topology_aware_placement r w (ro_num_experts r) edges max_memory expert_bytes = Inr p"
    "tokens_per_expert r = Inr counts" "\<forall>c \<in> set counts. c \<le> M"
  shows "\<exists>loads order. placed edges counts (nat w) M order (ep_expert_to_rank p, loads) \<and> mset order = mset (py_range (ro_num_experts r))
    \<and> int (length counts) = ro_num_experts r"
proof -
  have ce: "counts = map (\<lambda>i. int (length (filter (\<lambda>a. as_expert a = int i) (ro_assignments r)))) [0..<nat (ro_num_experts r)]"
    using tokens_per_expert_eq [OF assms(1)] assms(3) by simp
  let ?order = "sort_key (\<lambda>expert. - (counts ! nat expert)) (py_range (ro_num_experts r))"
  obtain pl loads where pl: "place_all edges counts ?order w = Inr (pl, loads)" "ep_expert_to_rank p = pl" "pl \<noteq> []"
    using assms(2,3) by (auto simp: topology_aware_placement_def check_placement_def demand_def result_simps Let_def split: if_splits)
  have "?order \<noteq> []"
  proof
    assume "?order = []"
    then show False using pl(1,3) by (simp add: place_all_def)
  qed
  then have ne: "0 < ro_num_experts r" by (cases "0 < ro_num_experts r") (simp_all add: py_range_def)
  have b: "0 \<le> counts ! nat e \<and> counts ! nat e \<le> M" if "e \<in> set ?order" for e
  proof -
    have "nat e < length counts" using that by (simp add: ce)
    then have "counts ! nat e \<in> set counts" by simp
    then show ?thesis using assms(4) by (auto simp: ce)
  qed
  have "0 \<in> set ?order" using ne by simp
  then have "0 \<le> M" using b by fastforce
  then have "placed edges counts (nat w) M ?order (pl, loads)" using b by (intro place_all_spec [OF pl(1)]) blast
  then show ?thesis using pl(2) ne by (intro exI [of _ loads] exI [of _ ?order]) (simp add: ce)
qed

text \<open>C40: without fast edges the topology-aware placement puts every expert on exactly one rank of the world, and no rank's
  token load exceeds the average by more than \<open>(w - 1) / w\<close> of the largest expert, Graham's bound for list scheduling.\<close>

theorem greedy_placement_balanced:
  assumes "check_route r = Inr r" "topology_aware_placement r w (ro_num_experts r) [] max_memory expert_bytes = Inr p"
    "tokens_per_expert r = Inr counts" "\<forall>c \<in> set counts. c \<le> M" "0 \<le> rank" "rank < w"
  shows "w * rank_load counts (ep_expert_to_rank p) rank \<le> sum_list counts + (w - 1) * M
    \<and> mset (map fst (ep_expert_to_rank p)) = mset (py_range (ro_num_experts r))
    \<and> (\<forall>(e, t) \<in> set (ep_expert_to_rank p). 0 \<le> t \<and> t < w)"
proof -
  obtain loads order where o: "placed [] counts (nat w) M order (ep_expert_to_rank p, loads)" "mset order = mset (py_range (ro_num_experts r))"
    "int (length counts) = ro_num_experts r"
    using placement_Inr [OF assms(1-4)] by blast
  have g: "nat rank < nat w" using assms(5,6) by simp
  have pl: "loads ! nat rank = rank_load counts (ep_expert_to_rank p) (int (nat rank))" "map fst (ep_expert_to_rank p) = order"
    "\<forall>(e, t) \<in> set (ep_expert_to_rank p). 0 \<le> t \<and> t < int (nat w)" "sum_list loads = sum_list (map (\<lambda>e. counts ! nat e) order)"
    "int (nat w) * loads ! nat rank \<le> sum_list loads + (int (nat w) - 1) * M"
    using o(1) g unfolding placed_def prod.case by blast+
  have "sum_list (map (\<lambda>e. counts ! nat e) order) = sum_list (map (\<lambda>e. counts ! nat e) (py_range (ro_num_experts r)))"
    using o(2) by (metis mset_map sum_mset_sum_list)
  also have "map (\<lambda>e. counts ! nat e) (py_range (ro_num_experts r)) = counts"
    using o(3) by (intro nth_equalityI) (simp_all add: nth_py_range)
  finally show ?thesis using pl o(2) assms(5,6) by simp
qed

theorem greedy_placement_balanced_witness:
  "\<exists>p. topology_aware_placement (demo_route 2) 2 3 [] 0 0 = Inr p \<and> 2 * rank_load [2, 1, 1] (ep_expert_to_rank p) 0 \<le> 6"
proof -
  have t: "tokens_per_expert (demo_route 2) = Inr [2, 1, 1]"
    using tokens_per_expert_eq [OF demo_route_ok(2)] by (simp add: demo_route_def numeral_eq_Suc upt_rec)
  have "topology_aware_placement (demo_route 2) 2 3 [] 0 0
      = Inr \<lparr>ep_name = ''treatment_topology_aware'', ep_kind = ''topology_aware'', ep_expert_to_rank = [(0, 0), (1, 1), (2, 1)], ep_memory = [(0, 0), (1, 0)]\<rparr>"
    by code_simp
  then show ?thesis
    using greedy_placement_balanced [OF demo_route_ok(2) _ t, of 2 0 0 _ 2 0] by (simp add: demo_route_def)
qed

text \<open>As soon as one fast edge ends in the world, every expert is put on a rank some fast edge ends in; with a single such
  edge they are all put on one rank, whatever their load.\<close>

theorem fast_edges_attract_all:
  assumes "check_route r = Inr r" "topology_aware_placement r w (ro_num_experts r) edges max_memory expert_bytes = Inr p"
    "t \<in> snd ` set edges" "0 \<le> t" "t < w" "(e, rank) \<in> set (ep_expert_to_rank p)"
  shows "rank \<in> snd ` set edges"
proof -
  obtain counts where c: "tokens_per_expert r = Inr counts" using tokens_per_expert_eq [OF assms(1)] by blast
  have "\<forall>v \<in> set counts. v \<le> sum_list (map abs counts)"
  proof
    fix v assume "v \<in> set counts"
    then have "\<bar>v\<bar> \<le> sum_list (map abs counts)" by (intro member_le_sum_list) auto
    then show "v \<le> sum_list (map abs counts)" by linarith
  qed
  then obtain loads order where "placed edges counts (nat w) (sum_list (map abs counts)) order (ep_expert_to_rank p, loads)"
    using placement_Inr [OF assms(1,2) c] by blast
  moreover have "\<exists>i < nat w. int i \<in> set (map snd edges)" using assms(3-5) by (intro exI [of _ "nat t"]) auto
  ultimately show ?thesis using assms(6) unfolding placed_def prod.case set_map by blast
qed

theorem fast_edges_attract_all_witness:
  "\<exists>p. topology_aware_placement (demo_route 2) 2 3 [(0, 1)] 0 0 = Inr p \<and> ep_expert_to_rank p = [(0, 1), (1, 1), (2, 1)]"
proof -
  have t: "tokens_per_expert (demo_route 2) = Inr [2, 1, 1]"
    using tokens_per_expert_eq [OF demo_route_ok(2)] by (simp add: demo_route_def numeral_eq_Suc upt_rec)
  have "(case topology_aware_placement (demo_route 2) 2 3 [(0, 1)] 0 0 of Inl _ \<Rightarrow> False | Inr p \<Rightarrow> map fst (ep_expert_to_rank p) = [0, 1, 2])"
    by code_simp
  then obtain p where p: "topology_aware_placement (demo_route 2) 2 3 [(0, 1)] 0 0 = Inr p" "map fst (ep_expert_to_rank p) = [0, 1, 2]"
    by (auto split: sum.splits)
  have "\<forall>(e, rank) \<in> set (ep_expert_to_rank p). rank = 1"
    using fast_edges_attract_all [OF demo_route_ok(2), of 2 "[(0, 1)]" 0 0 p 1] p(1) by (auto simp: demo_route_def)
  then have "map (\<lambda>e. (e, 1)) (map fst (ep_expert_to_rank p)) = ep_expert_to_rank p" unfolding map_map by (intro map_idI) auto
  then show ?thesis using p by simp
qed

section \<open>What the reports say\<close>

lemma update_row_sums:
  assumes "update_at i (update_at j (\<lambda>m. Inr (m + 1))) matrix = Inr matrix'"
  shows "update_at i (\<lambda>m. Inr (m + 1)) (map sum_list matrix) = Inr (map sum_list (matrix' :: int list list))"
proof -
  obtain k where k: "py_index (length matrix) i = Some k" using assms by (auto simp: update_at_def split: option.splits)
  have kl: "k < length matrix" using py_index_less [OF k] .
  obtain l where l: "py_index (length (matrix ! k)) j = Some l" "matrix' = matrix[k := (matrix ! k)[l := matrix ! k ! l + 1]]"
    using assms by (auto simp: update_at_def k split: option.splits)
  have "sum_list ((matrix ! k)[l := matrix ! k ! l + 1]) = sum_list (matrix ! k) + 1"
    using py_index_less [OF l(1)] by (rule sum_list_update_int)
  then show ?thesis using kl by (simp add: update_at_def k l(2) map_update)
qed

lemma row_sums_loop:
  assumes "forE (\<lambda>a matrix. case map_of e2r (as_expert a) of None \<Rightarrow> Inl KeyError
         | Some destination \<Rightarrow> update_at (as_source a) (update_at destination (\<lambda>m. Inr (m + 1))) matrix) xs m0 = Inr m"
  shows "forE (\<lambda>a. update_at (as_source a) (\<lambda>m. Inr (m + 1))) xs (map sum_list m0) = Inr (map sum_list (m :: int list list))"
  using assms
proof (induction xs arbitrary: m0)
  case (Cons a xs)
  then obtain t m1 where "map_of e2r (as_expert a) = Some t" "update_at (as_source a) (update_at t (\<lambda>m. Inr (m + 1))) m0 = Inr m1"
    "forE (\<lambda>a matrix. case map_of e2r (as_expert a) of None \<Rightarrow> Inl KeyError
         | Some destination \<Rightarrow> update_at (as_source a) (update_at destination (\<lambda>m. Inr (m + 1))) matrix) xs m1 = Inr m"
    by (auto simp: result_simps split: option.splits)
  then show ?case using Cons.IH [of m1] update_row_sums by simp
qed simp

text \<open>The comparison of two placements reports the same maximal and mean rank load for both, whatever they are: the load is
  taken from the rows of the count matrix, the tokens a rank sends, which do not depend on where the experts are.\<close>

theorem placement_loads_equal:
  assumes "placement_ab_rows r baseline treatment w = Inr (a, b)"
  shows "pa_max_rank_tokens a = pa_max_rank_tokens b \<and> pa_mean_rank_tokens a = pa_mean_rank_tokens b"
proof -
  obtain ma mb where m: "send_count_matrix r (ep_expert_to_rank baseline) w = Inr ma" "send_count_matrix r (ep_expert_to_rank treatment) w = Inr mb"
    and ab: "placement_arm_of r w baseline = Inr a" "placement_arm_of r w treatment = Inr b"
    using assms by (auto simp: placement_ab_rows_def placement_arm_of_def result_simps)
  have "map sum_list ma = map sum_list mb"
    using row_sums_loop [OF m(1)[unfolded send_count_matrix_def]] row_sums_loop [OF m(2)[unfolded send_count_matrix_def]] by simp
  then show ?thesis using ab by (auto simp: placement_arm_of_def m Let_def)
qed

theorem placement_loads_equal_witness:
  "\<exists>a b. placement_ab_rows (demo_route 2) \<lparr>ep_name = ''spread'', ep_kind = ''round_robin'', ep_expert_to_rank = [(0, 0), (1, 1), (2, 0)], ep_memory = []\<rparr>
      \<lparr>ep_name = ''packed'', ep_kind = ''round_robin'', ep_expert_to_rank = [(0, 1), (1, 1), (2, 1)], ep_memory = []\<rparr> 2 = Inr (a, b)
    \<and> pa_max_rank_tokens a = pa_max_rank_tokens b \<and> pa_matrix a = [[2, 0], [1, 1]] \<and> pa_matrix b = [[0, 2], [0, 2]]"
proof -
  let ?A = "\<lparr>ep_name = ''spread'', ep_kind = ''round_robin'', ep_expert_to_rank = [(0, 0), (1, 1), (2, 0)], ep_memory = []\<rparr>"
  let ?B = "\<lparr>ep_name = ''packed'', ep_kind = ''round_robin'', ep_expert_to_rank = [(0, 1), (1, 1), (2, 1)], ep_memory = []\<rparr>"
  have m: "send_count_matrix (demo_route 2) [(0, 0), (1, 1), (2, 0)] 2 = Inr [[2, 0], [1, 1]]"
    "send_count_matrix (demo_route 2) [(0, 1), (1, 1), (2, 1)] 2 = Inr [[0, 2], [0, 2]]"
    by (simp_all add: send_count_matrix_def demo_route_def update_at_def py_index_def numeral_eq_Suc)
  obtain a b where ab: "placement_ab_rows (demo_route 2) ?A ?B 2 = Inr (a, b)" "pa_matrix a = [[2, 0], [1, 1]]" "pa_matrix b = [[0, 2], [0, 2]]"
    by (simp add: placement_ab_rows_def placement_arm_of_def m Let_def)
  then show ?thesis using placement_loads_equal [OF ab(1)] by blast
qed

lemma overfull_padding: "snd (foldl (\<lambda>(dropped, padded) count.
         if count > capacity then (dropped + (count - capacity), padded + (if policy = ''padding'' then capacity - count else 0))
         else (dropped, padded)) s counts) \<le> snd s" for capacity :: int
proof (induction counts arbitrary: s)
  case (Cons c counts)
  obtain d p where s: "s = (d, p)" by fastforce
  show ?case using Cons [of "if c > capacity then (d + (c - capacity), p + (if policy = ''padding'' then capacity - c else 0)) else (d, p)"]
    by (auto simp: s split: if_splits)
qed simp

text \<open>No capacity policy ever reports a padding slot, the padding policy included: padding is counted only for experts above
  the capacity, where it is negative, and the sum is cut off at zero.\<close>

theorem no_padding_reported:
  "list_all (\<lambda>row. cy_padding_slots row = 0) (capacity_policy_rows m tokens counts)"
proof -
  have le: "snd (overfull policy c counts) \<le> 0" for policy c
    using overfull_padding [of c policy "(0, 0)" counts] by (simp add: overfull_def)
  have "cy_padding_slots (capacity_policy_row m tokens counts policy) = 0" for policy
  proof (cases "capacity_per_expert m tokens")
    case (Some c)
    then show ?thesis using le [of policy c] by (auto simp: capacity_policy_row_def Let_def case_prod_beta)
  qed (simp add: capacity_policy_row_def Let_def)
  then show ?thesis by (simp add: capacity_policy_rows_def list_all_iff)
qed

section \<open>Generated routes\<close>

lemma top_k_spec:
  assumes "0 \<le> k" "k \<le> int (length weights)"
  shows "int (length (top_k_indices weights k)) = k" "distinct (top_k_indices weights k)" "set (top_k_indices weights k) \<subseteq> {0..<length weights}"
    and "i \<in> set (top_k_indices weights k) \<Longrightarrow> j < length weights \<Longrightarrow> j \<notin> set (top_k_indices weights k) \<Longrightarrow> weights ! j \<le> weights ! i"
proof -
  let ?key = "\<lambda>index. (- (weights ! index), index)"
  let ?s = "sort_key ?key [0..<length weights]"
  have t: "top_k_indices weights k = take (nat k) ?s" using assms by (simp add: top_k_indices_def py_slice_nat)
  show "int (length (top_k_indices weights k)) = k" using assms by (simp add: t)
  show "distinct (top_k_indices weights k)" unfolding t by (simp add: distinct_take)
  show "set (top_k_indices weights k) \<subseteq> {0..<length weights}" using set_take_subset [of "nat k" ?s] by (simp add: t)
  assume i: "i \<in> set (top_k_indices weights k)" and j: "j < length weights" "j \<notin> set (top_k_indices weights k)"
  have "set (take (nat k) ?s) \<union> set (drop (nat k) ?s) = {0..<length weights}" by (subst set_append [symmetric]) simp
  then have "j \<in> set (drop (nat k) ?s)" using j unfolding t by auto
  moreover have "sorted (map ?key (take (nat k) ?s @ drop (nat k) ?s))" by simp
  ultimately have "?key i \<le> ?key j" using i unfolding map_append sorted_append t by auto
  then show "weights ! j \<le> weights ! i" by (auto simp: less_eq_prod_def)
qed

lemma token_assignments_spec:
  assumes "1 \<le> k" "k \<le> int (length weights)"
  shows "map as_expert (token_assignments fsum weights k w token) = map int (top_k_indices weights k)"
    "\<forall>a \<in> set (token_assignments fsum weights k w token). as_token a = token"
  by (auto simp: token_assignments_def Let_def comp_def case_prod_beta simp flip: map_map intro!: nth_equalityI)

text \<open>A route generated from weight vectors with one weight per expert is accepted by the route's own checks, and gives every
  token top-k different experts, none of which has a smaller weight than an expert left out.\<close>

theorem generated_route_accepted:
  assumes "profile \<in> set SKEW_PROFILES" "0 < token_count" "1 \<le> k" "k \<le> w * experts_per_rank"
    "\<forall>t. int (length (weights_of t)) = w * experts_per_rank"
  shows "\<exists>r. generate_route_artifact fsum weights_of ident token_count w experts_per_rank k profile seed = Inr r \<and> check_route r = Inr r
    \<and> (\<forall>token. 0 \<le> token \<and> token < token_count \<longrightarrow>
        map as_expert (filter (\<lambda>a. as_token a = token) (ro_assignments r)) = map int (top_k_indices (weights_of token) k)
        \<and> distinct (top_k_indices (weights_of token) k)
        \<and> (\<forall>i \<in> set (top_k_indices (weights_of token) k). \<forall>j < length (weights_of token).
             j \<notin> set (top_k_indices (weights_of token) k) \<longrightarrow> weights_of token ! j \<le> weights_of token ! i))"
proof -
  let ?T = "\<lambda>token. token_assignments fsum (weights_of token) k w token"
  let ?as = "concat (map ?T (py_range token_count))"
  let ?r = "\<lparr>ro_id = ident, ro_token_count = token_count, ro_top_k = k, ro_num_experts = w * experts_per_rank, ro_assignments = ?as, ro_profile = profile, ro_seed = seed\<rparr>"
  have kl: "k \<le> int (length (weights_of t))" "0 \<le> k" for t using assms(3-5) by simp_all
  note sp = top_k_spec [OF kl(2) kl(1)] and ta = token_assignments_spec [OF assms(3) kl(1)]
  have lenT: "length (?T t) = nat k" for t
    using arg_cong [OF ta(1) [of fsum t w t], of length] sp(1) [of t] by simp
  have rng: "0 \<le> as_expert a \<and> as_expert a < w * experts_per_rank" if "a \<in> set (?T t)" for a t
  proof -
    have "as_expert a \<in> set (map as_expert (?T t))" using that by simp
    then obtain i where "as_expert a = int i" "i \<in> set (top_k_indices (weights_of t) k)" unfolding ta(1) by auto
    then show ?thesis using sp(3) [of t] assms(5) by (metis atLeastLessThan_iff of_nat_0_le_iff of_nat_less_iff subsetD)
  qed
  have "length ?as = nat token_count * nat k" by (simp add: length_concat comp_def lenT sum_list_triv)
  then have chk: "check_route ?r = Inr ?r"
    using assms(1-3) rng by (auto simp: check_route_def demand_def list_all_iff)
  have flt: "filter (\<lambda>a. as_token a = token) (concat (map ?T ts)) = ?T token" if "distinct ts" "token \<in> set ts" for token ts
    using that
  proof (induction ts)
    case (Cons t ts)
    have same: "filter (\<lambda>a. as_token a = t) (?T t) = ?T t" using ta(2) by (simp add: filter_id_conv)
    have other: "filter (\<lambda>a. as_token a = token) (?T t') = []" if "t' \<noteq> token" for t' using ta(2) that by (fastforce simp: filter_empty_conv)
    show ?case
    proof (cases "t = token")
      case True
      then have "filter (\<lambda>a. as_token a = token) (concat (map ?T ts)) = []"
        using Cons.prems(1) ta(2) by (fastforce simp: filter_empty_conv)
      then show ?thesis using True same by simp
    next
      case False
      then show ?thesis using Cons other [of t] by simp
    qed
  qed simp
  have dist: "distinct (py_range token_count)" by (simp add: py_range_def distinct_map)
  have "generate_route_artifact fsum weights_of ident token_count w experts_per_rank k profile seed = Inr ?r"
    using assms(1-4) chk by (simp add: generate_route_artifact_def demand_def Let_def)
  moreover have "map as_expert (filter (\<lambda>a. as_token a = token) (ro_assignments ?r)) = map int (top_k_indices (weights_of token) k)"
    if "0 \<le> token" "token < token_count" for token
    using flt [OF dist, of token] that ta(1) by simp
  ultimately show ?thesis using chk sp(2,4) by (intro exI [of _ ?r]) blast
qed

theorem generated_route_accepted_witness:
  "\<exists>r. generate_route_artifact sum_list (\<lambda>t. [1, 3, 2]) ''g'' 2 1 3 2 ''uniform'' 0 = Inr r \<and> check_route r = Inr r"
  using generated_route_accepted [of "''uniform''" 2 2 1 3 "\<lambda>t. [1, 3, 2]" sum_list "''g''" 0] by (auto simp: SKEW_PROFILES_def)

end
