(* ===== verification/Spec2Isabelle.thy ===== *)
theory Spec2Isabelle
  imports Kv_Capacity_Props Kv_Pool_Props Scheduler_Props Scheduler_Reports Circuit_Props Queue_Policies Admission_Props Packing_Props Prefix_Cache_Props Spec_Decode_Props Rtn_Props Router_Props Sse_Props Row_Parallel Plan_Memory Moe_Placement_Props
begin

text \<open>
  A verification library for HeteroQuantServeBench (HQSB), a Python benchmark and serving framework for
  quantized language-model inference. The development models the decision logic of its
  runtime, its serving layer, its quantization layer and its distributed planning; every definition is
  executable and follows one function, method or class of the source.

  \<^bold>\<open>The parts and how they interact.\<close> A request enters the serving layer, where admission control
  (\<open>serving/admission.py\<close>) decides from the pressure state and the bounded queue, a queue policy
  (\<open>serving/policies.py\<close>) selects the next request, the router (\<open>serving/router.py\<close>) chooses a backend for
  it, a circuit breaker (\<open>serving/circuit.py\<close>) guards each backend, and the answer returns as a stream of
  events (\<open>serving/sse.py\<close>). The runtime schedules admitted requests in iterations (\<open>runtime/scheduler.py\<close>), books
  every iteration in a ledger and every request in a state machine (\<open>runtime/trace.py\<close>), and keeps the
  keys and values in a pool of reference-counted blocks (\<open>runtime/kv.py\<close>), with a
  prefix cache in front of it (\<open>runtime/prefix_cache.py\<close>). The quantization layer
  (\<open>quant/rounding.py\<close>, \<open>quant/spec.py\<close>, \<open>quant/rtn.py\<close>, \<open>quant/packing.py\<close>) turns weights into integer
  codes and codes into bytes. For several devices, \<open>distributed/parallel_plan.py\<close> derives from the
  architecture of a model which rank holds which part of every tensor, and \<open>distributed/moe.py\<close> dispatches
  tokens to experts and places the experts on ranks. Errors of all parts are the classes of \<open>core/errors.py\<close>.

  \<^bold>\<open>Foundations.\<close>
  \<^item> \<open>Prelude\<close>: fallible computations (\<open>bindE\<close>, \<open>forE\<close>), the first extremal element under a key, stores of
    objects with identities, decimal numerals, and the shared list lemmas.
  \<^item> \<open>Errors\<close>: one constructor per exception class with its exit code; operations that mutate and may
    raise return the state they leave (\<open>op\<close>), and \<open>for_op\<close> runs them in a loop.
  \<^item> \<open>Float64\<close>: a finite Python float is a rational, an operation on floats is the exact operation followed
    by \<open>fl\<close>, rounding to 53 bits with ties to even. Overflow, subnormals and NaN are outside this model;
    \<open>Binary64\<close> adds the exponent range (\<open>fl64\<close>), and the quantizer computes with it.
  \<^item> \<open>Transition_Table\<close>, \<open>Refcounted_Store\<close>: the interfaces of a checked transition table and of a store
    of reference-counted objects as locales, interpreted by the block pool and the request machine.

  \<^bold>\<open>Runtime.\<close>
  \<^item> \<open>Kv_Geometry\<close>, \<open>Kv_Capacity\<close>, \<open>Kv_Capacity_Props\<close>: geometry, accounting, reconciliation, the capacity
    bisection (its probe is a parameter), the bounded OOM ladders and the context-limit check. The
    bisection terminates with adjacent bounds and a logarithmic number of calls of the probe.
  \<^item> \<open>Kv_Pool\<close>, \<open>Kv_Pool_Inv\<close>, \<open>Kv_Pool_Props\<close>: the block pool, every operation with its partial effects when
    it raises; the invariant of the pools a disciplined client can reach, and two ways an undisciplined
    sequence breaks it.
  \<^item> \<open>Request_Trace\<close>: the request state machine with its transition table, the iteration ledger and its
    conservation audit, and the clock calibration.
  \<^item> \<open>Scheduler\<close>, \<open>Scheduler_Inv\<close>, \<open>Scheduler_Kv\<close>, \<open>Scheduler_Props\<close>: the simulator, one definition per phase of
    an iteration. A replay is a loop over a given number of iterations, so it needs no fuel. The ledger
    conserves tokens in every replay; the memory and sequence limits hold; and some configurations
    starve, exceed the budget by one token, or never start.
  \<^item> \<open>Prefix_Key\<close>, \<open>Prefix_Cache\<close>, \<open>Prefix_Cache_Props\<close>: keys and the prefix cache (\<open>runtime/prefix_cache.py\<close>). The hash
    function and the float sum of the entry sizes are arguments. The eviction loop has as much fuel as
    there are entries, which \<open>evict_loop_enough\<close> shows to be enough.
  \<^item> \<open>Spec_Decode\<close>, \<open>Spec_Decode_Props\<close>: speculative decoding (\<open>runtime/spec_decode.py\<close>) in exact rationals, as
    the code has it; a cycle emits every token with its target probability.
  \<^item> \<open>Scheduler_Reports\<close>: trace builders, chunk boundaries and the congestion detector.

  \<^bold>\<open>Serving.\<close>
  \<^item> \<open>Circuit\<close>, \<open>Circuit_Props\<close>: health classes, the circuit breaker with quarantine, and recovery timelines.
  \<^item> \<open>Queue_Policies\<close>: the three policies behind the locale \<open>min_policy\<close>: each selects the first minimal entry
    under its key and charges it once; the orders are written out without the keys.
  \<^item> \<open>Admission\<close>, \<open>Admission_Props\<close>: pressure machine, estimate, bounded queue, retry budget, waveforms and
    recovery report. The random number of a retry is an argument.
  \<^item> \<open>Router\<close>, \<open>Router_Props\<close>: the backend registry and routing (\<open>serving/router.py\<close>). A registered backend is
    one mutable object, so filtering returns the registry with the breakers it asked; the relation
    \<open>registry_step\<close> has every call and every change of a registered object by its owner.
  \<^item> \<open>Utf8\<close>, \<open>Sse\<close>, \<open>Sse_Props\<close>: text and bytes, and the event stream codec (\<open>serving/sse.py\<close>). The locale
    \<open>chunk_scanner\<close> states when scanning a buffer can be interrupted anywhere; the separator scan of the
    reader is an instance, which gives the independence from how a stream is cut into reads.

  \<^bold>\<open>Quantization.\<close>
  \<^item> \<open>Quant_Scheme\<close>: round modes and schemes; the locale \<open>nearest_rounder\<close> gives the error bound of any
    round-to-nearest mode, and both modes are exact on floats.
  \<^item> \<open>Packing\<close>, \<open>Packing_Props\<close>: canonical bytes, two decoders and kernel layouts on 8-bit words; round trips
    through the locale \<open>row_decoder\<close>, interpreted by both decoders.
  \<^item> \<open>Rtn\<close>, \<open>Rtn_Props\<close>: the round-to-nearest reference (\<open>quant/rtn.py\<close>): units along an axis, codes, scales and
    reconstruction. On magnitudes from \<open>2 powi (- 1000)\<close> to \<open>2 powi 1000\<close> symmetric quantization
    returns without clamping and is accurate to half a step up to the float rounding; subnormal scales are shown to fail.

  \<^bold>\<open>Distributed planning.\<close>
  \<^item> \<open>Py_List\<close>: slices, indices and ranges of Python lists as total functions.
  \<^item> \<open>Tensor_Shards\<close>, \<open>Tensor_Shards_Props\<close>, \<open>Shard_Round_Trip\<close>: shard specifications of one axis, their audit, and
    splitting and merging of flat tensors. A split tiles the axis, the audit accepts exactly the coverings
    without overlap, and merging undoes splitting (of rows, and of the columns of a matrix).
  \<^item> \<open>Linear_Blocks\<close>, \<open>Row_Parallel\<close>: the column- and row-parallel products against the unsplit one. The locale
    \<open>float_sum\<close> states what is needed of the sum of a list of floats; the left-to-right sum and the compensated
    sum of newer Python versions are its instances.
  \<^item> \<open>Tp_Census\<close>, \<open>Parallel_Plan\<close>, \<open>Parallel_Plan_Props\<close>: the census of an architecture, the capability of a degree,
    head, MLP, embedding and KV ownership, and the plan with its validation. When a plan can be derived, and that
    derived plans pass their validation.
  \<^item> \<open>Plan_Ownership\<close>, \<open>Plan_Memory\<close>: which rank owns which heads, the KV cost per rank, what the memory model counts.
  \<^item> \<open>Moe_Dispatch\<close>, \<open>Moe_Props\<close>: routes, dispatch and combination (\<open>distributed/moe.py\<close>); a dispatch permutes the
    assignments and combination undoes it. The expert weights of a token, which the code draws from a random
    generator, are an argument.
  \<^item> \<open>Moe_Placement\<close>, \<open>Moe_Placement_Props\<close>: count matrices, capacity policies and expert placement, with the list
    scheduling bound of the greedy placement and the cases where it does not hold.

  \<^bold>\<open>Not modelled.\<close> Message texts, serialisers and hashes; float statistics (least squares, calibration,
  fairness indices); YAML parsing; network and process I/O; the engines, kernels and measurement code
  around these parts; the collectives and the skew statistics of the distributed layer; and the evidence and report layers, which read recorded measurements.
\<close>


end
